(* ===== verification/Go_Base.thy ===== *)
theory Go_Base
  imports Main
begin

text \<open>
  The part of the prelude every component shares: Go's 64-bit \<open>int\<close> arithmetic
  (wrap-around written out, division truncated towards zero), results of functions
  that return an \<open>error\<close>, and list facts used by several components.

  A Go \<open>int\<close>, \<open>int64\<close> or \<open>time.Duration\<close> is a value of type \<open>int\<close>. Where the code
  multiplies or adds values that could leave the 64-bit range the definition applies
  \<open>wrap64\<close>; where the operands are list lengths, indices or values the code has
  already bounded, the plain operation is used.
\<close>

named_theorems go_defs \<open>unfolding equations of the modelled operations\<close>
named_theorems go_bounds \<open>range facts of machine integers\<close>

section \<open>Machine integers\<close>

type_synonym duration = int \<comment> \<open>nanoseconds, a \<open>time.Duration\<close>\<close>

type_synonym time = int \<comment> \<open>nanoseconds since a fixed epoch, a \<open>time.Time\<close>\<close>

definition wrap64 :: "int \<Rightarrow> int" where
  "wrap64 x = (x + 2 ^ 63) mod 2 ^ 64 - 2 ^ 63"

definition in64 :: "int \<Rightarrow> bool" where
  "in64 x \<longleftrightarrow> - (2 ^ 63) \<le> x \<and> x < 2 ^ 63"

definition tdiv :: "int \<Rightarrow> int \<Rightarrow> int" where
  "tdiv a b = sgn a * sgn b * (\<bar>a\<bar> div \<bar>b\<bar>)"

definition tmod :: "int \<Rightarrow> int \<Rightarrow> int" where
  "tmod a b = a - tdiv a b * b"

definition second :: duration where
  "second = 1000000000"

abbreviation minute :: duration where
  "minute \<equiv> 60 * second"

abbreviation hour :: duration where
  "hour \<equiv> 3600 * second"

abbreviation millisecond :: duration where
  "millisecond \<equiv> 1000000"

lemma wrap64_id [simp]: "in64 x \<Longrightarrow> wrap64 x = x"
  by (simp add: wrap64_def in64_def)

lemma in64_wrap64 [simp, go_bounds]: "in64 (wrap64 x)"
proof -
  have "(x + 2 ^ 63) mod 2 ^ 64 < 2 ^ 64" "0 \<le> (x + 2 ^ 63) mod (2 ^ 64 :: int)"
    by (rule pos_mod_bound pos_mod_sign; simp)+
  then show ?thesis
    by (simp add: wrap64_def in64_def)
qed

lemma wrap64_wrap64 [simp]: "wrap64 (wrap64 x) = wrap64 x"
  by simp

lemma tdiv_nonneg: "0 \<le> a \<Longrightarrow> 0 < b \<Longrightarrow> tdiv a b = a div b"
  by (cases "a = 0") (simp_all add: tdiv_def)

lemma tmod_nonneg: "0 \<le> a \<Longrightarrow> 0 < b \<Longrightarrow> tmod a b = a mod b"
  by (simp add: tmod_def tdiv_nonneg minus_div_mult_eq_mod)

lemma tdiv_neg: "a < 0 \<Longrightarrow> 0 < b \<Longrightarrow> tdiv a b = - ((- a) div b)"
  by (simp add: tdiv_def)

lemma tdiv_mono:
  assumes "a \<le> c" and "0 < b"
  shows "tdiv a b \<le> tdiv c b"
proof -
  consider "0 \<le> a" | "a < 0" "0 \<le> c" | "c < 0" by linarith
  then show ?thesis
  proof cases
    case 1
    with assms show ?thesis by (simp add: tdiv_nonneg zdiv_mono1)
  next
    case 2
    with assms have "0 \<le> (- a) div b" and "0 \<le> c div b"
      by (simp_all add: pos_imp_zdiv_nonneg_iff)
    with 2 assms(2) show ?thesis by (simp add: tdiv_nonneg tdiv_neg)
  next
    case 3
    with assms have "(- c) div b \<le> (- a) div b" by (simp add: zdiv_mono1)
    with 3 assms show ?thesis by (simp add: tdiv_neg)
  qed
qed

lemma tdiv_mult_self [simp]: "0 < b \<Longrightarrow> tdiv (a * b) b = a"
proof (cases "0 \<le> a")
  case True
  moreover assume "0 < b"
  ultimately show ?thesis by (simp add: tdiv_nonneg)
next
  case False
  moreover assume "0 < b"
  moreover from calculation have "a * b < 0" by (simp add: mult_neg_pos)
  moreover from calculation have "(- a * b) div b = - a"
    by (intro nonzero_mult_div_cancel_right) simp
  ultimately show ?thesis by (simp add: tdiv_neg)
qed

section \<open>Results of functions that return an error\<close>

type_synonym ('e, 'a) result = "'e + 'a"

definition is_ok :: "('e, 'a) result \<Rightarrow> bool" where
  "is_ok r \<longleftrightarrow> (case r of Inl _ \<Rightarrow> False | Inr _ \<Rightarrow> True)"

fun res_bind :: "('e, 'a) result \<Rightarrow> ('a \<Rightarrow> ('e, 'b) result) \<Rightarrow> ('e, 'b) result" where
  "res_bind (Inl e) f = Inl e"
| "res_bind (Inr x) f = f x"

definition require :: "bool \<Rightarrow> 'e \<Rightarrow> ('e, unit) result" where
  "require c e = (if c then Inr () else Inl e)"

lemma is_ok_simps [simp]: "is_ok (Inr x)" "\<not> is_ok (Inl e)"
  by (simp_all add: is_ok_def)

lemma is_ok_iff: "is_ok r \<longleftrightarrow> (\<exists>x. r = Inr x)"
  by (cases r) auto

lemma res_bind_Inr_iff: "res_bind r f = Inr y \<longleftrightarrow> (\<exists>x. r = Inr x \<and> f x = Inr y)"
  by (cases r) auto

lemma res_bind_Inl_iff: "res_bind r f = Inl e \<longleftrightarrow> r = Inl e \<or> (\<exists>x. r = Inr x \<and> f x = Inl e)"
  by (cases r) auto

lemma is_ok_res_bind: "is_ok (res_bind r f) \<longleftrightarrow> (\<exists>x. r = Inr x \<and> is_ok (f x))"
  by (cases r) auto

lemma require_simps [simp]: "require True e = Inr ()" "require False e = Inl e"
  by (simp_all add: require_def)

lemma require_Inr [simp]: "require c e = Inr u \<longleftrightarrow> c"
  by (simp add: require_def)

lemma require_Inl [simp]: "require c e = Inl e' \<longleftrightarrow> \<not> c \<and> e' = e"
  by (auto simp: require_def)

lemma res_bind_require_Inr [simp]:
  "res_bind (require c e) f = Inr y \<longleftrightarrow> c \<and> f () = Inr y"
  by (simp add: require_def)

lemma is_ok_require [simp]: "is_ok (require c e) \<longleftrightarrow> c"
  by (simp add: require_def)

section \<open>Lists\<close>

text \<open>Indexing a slice: \<open>None\<close> is the run-time panic of an index out of range.\<close>

definition go_index :: "'a list \<Rightarrow> int \<Rightarrow> 'a option" where
  "go_index xs i = (if 0 \<le> i \<and> i < int (length xs) then Some (xs ! nat i) else None)"

lemma go_index_Some [simp]: "0 \<le> i \<Longrightarrow> i < int (length xs) \<Longrightarrow> go_index xs i = Some (xs ! nat i)"
  by (simp add: go_index_def)

lemma sum_list_upt_const: "(\<Sum>i\<leftarrow>[0..<n]. c :: int) = int n * c"
  by (induction n) (simp_all add: algebra_simps)

lemma sum_list_upt_lt:
  "(\<Sum>i\<leftarrow>[0..<n]. if i < k then 1 else 0 :: int) = int (min n k)"
  by (induction n) (auto simp: min_def)

lemma concat_slices:
  assumes "\<And>i. i < n \<Longrightarrow> f i \<le> f (Suc i)"
  shows "concat (map (\<lambda>i. take (f (Suc i) - f i) (drop (f i) xs)) [0..<n])
         = take (f n - f 0) (drop (f 0) xs)"
  using assms
proof (induction n)
  case 0
  then show ?case by simp
next
  case (Suc n)
  have le: "f 0 \<le> f n"
    using Suc.prems by (induction n) (auto intro: order_trans)
  have "f n \<le> f (Suc n)" using Suc.prems by simp
  then have "take (f (Suc n) - f 0) (drop (f 0) xs) =
      take (f n - f 0) (drop (f 0) xs) @ take (f (Suc n) - f n) (drop (f n) xs)"
    using le take_add [of "f n - f 0" "f (Suc n) - f n" "drop (f 0) xs"] by simp
  with Suc show ?case by simp
qed

end
