(* ===== verification/Go_Float.thy ===== *)
theory Go_Float
  imports Go_Base "HOL-Library.Log_Nat" Complex_Main
begin

text \<open>
  Go's \<open>float64\<close>. A finite value is the rational it denotes; the result of an
  arithmetic operation is the exact result rounded by \<open>f64_round\<close>: to the nearest
  multiple of the unit in the last place of a 53-bit significand, ties to even,
  with the fixed unit \<open>2 powi (-1074)\<close> below the normal range. Overflow to infinity
  is not modelled for arithmetic (the magnitudes of latencies, rates and
  counts are far below \<open>2 powi 1024\<close>).

  \<open>float64\<close> values that arrive from outside (scenario fields) may also be NaN or
  infinite and the code tests for it: the datatype \<open>f64\<close> has those values, with Go's
  comparisons (every comparison with NaN is false).

  The facts other components use are those of the locale \<open>rounding\<close>: monotone, exact
  on integers of at most 53 bits, odd.
\<close>

section \<open>Rounding\<close>

definition round_even :: "rat \<Rightarrow> int" where
  "round_even x =
     (let f = \<lfloor>x\<rfloor>; r = x - of_int f
      in if r < 1 / 2 then f else if 1 / 2 < r then f + 1
         else if even f then f else f + 1)"

definition f64_exp :: "rat \<Rightarrow> int" where
  "f64_exp x =
     (let (p, q) = quotient_of x;
          e = int (floorlog 2 (nat p)) - int (floorlog 2 (nat q))
      in if x < 2 powi e then e - 1 else e)"

definition f64_unit_exp :: "rat \<Rightarrow> int" where
  "f64_unit_exp x = max (f64_exp x - 52) (- 1074)"

definition f64_round_pos :: "rat \<Rightarrow> rat" where
  "f64_round_pos x = (let u = 2 powi f64_unit_exp x in of_int (round_even (x / u)) * u)"

definition f64_round :: "rat \<Rightarrow> rat" where
  "f64_round x = (if x = 0 then 0 else if 0 < x then f64_round_pos x else - f64_round_pos (- x))"

text \<open>The operations on finite values.\<close>

definition fadd :: "rat \<Rightarrow> rat \<Rightarrow> rat" where "fadd a b = f64_round (a + b)"
definition fsub :: "rat \<Rightarrow> rat \<Rightarrow> rat" where "fsub a b = f64_round (a - b)"
definition fmul :: "rat \<Rightarrow> rat \<Rightarrow> rat" where "fmul a b = f64_round (a * b)"
definition fdiv :: "rat \<Rightarrow> rat \<Rightarrow> rat" where "fdiv a b = f64_round (a / b)"

definition f64_of_int :: "int \<Rightarrow> rat" where
  "f64_of_int n = f64_round (of_int n)"

text \<open>Go's conversion \<open>int(x)\<close> truncates towards zero.\<close>

definition int_of_f64 :: "rat \<Rightarrow> int" where
  "int_of_f64 x = (if 0 \<le> x then \<lfloor>x\<rfloor> else \<lceil>x\<rceil>)"

section \<open>Values that may be NaN or infinite\<close>

datatype f64 = Fin rat | NaN | PosInf | NegInf

definition is_nan :: "f64 \<Rightarrow> bool" where
  "is_nan x \<longleftrightarrow> (case x of NaN \<Rightarrow> True | _ \<Rightarrow> False)"

definition is_inf :: "f64 \<Rightarrow> bool" where
  "is_inf x \<longleftrightarrow> (case x of PosInf \<Rightarrow> True | NegInf \<Rightarrow> True | _ \<Rightarrow> False)"

fun f64_lt :: "f64 \<Rightarrow> f64 \<Rightarrow> bool" where
  "f64_lt (Fin a) (Fin b) \<longleftrightarrow> a < b"
| "f64_lt NaN _ \<longleftrightarrow> False"
| "f64_lt _ NaN \<longleftrightarrow> False"
| "f64_lt NegInf y \<longleftrightarrow> y \<noteq> NegInf"
| "f64_lt x PosInf \<longleftrightarrow> x \<noteq> PosInf"
| "f64_lt PosInf _ \<longleftrightarrow> False"
| "f64_lt _ NegInf \<longleftrightarrow> False"

fun f64_le :: "f64 \<Rightarrow> f64 \<Rightarrow> bool" where
  "f64_le (Fin a) (Fin b) \<longleftrightarrow> a \<le> b"
| "f64_le NaN _ \<longleftrightarrow> False"
| "f64_le _ NaN \<longleftrightarrow> False"
| "f64_le NegInf _ \<longleftrightarrow> True"
| "f64_le _ PosInf \<longleftrightarrow> True"
| "f64_le PosInf _ \<longleftrightarrow> False"
| "f64_le _ NegInf \<longleftrightarrow> False"

definition f64_finite :: "f64 \<Rightarrow> bool" where
  "f64_finite x \<longleftrightarrow> \<not> is_nan x \<and> \<not> is_inf x"

lemma f64_finite_iff: "f64_finite x \<longleftrightarrow> (\<exists>r. x = Fin r)"
  by (cases x) (simp_all add: f64_finite_def is_nan_def is_inf_def)

section \<open>Facts about rounding\<close>

lemma round_even_of_int [simp]: "round_even (of_int n) = n"
  by (simp add: round_even_def Let_def)

lemma round_even_floor: "\<lfloor>x\<rfloor> \<le> round_even x" "round_even x \<le> \<lfloor>x\<rfloor> + 1"
  by (simp_all add: round_even_def Let_def)

lemma round_even_mono:
  assumes "x \<le> y"
  shows "round_even x \<le> round_even y"
proof -
  have le: "\<lfloor>x\<rfloor> \<le> \<lfloor>y\<rfloor>" using assms by (rule floor_mono)
  show ?thesis
  proof (cases "\<lfloor>x\<rfloor> = \<lfloor>y\<rfloor>")
    case True
    with assms show ?thesis by (auto simp: round_even_def Let_def)
  next
    case False
    with le have "\<lfloor>x\<rfloor> + 1 \<le> \<lfloor>y\<rfloor>" by simp
    with round_even_floor [of x] round_even_floor [of y] show ?thesis by linarith
  qed
qed

lemma round_even_le: "x \<le> of_int k \<Longrightarrow> round_even x \<le> k"
  using round_even_mono [of x "of_int k"] by simp

lemma round_even_ge: "of_int k \<le> x \<Longrightarrow> k \<le> round_even x"
  using round_even_mono [of "of_int k" x] by simp

lemma floorlog2_bounds:
  "0 < n \<Longrightarrow> (2::rat) powi (int (floorlog 2 n) - 1) \<le> of_nat n \<and> of_nat n < (2::rat) powi int (floorlog 2 n)"
proof -
  assume "0 < n"
  then have "2 ^ (floorlog 2 n - 1) \<le> n \<and> n < 2 ^ floorlog 2 n"
    using floorlog_bounds [of n 2] by simp
  moreover have "0 < floorlog 2 n" using \<open>0 < n\<close> by (simp add: floorlog_def)
  moreover have "(2::rat) ^ (floorlog 2 n - 1) \<le> of_nat n \<longleftrightarrow> 2 ^ (floorlog 2 n - 1) \<le> n"
    by (metis of_nat_le_iff of_nat_numeral of_nat_power)
  moreover have "of_nat n < (2::rat) ^ floorlog 2 n \<longleftrightarrow> n < 2 ^ floorlog 2 n"
    by (metis of_nat_less_iff of_nat_numeral of_nat_power)
  ultimately show ?thesis
    by (simp add: power_int_def nat_diff_distrib)
qed

lemma f64_exp_bounds:
  assumes "0 < x"
  shows "2 powi f64_exp x \<le> x \<and> x < 2 powi (f64_exp x + 1)"
proof -
  obtain p q where pq: "quotient_of x = (p, q)" by (cases "quotient_of x")
  have q0: "0 < q" using quotient_of_denom_pos [OF pq] .
  have x: "x = of_int p / of_int q" using quotient_of_div [OF pq] .
  have p0: "0 < p" using assms q0 by (simp add: x zero_less_divide_iff)
  define a where "a = int (floorlog 2 (nat p))"
  define b where "b = int (floorlog 2 (nat q))"
  have P: "2 powi (a - 1) \<le> (of_int p :: rat)" "(of_int p :: rat) < 2 powi a"
    using floorlog2_bounds [of "nat p"] p0 by (simp_all add: a_def)
  have Q: "2 powi (b - 1) \<le> (of_int q :: rat)" "(of_int q :: rat) < 2 powi b"
    using floorlog2_bounds [of "nat q"] q0 by (simp_all add: b_def)
  have "x < 2 powi a / 2 powi (b - 1)"
    unfolding x using P Q q0 p0 by (intro frac_less) auto
  also have "\<dots> = 2 powi (a - b + 1)"
    by (simp add: power_int_diff power_int_add)
  finally have up: "x < 2 powi (a - b + 1)" .
  have "2 powi (a - b - 1) = 2 powi (a - 1) / (2::rat) powi b"
    by (simp add: power_int_diff)
  also have "\<dots> < x"
    unfolding x using P Q q0 p0 by (intro frac_less2) auto
  finally have lo: "2 powi (a - b - 1) < x" .
  have e: "f64_exp x = (if x < 2 powi (a - b) then a - b - 1 else a - b)"
    by (simp add: f64_exp_def pq a_def b_def)
  show ?thesis
    using up lo by (auto simp: e)
qed

lemma f64_exp_mono:
  assumes "0 < x" "x \<le> y"
  shows "f64_exp x \<le> f64_exp y"
proof (rule ccontr)
  assume "\<not> ?thesis"
  then have "2 powi (f64_exp y + 1) \<le> (2::rat) powi f64_exp x"
    by (intro power_int_increasing) auto
  with f64_exp_bounds [of x] f64_exp_bounds [of y] assms show False by linarith
qed

lemma powi_pos [simp]: "0 < (2::rat) powi k"
  by (simp add: zero_less_power_int)

lemma powi_int_multiple:
  assumes "j \<le> k"
  obtains m where "(2::rat) powi k = of_int m * 2 powi j"
proof
  have "k = (k - j) + j" by simp
  then have "(2::rat) powi k = 2 powi (k - j) * 2 powi j"
    by (metis power_int_add zero_neq_numeral)
  also have "(2::rat) powi (k - j) = of_int (2 ^ nat (k - j))"
    using assms by (simp add: power_int_def)
  finally show "(2::rat) powi k = of_int (2 ^ nat (k - j)) * 2 powi j" .
qed

lemma f64_round_pos_le:
  assumes "x \<le> of_int m * 2 powi f64_unit_exp x"
  shows "f64_round_pos x \<le> of_int m * 2 powi f64_unit_exp x"
proof -
  have "x / 2 powi f64_unit_exp x \<le> of_int m"
    using assms by (simp add: divide_le_eq)
  then have "round_even (x / 2 powi f64_unit_exp x) \<le> m" by (rule round_even_le)
  then show ?thesis by (simp add: f64_round_pos_def Let_def)
qed

lemma f64_round_pos_ge:
  assumes "of_int m * 2 powi f64_unit_exp x \<le> x"
  shows "of_int m * 2 powi f64_unit_exp x \<le> f64_round_pos x"
proof -
  have "of_int m \<le> x / 2 powi f64_unit_exp x"
    using assms by (simp add: le_divide_eq)
  then have "m \<le> round_even (x / 2 powi f64_unit_exp x)" by (rule round_even_ge)
  then show ?thesis by (simp add: f64_round_pos_def Let_def)
qed

lemma f64_round_pos_mono:
  assumes "0 < x" "x \<le> y"
  shows "f64_round_pos x \<le> f64_round_pos y"
proof (cases "f64_unit_exp x = f64_unit_exp y")
  case True
  with assms have "round_even (x / 2 powi f64_unit_exp x) \<le> round_even (y / 2 powi f64_unit_exp y)"
    by (intro round_even_mono) (simp add: divide_right_mono)
  then show ?thesis by (simp add: f64_round_pos_def Let_def True)
next
  case False
  let ?e = "f64_exp y"
  have mono: "f64_exp x \<le> ?e" using assms by (rule f64_exp_mono)
  with False have lt: "f64_exp x < ?e" and uy: "f64_unit_exp y = ?e - 52" and ux: "f64_unit_exp x \<le> ?e"
    by (auto simp: f64_unit_exp_def max_def split: if_splits)
  have "x \<le> 2 powi (f64_exp x + 1)" using f64_exp_bounds [OF assms(1)] by simp
  also have "\<dots> \<le> 2 powi ?e" using lt by (intro power_int_increasing) auto
  finally have xe: "x \<le> 2 powi ?e" .
  obtain m where m: "(2::rat) powi ?e = of_int m * 2 powi f64_unit_exp x"
    using powi_int_multiple [OF ux] by blast
  have *: "f64_round_pos x \<le> 2 powi ?e"
    using f64_round_pos_le [of x m] xe m by simp
  obtain k where k: "(2::rat) powi ?e = of_int k * 2 powi f64_unit_exp y"
    using powi_int_multiple [of "f64_unit_exp y" ?e] uy by auto
  have "2 powi ?e \<le> y" using f64_exp_bounds [of y] assms by auto
  then have "2 powi ?e \<le> f64_round_pos y"
    using f64_round_pos_ge [of k y] k by simp
  with * show ?thesis by simp
qed

lemma f64_round_pos_nonneg: "0 < x \<Longrightarrow> 0 \<le> f64_round_pos x"
  using f64_round_pos_ge [of 0 x] by simp

lemma f64_round_minus: "f64_round (- x) = - f64_round x"
  by (auto simp: f64_round_def)

lemma f64_round_mono_lemma: "x \<le> y \<Longrightarrow> f64_round x \<le> f64_round y"
proof -
  assume xy: "x \<le> y"
  consider "0 < x" | "x \<le> 0" "0 \<le> y" | "y < 0" by linarith
  then show ?thesis
  proof cases
    case 1
    with xy show ?thesis by (simp add: f64_round_def f64_round_pos_mono)
  next
    case 2
    then show ?thesis
      using f64_round_pos_nonneg [of y] f64_round_pos_nonneg [of "- x"]
      by (auto simp: f64_round_def)
  next
    case 3
    with xy show ?thesis by (simp add: f64_round_def f64_round_pos_mono)
  qed
qed

lemma f64_round_pos_multiple:
  assumes "x = of_int m * 2 powi f64_unit_exp x"
  shows "f64_round_pos x = x"
proof -
  have "x / 2 powi f64_unit_exp x = of_int m"
    using assms by (simp add: divide_eq_eq)
  then have "f64_round_pos x = of_int m * 2 powi f64_unit_exp x"
    by (simp only: f64_round_pos_def Let_def round_even_of_int)
  with assms show ?thesis by simp
qed

lemma f64_round_pos_exact:
  assumes "0 < m" "m \<le> 2 ^ 53"
  shows "f64_round_pos (of_int m) = of_int m"
proof -
  let ?x = "of_int m :: rat"
  have "2 powi f64_exp ?x \<le> ?x" using f64_exp_bounds [of ?x] assms by simp
  also have "?x \<le> of_int (2 ^ 53)" using assms(2) by (simp only: of_int_le_iff)
  also have "\<dots> = (2::rat) powi 53" by (simp add: power_int_def)
  finally have "2 powi f64_exp ?x \<le> (2::rat) powi 53" .
  moreover have "2 powi 53 < (2::rat) powi f64_exp ?x" if "53 < f64_exp ?x"
    using that by (rule power_int_strict_increasing) simp
  ultimately have e53: "f64_exp ?x \<le> 53"
    by (meson not_le)
  show ?thesis
  proof (cases "f64_exp ?x = 53")
    case True
    then have "2 powi 53 \<le> ?x" using f64_exp_bounds [of ?x] assms by simp
    then have "of_int (2 ^ 53) \<le> ?x" by (simp add: power_int_def)
    then have "2 ^ 53 \<le> m" by (simp only: of_int_le_iff)
    with assms(2) have "m = 2 ^ 53" by simp
    then have "?x = of_int (2 ^ 52) * 2 powi f64_unit_exp ?x"
      using True by (simp add: f64_unit_exp_def)
    then show ?thesis by (rule f64_round_pos_multiple)
  next
    case False
    with e53 have "f64_unit_exp ?x \<le> 0" by (simp add: f64_unit_exp_def)
    then obtain k where "(2::rat) powi 0 = of_int k * 2 powi f64_unit_exp ?x"
      using powi_int_multiple by blast
    then have k: "?x = of_int (m * k) * 2 powi f64_unit_exp ?x"
      by (simp add: mult.assoc)
    then show ?thesis by (rule f64_round_pos_multiple)
  qed
qed

lemma f64_round_exact_lemma: "\<bar>m\<bar> \<le> 2 ^ 53 \<Longrightarrow> f64_round (of_int m) = of_int m"
proof -
  assume m: "\<bar>m\<bar> \<le> 2 ^ 53"
  consider "m = 0" | "0 < m" | "m < 0" by linarith
  then show ?thesis
  proof cases
    case 3
    with m have "f64_round_pos (of_int (- m)) = of_int (- m)"
      by (intro f64_round_pos_exact) auto
    with 3 show ?thesis by (simp add: f64_round_def)
  qed (use m in \<open>simp_all add: f64_round_def f64_round_pos_exact\<close>)
qed

section \<open>The interface of rounding\<close>

locale rounding =
  fixes rnd :: "rat \<Rightarrow> rat"
  assumes rnd_mono: "x \<le> y \<Longrightarrow> rnd x \<le> rnd y"
    and rnd_exact: "\<bar>m\<bar> \<le> 2 ^ 53 \<Longrightarrow> rnd (of_int m) = of_int m"
    and rnd_minus: "rnd (- x) = - rnd x"
begin

lemma rnd_0: "rnd 0 = 0"
  using rnd_exact [of 0] by simp

lemma rnd_nonneg: "0 \<le> x \<Longrightarrow> 0 \<le> rnd x"
  using rnd_mono [of 0 x] by (simp add: rnd_0)

lemma rnd_le_int: "x \<le> of_int m \<Longrightarrow> \<bar>m\<bar> \<le> 2 ^ 53 \<Longrightarrow> rnd x \<le> of_int m"
  using rnd_mono [of x "of_int m"] by (simp add: rnd_exact)

lemma rnd_ge_int: "of_int m \<le> x \<Longrightarrow> \<bar>m\<bar> \<le> 2 ^ 53 \<Longrightarrow> of_int m \<le> rnd x"
  using rnd_mono [of "of_int m" x] by (simp add: rnd_exact)

lemma floor_rnd_le: "x \<le> of_int m \<Longrightarrow> \<bar>m\<bar> \<le> 2 ^ 53 \<Longrightarrow> \<lfloor>rnd x\<rfloor> \<le> m"
  using rnd_le_int [of x m] by (simp add: floor_le_iff)

lemma ceiling_rnd_le: "x \<le> of_int m \<Longrightarrow> \<bar>m\<bar> \<le> 2 ^ 53 \<Longrightarrow> \<lceil>rnd x\<rceil> \<le> m"
  using rnd_le_int [of x m] by (simp add: ceiling_le_iff)

end

interpretation f64: rounding f64_round
  by unfold_locales (rule f64_round_mono_lemma f64_round_exact_lemma f64_round_minus; assumption?)+

lemmas f64_round_0 [simp] = f64.rnd_0
lemmas f64_round_exact [simp] = f64.rnd_exact
lemmas f64_round_mono = f64.rnd_mono

lemma f64_round_exact_nat [simp]: "n \<le> 2 ^ 53 \<Longrightarrow> f64_round (of_nat n) = of_nat n"
  using f64_round_exact [of "int n"] by simp

lemma f64_of_int_exact [simp]: "\<bar>n\<bar> \<le> 2 ^ 53 \<Longrightarrow> f64_of_int n = of_int n"
  by (simp add: f64_of_int_def)

end
