(* ===== verification/Go_Strings.thy ===== *)
theory Go_Strings
  imports Go_Base "HOL-Library.Sublist"
begin

text \<open>
  The functions of Go's \<open>strings\<close> and \<open>strconv\<close> packages that the program uses, on byte
  strings (\<open>string\<close>, a list of 8-bit characters, as a Go \<open>string\<close> is a sequence of
  bytes). Case conversion and white space follow ASCII; the program applies them to
  host names, identifiers, numbers and configuration text.
\<close>

section \<open>Characters\<close>

definition char_code :: "char \<Rightarrow> nat" where
  "char_code c = of_char c"

definition is_space :: "char \<Rightarrow> bool" where
  "is_space c \<longleftrightarrow> char_code c \<in> {9, 10, 11, 12, 13, 32}"

definition is_digit :: "char \<Rightarrow> bool" where
  "is_digit c \<longleftrightarrow> 48 \<le> char_code c \<and> char_code c \<le> 57"

definition is_upper :: "char \<Rightarrow> bool" where
  "is_upper c \<longleftrightarrow> 65 \<le> char_code c \<and> char_code c \<le> 90"

definition is_lower :: "char \<Rightarrow> bool" where
  "is_lower c \<longleftrightarrow> 97 \<le> char_code c \<and> char_code c \<le> 122"

definition lower_char :: "char \<Rightarrow> char" where
  "lower_char c = (if is_upper c then char_of (char_code c + 32) else c)"

definition upper_char :: "char \<Rightarrow> char" where
  "upper_char c = (if is_lower c then char_of (char_code c - 32) else c)"

section \<open>Package strings\<close>

definition to_lower :: "string \<Rightarrow> string" where "to_lower s = map lower_char s"
definition to_upper :: "string \<Rightarrow> string" where "to_upper s = map upper_char s"

definition equal_fold :: "string \<Rightarrow> string \<Rightarrow> bool" where
  "equal_fold s t \<longleftrightarrow> to_lower s = to_lower t"

definition trim_left :: "(char \<Rightarrow> bool) \<Rightarrow> string \<Rightarrow> string" where
  "trim_left p s = dropWhile p s"

definition trim_right :: "(char \<Rightarrow> bool) \<Rightarrow> string \<Rightarrow> string" where
  "trim_right p s = rev (dropWhile p (rev s))"

definition trim_space :: "string \<Rightarrow> string" where
  "trim_space s = trim_right is_space (trim_left is_space s)"

definition trim_cutset :: "string \<Rightarrow> string \<Rightarrow> string" where
  "trim_cutset cs s = trim_right (\<lambda>c. c \<in> set cs) (trim_left (\<lambda>c. c \<in> set cs) s)"

definition has_prefix :: "string \<Rightarrow> string \<Rightarrow> bool" where
  "has_prefix s p \<longleftrightarrow> take (length p) s = p"

definition has_suffix :: "string \<Rightarrow> string \<Rightarrow> bool" where
  "has_suffix s p \<longleftrightarrow> length p \<le> length s \<and> drop (length s - length p) s = p"

definition trim_prefix :: "string \<Rightarrow> string \<Rightarrow> string" where
  "trim_prefix s p = (if has_prefix s p then drop (length p) s else s)"

definition trim_suffix :: "string \<Rightarrow> string \<Rightarrow> string" where
  "trim_suffix s p = (if has_suffix s p then take (length s - length p) s else s)"

text \<open>\<open>strings.Index\<close>: the position of the first occurrence.\<close>

fun index_of :: "string \<Rightarrow> string \<Rightarrow> nat option" where
  "index_of s p =
     (if has_prefix s p then Some 0
      else case s of [] \<Rightarrow> None | _ # t \<Rightarrow> map_option Suc (index_of t p))"

declare index_of.simps [simp del]

definition contains :: "string \<Rightarrow> string \<Rightarrow> bool" where
  "contains s p \<longleftrightarrow> index_of s p \<noteq> None"

text \<open>\<open>strings.LastIndex\<close>: the position of the last occurrence.\<close>

fun last_index :: "string \<Rightarrow> string \<Rightarrow> nat option" where
  "last_index [] p = (if p = [] then Some 0 else None)"
| "last_index (c # s) p =
     (case last_index s p of
        Some i \<Rightarrow> Some (Suc i)
      | None \<Rightarrow> if has_prefix (c # s) p then Some 0 else None)"

text \<open>\<open>strings.ReplaceAll\<close> for a non-empty old string.\<close>

function replace_all :: "string \<Rightarrow> string \<Rightarrow> string \<Rightarrow> string" where
  "replace_all s old new =
     (if old = [] then s
      else case s of [] \<Rightarrow> []
      | c # t \<Rightarrow> if has_prefix s old then new @ replace_all (drop (length old) s) old new
                else c # replace_all t old new)"
  by pat_completeness auto
termination
  by (relation "measure (\<lambda>(s, old, new). length s)") auto

declare replace_all.simps [simp del]

definition remove_char :: "char \<Rightarrow> string \<Rightarrow> string" where
  "remove_char c s = filter (\<lambda>d. d \<noteq> c) s"

text \<open>\<open>strings.Split\<close> on a one-byte separator, and the reverse.\<close>

fun split_on :: "char \<Rightarrow> string \<Rightarrow> string list" where
  "split_on c [] = [[]]"
| "split_on c (d # s) =
     (if d = c then [] # split_on c s
      else case split_on c s of [] \<Rightarrow> [[d]] | w # ws \<Rightarrow> (d # w) # ws)"

fun join_with :: "string \<Rightarrow> string list \<Rightarrow> string" where
  "join_with sep [] = []"
| "join_with sep [w] = w"
| "join_with sep (w # ws) = w @ sep @ join_with sep ws"

section \<open>Package strconv\<close>

definition digit_char :: "nat \<Rightarrow> char" where
  "digit_char d = char_of (48 + d)"

function nat_to_dec :: "nat \<Rightarrow> string" where
  "nat_to_dec n = (if n < 10 then [digit_char n] else nat_to_dec (n div 10) @ [digit_char (n mod 10)])"
  by pat_completeness auto
termination
  by (relation "measure id") auto

declare nat_to_dec.simps [simp del]

definition itoa :: "int \<Rightarrow> string" where
  "itoa i = (if 0 \<le> i then nat_to_dec (nat i) else CHR ''-'' # nat_to_dec (nat (- i)))"

definition digit_val :: "char \<Rightarrow> nat" where
  "digit_val c = char_code c - 48"

definition dec_to_nat :: "string \<Rightarrow> nat" where
  "dec_to_nat s = foldl (\<lambda>n c. 10 * n + digit_val c) 0 s"

text \<open>\<open>strconv.Atoi\<close>: an optional sign, then decimal digits; \<open>None\<close> is the error.\<close>

definition atoi :: "string \<Rightarrow> int option" where
  "atoi s =
     (let (neg, ds) = (case s of [] \<Rightarrow> (False, [])
                       | c # t \<Rightarrow> if c = CHR ''-'' then (True, t)
                                  else if c = CHR ''+'' then (False, t) else (False, s));
          v = (if neg then - int (dec_to_nat ds) else int (dec_to_nat ds))
      in if ds = [] \<or> \<not> list_all is_digit ds \<or> \<not> in64 v then None else Some v)"

section \<open>Facts\<close>

lemma trim_right_snoc:
  "trim_right p (s @ [c]) = (if p c then trim_right p s else s @ [c])"
  by (simp add: trim_right_def)

lemma trim_right_prefix: "prefix (trim_right p s) s"
proof -
  have "suffix (dropWhile p (rev s)) (rev s)" by (rule suffix_dropWhile)
  then show ?thesis by (simp add: trim_right_def suffix_to_prefix)
qed

lemma trim_right_idle: "s = [] \<or> \<not> p (last s) \<Longrightarrow> trim_right p s = s"
  by (cases s rule: rev_cases) (auto simp: trim_right_def)

lemma last_trim_right: "trim_right p s \<noteq> [] \<Longrightarrow> \<not> p (last (trim_right p s))"
proof (induction s rule: rev_induct)
  case (snoc c s)
  then show ?case by (simp add: trim_right_snoc split: if_splits)
qed (simp add: trim_right_def)

lemma trim_left_idle: "s = [] \<or> \<not> p (hd s) \<Longrightarrow> trim_left p s = s"
  by (cases s) (auto simp: trim_left_def)

lemma trim_space_idle: "list_all (\<lambda>c. \<not> is_space c) s \<Longrightarrow> trim_space s = s"
  by (cases "s = []") (simp_all add: trim_space_def trim_left_idle trim_right_idle list_all_iff)

lemma has_prefix_iff: "has_prefix s p \<longleftrightarrow> prefix p s"
  by (metis append_eq_conv_conj append_take_drop_id has_prefix_def prefix_def)

lemma has_suffix_iff: "has_suffix s p \<longleftrightarrow> suffix p s"
  by (auto simp: has_suffix_def suffix_def) (metis append_take_drop_id)

lemma contains_Nil [simp]: "contains [] p \<longleftrightarrow> p = []"
  by (auto simp: contains_def index_of.simps [of "[]"] has_prefix_def)

lemma contains_Cons: "contains (c # s) p \<longleftrightarrow> has_prefix (c # s) p \<or> contains s p"
  by (auto simp: contains_def index_of.simps [of "c # s"])

lemma contains_char: "contains s [c] \<longleftrightarrow> c \<in> set s"
  by (induction s) (auto simp: contains_Cons has_prefix_def)

lemma index_of_Some_split: "index_of s p = Some i \<Longrightarrow> take i s @ p @ drop (i + length p) s = s"
proof (induction s p arbitrary: i rule: index_of.induct)
  case (1 s p)
  show ?case
  proof (cases "has_prefix s p")
    case True
    with "1.prems" have "i = 0" by (simp add: index_of.simps [of s])
    with True show ?thesis
      by (simp add: has_prefix_def) (metis append_take_drop_id)
  next
    case False
    with "1.prems" obtain c t j where s: "s = c # t" "index_of t p = Some j" "i = Suc j"
      by (auto simp: index_of.simps [of s] split: list.splits)
    with "1.IH" [OF False] show ?thesis by auto
  qed
qed

lemma last_index_Some_split: "last_index s p = Some i \<Longrightarrow> take i s @ p @ drop (i + length p) s = s"
proof (induction s arbitrary: i)
  case Nil
  then show ?case by (simp split: if_splits)
next
  case (Cons c s)
  show ?case
  proof (cases "last_index s p")
    case None
    with Cons.prems have "i = 0" "has_prefix (c # s) p" by (auto split: if_splits)
    then show ?thesis by (simp add: has_prefix_def) (metis append_take_drop_id)
  next
    case (Some j)
    with Cons.prems Cons.IH [OF Some] show ?thesis by auto
  qed
qed

lemma split_on_nonempty [simp]: "split_on c s \<noteq> []"
  by (induction s) (auto split: list.splits)

lemma join_split_on: "join_with [c] (split_on c s) = s"
proof (induction s)
  case (Cons d s)
  show ?case
  proof (cases "split_on c s")
    case (Cons w ws)
    with \<open>join_with [c] (split_on c s) = s\<close> show ?thesis by (cases ws) auto
  qed simp
qed simp

lemma split_on_no_sep: "w \<in> set (split_on c s) \<Longrightarrow> c \<notin> set w"
  by (induction s arbitrary: w) (auto split: list.splits if_splits)

lemma split_on_append_sep: "split_on c (s @ c # t) = split_on c s @ split_on c t"
  by (induction s) (auto split: list.splits)

lemma split_on_word: "c \<notin> set w \<Longrightarrow> split_on c w = [w]"
  by (induction w) auto

lemma join_with_Cons: "ws \<noteq> [] \<Longrightarrow> join_with sep (w # ws) = w @ sep @ join_with sep ws"
  by (cases ws) auto

lemma split_join:
  "ws \<noteq> [] \<Longrightarrow> \<forall>w\<in>set ws. c \<notin> set w \<Longrightarrow> split_on c (join_with [c] ws) = ws"
proof (induction ws)
  case (Cons w ws)
  then show ?case
    by (cases "ws = []") (simp_all add: split_on_word join_with_Cons split_on_append_sep)
qed simp

lemma join_with_append:
  "xs \<noteq> [] \<Longrightarrow> ys \<noteq> [] \<Longrightarrow> join_with sep (xs @ ys) = join_with sep xs @ sep @ join_with sep ys"
proof (induction xs)
  case (Cons x xs)
  then show ?case by (cases "xs = []") (simp_all add: join_with_Cons)
qed simp

lemma char_code_char_of [simp]: "n < 256 \<Longrightarrow> char_code (char_of n) = n"
  by (simp add: char_code_def)

lemma char_code_inject: "char_code c = char_code d \<longleftrightarrow> c = d"
  by (simp add: char_code_def)

lemma digit_char_props [simp]:
  "d < 10 \<Longrightarrow> is_digit (digit_char d)"
  "d < 10 \<Longrightarrow> digit_val (digit_char d) = d"
  by (simp_all add: digit_char_def is_digit_def digit_val_def)

lemma dec_to_nat_snoc: "dec_to_nat (s @ [c]) = 10 * dec_to_nat s + digit_val c"
  by (simp add: dec_to_nat_def)

lemma dec_to_nat_dec [simp]: "dec_to_nat (nat_to_dec n) = n"
proof (induction n rule: nat_to_dec.induct)
  case (1 n)
  then show ?case
    by (cases "n < 10")
      (simp_all add: nat_to_dec.simps [of n] dec_to_nat_snoc, simp add: dec_to_nat_def)
qed

lemma nat_to_dec_digits: "list_all is_digit (nat_to_dec n)"
proof (induction n rule: nat_to_dec.induct)
  case (1 n)
  then show ?case by (cases "n < 10") (simp_all add: nat_to_dec.simps [of n])
qed

lemma nat_to_dec_nonempty [simp]: "nat_to_dec n \<noteq> []"
  by (simp add: nat_to_dec.simps [of n])

lemma nat_to_dec_inj: "nat_to_dec m = nat_to_dec n \<longleftrightarrow> m = n"
  by (metis dec_to_nat_dec)

lemma nat_to_dec_no_char: "\<not> is_digit c \<Longrightarrow> c \<notin> set (nat_to_dec n)"
  using nat_to_dec_digits [of n] by (auto simp: list_all_iff)

lemma itoa_inj: "itoa i = itoa j \<longleftrightarrow> i = j"
proof -
  have minus: "nat_to_dec n \<noteq> CHR ''-'' # s" for n s
    using nat_to_dec_digits [of n] by (cases "nat_to_dec n") (auto simp: is_digit_def char_code_def)
  show ?thesis
    by (auto simp: itoa_def nat_to_dec_inj minus minus [symmetric])
qed

lemma atoi_itoa: "in64 i \<Longrightarrow> atoi (itoa i) = Some i"
proof -
  assume i: "in64 i"
  have hd: "\<exists>c t. nat_to_dec n = c # t \<and> c \<noteq> CHR ''-'' \<and> c \<noteq> CHR ''+''" for n
    using nat_to_dec_digits [of n]
    by (cases "nat_to_dec n") (auto simp: is_digit_def char_code_def)
  show ?thesis
  proof (cases "0 \<le> i")
    case True
    obtain c t where ct: "nat_to_dec (nat i) = c # t" "c \<noteq> CHR ''-''" "c \<noteq> CHR ''+''"
      using hd by blast
    have "list_all is_digit (c # t)" "dec_to_nat (c # t) = nat i"
      using nat_to_dec_digits [of "nat i"] dec_to_nat_dec [of "nat i"] by (simp_all only: ct)
    with True i ct show ?thesis by (simp add: atoi_def itoa_def)
  next
    case False
    with i show ?thesis by (simp add: atoi_def itoa_def nat_to_dec_digits)
  qed
qed

end
