(* ===== verification/Go_Path.thy ===== *)
theory Go_Path
  imports Go_Strings
begin

text \<open>
  Go's \<open>path\<close> and \<open>path/filepath\<close> (on Unix): \<open>Clean\<close>, \<open>Join\<close>, \<open>IsAbs\<close>, \<open>Rel\<close>. The
  facts at the end describe a clean absolute path by its elements and say when
  \<open>Rel\<close> stays below its base; the control API's path checks rest on them.
\<close>

definition sep :: char where "sep = CHR ''/''"

definition is_abs :: "string \<Rightarrow> bool" where
  "is_abs p \<longleftrightarrow> has_prefix p ''/''"

text \<open>One pass over the elements with the output as a stack, last element first.\<close>

fun clean_elems :: "bool \<Rightarrow> string list \<Rightarrow> string list \<Rightarrow> string list" where
  "clean_elems rooted out [] = rev out"
| "clean_elems rooted out (e # es) =
     (if e = [] \<or> e = ''.'' then clean_elems rooted out es
      else if e = ''..'' then
        (case out of
           x # out' \<Rightarrow> if x \<noteq> ''..'' then clean_elems rooted out' es
                        else clean_elems rooted (''..'' # out) es
         | [] \<Rightarrow> if rooted then clean_elems rooted [] es else clean_elems rooted [''..''] es)
      else clean_elems rooted (e # out) es)"

definition path_elems :: "string \<Rightarrow> string list" where
  "path_elems p = clean_elems (is_abs p) [] (split_on sep p)"

definition abs_path :: "string list \<Rightarrow> string" where
  "abs_path es = sep # join_with [sep] es"

definition path_clean :: "string \<Rightarrow> string" where
  "path_clean p =
     (if is_abs p then abs_path (path_elems p)
      else if path_elems p = [] then ''.'' else join_with [sep] (path_elems p))"

definition path_join :: "string list \<Rightarrow> string" where
  "path_join ps =
     (let ne = filter (\<lambda>p. p \<noteq> []) ps
      in if ne = [] then [] else path_clean (join_with [sep] ne))"

fun strip_common :: "'a list \<Rightarrow> 'a list \<Rightarrow> 'a list \<times> 'a list" where
  "strip_common (b # bs) (t # ts) = (if b = t then strip_common bs ts else (b # bs, t # ts))"
| "strip_common bs ts = (bs, ts)"

definition path_rel :: "string \<Rightarrow> string \<Rightarrow> string option" where
  "path_rel base targ =
     (if path_clean targ = path_clean base then Some ''.''
      else if is_abs base \<noteq> is_abs targ then None
      else case strip_common (path_elems base) (path_elems targ) of
        (bs, ts) \<Rightarrow>
          if bs \<noteq> [] \<and> hd bs = ''..'' \<and> ts \<noteq> [] then None
          else Some (join_with [sep] (replicate (length bs) ''..'' @ ts)))"

text \<open>\<open>filepath.Ext\<close>: from the last dot of the last element.\<close>

definition path_ext :: "string \<Rightarrow> string" where
  "path_ext p =
     (let b = last (split_on sep p)
      in case last_index b ''.'' of None \<Rightarrow> [] | Some i \<Rightarrow> drop i b)"

section \<open>Facts\<close>

definition plain_elem :: "string \<Rightarrow> bool" where
  "plain_elem e \<longleftrightarrow> e \<noteq> [] \<and> e \<noteq> ''.'' \<and> e \<noteq> ''..'' \<and> sep \<notin> set e"

lemma clean_elems_rooted_plain:
  "\<forall>e\<in>set out. plain_elem e \<Longrightarrow> \<forall>e\<in>set es. sep \<notin> set e \<Longrightarrow>
   \<forall>e\<in>set (clean_elems True out es). plain_elem e"
proof (induction es arbitrary: out)
  case Nil
  then show ?case by simp
next
  case (Cons e es)
  have e: "sep \<notin> set e" and es: "\<forall>e\<in>set es. sep \<notin> set e" using Cons.prems by auto
  consider "e = [] \<or> e = ''.''" | "e = ''..''" | "plain_elem e"
    using e by (auto simp: plain_elem_def)
  then show ?case
  proof cases
    case 1
    then show ?thesis using Cons.IH [OF Cons.prems(1) es] by auto
  next
    case 2
    show ?thesis
    proof (cases out)
      case Nil
      with 2 Cons.IH [OF _ es, of "[]"] show ?thesis by simp
    next
      case (Cons x out')
      with Cons.prems have "x \<noteq> ''..''" "\<forall>e\<in>set out'. plain_elem e" by (auto simp: plain_elem_def)
      with 2 Cons Cons.IH [OF _ es, of out'] show ?thesis by simp
    qed
  next
    case 3
    with Cons.prems have "\<forall>e\<in>set (e # out). plain_elem e" by simp
    from Cons.IH [OF this es] 3 show ?thesis by (simp add: plain_elem_def)
  qed
qed

lemma clean_elems_plain_id:
  "\<forall>e\<in>set es. plain_elem e \<Longrightarrow> clean_elems r out es = rev out @ es"
  by (induction es arbitrary: out) (auto simp: plain_elem_def)

lemma path_elems_abs_plain: "is_abs p \<Longrightarrow> \<forall>e\<in>set (path_elems p). plain_elem e"
  using clean_elems_rooted_plain [of "[]" "split_on sep p"] split_on_no_sep [of _ sep p]
  by (simp add: path_elems_def)

lemma is_abs_abs_path [simp]: "is_abs (abs_path es)"
  by (simp add: is_abs_def abs_path_def has_prefix_def sep_def)

lemma split_abs_path:
  "\<forall>e\<in>set es. plain_elem e \<Longrightarrow> split_on sep (abs_path es) = [] # (if es = [] then [[]] else es)"
  by (auto simp: abs_path_def split_join plain_elem_def)

lemma path_elems_abs_path: "\<forall>e\<in>set es. plain_elem e \<Longrightarrow> path_elems (abs_path es) = es"
  by (simp add: path_elems_def split_abs_path clean_elems_plain_id)

lemma path_clean_abs_path: "\<forall>e\<in>set es. plain_elem e \<Longrightarrow> path_clean (abs_path es) = abs_path es"
  by (simp add: path_clean_def path_elems_abs_path)

lemma path_clean_abs: "is_abs p \<Longrightarrow> path_clean p = abs_path (path_elems p)"
  by (simp add: path_clean_def)

lemma path_clean_idem: "is_abs p \<Longrightarrow> path_clean (path_clean p) = path_clean p"
  using path_clean_abs_path [OF path_elems_abs_plain] by (simp add: path_clean_def [of p])

lemma path_elems_clean: "is_abs p \<Longrightarrow> path_elems (path_clean p) = path_elems p"
  by (simp add: path_clean_abs path_elems_abs_path path_elems_abs_plain)

lemma abs_path_inj:
  "\<forall>e\<in>set es. plain_elem e \<Longrightarrow> \<forall>e\<in>set fs. plain_elem e \<Longrightarrow> abs_path es = abs_path fs \<longleftrightarrow> es = fs"
  by (metis path_elems_abs_path)

lemma strip_common_append:
  "strip_common bs ts = (bs', ts') \<Longrightarrow>
   \<exists>cs. bs = cs @ bs' \<and> ts = cs @ ts' \<and> (bs' = [] \<or> ts' = [] \<or> hd bs' \<noteq> hd ts')"
proof (induction bs ts rule: strip_common.induct)
  case (1 b bs t ts)
  show ?case
  proof (cases "b = t")
    case True
    with 1 obtain cs where "bs = cs @ bs'" "ts = cs @ ts'"
      "bs' = [] \<or> ts' = [] \<or> hd bs' \<noteq> hd ts'" by auto
    with True show ?thesis by (intro exI [of _ "b # cs"]) simp
  next
    case False
    with 1 show ?thesis by (intro exI [of _ "[]"]) auto
  qed
qed auto

lemma join_dotdot_prefix:
  "bs \<noteq> [] \<Longrightarrow>
   (let r = join_with [sep] (replicate (length bs) ''..'' @ ts)
    in r = ''..'' \<or> has_prefix r (''..'' @ [sep]))"
proof -
  assume "bs \<noteq> []"
  then obtain n where n: "length bs = Suc n" by (cases bs) auto
  show ?thesis
    by (cases "replicate n ''..'' @ ts") (auto simp: n Let_def has_prefix_def)
qed

text \<open>
  A relative path that is neither \<open>.\<close>, \<open>..\<close> nor below \<open>..\<close> means that the target's
  elements properly extend the base's.
\<close>

lemma path_rel_below:
  assumes "is_abs base" "is_abs targ" "path_rel base targ = Some r"
    and "r \<noteq> ''.''" "r \<noteq> ''..''" "\<not> has_prefix r (''..'' @ [sep])"
  shows "\<exists>ts. ts \<noteq> [] \<and> path_elems targ = path_elems base @ ts"
proof -
  obtain bs ts where st: "strip_common (path_elems base) (path_elems targ) = (bs, ts)"
    by (cases "strip_common (path_elems base) (path_elems targ)")
  then obtain cs where cs: "path_elems base = cs @ bs" "path_elems targ = cs @ ts"
    using strip_common_append by blast
  have ne: "path_clean targ \<noteq> path_clean base"
    using assms by (auto simp: path_rel_def)
  with assms st have r: "r = join_with [sep] (replicate (length bs) ''..'' @ ts)"
    by (auto simp: path_rel_def split: if_splits)
  have "bs = []"
    using join_dotdot_prefix [of bs ts] assms r by (auto simp: Let_def)
  moreover have "ts \<noteq> []"
    using ne \<open>bs = []\<close> cs assms by (auto simp: path_clean_abs)
  ultimately show ?thesis using cs by auto
qed

lemma path_rel_extends:
  assumes "is_abs base" "is_abs targ" "path_elems targ = path_elems base @ ts" "ts \<noteq> []"
  shows "path_rel base targ = Some (join_with [sep] ts)"
proof -
  have "strip_common bs (bs @ ts) = ([], ts)" for bs :: "string list"
    by (induction bs) (cases ts; simp)+
  moreover have "path_clean targ \<noteq> path_clean base"
    using assms path_elems_abs_plain [of base] path_elems_abs_plain [of targ]
    by (simp add: path_clean_abs abs_path_inj)
  ultimately show ?thesis using assms by (simp add: path_rel_def)
qed

end
