(* ===== verification/Fair_Division.thy ===== *)
theory Fair_Division
  imports Go_Base
begin

text \<open>
  The contract of dividing a total over workers, which the scenario configuration
  (concurrency, conversation pools) and the evaluation datasets (question partitions)
  both promise: an integer share, the remainder going to the lower-indexed workers.
  The locale derives from it what the callers rely on: the shares add up to the total,
  differ by at most one, and grow with the total.
\<close>

locale fair_division =
  fixes share :: "int \<Rightarrow> int \<Rightarrow> int \<Rightarrow> int"
  assumes share_low: "0 \<le> t \<Longrightarrow> 1 \<le> n \<Longrightarrow> 0 \<le> w \<Longrightarrow> w < t mod n \<Longrightarrow> share t n w = t div n + 1"
    and share_high: "0 \<le> t \<Longrightarrow> 1 \<le> n \<Longrightarrow> t mod n \<le> w \<Longrightarrow> w < n \<Longrightarrow> share t n w = t div n"
begin

lemma share_eq:
  "0 \<le> t \<Longrightarrow> 1 \<le> n \<Longrightarrow> 0 \<le> w \<Longrightarrow> w < n \<Longrightarrow>
   share t n w = t div n + (if w < t mod n then 1 else 0)"
  by (simp add: share_low share_high)

lemma share_sum:
  assumes "0 \<le> t" "1 \<le> n"
  shows "(\<Sum>w\<leftarrow>[0..<nat n]. share t n (int w)) = t"
proof -
  have r: "0 \<le> t mod n" "t mod n < n" using assms by simp_all
  have "(\<Sum>w\<leftarrow>[0..<nat n]. share t n (int w)) =
        (\<Sum>w\<leftarrow>[0..<nat n]. t div n + (if w < nat (t mod n) then 1 else 0))"
    using assms by (intro arg_cong [where f = sum_list] map_cong refl) (auto simp: share_eq)
  also have "\<dots> = n * (t div n) + int (min (nat n) (nat (t mod n)))"
    using assms by (simp only: sum_list_addf sum_list_upt_const sum_list_upt_lt) simp
  also have "min (nat n) (nat (t mod n)) = nat (t mod n)" using r by (intro min_absorb2) simp
  also have "n * (t div n) + int (nat (t mod n)) = t" using r by simp
  finally show ?thesis .
qed

lemma share_fair:
  assumes "0 \<le> t" "1 \<le> n" "0 \<le> w" "w < n" "0 \<le> v" "v < n"
  shows "\<bar>share t n w - share t n v\<bar> \<le> 1"
  using assms by (simp add: share_eq)

lemma share_lower_index_first:
  assumes "0 \<le> t" "1 \<le> n" "0 \<le> w" "w \<le> v" "v < n"
  shows "share t n v \<le> share t n w"
  using assms by (simp add: share_eq)

lemma share_mono:
  assumes "0 \<le> s" "s \<le> t" "1 \<le> n" "0 \<le> w" "w < n"
  shows "share s n w \<le> share t n w"
proof -
  have le: "s div n \<le> t div n" using assms by (simp add: zdiv_mono1)
  show ?thesis
  proof (cases "s div n = t div n")
    case True
    moreover have "s = n * (s div n) + s mod n" "t = n * (t div n) + t mod n" by simp_all
    ultimately have "s mod n \<le> t mod n" using assms(2) by (metis add_le_cancel_left)
    with True assms show ?thesis by (simp add: share_eq)
  next
    case False
    with le assms show ?thesis by (simp add: share_eq)
  qed
qed

lemma share_nonneg: "0 \<le> t \<Longrightarrow> 1 \<le> n \<Longrightarrow> 0 \<le> w \<Longrightarrow> w < n \<Longrightarrow> 0 \<le> share t n w"
  by (simp add: share_eq pos_imp_zdiv_nonneg_iff)

lemma share_le_total:
  assumes "0 \<le> t" "1 \<le> n" "0 \<le> w" "w < n"
  shows "share t n w \<le> t"
proof -
  define q r where "q = t div n" and "r = t mod n"
  have t: "t = n * q + r" by (simp add: q_def r_def)
  have q: "0 \<le> q" and r: "0 \<le> r" using assms by (simp_all add: q_def r_def pos_imp_zdiv_nonneg_iff)
  have "1 * q \<le> n * q" using assms(2) q by (rule mult_right_mono)
  moreover have "share t n w = q + (if w < r then 1 else 0)"
    using share_eq [OF assms] by (simp add: q_def r_def)
  ultimately show ?thesis using t r assms(3) by auto
qed

lemma share_ceil:
  assumes "0 \<le> t" "1 \<le> n" "0 \<le> w" "w < n" "t \<le> n * k"
  shows "share t n w \<le> k"
proof -
  define q r where "q = t div n" and "r = t mod n"
  have t: "t = n * q + r" by (simp add: q_def r_def)
  have "t div n \<le> (n * k) div n" using assms by (intro zdiv_mono1) auto
  then have qk: "q \<le> k" using assms by (simp add: q_def)
  moreover have "q \<noteq> k" if "0 < r" using that t assms(5) by auto
  moreover have "share t n w = q + (if w < r then 1 else 0)"
    using share_eq [OF assms(1-4)] by (simp add: q_def r_def)
  ultimately show ?thesis using assms(3) by auto
qed

end

end
