(* ===== verification/Config.thy ===== *)
theory Config
  imports Go_Float Go_Path Fair_Division
begin

text \<open>
  Package \<open>config\<close> (\<open>config.go\<close>, \<open>scenario.go\<close>): the JSON or YAML configuration, the
  scenario it is converted to, validation, and the division of load over workers.

  Parsers that are not part of the program's own logic (\<open>encoding/json\<close> decoding into a
  struct, \<open>sigs.k8s.io/yaml\<close>, the Starlark interpreter, the file system) are
  arguments of \<open>Parse\<close> and \<open>ParseScenarioIR\<close>. Struct fields keep the source's order;
  their names carry a prefix because record fields are global names here.
\<close>

section \<open>Data\<close>

record cache_salt =
  salt_mode :: string
  salt_value :: string

record workload =
  wl_type :: string
  wl_name :: string
  wl_isl :: int
  wl_subsequent_isl :: "int option"
  wl_osl :: int
  wl_turns :: int
  wl_corpus_path :: string
  wl_gsm8k_path :: string
  wl_gsm8k_train_path :: string
  wl_num_fewshot :: "int option"
  wl_gpqa_path :: string
  wl_chars_per_token :: f64
  wl_cache_salt :: "cache_salt option"

record load_config =
  load_mode :: string
  load_concurrency :: int
  load_pool_size :: int
  load_rate :: f64
  load_max_inflight :: int
  load_rampup :: duration
  load_duration :: duration

record config_stage =
  cs_concurrency :: int
  cs_pool_size :: int
  cs_duration :: duration
  cs_max_requests :: int

record sweep =
  sweep_min :: int
  sweep_max :: int
  sweep_steps :: int
  sweep_step_duration :: duration

record warmup_config =
  wu_duration :: duration
  wu_stagger :: bool

record config =
  cfg_load :: load_config
  cfg_stages :: "config_stage list"
  cfg_sweep :: "sweep option"
  cfg_warmup :: "warmup_config option"
  cfg_workload :: workload

record congestion_condition =
  cc_waiting_requests_p50 :: f64
  cc_ttft_p99 :: duration
  cc_kv_cache_usage :: f64
  cc_preemptions :: f64

record scenario_stage =
  ss_name :: string
  ss_duration :: duration
  ss_mode :: string
  ss_concurrency :: int
  ss_pool_size :: int
  ss_rate :: f64
  ss_max_inflight :: int
  ss_rampup :: duration
  ss_workload :: "workload option"
  ss_target :: string
  ss_model :: string
  ss_max_requests :: int
  ss_warmup :: bool
  ss_barrier :: bool
  ss_barrier_drain :: bool
  ss_stop_when :: "congestion_condition option"

record sync_config =
  sync_workers :: int
  sync_timeout :: duration
  sync_port :: int
  sync_addr :: string

record scenario_config =
  sc_target :: string
  sc_model :: string
  sc_workload :: workload
  sc_stages :: "scenario_stage list"
  sc_sync :: "sync_config option"
  sc_workers :: int
  sc_worker_id :: int

text \<open>Zero values of the structs, as Go initialises fields a literal leaves out.\<close>

definition zero_workload :: workload where
  "zero_workload = \<lparr>wl_type = [], wl_name = [], wl_isl = 0, wl_subsequent_isl = None, wl_osl = 0,
     wl_turns = 0, wl_corpus_path = [], wl_gsm8k_path = [], wl_gsm8k_train_path = [],
     wl_num_fewshot = None, wl_gpqa_path = [], wl_chars_per_token = Fin 0, wl_cache_salt = None\<rparr>"

definition zero_stage :: scenario_stage where
  "zero_stage = \<lparr>ss_name = [], ss_duration = 0, ss_mode = [], ss_concurrency = 0, ss_pool_size = 0,
     ss_rate = Fin 0, ss_max_inflight = 0, ss_rampup = 0, ss_workload = None, ss_target = [],
     ss_model = [], ss_max_requests = 0, ss_warmup = False, ss_barrier = False,
     ss_barrier_drain = False, ss_stop_when = None\<rparr>"

definition zero_scenario :: scenario_config where
  "zero_scenario = \<lparr>sc_target = [], sc_model = [], sc_workload = zero_workload, sc_stages = [],
     sc_sync = None, sc_workers = 0, sc_worker_id = 0\<rparr>"

datatype config_error =
    ReadingConfigFile string
  | ParsingYAML
  | ParsingJSON
  | StarlarkError
  | ScenarioIRSize
  | DecodingScenarioIR
  | MultipleJSONValues
  | UnknownMode nat string
  | RateNotFinite nat
  | PoolSmallerThanConcurrency nat int int
  | WorkersNotInteger string
  | WorkersNotPositive int

section \<open>Reading a configuration\<close>

datatype data_format = FormatJSON | FormatYAML

definition hasYAMLDocumentMarker :: "string \<Rightarrow> bool" where
  "hasYAMLDocumentMarker input =
     (if input = ''---'' then True
      else if length input < 4 \<or> take 3 input \<noteq> ''---'' then False
      else char_code (input ! 3) \<in> {10, 13, 32, 9})"

definition looks_like_json :: "string \<Rightarrow> bool" where
  "looks_like_json s \<longleftrightarrow> has_prefix s ''{'' \<or> has_prefix s ''[''"

definition loadConfigData ::
    "(string \<Rightarrow> string option) \<Rightarrow> string \<Rightarrow> (config_error, string \<times> data_format) result" where
  "loadConfigData read_file input =
     (if looks_like_json input then Inr (input, FormatJSON)
      else if hasYAMLDocumentMarker input then Inr (input, FormatYAML)
      else case read_file input of
        None \<Rightarrow> Inl (ReadingConfigFile input)
      | Some data \<Rightarrow>
          (let ext = to_lower (path_ext input)
           in if ext = ''.json'' then Inr (data, FormatJSON)
              else if ext = ''.yaml'' \<or> ext = ''.yml'' then Inr (data, FormatYAML)
              else if looks_like_json (trim_space data) then Inr (data, FormatJSON)
              else Inr (data, FormatYAML)))"

definition default_config :: config where
  "default_config = \<lparr>
     cfg_load = \<lparr>load_mode = ''concurrent'', load_concurrency = 10, load_pool_size = 0,
       load_rate = Fin 10, load_max_inflight = 0, load_rampup = 0, load_duration = 60 * second\<rparr>,
     cfg_stages = [], cfg_sweep = None, cfg_warmup = None,
     cfg_workload = zero_workload\<lparr>wl_type := ''faker'', wl_isl := 128, wl_osl := 256, wl_turns := 1\<rparr>\<rparr>"

definition parseDataConfig ::
    "(string \<Rightarrow> string option) \<Rightarrow> (string \<Rightarrow> config \<Rightarrow> config option) \<Rightarrow>
     (string \<Rightarrow> config \<Rightarrow> config option) \<Rightarrow> string \<Rightarrow> (config_error, config) result" where
  "parseDataConfig read_file yaml_unmarshal json_unmarshal input =
     res_bind (loadConfigData read_file input) (\<lambda>(data, format).
       case format of
         FormatYAML \<Rightarrow> (case yaml_unmarshal data default_config of
                          None \<Rightarrow> Inl ParsingYAML | Some c \<Rightarrow> Inr c)
       | FormatJSON \<Rightarrow> (case json_unmarshal data default_config of
                          None \<Rightarrow> Inl ParsingJSON | Some c \<Rightarrow> Inr c))"

section \<open>Stages of a configuration\<close>

definition SweepStage :: "int \<Rightarrow> int \<Rightarrow> int \<Rightarrow> duration \<Rightarrow> int \<Rightarrow> config_stage" where
  "SweepStage minC maxC steps d i =
     (let c = wrap64 (minC + tdiv (wrap64 (wrap64 (maxC - minC) * i)) (steps - 1));
          c' = (if c < 1 then 1 else c)
      in \<lparr>cs_concurrency = c', cs_pool_size = 0, cs_duration = d, cs_max_requests = 0\<rparr>)"

definition SweepStages :: "int \<Rightarrow> int \<Rightarrow> int \<Rightarrow> duration \<Rightarrow> config_stage list" where
  "SweepStages minC maxC steps d =
     (if steps < 2
      then [\<lparr>cs_concurrency = maxC, cs_pool_size = 0, cs_duration = d, cs_max_requests = 0\<rparr>]
      else map (\<lambda>i. SweepStage minC maxC steps d (int i)) [0..<nat steps])"

definition EffectiveStages :: "config \<Rightarrow> config_stage list" where
  "EffectiveStages c =
     (case cfg_sweep c of
        Some s \<Rightarrow> SweepStages (sweep_min s) (sweep_max s) (sweep_steps s) (sweep_step_duration s)
      | None \<Rightarrow>
          if cfg_stages c \<noteq> [] then cfg_stages c
          else [\<lparr>cs_concurrency = load_concurrency (cfg_load c),
                 cs_pool_size = load_pool_size (cfg_load c),
                 cs_duration = load_duration (cfg_load c), cs_max_requests = 0\<rparr>])"

definition warmup_stage :: "config \<Rightarrow> config_stage list \<Rightarrow> warmup_config \<Rightarrow> scenario_stage" where
  "warmup_stage c effective w =
     zero_stage\<lparr>
       ss_name := ''warmup'',
       ss_duration := wu_duration w,
       ss_mode := load_mode (cfg_load c),
       ss_concurrency := (case effective of [] \<Rightarrow> 0 | s # _ \<Rightarrow> cs_concurrency s),
       ss_pool_size := (case effective of
           [] \<Rightarrow> load_pool_size (cfg_load c)
         | s # _ \<Rightarrow> if 0 < cs_pool_size s then cs_pool_size s else load_pool_size (cfg_load c)),
       ss_rampup := (if wu_stagger w then wu_duration w else 0),
       ss_warmup := True\<rparr>"

definition measured_stage :: "config \<Rightarrow> config_stage \<Rightarrow> scenario_stage" where
  "measured_stage c s =
     zero_stage\<lparr>
       ss_duration := cs_duration s,
       ss_mode := load_mode (cfg_load c),
       ss_concurrency := cs_concurrency s,
       ss_pool_size := (if cs_pool_size s = 0 then load_pool_size (cfg_load c) else cs_pool_size s),
       ss_rate := load_rate (cfg_load c),
       ss_max_inflight := load_max_inflight (cfg_load c),
       ss_max_requests := cs_max_requests s,
       ss_rampup := load_rampup (cfg_load c)\<rparr>"

definition ToScenarioConfig :: "config \<Rightarrow> scenario_config" where
  "ToScenarioConfig c =
     (let effective = EffectiveStages c;
          wu = (case cfg_warmup c of
                  None \<Rightarrow> []
                | Some w \<Rightarrow> if 0 < wu_duration w then [warmup_stage c effective w] else [])
      in zero_scenario\<lparr>sc_workload := cfg_workload c,
           sc_stages := wu @ map (measured_stage c) effective\<rparr>)"

section \<open>Validation\<close>

definition valid_modes :: "string list" where
  "valid_modes = ['''', ''concurrent'', ''conversation_pool'', ''constant'', ''poisson'']"

text \<open>The body of the loop of \<open>ScenarioConfig.Validate\<close>: the checks of stage \<open>i\<close>, and the stage as
  the loop leaves it.\<close>

definition validate_stage :: "nat \<Rightarrow> scenario_stage \<Rightarrow> (config_error, scenario_stage) result" where
  "validate_stage i s =
     (if ss_barrier s then Inr s
      else if ss_mode s \<notin> set valid_modes then Inl (UnknownMode i (ss_mode s))
      else if is_nan (ss_rate s) \<or> is_inf (ss_rate s) then Inl (RateNotFinite i)
      else if ss_mode s = ''conversation_pool'' then
        (if ss_pool_size s = 0 then Inr (s\<lparr>ss_pool_size := ss_concurrency s\<rparr>)
         else if ss_pool_size s < ss_concurrency s
         then Inl (PoolSmallerThanConcurrency i (ss_pool_size s) (ss_concurrency s))
         else Inr s)
      else Inr s)"

fun validate_stages ::
    "nat \<Rightarrow> scenario_stage list \<Rightarrow> (config_error, scenario_stage list) result" where
  "validate_stages i [] = Inr []"
| "validate_stages i (s # ss) =
     res_bind (validate_stage i s) (\<lambda>s'. res_bind (validate_stages (Suc i) ss) (\<lambda>ss'. Inr (s' # ss')))"

definition Validate :: "scenario_config \<Rightarrow> (config_error, scenario_config) result" where
  "Validate sc = res_bind (validate_stages 0 (sc_stages sc)) (\<lambda>ss. Inr (sc\<lparr>sc_stages := ss\<rparr>))"

definition Parse ::
    "(string \<Rightarrow> string option) \<Rightarrow> (string \<Rightarrow> config \<Rightarrow> config option) \<Rightarrow>
     (string \<Rightarrow> config \<Rightarrow> config option) \<Rightarrow> (string \<Rightarrow> scenario_config option) \<Rightarrow>
     string \<Rightarrow> (config_error, scenario_config) result" where
  "Parse read_file yaml_unmarshal json_unmarshal parse_starlark input0 =
     (let input = trim_space input0
      in if equal_fold (path_ext input) ''.star''
         then (case parse_starlark input of None \<Rightarrow> Inl StarlarkError | Some sc \<Rightarrow> Inr sc)
         else res_bind (parseDataConfig read_file yaml_unmarshal json_unmarshal input)
                (\<lambda>c. Validate (ToScenarioConfig c)))"

definition MaxScenarioInputBytes :: int where "MaxScenarioInputBytes = 65536"
definition MaxScenarioStages :: int where "MaxScenarioStages = 128"

text \<open>\<open>decode\<close> reads one strict JSON value and gives the rest of the input; \<open>None\<close> is its error.
  The second \<open>Decode\<close> must report end of file.\<close>

datatype 'a decoded = DecodeError | DecodeEOF | Decoded 'a string

definition ParseScenarioIR ::
    "(string \<Rightarrow> scenario_config decoded) \<Rightarrow> (string \<Rightarrow> unit decoded) \<Rightarrow> string \<Rightarrow>
     (config_error, scenario_config) result" where
  "ParseScenarioIR decode decode_empty input =
     (if length input = 0 \<or> MaxScenarioInputBytes < int (length input) then Inl ScenarioIRSize
      else case decode input of
        Decoded scenario rest \<Rightarrow>
          (case decode_empty rest of
             DecodeEOF \<Rightarrow> Validate scenario
           | Decoded _ _ \<Rightarrow> Inl MultipleJSONValues
           | DecodeError \<Rightarrow> Inl DecodingScenarioIR)
      | _ \<Rightarrow> Inl DecodingScenarioIR)"

section \<open>Dividing the load\<close>

definition DivideConcurrency :: "int \<Rightarrow> int \<Rightarrow> int \<Rightarrow> int" where
  "DivideConcurrency tot nWorkers workerID =
     (if nWorkers \<le> 1 then tot
      else let base = tdiv tot nWorkers
           in if workerID < tmod tot nWorkers then base + 1 else base)"

definition DivideRate :: "rat \<Rightarrow> int \<Rightarrow> rat" where
  "DivideRate tot nWorkers =
     (if nWorkers \<le> 1 then tot else fdiv tot (f64_of_int nWorkers))"

definition MaxConcurrency :: "scenario_config \<Rightarrow> int" where
  "MaxConcurrency sc =
     fold (\<lambda>s highest. if highest < ss_concurrency s then ss_concurrency s else highest) (sc_stages sc) 0"

definition ResolveWorkers :: "string \<Rightarrow> int \<Rightarrow> (config_error, int) result" where
  "ResolveWorkers flag maxConcurrency =
     (if flag = ''auto'' then
        (if maxConcurrency \<le> 0 then Inr 1 else Inr (tdiv (wrap64 (maxConcurrency + 1023)) 1024))
      else case atoi flag of
        None \<Rightarrow> Inl (WorkersNotInteger flag)
      | Some n \<Rightarrow> if n < 1 then Inl (WorkersNotPositive n) else Inr n)"

definition InsertImplicitBarrier :: "scenario_config \<Rightarrow> scenario_config" where
  "InsertImplicitBarrier sc =
     (case sc_stages sc of
        [] \<Rightarrow> sc
      | s # ss \<Rightarrow> if ss_barrier s then sc
                  else sc\<lparr>sc_stages := zero_stage\<lparr>ss_barrier := True\<rparr> # s # ss\<rparr>)"

section \<open>Facts about validation\<close>

text \<open>What \<open>Validate\<close> establishes of a stage; the load generator and the control API rely on it.\<close>

definition stage_ok :: "scenario_stage \<Rightarrow> bool" where
  "stage_ok s \<longleftrightarrow> ss_barrier s \<or>
     (ss_mode s \<in> set valid_modes \<and> f64_finite (ss_rate s) \<and>
      (ss_mode s = ''conversation_pool'' \<longrightarrow> ss_concurrency s \<le> ss_pool_size s))"

definition normalize_stage :: "scenario_stage \<Rightarrow> scenario_stage" where
  "normalize_stage s =
     (if \<not> ss_barrier s \<and> ss_mode s = ''conversation_pool'' \<and> ss_pool_size s = 0
      then s\<lparr>ss_pool_size := ss_concurrency s\<rparr> else s)"

lemma validate_stage_Inr: "validate_stage i s = Inr s' \<Longrightarrow> s' = normalize_stage s \<and> stage_ok s'"
  by (auto simp: validate_stage_def normalize_stage_def stage_ok_def f64_finite_def split: if_splits)

lemma validate_stage_ok: "stage_ok s \<Longrightarrow> validate_stage i s = Inr (normalize_stage s)"
  by (auto simp: validate_stage_def normalize_stage_def stage_ok_def f64_finite_def)

lemma validate_stages_Inr:
  "validate_stages i ss = Inr ss' \<Longrightarrow> ss' = map normalize_stage ss \<and> list_all stage_ok ss'"
  by (induction ss arbitrary: i ss') (auto simp: res_bind_Inr_iff dest!: validate_stage_Inr)

lemma validate_stages_ok: "list_all stage_ok ss \<Longrightarrow> validate_stages i ss = Inr (map normalize_stage ss)"
  by (induction ss arbitrary: i) (simp_all add: validate_stage_ok)

lemma normalize_stage_idem [simp]: "normalize_stage (normalize_stage s) = normalize_stage s"
  by (auto simp: normalize_stage_def)

lemma Validate_Inr:
  "Validate sc = Inr sc' \<Longrightarrow>
   sc' = sc\<lparr>sc_stages := map normalize_stage (sc_stages sc)\<rparr> \<and> list_all stage_ok (sc_stages sc')"
  using validate_stages_Inr [of 0 "sc_stages sc"] by (auto simp: Validate_def res_bind_Inr_iff)

section \<open>Facts about dividing load\<close>

interpretation dc: fair_division DivideConcurrency
proof
  fix t n w :: int
  assume "0 \<le> t" "1 \<le> n" "0 \<le> w" "w < t mod n"
  moreover from this have "1 < n" by (cases "n = 1") auto
  ultimately show "DivideConcurrency t n w = t div n + 1"
    by (simp add: DivideConcurrency_def Let_def tdiv_nonneg tmod_nonneg)
next
  fix t n w :: int
  assume "0 \<le> t" "1 \<le> n" "t mod n \<le> w" "w < n"
  then show "DivideConcurrency t n w = t div n"
    by (cases "n = 1") (simp_all add: DivideConcurrency_def Let_def tdiv_nonneg tmod_nonneg)
qed

lemma MaxConcurrency_fold:
  "let h = fold (\<lambda>s highest. if highest < ss_concurrency s then ss_concurrency s else highest) ss m
   in m \<le> h \<and> (\<forall>s\<in>set ss. ss_concurrency s \<le> h) \<and> (h = m \<or> (\<exists>s\<in>set ss. ss_concurrency s = h))"
proof (induction ss arbitrary: m)
  case (Cons s ss)
  show ?case
    using Cons.IH [of "if m < ss_concurrency s then ss_concurrency s else m"]
    by (auto simp: Let_def split: if_splits)
qed simp

lemma MaxConcurrency_ge: "s \<in> set (sc_stages sc) \<Longrightarrow> ss_concurrency s \<le> MaxConcurrency sc"
  using MaxConcurrency_fold [where ss = "sc_stages sc" and m = 0] by (simp add: MaxConcurrency_def Let_def)

section \<open>Facts about sweeps\<close>

lemma SweepStages_length: "length (SweepStages a b n d) = (if n < 2 then 1 else nat n)"
  by (simp add: SweepStages_def)

lemma EffectiveStages_nonempty: "EffectiveStages c \<noteq> []"
proof -
  have "SweepStages a b n d \<noteq> []" for a b n d
    using SweepStages_length [of a b n d] by (auto simp del: length_0_conv simp flip: length_greater_0_conv)
  then show ?thesis by (auto simp: EffectiveStages_def split: option.splits)
qed

text \<open>No intermediate value of the sweep leaves 64 bits when limits and steps are below \<open>2 ^ 31\<close>.\<close>

lemma SweepStage_exact:
  assumes "0 \<le> a" "a \<le> b" "b < 2 ^ 31" "2 \<le> n" "n \<le> 2 ^ 31" "0 \<le> i" "i < n"
  shows "cs_concurrency (SweepStage a b n d i) = max 1 (a + (b - a) * i div (n - 1))"
proof -
  have p: "0 \<le> (b - a) * i" using assms by simp
  have "(b - a) * i \<le> 2 ^ 31 * 2 ^ 31" using assms by (intro mult_mono) auto
  then have w1: "in64 ((b - a) * i)" using p by (simp add: in64_def)
  have w0: "in64 (b - a)" using assms by (simp add: in64_def)
  have "(b - a) * i \<le> (b - a) * (n - 1)" using assms by (intro mult_left_mono) auto
  then have "(b - a) * i div (n - 1) \<le> (b - a) * (n - 1) div (n - 1)"
    using assms by (intro zdiv_mono1) auto
  then have q: "(b - a) * i div (n - 1) \<le> b - a" using assms by simp
  moreover have "0 \<le> (b - a) * i div (n - 1)" using p assms by (simp add: pos_imp_zdiv_nonneg_iff)
  ultimately have w2: "in64 (a + (b - a) * i div (n - 1))" using assms by (simp add: in64_def)
  show ?thesis
    using assms w0 w1 w2 p by (simp add: SweepStage_def Let_def tdiv_nonneg max_def)
qed

section \<open>Properties\<close>

definition stage_acceptable :: "scenario_stage \<Rightarrow> bool" where
  "stage_acceptable s \<longleftrightarrow> ss_barrier s \<or>
     (ss_mode s \<in> {'''', ''concurrent'', ''conversation_pool'', ''constant'', ''poisson''} \<and>
      (\<exists>r. ss_rate s = Fin r) \<and>
      (ss_mode s \<noteq> ''conversation_pool'' \<or> ss_pool_size s = 0 \<or> ss_concurrency s \<le> ss_pool_size s))"

lemma is_ok_validate_stages: "is_ok (validate_stages i ss) \<longleftrightarrow> list_all stage_acceptable ss"
proof (induction ss arbitrary: i)
  case (Cons s ss)
  have "is_ok (validate_stage i s) \<longleftrightarrow> stage_acceptable s"
    by (cases "ss_rate s")
       (auto simp: validate_stage_def stage_acceptable_def valid_modes_def is_nan_def is_inf_def)
  then show ?case
    using Cons.IH [of "Suc i"] by (auto simp: is_ok_res_bind is_ok_iff res_bind_Inr_iff)
qed simp

text \<open>
  Property C25. The shares of \<open>DivideConcurrency\<close> over the workers add up to the configured total, any
  two workers' shares differ by at most one, and a lower-indexed worker never gets less.
\<close>

theorem divide_concurrency_exact_and_fair:
  assumes "0 \<le> t" and "1 \<le> n"
  shows "(\<Sum>w\<leftarrow>[0..<nat n]. DivideConcurrency t n (int w)) = t \<and>
         (\<forall>w v. 0 \<le> w \<and> w \<le> v \<and> v < n \<longrightarrow>
           DivideConcurrency t n v \<le> DivideConcurrency t n w \<and>
           DivideConcurrency t n w \<le> DivideConcurrency t n v + 1)"
proof (intro conjI allI impI)
  show "(\<Sum>w\<leftarrow>[0..<nat n]. DivideConcurrency t n (int w)) = t"
    using assms by (rule dc.share_sum)
next
  fix w v assume wv: "0 \<le> w \<and> w \<le> v \<and> v < n"
  show "DivideConcurrency t n v \<le> DivideConcurrency t n w"
    using assms wv by (intro dc.share_lower_index_first) auto
  show "DivideConcurrency t n w \<le> DivideConcurrency t n v + 1"
    using dc.share_fair [OF assms, of w v] wv by linarith
qed

theorem divide_concurrency_exact_and_fair_witness:
  "map (\<lambda>w. DivideConcurrency 10 3 w) [0, 1, 2] = [4, 3, 3] \<and>
   (\<Sum>w\<leftarrow>[0..<nat 3]. DivideConcurrency 10 3 (int w)) = 10"
  using divide_concurrency_exact_and_fair [of 10 3]
  by (simp add: DivideConcurrency_def tdiv_def tmod_def)

text \<open>
  In a validated scenario every conversation-pool stage still has at least as many
  conversations as running requests on each worker after both are divided: no worker's
  hot concurrency exceeds its share of the pool.
\<close>

theorem divided_pool_covers_concurrency:
  assumes "Validate sc = Inr sc'" and "s \<in> set (sc_stages sc')"
    and "\<not> ss_barrier s" and "ss_mode s = ''conversation_pool''" and "0 \<le> ss_concurrency s"
    and "1 \<le> n" and "0 \<le> w" and "w < n"
  shows "DivideConcurrency (ss_concurrency s) n w \<le> DivideConcurrency (ss_pool_size s) n w"
proof -
  have "stage_ok s" using Validate_Inr [OF assms(1)] assms(2) by (auto simp: list_all_iff)
  then have "ss_concurrency s \<le> ss_pool_size s" using assms(3,4) by (auto simp: stage_ok_def)
  with assms(5-8) show ?thesis by (intro dc.share_mono)
qed

theorem divided_pool_covers_concurrency_witness:
  "\<exists>sc'. Validate (zero_scenario\<lparr>sc_stages := [zero_stage\<lparr>ss_mode := ''conversation_pool'',
       ss_concurrency := 5, ss_pool_size := 7\<rparr>]\<rparr>) = Inr sc' \<and>
     DivideConcurrency (ss_concurrency (hd (sc_stages sc'))) 3 1
       \<le> DivideConcurrency (ss_pool_size (hd (sc_stages sc'))) 3 1 \<and>
     DivideConcurrency 5 3 1 = 2"
proof -
  let ?s = "zero_stage\<lparr>ss_mode := ''conversation_pool'', ss_concurrency := 5, ss_pool_size := 7\<rparr>"
  let ?sc = "zero_scenario\<lparr>sc_stages := [?s]\<rparr>"
  have v: "Validate ?sc = Inr ?sc"
    by (simp add: Validate_def validate_stage_def zero_stage_def zero_scenario_def valid_modes_def
                  is_nan_def is_inf_def)
  have "DivideConcurrency (ss_concurrency ?s) 3 1 \<le> DivideConcurrency (ss_pool_size ?s) 3 1"
    by (rule divided_pool_covers_concurrency [OF v]) (simp_all add: zero_stage_def)
  moreover have "DivideConcurrency 5 3 1 = 2" by (simp add: DivideConcurrency_def tdiv_def tmod_def)
  ultimately show ?thesis using v by (intro exI [of _ ?sc]) (simp add: zero_scenario_def)
qed

text \<open>
  \<open>Validate\<close> accepts a scenario exactly when every stage that is not a barrier has a known
  mode, a finite rate and, in conversation-pool mode, an unset pool size or one that
  is at least the concurrency; and a scenario it returns validates again unchanged.
\<close>

theorem validate_accepts_exactly:
  "((\<exists>sc'. Validate sc = Inr sc') \<longleftrightarrow> list_all stage_acceptable (sc_stages sc)) \<and>
   (\<forall>sc'. Validate sc = Inr sc' \<longrightarrow> Validate sc' = Inr sc')"
proof (intro conjI allI impI)
  show "(\<exists>sc'. Validate sc = Inr sc') \<longleftrightarrow> list_all stage_acceptable (sc_stages sc)"
    using is_ok_validate_stages [of 0 "sc_stages sc"] by (auto simp: Validate_def res_bind_Inr_iff is_ok_iff)
next
  fix sc' assume "Validate sc = Inr sc'"
  from Validate_Inr [OF this] validate_stages_ok [of "sc_stages sc'" 0]
  show "Validate sc' = Inr sc'" by (auto simp: Validate_def o_def)
qed

theorem validate_accepts_exactly_witness:
  "\<exists>sc'. Validate (zero_scenario\<lparr>sc_stages := [zero_stage\<lparr>ss_mode := ''conversation_pool'',
       ss_concurrency := 4\<rparr>]\<rparr>) = Inr sc' \<and> Validate sc' = Inr sc' \<and>
     map ss_pool_size (sc_stages sc') = [4]"
proof -
  let ?s = "zero_stage\<lparr>ss_mode := ''conversation_pool'', ss_concurrency := 4\<rparr>"
  let ?sc' = "zero_scenario\<lparr>sc_stages := [?s\<lparr>ss_pool_size := 4\<rparr>]\<rparr>"
  have v: "Validate (zero_scenario\<lparr>sc_stages := [?s]\<rparr>) = Inr ?sc'"
    by (simp add: Validate_def validate_stage_def zero_stage_def zero_scenario_def valid_modes_def
                  is_nan_def is_inf_def)
  with validate_accepts_exactly show ?thesis
    by (intro exI [of _ ?sc']) (auto simp: zero_scenario_def)
qed

text \<open>
  A sweep of at least two steps between limits that fit 31 bits has exactly the requested
  number of stages, starts at the minimum (at least one), ends at the maximum, never decreases
  and stays within the limits; no 64-bit operation in it wraps.
\<close>

theorem sweep_stages_ramp:
  assumes "0 \<le> a" "a \<le> b" "1 \<le> b" "b < 2 ^ 31" "2 \<le> n" "n \<le> 2 ^ 31"
  shows "length (SweepStages a b n d) = nat n \<and>
     cs_concurrency (hd (SweepStages a b n d)) = max 1 a \<and>
     cs_concurrency (last (SweepStages a b n d)) = b \<and>
     sorted (map cs_concurrency (SweepStages a b n d)) \<and>
     (\<forall>s\<in>set (SweepStages a b n d).
        max 1 a \<le> cs_concurrency s \<and> cs_concurrency s \<le> b \<and> cs_duration s = d)"
proof (intro conjI)
  let ?f = "\<lambda>i. max 1 (a + (b - a) * int i div (n - 1))"
  have st: "SweepStages a b n d = map (\<lambda>i. SweepStage a b n d (int i)) [0..<nat n]"
    using assms by (simp add: SweepStages_def)
  have conc: "cs_concurrency (SweepStage a b n d (int i)) = ?f i" if "i < nat n" for i
    using assms that by (intro SweepStage_exact) auto
  have mono: "?f i \<le> ?f j" if "i \<le> j" for i j
    using assms that by (intro max.mono order_refl add_left_mono zdiv_mono1 mult_left_mono) auto
  have f0: "?f 0 = max 1 a" by simp
  have fn: "?f (nat n - 1) = b" using assms by (simp add: of_nat_diff)
  show "length (SweepStages a b n d) = nat n" by (simp add: st)
  show "cs_concurrency (hd (SweepStages a b n d)) = max 1 a"
    using assms conc [of 0] f0 by (simp add: st hd_map)
  show "cs_concurrency (last (SweepStages a b n d)) = b"
    using assms conc [of "nat n - 1"] fn by (simp add: st last_map)
  have eq: "map cs_concurrency (SweepStages a b n d) = map ?f [0..<nat n]"
    unfolding st map_map by (rule map_cong) (use conc in auto)
  have "sorted (map ?f [0..<nat n])"
    by (rule sorted_iff_nth_mono [THEN iffD2]) (use mono in auto)
  with eq show "sorted (map cs_concurrency (SweepStages a b n d))" by simp
  have "max 1 a \<le> ?f i \<and> ?f i \<le> b" if "i < nat n" for i
    using mono [of 0 i] mono [of i "nat n - 1"] f0 fn that by simp
  then show "\<forall>s\<in>set (SweepStages a b n d).
        max 1 a \<le> cs_concurrency s \<and> cs_concurrency s \<le> b \<and> cs_duration s = d"
    using conc by (auto simp: st) (simp add: SweepStage_def Let_def)
qed

theorem sweep_stages_ramp_witness:
  "map cs_concurrency (SweepStages 10 100 4 second) = [10, 40, 70, 100] \<and>
   cs_concurrency (last (SweepStages 10 100 4 second)) = 100"
proof
  show "map cs_concurrency (SweepStages 10 100 4 second) = [10, 40, 70, 100]" by code_simp
  show "cs_concurrency (last (SweepStages 10 100 4 second)) = 100"
    using sweep_stages_ramp [of 10 100 4 second] by simp
qed

text \<open>
  With \<open>--workers auto\<close> every worker is given at most 1024 concurrent streams in every
  stage of the scenario, as the doc comment of \<open>ResolveWorkers\<close> says.
\<close>

theorem auto_workers_at_most_1024_streams:
  assumes "ResolveWorkers ''auto'' (MaxConcurrency sc) = Inr n" and "MaxConcurrency sc < 2 ^ 62"
    and "s \<in> set (sc_stages sc)" and "0 \<le> ss_concurrency s" and "0 \<le> w" and "w < n"
  shows "DivideConcurrency (ss_concurrency s) n w \<le> 1024"
proof (cases "MaxConcurrency sc \<le> 0")
  case True
  with assms MaxConcurrency_ge [OF assms(3)] show ?thesis
    by (simp add: ResolveWorkers_def DivideConcurrency_def)
next
  case False
  with assms(2) have w: "in64 (MaxConcurrency sc + 1023)" by (simp add: in64_def)
  with False assms(1) have n: "n = (MaxConcurrency sc + 1023) div 1024"
    by (simp add: ResolveWorkers_def tdiv_nonneg)
  have "MaxConcurrency sc \<le> n * 1024" unfolding n by linarith
  with MaxConcurrency_ge [OF assms(3)] assms show ?thesis
    by (intro dc.share_ceil) auto
qed

theorem auto_workers_at_most_1024_streams_witness:
  "ResolveWorkers ''auto'' 2049 = Inr 3 \<and> DivideConcurrency 2049 3 0 \<le> 1024"
proof -
  let ?s = "zero_stage\<lparr>ss_concurrency := 2049\<rparr>"
  let ?sc = "zero_scenario\<lparr>sc_stages := [?s]\<rparr>"
  have m: "MaxConcurrency ?sc = 2049" by (simp add: MaxConcurrency_def zero_stage_def)
  have r: "ResolveWorkers ''auto'' 2049 = Inr 3"
    by (simp add: ResolveWorkers_def wrap64_def tdiv_def)
  have "DivideConcurrency (ss_concurrency ?s) 3 0 \<le> 1024"
    by (rule auto_workers_at_most_1024_streams [of ?sc]) (simp_all add: m r)
  with r show ?thesis by simp
qed

text \<open>
  Converting a configuration yields its effective stages in order, each with the load's
  mode, rate and in-flight cap, preceded by one warmup stage exactly when a warmup of positive
  duration is configured. The warmup stage has the first stage's concurrency but the
  rate 0 and no in-flight cap.
\<close>

theorem to_scenario_config_stages:
  "\<exists>wu. sc_stages (ToScenarioConfig c) = wu @ map (measured_stage c) (EffectiveStages c) \<and>
     (wu = [] \<longleftrightarrow> \<not> (\<exists>w. cfg_warmup c = Some w \<and> 0 < wu_duration w)) \<and>
     length wu \<le> 1 \<and>
     (\<forall>s\<in>set wu. ss_warmup s \<and> ss_rate s = Fin 0 \<and> ss_max_inflight s = 0 \<and>
        ss_mode s = load_mode (cfg_load c) \<and>
        ss_concurrency s = cs_concurrency (hd (EffectiveStages c))) \<and>
     (\<forall>s\<in>set (map (measured_stage c) (EffectiveStages c)).
        \<not> ss_warmup s \<and> \<not> ss_barrier s \<and> ss_rate s = load_rate (cfg_load c) \<and>
        ss_mode s = load_mode (cfg_load c) \<and> ss_max_inflight s = load_max_inflight (cfg_load c))"
proof -
  have ne: "EffectiveStages c \<noteq> []" by (rule EffectiveStages_nonempty)
  show ?thesis
    using ne
    by (cases "EffectiveStages c")
       (auto simp: ToScenarioConfig_def Let_def warmup_stage_def measured_stage_def zero_stage_def
             zero_scenario_def split: option.splits)
qed

theorem to_scenario_config_stages_witness:
  "map ss_rate (sc_stages (ToScenarioConfig (default_config
       \<lparr>cfg_warmup := Some \<lparr>wu_duration = 5 * second, wu_stagger = True\<rparr>\<rparr>))) = [Fin 0, Fin 10]"
proof -
  let ?c = "default_config\<lparr>cfg_warmup := Some \<lparr>wu_duration = 5 * second, wu_stagger = True\<rparr>\<rparr>"
  have e: "length (EffectiveStages ?c) = 1"
    by (simp add: EffectiveStages_def default_config_def)
  obtain wu where wu: "sc_stages (ToScenarioConfig ?c) = wu @ map (measured_stage ?c) (EffectiveStages ?c)"
      "wu \<noteq> []" "length wu \<le> 1" "\<forall>s\<in>set wu. ss_rate s = Fin 0"
      "\<forall>s\<in>set (map (measured_stage ?c) (EffectiveStages ?c)). ss_rate s = Fin 10"
    using to_scenario_config_stages [of ?c] by (auto simp: second_def default_config_def)
  obtain u where u: "wu = [u]" using wu by (cases wu) auto
  obtain e where "EffectiveStages ?c = [e]" using e by (cases "EffectiveStages ?c") auto
  with wu u show ?thesis by simp
qed

text \<open>
  \<open>InsertImplicitBarrier\<close> puts a barrier in front of all stages, a warmup stage included,
  keeps every other stage, adds nothing when the scenario starts with a barrier or is empty,
  and is idempotent.
\<close>

theorem insert_implicit_barrier_first:
  "(sc_stages (InsertImplicitBarrier sc) = [] \<or> ss_barrier (hd (sc_stages (InsertImplicitBarrier sc)))) \<and>
   InsertImplicitBarrier (InsertImplicitBarrier sc) = InsertImplicitBarrier sc \<and>
   filter (\<lambda>s. \<not> ss_barrier s) (sc_stages (InsertImplicitBarrier sc)) =
     filter (\<lambda>s. \<not> ss_barrier s) (sc_stages sc) \<and>
   length (sc_stages (InsertImplicitBarrier sc)) =
     length (sc_stages sc) + (if sc_stages sc \<noteq> [] \<and> \<not> ss_barrier (hd (sc_stages sc)) then 1 else 0)"
  by (auto simp: InsertImplicitBarrier_def zero_stage_def split: list.splits)

end
