(* ===== verification/Barrier.thy ===== *)
theory Barrier
  imports Go_Base
begin

text \<open>
  Package \<open>barrier\<close>: the HTTP barrier server of the leader pod (\<open>server.go\<close>) and the client every
  worker runs (\<open>client.go\<close>).

  The server's handlers run concurrently. A handler is a request number with a program counter;
  each rule of \<open>barrier_step\<close> is one critical section (or one channel operation) of \<open>handleReady\<close>,
  so the relation contains every interleaving of the handlers. \<open>barrierState\<close> values are reached through
  pointers, because a handler keeps the pointer \<open>getBarrier\<close> gave it while another one deletes
  the map entry. Channels have capacity one: a send to a full channel blocks, so
  registering is enabled only when all sends succeed, and it is a theorem that it always is.
  The HTTP listener (\<open>ListenAndServe\<close>, \<open>Serve\<close>) is the environment that creates requests and
  cancels their contexts.
\<close>

section \<open>The server\<close>

type_synonym ptr = nat
type_synonym req_id = nat

record readyRequest =
  req_worker_id :: int
  req_barrier_id :: int

datatype response = BadRequest | Conflict | StartAt time | ServiceUnavailable

text \<open>The map \<open>ready\<close> from workers to channels lists its entries in the order they were added; a
  channel is named by the request that made it.\<close>

record barrierState =
  ready :: "(int \<times> req_id) list"

datatype pc =
    Idle
  | Decoded readyRequest
  | Resolved readyRequest ptr
  | Releasing int ptr
  | Waiting ptr
  | Responded response

record server =
  nWorkers :: nat
  barriers :: "int \<rightharpoonup> ptr"
  states :: "ptr \<Rightarrow> barrierState"
  next_ptr :: ptr
  chans :: "req_id \<Rightarrow> time list"
  pcs :: "req_id \<Rightarrow> pc"

definition NewServer :: "nat \<Rightarrow> server" where
  "NewServer n = \<lparr>nWorkers = n, barriers = (\<lambda>_. None), states = (\<lambda>_. \<lparr>ready = []\<rparr>),
     next_ptr = 0, chans = (\<lambda>_. []), pcs = (\<lambda>_. Idle)\<rparr>"

definition set_pc :: "req_id \<Rightarrow> pc \<Rightarrow> server \<Rightarrow> server" where
  "set_pc r p s = s\<lparr>pcs := (pcs s)(r := p)\<rparr>"

text \<open>A request arrives; its body decodes or it is answered with 400.\<close>

definition receive :: "req_id \<Rightarrow> readyRequest option \<Rightarrow> server \<Rightarrow> server option" where
  "receive r body s =
     (if pcs s r \<noteq> Idle then None
      else Some (set_pc r (case body of None \<Rightarrow> Responded BadRequest | Some q \<Rightarrow> Decoded q) s))"

definition getBarrier :: "int \<Rightarrow> server \<Rightarrow> ptr \<times> server" where
  "getBarrier bid s =
     (case barriers s bid of
        Some p \<Rightarrow> (p, s)
      | None \<Rightarrow> (next_ptr s, s\<lparr>barriers := (barriers s)(bid \<mapsto> next_ptr s),
                   states := (states s)(next_ptr s := \<lparr>ready = []\<rparr>), next_ptr := next_ptr s + 1\<rparr>))"

definition resolve :: "req_id \<Rightarrow> server \<Rightarrow> server option" where
  "resolve r s =
     (case pcs s r of
        Decoded q \<Rightarrow> (let (p, s') = getBarrier (req_barrier_id q) s in Some (set_pc r (Resolved q p) s'))
      | _ \<Rightarrow> None)"

text \<open>The section under \<open>b.mu\<close>: refuse a second registration, add the channel, and when the count
  reaches \<open>nWorkers\<close> send the start time to every registered channel.\<close>

definition broadcast :: "time \<Rightarrow> (int \<times> req_id) list \<Rightarrow> (req_id \<Rightarrow> time list) \<Rightarrow> (req_id \<Rightarrow> time list) option" where
  "broadcast t rs ch =
     (if list_all (\<lambda>(w, r). ch r = []) rs
      then Some (\<lambda>r. if r \<in> snd ` set rs then [t] else ch r) else None)"

definition register :: "req_id \<Rightarrow> time \<Rightarrow> server \<Rightarrow> server option" where
  "register r now s =
     (case pcs s r of
        Resolved q p \<Rightarrow>
          (let rs = ready (states s p); w = req_worker_id q
           in if w \<in> fst ` set rs then Some (set_pc r (Responded Conflict) s)
              else let rs' = rs @ [(w, r)];
                       s1 = s\<lparr>states := (states s)(p := \<lparr>ready = rs'\<rparr>)\<rparr>
                   in if length rs' = nWorkers s
                      then (case broadcast (now + second) rs' (chans s) of
                              None \<Rightarrow> None
                            | Some ch \<Rightarrow> Some (set_pc r (Releasing (req_barrier_id q) p) (s1\<lparr>chans := ch\<rparr>)))
                      else Some (set_pc r (Waiting p) s1))
      | _ \<Rightarrow> None)"

definition delete_barrier :: "req_id \<Rightarrow> server \<Rightarrow> server option" where
  "delete_barrier r s =
     (case pcs s r of
        Releasing bid p \<Rightarrow> Some (set_pc r (Waiting p) (s\<lparr>barriers := (barriers s)(bid := None)\<rparr>))
      | _ \<Rightarrow> None)"

definition deliver :: "req_id \<Rightarrow> server \<Rightarrow> server option" where
  "deliver r s =
     (case pcs s r of
        Waiting p \<Rightarrow>
          (case chans s r of
             [] \<Rightarrow> None
           | t # ts \<Rightarrow> Some (set_pc r (Responded (StartAt t)) (s\<lparr>chans := (chans s)(r := ts)\<rparr>)))
      | _ \<Rightarrow> None)"

definition cancel :: "req_id \<Rightarrow> server \<Rightarrow> server option" where
  "cancel r s =
     (case pcs s r of Waiting p \<Rightarrow> Some (set_pc r (Responded ServiceUnavailable) s) | _ \<Rightarrow> None)"

datatype event =
    EvReceive req_id "readyRequest option"
  | EvResolve req_id
  | EvRegister req_id time
  | EvDelete req_id
  | EvDeliver req_id
  | EvCancel req_id

fun handleReady_step :: "event \<Rightarrow> server \<Rightarrow> server option" where
  "handleReady_step (EvReceive r body) s = receive r body s"
| "handleReady_step (EvResolve r) s = resolve r s"
| "handleReady_step (EvRegister r now) s = register r now s"
| "handleReady_step (EvDelete r) s = delete_barrier r s"
| "handleReady_step (EvDeliver r) s = deliver r s"
| "handleReady_step (EvCancel r) s = cancel r s"

fun run_events :: "event list \<Rightarrow> server \<Rightarrow> server option" where
  "run_events [] s = Some s"
| "run_events (e # es) s = (case handleReady_step e s of None \<Rightarrow> None | Some s' \<Rightarrow> run_events es s')"

inductive barrier_reach :: "nat \<Rightarrow> server \<Rightarrow> bool" for n where
  init: "barrier_reach n (NewServer n)"
| step: "barrier_reach n s \<Longrightarrow> handleReady_step e s = Some s' \<Longrightarrow> barrier_reach n s'"

section \<open>The client\<close>

text \<open>One attempt of \<open>http.DefaultClient.Do\<close> under the deadline of the context: how long it takes, and
  a transport error or the status and body of the response. \<open>new_request\<close> stands for
  \<open>http.NewRequestWithContext\<close>, which fails on a malformed address.\<close>

datatype attempt = TransportError | Response int string

datatype client_error =
    CreatingRequest
  | TimedOut nat
  | ServerReturned int string
  | DecodingResponse
  | ParsingStartTime

definition handle_response ::
    "(string \<Rightarrow> string option) \<Rightarrow> (string \<Rightarrow> time option) \<Rightarrow> int \<Rightarrow> string \<Rightarrow> (client_error, time) result" where
  "handle_response unmarshal parse_time status body =
     (if status \<noteq> 200 then Inl (ServerReturned status body)
      else case unmarshal body of
        None \<Rightarrow> Inl DecodingResponse
      | Some st \<Rightarrow> (case parse_time st of None \<Rightarrow> Inl ParsingStartTime | Some t \<Rightarrow> Inr t))"

definition initial_backoff :: duration where "initial_backoff = 100 * millisecond"
definition max_backoff :: duration where "max_backoff = 5 * second"

text \<open>\<open>elapsed\<close> is the time since the context with the timeout was made. An attempt that would end
  after the deadline ends with the context's error; so does the sleep before the next one. When
  the timer and the deadline fall together Go picks either, and both choices end with the same error
  one attempt apart. A timer takes at least one nanosecond.\<close>

function wait_loop ::
    "(nat \<Rightarrow> duration \<times> attempt) \<Rightarrow> (string \<Rightarrow> string option) \<Rightarrow> (string \<Rightarrow> time option) \<Rightarrow> duration \<Rightarrow>
     nat \<Rightarrow> duration \<Rightarrow> duration \<Rightarrow> (client_error, time) result" where
  "wait_loop send unmarshal parse_time timeout attempts elapsed backoff =
     (let n = attempts + 1;
          (took, outcome) = send n;
          now = elapsed + max 0 took
      in if timeout \<le> now then Inl (TimedOut n)
         else case outcome of
           Response status body \<Rightarrow> handle_response unmarshal parse_time status body
         | TransportError \<Rightarrow>
             let wake = now + max 1 backoff
             in if timeout \<le> wake then Inl (TimedOut n)
                else wait_loop send unmarshal parse_time timeout n wake (min (backoff * 2) max_backoff))"
  by pat_completeness auto
termination
  by (relation "measure (\<lambda>(_, _, _, timeout, _, elapsed, _). nat (timeout - elapsed))") auto

definition WaitForStart ::
    "(nat \<Rightarrow> duration \<times> attempt) \<Rightarrow> (string \<Rightarrow> string option) \<Rightarrow> (string \<Rightarrow> time option) \<Rightarrow> bool \<Rightarrow>
     time \<Rightarrow> int \<Rightarrow> duration \<Rightarrow> (client_error, time) result" where
  "WaitForStart send unmarshal parse_time new_request now workers timeout =
     (if workers \<le> 1 then Inr now
      else if \<not> new_request then Inl CreatingRequest
      else wait_loop send unmarshal parse_time timeout 0 0 initial_backoff)"

section \<open>The invariant of the server\<close>

text \<open>A registered request is still waiting with the channel contents \<open>c\<close>, or has received them, or was
  cancelled.\<close>

definition registered_ok :: "server \<Rightarrow> ptr \<Rightarrow> time list \<Rightarrow> req_id \<Rightarrow> bool" where
  "registered_ok s p c r \<longleftrightarrow>
     ((pcs s r = Waiting p \<or> (\<exists>bid. pcs s r = Releasing bid p)) \<and> chans s r = c) \<or>
     (\<exists>t. c = [t] \<and> pcs s r = Responded (StartAt t)) \<or>
     (pcs s r = Responded ServiceUnavailable \<and> chans s r = c)"

definition released :: "server \<Rightarrow> ptr \<Rightarrow> bool" where
  "released s p \<longleftrightarrow> 0 < nWorkers s \<and> nWorkers s \<le> length (ready (states s p))"

definition barrier_inv :: "server \<Rightarrow> ptr \<Rightarrow> bool" where
  "barrier_inv s p \<longleftrightarrow>
     distinct (map fst (ready (states s p))) \<and> distinct (map snd (ready (states s p))) \<and>
     (if released s p
      then (\<exists>t. (\<forall>(w, r) \<in> set (take (nWorkers s) (ready (states s p))). registered_ok s p [t] r))
         \<and> (\<forall>(w, r) \<in> set (drop (nWorkers s) (ready (states s p))). registered_ok s p [] r)
      else (\<forall>(w, r) \<in> set (ready (states s p)). registered_ok s p [] r))"

definition owned :: "server \<Rightarrow> req_id \<Rightarrow> ptr \<Rightarrow> bool" where
  "owned s r p \<longleftrightarrow> r \<in> snd ` set (ready (states s p))"

text \<open>A handler that has no channel in any barrier.\<close>

fun unregistered_pc :: "pc \<Rightarrow> bool" where
  "unregistered_pc Idle = True"
| "unregistered_pc (Decoded q) = True"
| "unregistered_pc (Resolved q p) = True"
| "unregistered_pc (Releasing b p) = False"
| "unregistered_pc (Waiting p) = False"
| "unregistered_pc (Responded a) = (a = BadRequest \<or> a = Conflict)"

definition server_inv :: "server \<Rightarrow> bool" where
  "server_inv s \<longleftrightarrow>
     (\<forall>p. barrier_inv s p) \<and>
     (\<forall>r p p'. owned s r p \<longrightarrow> owned s r p' \<longrightarrow> p = p') \<and>
     (\<forall>r. (\<forall>p. \<not> owned s r p) \<longrightarrow> chans s r = [] \<and> unregistered_pc (pcs s r)) \<and>
     (\<forall>p. next_ptr s \<le> p \<longrightarrow> ready (states s p) = []) \<and>
     (\<forall>bid p. barriers s bid = Some p \<longrightarrow> p < next_ptr s) \<and>
     (\<forall>r q p. pcs s r = Resolved q p \<longrightarrow> p < next_ptr s)"

lemma server_invI:
  assumes "\<And>p. barrier_inv s p" and "\<And>r p p'. owned s r p \<Longrightarrow> owned s r p' \<Longrightarrow> p = p'"
    and "\<And>r. \<forall>p. \<not> owned s r p \<Longrightarrow> chans s r = [] \<and> unregistered_pc (pcs s r)"
    and "\<And>p. next_ptr s \<le> p \<Longrightarrow> ready (states s p) = []"
    and "\<And>bid p. barriers s bid = Some p \<Longrightarrow> p < next_ptr s"
    and "\<And>r q p. pcs s r = Resolved q p \<Longrightarrow> p < next_ptr s"
  shows "server_inv s"
  unfolding server_inv_def using assms by meson

lemma server_invD:
  assumes "server_inv s"
  shows "barrier_inv s p" and "owned s r p \<Longrightarrow> owned s r p' \<Longrightarrow> p = p'"
    and "\<forall>p. \<not> owned s r p \<Longrightarrow> chans s r = []"
    and "\<forall>p. \<not> owned s r p \<Longrightarrow> unregistered_pc (pcs s r)"
    and "next_ptr s \<le> p \<Longrightarrow> ready (states s p) = []"
    and "barriers s bid = Some p \<Longrightarrow> p < next_ptr s"
    and "pcs s r = Resolved q p \<Longrightarrow> p < next_ptr s"
  using assms unfolding server_inv_def by meson+

section \<open>Preservation\<close>

lemmas srv_defs = receive_def resolve_def getBarrier_def register_def delete_barrier_def
  deliver_def cancel_def set_pc_def

lemma registered_ok_mono:
  assumes "pcs s' r = pcs s r" and "chans s' r = chans s r"
  shows "registered_ok s' p c r = registered_ok s p c r"
  using assms by (simp add: registered_ok_def)

lemma owned_iff: "owned s r p \<longleftrightarrow> (\<exists>w. (w, r) \<in> set (ready (states s p)))"
  by (force simp: owned_def)

lemma owned_cong: "ready (states s' p) = ready (states s p) \<Longrightarrow> owned s' r p = owned s r p"
  by (simp add: owned_def)

lemma barrier_inv_transfer:
  assumes inv: "barrier_inv s p"
    and same: "nWorkers s' = nWorkers s" "ready (states s' p) = ready (states s p)"
    and ok: "\<And>r c. owned s r p \<Longrightarrow> length c \<le> 1 \<Longrightarrow> registered_ok s p c r \<Longrightarrow> registered_ok s' p c r"
  shows "barrier_inv s' p"
proof -
  let ?rs = "ready (states s p)"
  have rel: "released s' p = released s p" by (simp add: released_def same)
  have own: "owned s r p" if "(w, r) \<in> set (take k ?rs) \<or> (w, r) \<in> set (drop k ?rs) \<or> (w, r) \<in> set ?rs"
    for w r k using that by (auto simp: owned_iff dest: in_set_takeD in_set_dropD)
  show ?thesis
  proof (cases "released s p")
    case True
    with inv obtain t where t:
        "\<forall>(w, r) \<in> set (take (nWorkers s) ?rs). registered_ok s p [t] r"
        "\<forall>(w, r) \<in> set (drop (nWorkers s) ?rs). registered_ok s p [] r"
      by (auto simp: barrier_inv_def)
    then have "\<forall>(w, r) \<in> set (take (nWorkers s) ?rs). registered_ok s' p [t] r"
        "\<forall>(w, r) \<in> set (drop (nWorkers s) ?rs). registered_ok s' p [] r"
      by (auto intro!: ok own)
    with True inv show ?thesis by (auto simp: barrier_inv_def rel same)
  next
    case False
    with inv have "\<forall>(w, r) \<in> set ?rs. registered_ok s p [] r" by (simp add: barrier_inv_def)
    then have "\<forall>(w, r) \<in> set ?rs. registered_ok s' p [] r" by (auto intro!: ok own)
    with False inv show ?thesis by (simp add: barrier_inv_def rel same)
  qed
qed

lemma owned_registered_ok:
  assumes "barrier_inv s p" and "owned s r p"
  shows "\<exists>c. length c \<le> 1 \<and> registered_ok s p c r"
proof -
  from assms(2) obtain w where w: "(w, r) \<in> set (ready (states s p))" by (auto simp: owned_iff)
  then have "(w, r) \<in> set (take (nWorkers s) (ready (states s p))) \<or>
      (w, r) \<in> set (drop (nWorkers s) (ready (states s p)))"
    by (metis Un_iff append_take_drop_id set_append)
  with assms(1) w show ?thesis
    by (cases "released s p") (force simp: barrier_inv_def)+
qed

lemma not_owned:
  assumes "server_inv s" and "unregistered_pc (pcs s r)"
  shows "\<not> owned s r p"
proof
  assume "owned s r p"
  from owned_registered_ok [OF server_invD(1) [OF assms(1)] this] assms(2) show False
    by (auto simp: registered_ok_def)
qed

lemma owned_pc:
  assumes "server_inv s" and "pcs s r = Waiting p \<or> (\<exists>b. pcs s r = Releasing b p)"
  shows "owned s r p"
proof -
  from assms(2) have "\<not> unregistered_pc (pcs s r)" by auto
  with server_invD(4) [OF assms(1)] obtain p' where p': "owned s r p'" by blast
  from owned_registered_ok [OF server_invD(1) [OF assms(1)] this] assms(2) have "p' = p"
    by (auto simp: registered_ok_def)
  with p' show ?thesis by simp
qed

text \<open>Steps that leave the registrations as they are.\<close>

lemma server_inv_transfer:
  assumes inv: "server_inv s"
    and same: "nWorkers s' = nWorkers s" "\<And>p. ready (states s' p) = ready (states s p)"
    and ok: "\<And>r p c. owned s r p \<Longrightarrow> length c \<le> 1 \<Longrightarrow> registered_ok s p c r \<Longrightarrow> registered_ok s' p c r"
    and rest: "\<And>r. \<forall>p. \<not> owned s r p \<Longrightarrow> chans s r = [] \<Longrightarrow> unregistered_pc (pcs s r) \<Longrightarrow>
        chans s' r = [] \<and> unregistered_pc (pcs s' r)"
    and ptr: "next_ptr s \<le> next_ptr s'" "\<And>bid p. barriers s' bid = Some p \<Longrightarrow> p < next_ptr s'"
      "\<And>r q p. pcs s' r = Resolved q p \<Longrightarrow> p < next_ptr s'"
  shows "server_inv s'"
proof (rule server_invI)
  have own: "owned s' r p = owned s r p" for r p by (simp add: owned_def same)
  show "barrier_inv s' p" for p
    by (rule barrier_inv_transfer [OF server_invD(1) [OF inv] same ok])
  show "owned s' r p \<Longrightarrow> owned s' r p' \<Longrightarrow> p = p'" for r p p'
    unfolding own by (rule server_invD(2) [OF inv])
  show "\<forall>p. \<not> owned s' r p \<Longrightarrow> chans s' r = [] \<and> unregistered_pc (pcs s' r)" for r
    unfolding own using rest server_invD(3,4) [OF inv] by blast
  show "next_ptr s' \<le> p \<Longrightarrow> ready (states s' p) = []" for p
    using server_invD(5) [OF inv, of p] same ptr(1) by simp
qed (use ptr in auto)

lemma server_inv_init: "server_inv (NewServer n)"
  by (rule server_invI) (auto simp: NewServer_def barrier_inv_def owned_def released_def)

text \<open>Steps of a handler that has not registered, and keeps not being registered.\<close>

lemma server_inv_unregistered:
  assumes inv: "server_inv s" and pc: "unregistered_pc (pcs s r)" "unregistered_pc c"
    and c: "\<And>q p. c = Resolved q p \<Longrightarrow> p < next_ptr s"
  shows "server_inv (set_pc r c s)"
proof (rule server_inv_transfer [OF inv])
  have no: "\<not> owned s r p" for p by (rule not_owned [OF inv pc(1)])
  show "owned s r' p \<Longrightarrow> registered_ok s p c' r' \<Longrightarrow> registered_ok (set_pc r c s) p c' r'" for r' p c'
    using no [of p] by (cases "r' = r") (simp_all add: set_pc_def registered_ok_def)
qed (use pc c server_invD [OF inv] in \<open>auto simp: set_pc_def split: if_splits\<close>)

lemma server_inv_receive:
  assumes inv: "server_inv s" and st: "receive r body s = Some s'"
  shows "server_inv s'"
  using st by (auto simp: receive_def split: if_splits option.splits intro!: server_inv_unregistered [OF inv])

lemma server_inv_getBarrier:
  assumes inv: "server_inv s" and g: "getBarrier bid s = (p, s')"
  shows "server_inv s'" and "p < next_ptr s'" and "pcs s' = pcs s" and "chans s' = chans s"
proof -
  show "server_inv s'"
  proof (cases "barriers s bid")
    case None
    with g have s': "s' = s\<lparr>barriers := (barriers s)(bid \<mapsto> next_ptr s),
        states := (states s)(next_ptr s := \<lparr>ready = []\<rparr>), next_ptr := next_ptr s + 1\<rparr>"
      by (auto simp: getBarrier_def)
    show ?thesis
    proof (rule server_inv_transfer [OF inv])
      show "ready (states s' p) = ready (states s p)" for p
        using server_invD(5) [OF inv, of p] by (auto simp: s')
      show "barriers s' bid' = Some p' \<Longrightarrow> p' < next_ptr s'" for bid' p'
        using server_invD(6) [OF inv, of bid' p'] by (auto simp: s' split: if_splits)
      show "pcs s' r = Resolved q p' \<Longrightarrow> p' < next_ptr s'" for r q p'
        using server_invD(7) [OF inv, of r q p'] by (simp add: s')
    qed (simp_all add: s' registered_ok_def)
  qed (use g inv in \<open>simp add: getBarrier_def\<close>)
  show "p < next_ptr s'" "pcs s' = pcs s" "chans s' = chans s"
    using g server_invD(6) [OF inv, of bid p] by (auto simp: getBarrier_def split: option.splits)
qed

lemma server_inv_resolve:
  assumes inv: "server_inv s" and st: "resolve r s = Some s'"
  shows "server_inv s'"
proof -
  from st obtain q p s1 where q: "pcs s r = Decoded q"
      and g: "getBarrier (req_barrier_id q) s = (p, s1)" and s': "s' = set_pc r (Resolved q p) s1"
    by (auto simp: resolve_def split: pc.splits prod.splits)
  note g1 = server_inv_getBarrier [OF inv g]
  show ?thesis unfolding s'
    by (rule server_inv_unregistered [OF g1(1)]) (use g1 q in auto)
qed

lemma server_inv_delete_barrier:
  assumes inv: "server_inv s" and st: "delete_barrier r s = Some s'"
  shows "server_inv s'"
proof -
  from st obtain bid p where pc: "pcs s r = Releasing bid p"
      and s': "s' = set_pc r (Waiting p) (s\<lparr>barriers := (barriers s)(bid := None)\<rparr>)"
    by (auto simp: delete_barrier_def split: pc.splits)
  show ?thesis
  proof (rule server_inv_transfer [OF inv])
    show "registered_ok s p' c r' \<Longrightarrow> registered_ok s' p' c r'" for r' p' c
      using pc by (cases "r' = r") (auto simp: s' set_pc_def registered_ok_def)
    show "\<forall>p. \<not> owned s r' p \<Longrightarrow> chans s r' = [] \<Longrightarrow> unregistered_pc (pcs s r') \<Longrightarrow>
        chans s' r' = [] \<and> unregistered_pc (pcs s' r')" for r'
      using pc by (cases "r' = r") (auto simp: s' set_pc_def)
  qed (use pc server_invD(6,7) [OF inv] in \<open>auto simp: s' set_pc_def split: if_splits\<close>)
qed

lemma server_inv_cancel:
  assumes inv: "server_inv s" and st: "cancel r s = Some s'"
  shows "server_inv s'"
proof -
  from st obtain p where pc: "pcs s r = Waiting p"
      and s': "s' = set_pc r (Responded ServiceUnavailable) s"
    by (auto simp: cancel_def split: pc.splits)
  show ?thesis
  proof (rule server_inv_transfer [OF inv])
    show "registered_ok s p' c r' \<Longrightarrow> registered_ok s' p' c r'" for r' p' c
      using pc by (cases "r' = r") (auto simp: s' set_pc_def registered_ok_def)
    show "\<forall>p. \<not> owned s r' p \<Longrightarrow> chans s r' = [] \<Longrightarrow> unregistered_pc (pcs s r') \<Longrightarrow>
        chans s' r' = [] \<and> unregistered_pc (pcs s' r')" for r'
      using pc by (cases "r' = r") (auto simp: s' set_pc_def)
  qed (use pc server_invD(6,7) [OF inv] in \<open>auto simp: s' set_pc_def split: if_splits\<close>)
qed

lemma server_inv_deliver:
  assumes inv: "server_inv s" and st: "deliver r s = Some s'"
  shows "server_inv s'"
proof -
  from st obtain p t ts where pc: "pcs s r = Waiting p" and ch: "chans s r = t # ts"
      and s': "s' = set_pc r (Responded (StartAt t)) (s\<lparr>chans := (chans s)(r := ts)\<rparr>)"
    by (auto simp: deliver_def split: pc.splits list.splits)
  have own: "owned s r p" using owned_pc [OF inv] pc by blast
  show ?thesis
  proof (rule server_inv_transfer [OF inv])
    show "length c \<le> 1 \<Longrightarrow> registered_ok s p' c r' \<Longrightarrow> registered_ok s' p' c r'" for r' p' c
      using pc ch by (cases "r' = r"; cases c) (auto simp: s' set_pc_def registered_ok_def)
    show "\<forall>p. \<not> owned s r' p \<Longrightarrow> chans s r' = [] \<Longrightarrow> unregistered_pc (pcs s r') \<Longrightarrow>
        chans s' r' = [] \<and> unregistered_pc (pcs s' r')" for r'
      using own by (cases "r' = r") (auto simp: s' set_pc_def)
  qed (use pc server_invD(6,7) [OF inv] in \<open>auto simp: s' set_pc_def split: if_splits\<close>)
qed

text \<open>Registration. All channels of a barrier that is not released are empty, so the sends of the
  releasing handler never block.\<close>

lemma unreleased_chans_empty:
  assumes "barrier_inv s p" and "\<not> released s p" and "(w, r) \<in> set (ready (states s p))"
  shows "chans s r = []"
  using assms by (fastforce simp: barrier_inv_def registered_ok_def)

lemma register_cases:
  assumes inv: "server_inv s" and pc: "pcs s r = Resolved q p"
  obtains (conflict) "register r now s = Some (set_pc r (Responded Conflict) s)"
      "req_worker_id q \<in> fst ` set (ready (states s p))"
  | (release) "Suc (length (ready (states s p))) = nWorkers s"
      "req_worker_id q \<notin> fst ` set (ready (states s p))"
      "register r now s = Some (set_pc r (Releasing (req_barrier_id q) p)
         (s\<lparr>states := (states s)(p := \<lparr>ready = ready (states s p) @ [(req_worker_id q, r)]\<rparr>),
            chans := (\<lambda>r'. if r' = r \<or> owned s r' p then [now + second] else chans s r')\<rparr>))"
  | (wait) "Suc (length (ready (states s p))) \<noteq> nWorkers s"
      "req_worker_id q \<notin> fst ` set (ready (states s p))"
      "register r now s = Some (set_pc r (Waiting p)
         (s\<lparr>states := (states s)(p := \<lparr>ready = ready (states s p) @ [(req_worker_id q, r)]\<rparr>)\<rparr>))"
proof (cases "req_worker_id q \<in> fst ` set (ready (states s p))")
  case True
  with pc conflict show thesis by (simp add: register_def)
next
  case new: False
  show thesis
  proof (cases "Suc (length (ready (states s p))) = nWorkers s")
    case True
    then have "\<not> released s p" by (simp add: released_def)
    then have "\<forall>(w, r') \<in> set (ready (states s p)). chans s r' = []"
      using unreleased_chans_empty [OF server_invD(1) [OF inv]] by auto
    moreover have "chans s r = []"
      using server_invD(3) [OF inv] not_owned [OF inv] pc by simp
    ultimately have "broadcast (now + second) (ready (states s p) @ [(req_worker_id q, r)]) (chans s) =
        Some (\<lambda>r'. if r' = r \<or> owned s r' p then [now + second] else chans s r')"
      by (auto simp: broadcast_def list_all_iff owned_def)
    with True new pc release show thesis by (simp add: register_def Let_def)
  next
    case False
    with new pc wait show thesis by (simp add: register_def Let_def)
  qed
qed

lemma server_inv_add:
  assumes inv: "server_inv s" and pc: "pcs s r = Resolved q p"
    and new: "req_worker_id q \<notin> fst ` set (ready (states s p))"
    and nw: "nWorkers s' = nWorkers s" and bs: "barriers s' = barriers s" "next_ptr s' = next_ptr s"
    and rd: "ready (states s' p) = ready (states s p) @ [(req_worker_id q, r)]"
    and rd': "\<And>p'. p' \<noteq> p \<Longrightarrow> ready (states s' p') = ready (states s p')"
    and pcs': "\<And>r'. r' \<noteq> r \<Longrightarrow> pcs s' r' = pcs s r'"
    and pcr: "\<not> unregistered_pc (pcs s' r)"
    and chans': "\<And>r'. r' \<noteq> r \<Longrightarrow> \<not> owned s r' p \<Longrightarrow> chans s' r' = chans s r'"
    and bi: "barrier_inv s' p"
  shows "server_inv s'"
proof (rule server_invI)
  have no: "\<not> owned s r p'" for p' using not_owned [OF inv] pc by simp
  have own: "owned s' r' p' \<longleftrightarrow> owned s r' p' \<or> (r' = r \<and> p' = p)" for r' p'
    using rd rd' [of p'] by (cases "p' = p") (auto simp: owned_def)
  show "barrier_inv s' p'" for p'
  proof (cases "p' = p")
    case False
    show ?thesis
    proof (rule barrier_inv_transfer [OF server_invD(1) [OF inv] nw rd' [OF False]])
      fix r' c assume o: "owned s r' p'" and ok: "registered_ok s p' c r'"
      from o no have "r' \<noteq> r" by auto
      moreover from o False server_invD(2) [OF inv] have "\<not> owned s r' p" by blast
      ultimately show "registered_ok s' p' c r'"
        using ok pcs' chans' by (simp add: registered_ok_def)
    qed
  qed (use bi in simp)
  show "owned s' r' p1 \<Longrightarrow> owned s' r' p2 \<Longrightarrow> p1 = p2" for r' p1 p2
    using own [of r' p1] own [of r' p2] no [of p1] no [of p2] server_invD(2) [OF inv, of r' p1 p2] by auto
  show "\<forall>p. \<not> owned s' r' p \<Longrightarrow> chans s' r' = [] \<and> unregistered_pc (pcs s' r')" for r'
  proof -
    assume n: "\<forall>p. \<not> owned s' r' p"
    then have n1: "\<forall>p. \<not> owned s r' p" and "r' \<noteq> r" using own by blast+
    with pcs' chans' server_invD(3,4) [OF inv n1] show ?thesis by simp
  qed
  show "next_ptr s' \<le> p' \<Longrightarrow> ready (states s' p') = []" for p'
    using server_invD(5,7) [OF inv] bs rd' pc by (metis leD)
  show "barriers s' bid = Some p' \<Longrightarrow> p' < next_ptr s'" for bid p'
    using server_invD(6) [OF inv] bs by simp
  show "pcs s' r' = Resolved q' p' \<Longrightarrow> p' < next_ptr s'" for r' q' p'
    using server_invD(7) [OF inv] pcs' pcr bs by (cases "r' = r") auto
qed

lemma barrier_inv_add:
  assumes inv: "server_inv s" and pc: "pcs s r = Resolved q p"
    and new: "req_worker_id q \<notin> fst ` set (ready (states s p))"
  shows "distinct (map fst (ready (states s p) @ [(req_worker_id q, r)]))"
    and "distinct (map snd (ready (states s p) @ [(req_worker_id q, r)]))"
  using server_invD(1) [OF inv, of p] new not_owned [OF inv, of r p] pc
  by (auto simp: barrier_inv_def owned_def)

lemma server_inv_register:
  assumes inv: "server_inv s" and st: "register r now s = Some s'"
  shows "server_inv s'"
proof -
  from st obtain q p where pc: "pcs s r = Resolved q p"
    by (auto simp: register_def split: pc.splits)
  let ?rs = "ready (states s p)"
  note bip = server_invD(1) [OF inv, of p]
  have no: "\<not> owned s r p'" for p' using not_owned [OF inv] pc by simp
  have chr: "chans s r = []" using server_invD(3) [OF inv] no by simp
  show ?thesis
  proof (cases rule: register_cases [OF inv pc, of now, case_names conflict release wait])
    case conflict
    with st pc show ?thesis by (auto intro!: server_inv_unregistered [OF inv])
  next
    case release
    let ?t = "now + second"
    have s': "s' = set_pc r (Releasing (req_barrier_id q) p)
         (s\<lparr>states := (states s)(p := \<lparr>ready = ?rs @ [(req_worker_id q, r)]\<rparr>),
            chans := (\<lambda>r'. if r' = r \<or> owned s r' p then [?t] else chans s r')\<rparr>)"
      using release(3) st by simp
    have "\<not> released s p" using release(1) by (simp add: released_def)
    with bip have old: "\<forall>(w, r') \<in> set ?rs. registered_ok s p [] r'" by (simp add: barrier_inv_def)
    have "registered_ok s' p [?t] r'" if "(w, r') \<in> set ?rs" for w r'
    proof -
      from that have o: "owned s r' p" by (auto simp: owned_iff)
      with no have "r' \<noteq> r" by auto
      with o old that show ?thesis by (auto simp: s' set_pc_def registered_ok_def)
    qed
    moreover have "registered_ok s' p [?t] r" by (simp add: s' set_pc_def registered_ok_def)
    ultimately have "\<forall>(w, r') \<in> set (?rs @ [(req_worker_id q, r)]). registered_ok s' p [?t] r'" by auto
    then have "barrier_inv s' p"
      using barrier_inv_add [OF inv pc release(2)] release(1)
      by (simp add: barrier_inv_def released_def s' set_pc_def) blast
    then show ?thesis
      by (intro server_inv_add [OF inv pc release(2)]) (auto simp: s' set_pc_def)
  next
    case wait
    have s': "s' = set_pc r (Waiting p) (s\<lparr>states := (states s)(p := \<lparr>ready = ?rs @ [(req_worker_id q, r)]\<rparr>)\<rparr>)"
      using wait(3) st by simp
    have old: "registered_ok s' p c r'" if "(w, r') \<in> set ?rs" "registered_ok s p c r'" for w r' c
    proof -
      from that(1) have "owned s r' p" by (auto simp: owned_iff)
      with no have "r' \<noteq> r" by auto
      with that show ?thesis by (simp add: s' set_pc_def registered_ok_def)
    qed
    have new: "registered_ok s' p [] r" using chr by (simp add: s' set_pc_def registered_ok_def)
    have "barrier_inv s' p"
    proof (cases "released s p")
      case True
      with bip obtain t where "\<forall>(w, r') \<in> set (take (nWorkers s) ?rs). registered_ok s p [t] r'"
          "\<forall>(w, r') \<in> set (drop (nWorkers s) ?rs). registered_ok s p [] r'"
        by (auto simp: barrier_inv_def)
      then have "\<forall>(w, r') \<in> set (take (nWorkers s) ?rs). registered_ok s' p [t] r'"
          "\<forall>(w, r') \<in> set (drop (nWorkers s) ?rs). registered_ok s' p [] r'"
        using old by (blast dest: in_set_takeD, blast dest: in_set_dropD)
      with new True barrier_inv_add [OF inv pc wait(2)] show ?thesis
        by (auto simp: barrier_inv_def released_def s' set_pc_def)
    next
      case False
      with bip have "\<forall>(w, r') \<in> set ?rs. registered_ok s' p [] r'" using old by (auto simp: barrier_inv_def)
      with new False wait(1) barrier_inv_add [OF inv pc wait(2)] show ?thesis
        by (auto simp: barrier_inv_def released_def s' set_pc_def)
    qed
    then show ?thesis
      by (intro server_inv_add [OF inv pc wait(2)]) (auto simp: s' set_pc_def)
  qed
qed

lemma server_inv_step:
  assumes "server_inv s" and "handleReady_step e s = Some s'"
  shows "server_inv s'"
  using assms by (cases e) (auto intro: server_inv_receive server_inv_resolve server_inv_register
      server_inv_delete_barrier server_inv_deliver server_inv_cancel)

lemma reach_server_inv: "barrier_reach n s \<Longrightarrow> server_inv s"
  by (induction rule: barrier_reach.induct) (auto intro: server_inv_init server_inv_step)

lemma step_nWorkers: "handleReady_step e s = Some s' \<Longrightarrow> nWorkers s' = nWorkers s"
  by (cases e) (auto simp: srv_defs Let_def split: pc.splits option.splits list.splits if_splits)

lemma reach_nWorkers: "barrier_reach n s \<Longrightarrow> nWorkers s = n"
  by (induction rule: barrier_reach.induct) (simp_all add: NewServer_def step_nWorkers)

lemma run_events_reach: "barrier_reach n s \<Longrightarrow> run_events es s = Some s' \<Longrightarrow> barrier_reach n s'"
  by (induction es arbitrary: s) (auto split: option.splits intro: barrier_reach.step)

lemma registered_members:
  "(w, r) \<in> set (ready (states s p)) \<longleftrightarrow>
     (w, r) \<in> set (take n (ready (states s p))) \<or> (w, r) \<in> set (drop n (ready (states s p)))"
  by (metis Un_iff append_take_drop_id set_append)

lemma start_released:
  assumes "barrier_inv s p" and "(w, r) \<in> set (ready (states s p))" and "pcs s r = Responded (StartAt t)"
  shows "released s p"
    and "\<forall>(w, r) \<in> set (take (nWorkers s) (ready (states s p))). registered_ok s p [t] r"
proof -
  show rel: "released s p"
    using assms by (rule_tac ccontr) (fastforce simp: barrier_inv_def registered_ok_def)
  with assms(1) obtain u where u: "\<forall>(w, r) \<in> set (take (nWorkers s) (ready (states s p))). registered_ok s p [u] r"
      and d: "\<forall>(w, r) \<in> set (drop (nWorkers s) (ready (states s p))). registered_ok s p [] r"
    by (auto simp: barrier_inv_def)
  from assms(2) have "registered_ok s p [u] r \<or> registered_ok s p [] r"
    using u d unfolding registered_members [of w r s p "nWorkers s"] by auto
  with assms(3) have "u = t" by (auto simp: registered_ok_def)
  with u show "\<forall>(w, r) \<in> set (take (nWorkers s) (ready (states s p))). registered_ok s p [t] r" by simp
qed

section \<open>Properties\<close>

text \<open>
  Property C1. Barrier safety. Under every interleaving of the handlers, when one worker of a barrier has
  been given a start time, \<open>nWorkers\<close> distinct workers had registered at that
  barrier, and every worker of it that has been given a start time was given the same one.
\<close>

theorem barrier_agreement:
  assumes "barrier_reach n s"
    and "(w, r) \<in> set (ready (states s p))" and "pcs s r = Responded (StartAt t)"
  shows "n \<le> length (ready (states s p)) \<and> distinct (map fst (ready (states s p))) \<and>
     (\<forall>(w', r') \<in> set (ready (states s p)). \<forall>t'. pcs s r' = Responded (StartAt t') \<longrightarrow> t' = t)"
proof -
  note bi = server_invD(1) [OF reach_server_inv [OF assms(1)], of p]
  have n: "nWorkers s = n" by (rule reach_nWorkers [OF assms(1)])
  note rel = start_released [OF bi assms(2,3)]
  have "t' = t" if "(w', r') \<in> set (ready (states s p))" "pcs s r' = Responded (StartAt t')" for w' r' t'
  proof -
    from rel(1) have "take (nWorkers s) (ready (states s p)) \<noteq> []" by (auto simp: released_def)
    then obtain w1 r1 where m: "(w1, r1) \<in> set (take (nWorkers s) (ready (states s p)))"
      by (metis last_in_set surj_pair)
    from start_released(1) [OF bi that] start_released(2) [OF bi that] have
      "\<forall>(w, r) \<in> set (take (nWorkers s) (ready (states s p))). registered_ok s p [t'] r" by simp
    moreover have "(w, r) \<in> set (take (nWorkers s) (ready (states s p))) \<or>
        (w, r) \<in> set (drop (nWorkers s) (ready (states s p)))"
      using assms(2) registered_members by metis
    moreover have "\<forall>(w, r) \<in> set (drop (nWorkers s) (ready (states s p))). registered_ok s p [] r"
      using bi rel(1) by (auto simp: barrier_inv_def)
    ultimately have "registered_ok s p [t'] r \<or> registered_ok s p [] r" by auto
    with assms(3) show ?thesis by (auto simp: registered_ok_def)
  qed
  with rel(1) bi n show ?thesis by (auto simp: released_def barrier_inv_def)
qed

text \<open>
  Property C2. No lost wake-up and no blocked release. In every reachable state, a handler about to
  register can do so (the sends to the registered channels never block while the
  barrier's lock is held), and once \<open>nWorkers\<close> workers are registered each of their
  handlers that still waits finds the common start time in its channel, so that its
  answer is enabled.
\<close>

theorem barrier_no_lost_wakeup:
  assumes "barrier_reach n s"
  shows "(\<forall>r q p now. pcs s r = Resolved q p \<longrightarrow> register r now s \<noteq> None) \<and>
     (\<forall>p. 0 < n \<and> length (ready (states s p)) = n \<longrightarrow>
        (\<exists>t. \<forall>(w, r) \<in> set (ready (states s p)). pcs s r = Waiting p \<longrightarrow>
           (\<exists>s'. deliver r s = Some s' \<and> pcs s' r = Responded (StartAt t))))"
proof (intro conjI allI impI)
  fix r q p now assume pc: "pcs s r = Resolved q p"
  show "register r now s \<noteq> None"
    by (rule register_cases [OF reach_server_inv [OF assms] pc, of now]) auto
next
  fix p assume n: "0 < n \<and> length (ready (states s p)) = n"
  have nw: "nWorkers s = n" by (rule reach_nWorkers [OF assms])
  with n have "released s p" "take (nWorkers s) (ready (states s p)) = ready (states s p)"
    by (auto simp: released_def)
  with server_invD(1) [OF reach_server_inv [OF assms], of p] obtain t where
    "\<forall>(w, r) \<in> set (ready (states s p)). registered_ok s p [t] r" by (auto simp: barrier_inv_def)
  then have "\<forall>(w, r) \<in> set (ready (states s p)). pcs s r = Waiting p \<longrightarrow>
           (\<exists>s'. deliver r s = Some s' \<and> pcs s' r = Responded (StartAt t))"
    by (fastforce simp: registered_ok_def deliver_def set_pc_def)
  then show "\<exists>t. \<forall>(w, r) \<in> set (ready (states s p)). pcs s r = Waiting p \<longrightarrow>
           (\<exists>s'. deliver r s = Some s' \<and> pcs s' r = Responded (StartAt t))" ..
qed

definition two_workers :: "event list" where
  "two_workers =
    [EvReceive 0 (Some \<lparr>req_worker_id = 0, req_barrier_id = 7\<rparr>), EvResolve 0,
     EvReceive 1 (Some \<lparr>req_worker_id = 1, req_barrier_id = 7\<rparr>), EvResolve 1,
     EvRegister 1 50, EvRegister 0 60, EvDeliver 1]"

lemma two_workers_run:
  "\<exists>s. run_events two_workers (NewServer 2) = Some s \<and> barrier_reach 2 s \<and>
     ready (states s 0) = [(1, 1), (0, 0)] \<and> pcs s 1 = Responded (StartAt (60 + second)) \<and>
     pcs s 0 = Releasing 7 0"
proof -
  have "\<exists>s. run_events two_workers (NewServer 2) = Some s \<and>
     ready (states s 0) = [(1, 1), (0, 0)] \<and> pcs s 1 = Responded (StartAt (60 + second)) \<and>
     pcs s 0 = Releasing 7 0"
    by (simp add: two_workers_def NewServer_def srv_defs broadcast_def)
  with run_events_reach [OF barrier_reach.init] show ?thesis by blast
qed

theorem barrier_agreement_witness:
  "\<exists>s. barrier_reach 2 s \<and> pcs s 1 = Responded (StartAt (60 + second)) \<and>
     2 \<le> length (ready (states s 0))"
proof -
  obtain s where s: "barrier_reach 2 s" "ready (states s 0) = [(1, 1), (0, 0)]"
      "pcs s 1 = Responded (StartAt (60 + second))"
    using two_workers_run by blast
  have "2 \<le> length (ready (states s 0))"
    using barrier_agreement [of 2 s 1 1 0 "60 + second"] s by simp
  with s show ?thesis by blast
qed

theorem barrier_no_lost_wakeup_witness:
  "\<exists>s. barrier_reach 2 s \<and> pcs s 0 = Waiting 0 \<and>
     (\<exists>s' t. deliver 0 s = Some s' \<and> pcs s' 0 = Responded (StartAt t))"
proof -
  obtain s where s: "barrier_reach 2 s" "ready (states s 0) = [(1, 1), (0, 0)]"
      "pcs s 0 = Releasing 7 0"
    using two_workers_run by blast
  let ?s = "set_pc 0 (Waiting 0) (s\<lparr>barriers := (barriers s)(7 := None)\<rparr>)"
  have st: "handleReady_step (EvDelete 0) s = Some ?s" using s by (simp add: delete_barrier_def)
  have r: "barrier_reach 2 ?s" by (rule barrier_reach.step [OF s(1) st])
  have rd: "ready (states ?s 0) = [(1, 1), (0, 0)]" "pcs ?s 0 = Waiting 0"
    using s by (simp_all add: set_pc_def)
  obtain t where "\<forall>(w, r)\<in>set (ready (states ?s 0)). pcs ?s r = Waiting 0 \<longrightarrow>
      (\<exists>s'. deliver r ?s = Some s' \<and> pcs s' r = Responded (StartAt t))"
    using barrier_no_lost_wakeup [OF r, THEN conjunct2, THEN spec, of 0] rd(1) by auto
  then have "pcs ?s 0 = Waiting 0 \<longrightarrow> (\<exists>s'. deliver 0 ?s = Some s' \<and> pcs s' 0 = Responded (StartAt t))"
    unfolding rd(1) by simp
  with rd(2) have "\<exists>s' t. deliver 0 ?s = Some s' \<and> pcs s' 0 = Responded (StartAt t)" by blast
  with r rd show ?thesis by blast
qed

section \<open>The client's retry loop\<close>

declare wait_loop.simps [simp del]

lemma backoff_step:
  "initial_backoff \<le> b \<Longrightarrow> b \<le> max_backoff \<Longrightarrow>
     initial_backoff \<le> min (b * 2) max_backoff \<and> min (b * 2) max_backoff \<le> max_backoff"
  by (simp add: initial_backoff_def max_backoff_def second_def)

text \<open>The number of attempts after which the loop must have ended: every transport error is followed by a
  sleep of at least the first backoff.\<close>

lemma wait_loop_attempts:
  assumes "wait_loop send unmarshal parse_time timeout k elapsed b = Inl (TimedOut n)"
    and "initial_backoff \<le> b" and "b \<le> max_backoff" and "0 \<le> elapsed"
  shows "k < n \<and> int (n - Suc k) * initial_backoff \<le> max 0 (timeout - elapsed)"
  using assms
proof (induction send unmarshal parse_time timeout k elapsed b arbitrary: n rule: wait_loop.induct)
  case (1 send unmarshal parse_time timeout k elapsed b)
  obtain took outcome where so: "send (k + 1) = (took, outcome)" by fastforce
  let ?now = "elapsed + max 0 took"
  let ?wake = "?now + max 1 b"
  have b1: "1 \<le> b" using "1.prems"(2) by (simp add: initial_backoff_def)
  consider "n = k + 1" | "\<not> timeout \<le> ?now" "outcome = TransportError" "\<not> timeout \<le> ?wake"
      "wait_loop send unmarshal parse_time timeout (k + 1) ?wake (min (b * 2) max_backoff) = Inl (TimedOut n)"
    using "1.prems"(1) so
    by (subst (asm) wait_loop.simps)
       (auto simp: Let_def handle_response_def split: if_splits attempt.splits option.splits)
  then show ?case
  proof cases
    case 2
    have w: "0 \<le> ?wake" using "1.prems" b1 by simp
    have ih: "k + 1 < n \<and> int (n - Suc (k + 1)) * initial_backoff \<le> max 0 (timeout - ?wake)"
      using "1.IH" [OF refl so [symmetric] refl refl 2(1,2) refl 2(3,4)] backoff_step [OF "1.prems"(2,3)] w
      by blast
    then have "int (n - Suc k) = int (n - Suc (k + 1)) + 1" by simp
    then have "int (n - Suc k) * initial_backoff = int (n - Suc (k + 1)) * initial_backoff + initial_backoff"
      by (simp add: algebra_simps)
    with ih 2(3) b1 "1.prems"(2) have "int (n - Suc k) * initial_backoff \<le> timeout - elapsed" by linarith
    with ih show ?thesis by simp
  qed simp
qed

lemma wait_loop_Inr:
  assumes "wait_loop send unmarshal parse_time timeout k elapsed b = Inr t"
  shows "\<exists>n>k. \<exists>body st. snd (send n) = Response 200 body \<and> unmarshal body = Some st \<and> parse_time st = Some t \<and>
           (\<forall>j. k < j \<and> j < n \<longrightarrow> snd (send j) = TransportError)"
  using assms
proof (induction send unmarshal parse_time timeout k elapsed b rule: wait_loop.induct)
  case (1 send unmarshal parse_time timeout k elapsed b)
  obtain took outcome where so: "send (k + 1) = (took, outcome)" by fastforce
  let ?now = "elapsed + max 0 took"
  let ?wake = "?now + max 1 b"
  consider status body where "outcome = Response status body" "handle_response unmarshal parse_time status body = Inr t"
    | "\<not> timeout \<le> ?now" "outcome = TransportError" "\<not> timeout \<le> ?wake"
        "wait_loop send unmarshal parse_time timeout (k + 1) ?wake (min (b * 2) max_backoff) = Inr t"
    using "1.prems" so
    by (subst (asm) wait_loop.simps) (auto simp: Let_def split: if_splits attempt.splits)
  then show ?case
  proof cases
    case (1 status body)
    then obtain st where "status = 200" "unmarshal body = Some st" "parse_time st = Some t"
      by (auto simp: handle_response_def split: if_splits option.splits)
    with 1 so show ?thesis by (intro exI [of _ "k + 1"]) auto
  next
    case 2
    then obtain n body st where n: "k + 1 < n" "snd (send n) = Response 200 body" "unmarshal body = Some st"
        "parse_time st = Some t" "\<forall>j. k + 1 < j \<and> j < n \<longrightarrow> snd (send j) = TransportError"
      using "1.IH" [OF refl so [symmetric] refl refl 2(1,2) refl 2(3,4)] by auto
    have "snd (send j) = TransportError" if "k < j \<and> j < n" for j
    proof (cases "j = k + 1")
      case True
      with so 2(2) show ?thesis by simp
    next
      case False
      with that n(5) show ?thesis by simp
    qed
    with n show ?thesis by (intro exI [of _ n]) auto
  qed
qed

text \<open>
  The client's wait always ends: it fails with a timeout after at most one attempt per 100 ms of
  the timeout plus one, and it succeeds only with a start time that was decoded
  from a response of status 200, every earlier attempt having failed in transport.
\<close>

theorem wait_for_start_bounded:
  assumes "1 < workers" and "0 \<le> timeout"
  shows "(\<forall>n. WaitForStart send unmarshal parse_time ok now workers timeout = Inl (TimedOut n) \<longrightarrow>
            int n \<le> timeout div (100 * millisecond) + 1) \<and>
     (\<forall>t. WaitForStart send unmarshal parse_time ok now workers timeout = Inr t \<longrightarrow>
        (\<exists>n>0. \<exists>body st. snd (send n) = Response 200 body \<and> unmarshal body = Some st \<and> parse_time st = Some t \<and>
           (\<forall>j. 0 < j \<and> j < n \<longrightarrow> snd (send j) = TransportError)))"
proof (intro conjI allI impI)
  fix n assume w: "WaitForStart send unmarshal parse_time ok now workers timeout = Inl (TimedOut n)"
  then have l: "wait_loop send unmarshal parse_time timeout 0 0 initial_backoff = Inl (TimedOut n)"
    using assms(1) by (simp add: WaitForStart_def split: if_splits)
  have n: "0 < n \<and> int (n - Suc 0) * initial_backoff \<le> max 0 (timeout - 0)"
    by (rule wait_loop_attempts [OF l]) (simp_all add: initial_backoff_def max_backoff_def second_def)
  then have "int (n - Suc 0) = int n - 1" by simp
  with n assms(2) have "(int n - 1) * 100000000 \<le> timeout" by (simp add: initial_backoff_def)
  then show "int n \<le> timeout div (100 * millisecond) + 1" by simp
next
  fix t assume w: "WaitForStart send unmarshal parse_time ok now workers timeout = Inr t"
  then show "\<exists>n>0. \<exists>body st. snd (send n) = Response 200 body \<and> unmarshal body = Some st \<and> parse_time st = Some t \<and>
           (\<forall>j. 0 < j \<and> j < n \<longrightarrow> snd (send j) = TransportError)"
    using assms(1) wait_loop_Inr by (simp add: WaitForStart_def split: if_splits)
qed

theorem wait_for_start_bounded_witness:
  "WaitForStart (\<lambda>n. (0, if n < 3 then TransportError else Response 200 ''x'')) Some (\<lambda>_. Some 42) True 0 4 second
     = Inr 42 \<and>
   (\<exists>n>0. snd ((\<lambda>n :: nat. (0 :: int, if n < 3 then TransportError else Response 200 ''x'')) n) = Response 200 ''x'')"
proof -
  define send :: "nat \<Rightarrow> int \<times> attempt"
    where "send = (\<lambda>n. (0, if n < 3 then TransportError else Response 200 ''x''))"
  have w: "WaitForStart send Some (\<lambda>_. Some 42) True 0 4 second = Inr 42"
    by (simp add: WaitForStart_def wait_loop.simps handle_response_def initial_backoff_def max_backoff_def
        second_def Let_def send_def)
  have "\<exists>n>0. \<exists>body st. snd (send n) = Response 200 body \<and> Some body = Some st \<and> Some 42 = Some (42 :: int) \<and>
      (\<forall>j. 0 < j \<and> j < n \<longrightarrow> snd (send j) = TransportError)"
    by (rule wait_for_start_bounded [THEN conjunct2, THEN spec, THEN mp, OF _ _ w]) (simp_all add: second_def)
  then obtain n body where "0 < n" "snd (send n) = Response 200 body" by blast
  moreover from this(2) have "body = ''x''" by (simp add: send_def split: if_splits)
  ultimately show ?thesis using w unfolding send_def by blast
qed

end
