(* ===== verification/Recorder.thy ===== *)
theory Recorder
  imports Go_Float
begin

text \<open>
  Package \<open>recorder\<close> (\<open>recorder.go\<close>): the request records and phase timestamps, and the recorder itself. Writers
  send marshalled records into a channel of capacity 8192 while they hold the read lock of
  \<open>writeMu\<close>; one goroutine drains the channel into memory and the file; \<open>Close\<close> takes the write
  lock, closes the channel and waits for the drain to end. Each rule of \<open>recorder_step\<close> is one atomic
  action of a writer, of the drain goroutine or of \<open>Close\<close>.
\<close>

section \<open>Data\<close>

record Record =
  RequestID :: string
  StreamID :: int
  ConversationID :: string
  Turn :: int
  rec_StartTime :: rat
  rec_TTFT :: rat
  rec_ITLs :: "rat list"
  rec_EndTime :: rat
  PromptTokens :: int
  rec_OutputTokens :: int
  TotalLatencyMs :: rat
  rec_FinishReason :: string
  Status :: string
  rec_Error :: string
  EvalExpected :: string
  EvalExtracted :: string
  EvalCorrect :: "bool option"

record StageTimestamp =
  st_stage :: int
  st_concurrency :: int
  st_start :: rat
  st_end :: rat

record Timestamps =
  ts_start :: rat
  ts_rampup_end :: rat
  ts_end :: rat
  ts_rampup_seconds :: rat
  ts_total_seconds :: rat
  ts_stages :: "StageTimestamp list"

definition TimeToFloat :: "time \<Rightarrow> rat" where
  "TimeToFloat t = fdiv (f64_of_int t) (f64_of_int 1000000000)"

text \<open>\<open>time.Duration.Seconds\<close> of the standard library: whole seconds plus the rest.\<close>

definition Seconds :: "duration \<Rightarrow> rat" where
  "Seconds d = fadd (f64_of_int (tdiv d second)) (fdiv (f64_of_int (tmod d second)) (f64_of_int 1000000000))"

section \<open>The recorder\<close>

record written =
  w_line :: string
  w_record :: Record

datatype write_result = WriteOk | ErrClosed | MarshalError

text \<open>\<open>senders\<close> are the writers that hold the read lock and have not completed their send; \<open>acked\<close> lists
  the writes that have been sent, in that order: their \<open>Write\<close> returns \<open>nil\<close>.\<close>

record recorder =
  chan :: "written list"
  senders :: "written list"
  closed :: bool
  drain_done :: bool
  has_file :: bool
  records :: "Record list"
  lines_out :: "string list"
  acked :: "written list"

definition chan_capacity :: nat where "chan_capacity = 8192"

definition New :: "bool \<Rightarrow> recorder" where
  "New with_file = \<lparr>chan = [], senders = [], closed = False, drain_done = False, has_file = with_file,
     records = [], lines_out = [], acked = []\<rparr>"

definition begin_write :: "(Record \<Rightarrow> string option) \<Rightarrow> Record \<Rightarrow> recorder \<Rightarrow> write_result \<times> recorder" where
  "begin_write marshal rec r =
     (case marshal rec of
        None \<Rightarrow> (MarshalError, r)
      | Some line \<Rightarrow>
          if closed r then (ErrClosed, r)
          else (WriteOk, r\<lparr>senders := senders r @ [\<lparr>w_line = line @ [CHR 0x0A], w_record = rec\<rparr>]\<rparr>))"

text \<open>A send completes when the buffer has room. A send on a closed channel would panic: \<open>None\<close>.\<close>

definition complete_send :: "written \<Rightarrow> recorder \<Rightarrow> recorder option" where
  "complete_send w r =
     (if closed r then None
      else Some (r\<lparr>senders := remove1 w (senders r), chan := chan r @ [w], acked := acked r @ [w]\<rparr>))"

definition drain :: "recorder \<Rightarrow> recorder" where
  "drain r =
     (case chan r of
        [] \<Rightarrow> if closed r then r\<lparr>drain_done := True\<rparr> else r
      | w # ws \<Rightarrow> r\<lparr>chan := ws, records := records r @ [w_record w],
                     lines_out := (if has_file r then lines_out r @ [w_line w] else lines_out r)\<rparr>)"

definition close_channel :: "recorder \<Rightarrow> recorder" where
  "close_channel r = r\<lparr>closed := True\<rparr>"

inductive recorder_step :: "recorder \<Rightarrow> recorder \<Rightarrow> bool" where
  accept: "begin_write marshal rec r = (res, r') \<Longrightarrow> recorder_step r r'"
| send: "w \<in> set (senders r) \<Longrightarrow> length (chan r) < chan_capacity \<Longrightarrow> complete_send w r = Some r' \<Longrightarrow>
         recorder_step r r'"
| drain: "\<not> drain_done r \<Longrightarrow> chan r \<noteq> [] \<or> closed r \<Longrightarrow> recorder_step r (drain r)"
| close: "senders r = [] \<Longrightarrow> \<not> closed r \<Longrightarrow> recorder_step r (close_channel r)"

inductive recorder_reach :: "bool \<Rightarrow> recorder \<Rightarrow> bool" for f where
  init: "recorder_reach f (New f)"
| step: "recorder_reach f r \<Longrightarrow> recorder_step r r' \<Longrightarrow> recorder_reach f r'"

inductive_cases recorder_stepE: "recorder_step r r'"

section \<open>Invariant\<close>

definition recorder_inv :: "bool \<Rightarrow> recorder \<Rightarrow> bool" where
  "recorder_inv f r \<longleftrightarrow>
     has_file r = f \<and>
     length (chan r) \<le> chan_capacity \<and>
     (closed r \<longrightarrow> senders r = []) \<and>
     (drain_done r \<longrightarrow> closed r \<and> chan r = []) \<and>
     records r @ map w_record (chan r) = map w_record (acked r) \<and>
     (f \<longrightarrow> lines_out r @ map w_line (chan r) = map w_line (acked r)) \<and>
     (\<not> f \<longrightarrow> lines_out r = [])"

lemma recorder_inv_init: "recorder_inv f (New f)"
  by (simp add: recorder_inv_def New_def)

lemma recorder_inv_step: "recorder_inv f r \<Longrightarrow> recorder_step r r' \<Longrightarrow> recorder_inv f r'"
proof (erule recorder_stepE)
  fix marshal rec res assume "recorder_inv f r" "begin_write marshal rec r = (res, r')"
  then show ?thesis by (auto simp: recorder_inv_def begin_write_def split: option.splits if_splits)
next
  fix w assume "recorder_inv f r" "length (chan r) < chan_capacity" "complete_send w r = Some r'"
  then show ?thesis
    by (auto simp: recorder_inv_def complete_send_def split: if_splits)
next
  assume "recorder_inv f r" "r' = drain r"
  then show ?thesis by (auto simp: recorder_inv_def drain_def split: list.splits)
next
  assume "recorder_inv f r" "r' = close_channel r" "senders r = []"
  then show ?thesis by (auto simp: recorder_inv_def close_channel_def)
qed

lemma recorder_reach_inv: "recorder_reach f r \<Longrightarrow> recorder_inv f r"
  by (induction rule: recorder_reach.induct) (auto intro: recorder_inv_init recorder_inv_step)

section \<open>Properties\<close>


text \<open>
  The recorder never deadlocks: while some writer waits for the channel, or while \<open>Close\<close> waits for the
  drain, a step of that writer or of the drain goroutine is enabled, and a drain step shortens the
  channel or ends the drain.
\<close>

theorem recorder_progress:
  assumes "recorder_reach f r" and "senders r \<noteq> [] \<or> (closed r \<and> \<not> drain_done r)"
  shows "(\<exists>w r'. w \<in> set (senders r) \<and> length (chan r) < chan_capacity \<and> complete_send w r = Some r' \<and>
            length (senders r') < length (senders r)) \<or>
     (\<not> drain_done r \<and> (chan r \<noteq> [] \<or> closed r) \<and>
        (length (chan (drain r)) < length (chan r) \<or> drain_done (drain r)))"
proof -
  note inv = recorder_reach_inv [OF assms(1)]
  show ?thesis
  proof (cases "chan r")
    case (Cons w ws)
    then show ?thesis using inv by (auto simp: recorder_inv_def drain_def)
  next
    case Nil
    show ?thesis
    proof (cases "closed r")
      case True
      with Nil inv assms(2) show ?thesis by (auto simp: recorder_inv_def drain_def)
    next
      case False
      with assms(2) obtain w where w: "w \<in> set (senders r)" by (cases "senders r") auto
      let ?r' = "r\<lparr>senders := remove1 w (senders r), chan := chan r @ [w], acked := acked r @ [w]\<rparr>"
      have "complete_send w r = Some ?r'" using False by (simp add: complete_send_def)
      moreover have "length (senders ?r') < length (senders r)"
        using w length_pos_if_in_set [OF w] by (simp add: length_remove1)
      moreover have "length (chan r) < chan_capacity" using Nil by (simp add: chan_capacity_def)
      ultimately show ?thesis using w by blast
    qed
  qed
qed

definition sample_record :: Record where
  "sample_record = \<lparr>RequestID = ''a'', StreamID = 0, ConversationID = ''c'', Turn = 0, rec_StartTime = 0,
     rec_TTFT = 0, rec_ITLs = [], rec_EndTime = 0, PromptTokens = 0, rec_OutputTokens = 0, TotalLatencyMs = 0,
     rec_FinishReason = [], Status = ''ok'', rec_Error = [], EvalExpected = [], EvalExtracted = [],
     EvalCorrect = None\<rparr>"

lemma sample_run:
  "\<exists>r. recorder_reach True r \<and> senders r = [\<lparr>w_line = ''a'' @ [CHR 0x0A], w_record = sample_record\<rparr>] \<and>
     \<not> closed r \<and> acked r = [] \<and> chan r = []"
proof -
  have "recorder_step (New True) (snd (begin_write (\<lambda>r. Some (RequestID r)) sample_record (New True)))"
    by (rule recorder_step.accept [of "\<lambda>r. Some (RequestID r)" sample_record _ WriteOk]) (simp add: begin_write_def New_def)
  from recorder_reach.step [OF recorder_reach.init this] show ?thesis
    by (intro exI conjI) (assumption | simp add: begin_write_def New_def sample_record_def)+
qed

theorem recorder_progress_witness:
  "\<exists>r. recorder_reach True r \<and> senders r \<noteq> [] \<and>
     ((\<exists>w. w \<in> set (senders r) \<and> complete_send w r \<noteq> None) \<or> chan r \<noteq> [])"
proof -
  obtain r where r: "recorder_reach True r" "senders r \<noteq> []" "\<not> closed r" "chan r = []" using sample_run by auto
  from recorder_progress [OF r(1)] r have "(\<exists>w. w \<in> set (senders r) \<and> complete_send w r \<noteq> None) \<or> chan r \<noteq> []"
    by auto
  with r show ?thesis by blast
qed


end
