(* ===== verification/Client.thy ===== *)
theory Client
  imports Go_Float Go_Strings "HOL-Library.Sublist"
begin

text \<open>
  Package \<open>client\<close> (\<open>openai.go\<close>) and the \<open>Conversation\<close> type of package \<open>dataset\<close>: requests, results with
  token timing, the server-sent-event loops of \<open>ChatStream\<close> and \<open>CompletionStream\<close>, and the
  readiness, model and token-count queries.

  The network, the clock and \<open>encoding/json\<close> are the environment: a call is a function of what the
  transport returned, at which times the lines of the body arrived, and of the
  decoder. A zero \<open>time.Time\<close> is \<open>None\<close>.
\<close>

section \<open>Data\<close>

record Message =
  msg_role :: string
  msg_content :: string

record Usage =
  prompt_tokens :: int
  completion_tokens :: int
  total_tokens :: int

record Request =
  rq_model :: string
  rq_messages :: "Message list"
  rq_stream :: bool
  rq_stream_options :: "(string \<times> bool) list"
  rq_max_tokens :: int
  rq_cache_salt :: string
  rq_extra_headers :: "(string \<times> string) list"

record CompletionRequest =
  cr_model :: string
  cr_prompt :: string
  cr_stream :: bool
  cr_stream_options :: "(string \<times> bool) list"
  cr_max_tokens :: int
  cr_stop :: "string list"
  cr_temperature :: "rat option"
  cr_cache_salt :: string

datatype request_error =
    MarshalingRequest
  | CreatingRequest
  | SendingRequest
  | HTTPStatus int string
  | ReadingStream

record Result =
  RequestStart :: time
  FirstToken :: "time option"
  TokenTimes :: "time list"
  EndTime :: time
  Content :: string
  Reasoning :: string
  GeneratedText :: string
  FinishReason :: string
  res_usage :: "Usage option"
  res_err :: "request_error option"

record Conversation =
  Turns :: "Message list list"
  Prompt :: string
  MaxTokens :: int
  Stop :: "string list"
  Temperature :: "rat option"
  ExpectedAnswer :: string

definition new_result :: "time \<Rightarrow> Result" where
  "new_result start = \<lparr>RequestStart = start, FirstToken = None, TokenTimes = [], EndTime = start,
     Content = [], Reasoning = [], GeneratedText = [], FinishReason = [], res_usage = None, res_err = None\<rparr>"

section \<open>Latencies of a result\<close>

definition TTFT :: "Result \<Rightarrow> duration" where
  "TTFT r = (case FirstToken r of None \<Rightarrow> 0 | Some t \<Rightarrow> t - RequestStart r)"

fun gaps :: "time list \<Rightarrow> duration list" where
  "gaps (t # u # ts) = (u - t) # gaps (u # ts)"
| "gaps ts = []"

definition ITLs :: "Result \<Rightarrow> duration list" where
  "ITLs r = gaps (TokenTimes r)"

definition TotalLatency :: "Result \<Rightarrow> duration" where
  "TotalLatency r = EndTime r - RequestStart r"

definition OutputTokens :: "Result \<Rightarrow> int" where
  "OutputTokens r = (case res_usage r of Some u \<Rightarrow> completion_tokens u | None \<Rightarrow> int (length (TokenTimes r)))"

section \<open>Streaming\<close>

text \<open>What happened to one HTTP exchange: the lines of the body with the time each was read, whether
  the scanner ended with an error, whether the context was done when an error was seen.\<close>

datatype exchange =
    MarshalFails
  | NewRequestFails
  | DoFails
  | Answered int string "(time \<times> string) list" bool

record delta =
  d_content :: string
  d_reasoning :: string
  d_reasoning_content :: string

record chat_choice =
  ch_delta :: delta
  ch_finish_reason :: "string option"

record chat_chunk =
  chunk_choices :: "chat_choice list"
  chunk_usage :: "Usage option"

record completion_choice =
  cc_text :: string
  cc_finish_reason :: "string option"

record completion_chunk =
  cchunk_choices :: "completion_choice list"
  cchunk_usage :: "Usage option"

definition token_at :: "time \<Rightarrow> Result \<Rightarrow> Result" where
  "token_at now r = r\<lparr>FirstToken := (case FirstToken r of None \<Rightarrow> Some now | Some t \<Rightarrow> Some t),
                      TokenTimes := TokenTimes r @ [now]\<rparr>"

definition finish_with :: "string option \<Rightarrow> Result \<Rightarrow> Result" where
  "finish_with f r = (case f of None \<Rightarrow> r | Some reason \<Rightarrow> r\<lparr>FinishReason := reason\<rparr>)"

definition usage_from :: "Usage option \<Rightarrow> Result \<Rightarrow> Result" where
  "usage_from u r = (case u of None \<Rightarrow> r | Some _ \<Rightarrow> r\<lparr>res_usage := u\<rparr>)"

definition reasoning_delta :: "delta \<Rightarrow> string" where
  "reasoning_delta d = (if d_reasoning d = [] then d_reasoning_content d else d_reasoning d)"

definition chat_chunk_step :: "time \<Rightarrow> chat_chunk \<Rightarrow> Result \<Rightarrow> Result" where
  "chat_chunk_step now ck r =
     (let r1 = (case chunk_choices ck of
         [] \<Rightarrow> r
       | c # _ \<Rightarrow>
           let d = ch_delta c; rd = reasoning_delta d;
               r0 = (if d_content d \<noteq> [] \<or> rd \<noteq> []
                     then (token_at now r)\<lparr>Reasoning := Reasoning r @ rd, Content := Content r @ d_content d,
                            GeneratedText := GeneratedText r @ rd @ d_content d\<rparr>
                     else r)
           in finish_with (ch_finish_reason c) r0)
      in usage_from (chunk_usage ck) r1)"

definition completion_chunk_step :: "time \<Rightarrow> completion_chunk \<Rightarrow> Result \<Rightarrow> Result" where
  "completion_chunk_step now ck r =
     (let r1 = (case cchunk_choices ck of
         [] \<Rightarrow> r
       | c # _ \<Rightarrow>
           let r0 = (if cc_text c \<noteq> [] then (token_at now r)\<lparr>Content := Content r @ cc_text c\<rparr> else r)
           in finish_with (cc_finish_reason c) r0)
      in usage_from (cchunk_usage ck) r1)"

text \<open>The scanner loop. Both streaming calls have it, with their own chunk type.\<close>

fun sse_loop :: "(string \<Rightarrow> 'c option) \<Rightarrow> (time \<Rightarrow> 'c \<Rightarrow> Result \<Rightarrow> Result) \<Rightarrow> (time \<times> string) list \<Rightarrow> Result \<Rightarrow> Result" where
  "sse_loop unmarshal step [] r = r"
| "sse_loop unmarshal step ((now, line) # ls) r =
     (if \<not> has_prefix line ''data: '' then sse_loop unmarshal step ls r
      else let data = trim_prefix line ''data: ''
           in if data = ''[DONE]'' then r
              else case unmarshal data of
                None \<Rightarrow> sse_loop unmarshal step ls r
              | Some ck \<Rightarrow> sse_loop unmarshal step ls (step now ck r))"

definition ChatStream ::
    "(string \<Rightarrow> chat_chunk option) \<Rightarrow> exchange \<Rightarrow> bool \<Rightarrow> time \<Rightarrow> time \<Rightarrow> Result" where
  "ChatStream unmarshal ex ctx_done start fin =
     (let r0 = (new_result start)\<lparr>EndTime := fin\<rparr>
      in case ex of
        MarshalFails \<Rightarrow> r0\<lparr>res_err := Some MarshalingRequest\<rparr>
      | NewRequestFails \<Rightarrow> r0\<lparr>res_err := Some CreatingRequest\<rparr>
      | DoFails \<Rightarrow> if ctx_done then r0 else r0\<lparr>res_err := Some SendingRequest\<rparr>
      | Answered status body ls scan_err \<Rightarrow>
          if status \<noteq> 200 then r0\<lparr>res_err := Some (HTTPStatus status body)\<rparr>
          else let r = sse_loop unmarshal chat_chunk_step ls r0
               in if scan_err \<and> \<not> ctx_done then r\<lparr>res_err := Some ReadingStream\<rparr> else r)"

definition CompletionStream ::
    "(string \<Rightarrow> completion_chunk option) \<Rightarrow> exchange \<Rightarrow> bool \<Rightarrow> time \<Rightarrow> time \<Rightarrow> Result" where
  "CompletionStream unmarshal ex ctx_done start fin =
     (let r0 = (new_result start)\<lparr>EndTime := fin\<rparr>
      in case ex of
        MarshalFails \<Rightarrow> r0\<lparr>res_err := Some MarshalingRequest\<rparr>
      | NewRequestFails \<Rightarrow> r0\<lparr>res_err := Some CreatingRequest\<rparr>
      | DoFails \<Rightarrow> if ctx_done then r0 else r0\<lparr>res_err := Some SendingRequest\<rparr>
      | Answered status body ls scan_err \<Rightarrow>
          if status \<noteq> 200 then r0\<lparr>res_err := Some (HTTPStatus status body)\<rparr>
          else let r = sse_loop unmarshal completion_chunk_step ls r0;
                   r' = r\<lparr>GeneratedText := Content r\<rparr>
               in if scan_err \<and> \<not> ctx_done then r'\<lparr>res_err := Some ReadingStream\<rparr> else r')"

section \<open>Queries\<close>

datatype query_error = RequestFails | CallFails | BadStatus int | BadBody | NoModels | ZeroTokens | NotReady

text \<open>One request and the decoder applied to its body: \<open>None\<close> in the last component is a decoding error.\<close>

datatype 'a reply = NewFails | TransportFails | Reply int "'a option"

definition DetectModel :: "string list reply \<Rightarrow> (query_error, string) result" where
  "DetectModel rep =
     (case rep of
        NewFails \<Rightarrow> Inl RequestFails
      | TransportFails \<Rightarrow> Inl CallFails
      | Reply status None \<Rightarrow> Inl BadBody
      | Reply status (Some []) \<Rightarrow> Inl NoModels
      | Reply status (Some (m # ms)) \<Rightarrow> Inr m)"

definition CountTokens :: "(string \<Rightarrow> int reply) \<Rightarrow> string \<Rightarrow> (query_error, int) result" where
  "CountTokens tokenize text =
     (case tokenize text of
        NewFails \<Rightarrow> Inl RequestFails
      | TransportFails \<Rightarrow> Inl CallFails
      | Reply status body \<Rightarrow>
          if status \<noteq> 200 then Inl (BadStatus status)
          else case body of
            None \<Rightarrow> Inl BadBody
          | Some count \<Rightarrow> if count = 0 then Inl ZeroTokens else Inr count)"

definition CalibrateTokenRatio :: "(string \<Rightarrow> int reply) \<Rightarrow> string \<Rightarrow> (query_error, rat) result" where
  "CalibrateTokenRatio tokenize sample =
     (if length sample < 100 then Inr 4
      else let sample' = (if 2000 < length sample then take 2000 sample else sample)
           in res_bind (CountTokens tokenize sample')
                (\<lambda>count. Inr (fdiv (f64_of_int (int (length sample'))) (f64_of_int count))))"

text \<open>The polling loop of \<open>WaitForReady\<close>. \<open>poll k\<close> is how long attempt \<open>k\<close> takes and the model ids it
  decoded; \<open>deadline\<close> is when the context ends, \<open>None\<close> if it never does, in which case the loop may run
  for ever.\<close>

definition models_ready :: "string list reply \<Rightarrow> bool" where
  "models_ready rep = (case rep of Reply _ (Some (m # ms)) \<Rightarrow> m \<noteq> [] | _ \<Rightarrow> False)"

definition next_backoff :: "duration \<Rightarrow> duration" where
  "next_backoff b = (if 30 * second < b * 2 then 30 * second else b * 2)"

partial_function (option) ready_loop ::
    "(nat \<Rightarrow> duration \<times> string list reply) \<Rightarrow> duration option \<Rightarrow> nat \<Rightarrow> duration \<Rightarrow> duration \<Rightarrow>
     (query_error, nat) result option" where
  "ready_loop poll deadline k elapsed backoff =
     (case poll k of
        (took, NewFails) \<Rightarrow> Some (Inl RequestFails)
      | (took, rep) \<Rightarrow>
          if models_ready rep then Some (Inr k)
          else if (case deadline of None \<Rightarrow> False | Some d \<Rightarrow> d \<le> elapsed + took + backoff) then Some (Inl NotReady)
          else ready_loop poll deadline (Suc k) (elapsed + took + backoff) (next_backoff backoff))"

definition WaitForReady ::
    "(nat \<Rightarrow> duration \<times> string list reply) \<Rightarrow> duration option \<Rightarrow> (query_error, nat) result option" where
  "WaitForReady poll deadline = ready_loop poll deadline 0 0 second"

section \<open>Timing of a stream\<close>

definition timing_ok :: "Result \<Rightarrow> bool" where
  "timing_ok r \<longleftrightarrow> FirstToken r = (case TokenTimes r of [] \<Rightarrow> None | t # _ \<Rightarrow> Some t)"

text \<open>The decoded chunks of a body, up to the end marker, with the time each line was read.\<close>

fun decoded_chunks :: "(string \<Rightarrow> 'c option) \<Rightarrow> (time \<times> string) list \<Rightarrow> (time \<times> 'c) list" where
  "decoded_chunks unmarshal [] = []"
| "decoded_chunks unmarshal ((now, line) # ls) =
     (if \<not> has_prefix line ''data: '' then decoded_chunks unmarshal ls
      else if trim_prefix line ''data: '' = ''[DONE]'' then []
      else case unmarshal (trim_prefix line ''data: '') of
        None \<Rightarrow> decoded_chunks unmarshal ls
      | Some ck \<Rightarrow> (now, ck) # decoded_chunks unmarshal ls)"

lemma sse_loop_fold:
  "sse_loop unmarshal step ls r = fold (\<lambda>(now, ck) r. step now ck r) (decoded_chunks unmarshal ls) r"
  by (induction unmarshal ls arbitrary: r rule: decoded_chunks.induct)
     (auto simp: Let_def split: option.splits)

lemma decoded_chunks_subseq: "subseq (map fst (decoded_chunks unmarshal ls)) (map fst ls)"
  by (induction unmarshal ls rule: decoded_chunks.induct) (auto split: option.splits)

lemma sum_list_gaps: "ts \<noteq> [] \<Longrightarrow> sum_list (gaps ts) = last ts - hd ts"
  by (induction ts rule: gaps.induct) auto

lemma length_gaps: "length (gaps ts) = length ts - 1"
  by (induction ts rule: gaps.induct) auto

lemma gaps_nonneg: "sorted ts \<Longrightarrow> d \<in> set (gaps ts) \<Longrightarrow> 0 \<le> d"
  by (induction ts rule: gaps.induct) auto

lemma timing_ok_new [simp]: "timing_ok ((new_result s)\<lparr>EndTime := e\<rparr>)"
  by (simp add: timing_ok_def new_result_def)

lemma new_result_simps [simp]:
  "TokenTimes (new_result s) = []" "RequestStart (new_result s) = s"
  by (simp_all add: new_result_def)

text \<open>The latencies of any result whose token times are sorted and lie between its start and end.\<close>

lemma latencies_consistent:
  assumes "timing_ok r" and "sorted (TokenTimes r)"
    and "\<And>t. t \<in> set (TokenTimes r) \<Longrightarrow> RequestStart r \<le> t \<and> t \<le> EndTime r" and "RequestStart r \<le> EndTime r"
  shows "0 \<le> TTFT r \<and> (\<forall>d\<in>set (ITLs r). 0 \<le> d) \<and> TTFT r + sum_list (ITLs r) \<le> TotalLatency r \<and>
     length (ITLs r) = length (TokenTimes r) - 1"
proof (cases "TokenTimes r")
  case Nil
  with assms show ?thesis by (simp add: TTFT_def timing_ok_def ITLs_def TotalLatency_def)
next
  case (Cons t ts)
  with assms(1) have "TTFT r = t - RequestStart r" by (simp add: TTFT_def timing_ok_def)
  moreover have "sum_list (ITLs r) = last (TokenTimes r) - t"
    using Cons sum_list_gaps [of "TokenTimes r"] by (simp add: ITLs_def)
  moreover have "last (TokenTimes r) \<le> EndTime r" "RequestStart r \<le> t"
    using assms(3) [of "last (TokenTimes r)"] assms(3) [of t] Cons by simp_all
  ultimately show ?thesis
    using assms(2) gaps_nonneg by (auto simp: ITLs_def TotalLatency_def length_gaps)
qed

text \<open>What a chunk handler must keep for the latencies of a stream to be meaningful: each chunk counts at
  most one token, at the time its line was read, and the first one is the time of the first token.\<close>

locale stream_step =
  fixes step :: "time \<Rightarrow> 'c \<Rightarrow> Result \<Rightarrow> Result"
    and counts :: "'c \<Rightarrow> bool"
  assumes step_tokens: "TokenTimes (step now ck r) = TokenTimes r @ (if counts ck then [now] else [])"
    and step_timing: "timing_ok r \<Longrightarrow> timing_ok (step now ck r)"
    and step_start: "RequestStart (step now ck r) = RequestStart r"
    and step_end: "EndTime (step now ck r) = EndTime r"
begin

lemma fold_tokens:
  "TokenTimes (fold (\<lambda>(now, ck) r. step now ck r) cs r) = TokenTimes r @ map fst (filter (\<lambda>c. counts (snd c)) cs)"
  by (induction cs arbitrary: r) (auto simp: step_tokens)

lemma fold_rest:
  "timing_ok r \<Longrightarrow> timing_ok (fold (\<lambda>(now, ck) r. step now ck r) cs r)"
  "RequestStart (fold (\<lambda>(now, ck) r. step now ck r) cs r) = RequestStart r"
  "EndTime (fold (\<lambda>(now, ck) r. step now ck r) cs r) = EndTime r"
  by (induction cs arbitrary: r) (auto simp: step_timing step_start step_end)

lemma loop_tokens:
  assumes "TokenTimes r = []" and "timing_ok r"
  shows "TokenTimes (sse_loop unmarshal step ls r) =
           map fst (filter (\<lambda>c. counts (snd c)) (decoded_chunks unmarshal ls))"
    and "timing_ok (sse_loop unmarshal step ls r)"
    and "RequestStart (sse_loop unmarshal step ls r) = RequestStart r"
    and "EndTime (sse_loop unmarshal step ls r) = EndTime r"
  using assms by (simp_all add: sse_loop_fold fold_tokens fold_rest)

lemma loop_tokens_sorted:
  assumes "TokenTimes r = []" and "timing_ok r" and "sorted (map fst ls)"
  shows "sorted (TokenTimes (sse_loop unmarshal step ls r))"
    and "set (TokenTimes (sse_loop unmarshal step ls r)) \<subseteq> fst ` set ls"
proof -
  have "subseq (map fst (filter (\<lambda>c. counts (snd c)) (decoded_chunks unmarshal ls)))
          (map fst (decoded_chunks unmarshal ls))"
    by (intro subseq_map subseq_filter_left)
  then have s: "subseq (TokenTimes (sse_loop unmarshal step ls r)) (map fst ls)"
    using decoded_chunks_subseq [of unmarshal ls] loop_tokens(1) [OF assms(1,2)]
    by (auto intro: subseq_order.trans)
  then obtain N where N: "TokenTimes (sse_loop unmarshal step ls r) = nths (map fst ls) N"
    by (auto simp: subseq_conv_nths)
  show "sorted (TokenTimes (sse_loop unmarshal step ls r))"
    unfolding N using assms(3) by (rule sorted_nths)
  show "set (TokenTimes (sse_loop unmarshal step ls r)) \<subseteq> fst ` set ls"
    unfolding N using set_nths_subset [of "map fst ls" N] by simp
qed

lemma loop_latencies:
  fixes unmarshal :: "string \<Rightarrow> 'c option"
  assumes "sorted (start # map fst ls @ [fin])"
  defines "r \<equiv> sse_loop unmarshal step ls ((new_result start)\<lparr>EndTime := fin\<rparr>)"
  shows "0 \<le> TTFT r \<and> (\<forall>d\<in>set (ITLs r). 0 \<le> d) \<and> TTFT r + sum_list (ITLs r) \<le> TotalLatency r \<and>
     length (ITLs r) = length (TokenTimes r) - 1"
proof (rule latencies_consistent)
  have s: "sorted (map fst ls)" and b: "\<And>t. t \<in> fst ` set ls \<Longrightarrow> start \<le> t \<and> t \<le> fin"
    using assms(1) by (auto simp: sorted_append)
  have t0: "TokenTimes ((new_result start)\<lparr>EndTime := fin\<rparr>) = []" by simp
  note tok = loop_tokens [OF t0 timing_ok_new, of unmarshal ls, folded r_def]
    and srt = loop_tokens_sorted [OF t0 timing_ok_new s, of unmarshal, folded r_def]
  show "timing_ok r" by (rule tok(2))
  show "sorted (TokenTimes r)" by (rule srt(1))
  show "t \<in> set (TokenTimes r) \<Longrightarrow> RequestStart r \<le> t \<and> t \<le> EndTime r" for t
    using srt(2) b tok(3,4) by auto
  show "RequestStart r \<le> EndTime r" using tok(3,4) assms(1) by simp
qed

end

definition chat_counts :: "chat_chunk \<Rightarrow> bool" where
  "chat_counts ck = (case chunk_choices ck of [] \<Rightarrow> False
     | c # _ \<Rightarrow> d_content (ch_delta c) \<noteq> [] \<or> reasoning_delta (ch_delta c) \<noteq> [])"

definition completion_counts :: "completion_chunk \<Rightarrow> bool" where
  "completion_counts ck = (case cchunk_choices ck of [] \<Rightarrow> False | c # _ \<Rightarrow> cc_text c \<noteq> [])"

lemmas chunk_step_defs = chat_chunk_step_def completion_chunk_step_def token_at_def finish_with_def
  usage_from_def chat_counts_def completion_counts_def Let_def timing_ok_def

interpretation chat: stream_step chat_chunk_step chat_counts
  by unfold_locales (auto simp: chunk_step_defs split: list.splits option.splits)

interpretation completion: stream_step completion_chunk_step completion_counts
  by unfold_locales (auto simp: chunk_step_defs split: list.splits option.splits)

section \<open>Text of a stream\<close>

definition chat_text :: "chat_chunk \<Rightarrow> string" where
  "chat_text ck = (case chunk_choices ck of [] \<Rightarrow> [] | c # _ \<Rightarrow> d_content (ch_delta c))"

definition chat_reasoning :: "chat_chunk \<Rightarrow> string" where
  "chat_reasoning ck = (case chunk_choices ck of [] \<Rightarrow> [] | c # _ \<Rightarrow> reasoning_delta (ch_delta c))"

lemma chat_step_text:
  "Content (chat_chunk_step now ck r) = Content r @ chat_text ck"
  "Reasoning (chat_chunk_step now ck r) = Reasoning r @ chat_reasoning ck"
  "GeneratedText (chat_chunk_step now ck r) = GeneratedText r @ chat_reasoning ck @ chat_text ck"
  by (auto simp: chunk_step_defs chat_text_def chat_reasoning_def token_at_def split: list.splits option.splits)

lemma chat_fold_text:
  "Content (fold (\<lambda>(now, ck) r. chat_chunk_step now ck r) cs r) = Content r @ concat (map (chat_text \<circ> snd) cs)"
  "Reasoning (fold (\<lambda>(now, ck) r. chat_chunk_step now ck r) cs r) = Reasoning r @ concat (map (chat_reasoning \<circ> snd) cs)"
  "GeneratedText (fold (\<lambda>(now, ck) r. chat_chunk_step now ck r) cs r) =
     GeneratedText r @ concat (map (\<lambda>c. chat_reasoning (snd c) @ chat_text (snd c)) cs)"
  by (induction cs arbitrary: r) (auto simp: chat_step_text)

lemma ChatStream_ok:
  "ChatStream unmarshal (Answered 200 body ls scan_err) ctx_done start fin =
     (sse_loop unmarshal chat_chunk_step ls ((new_result start)\<lparr>EndTime := fin\<rparr>))
       \<lparr>res_err := (if scan_err \<and> \<not> ctx_done then Some ReadingStream
                    else res_err (sse_loop unmarshal chat_chunk_step ls ((new_result start)\<lparr>EndTime := fin\<rparr>)))\<rparr>"
  by (simp add: ChatStream_def Let_def)

lemma CompletionStream_ok:
  "\<exists>e. CompletionStream unmarshal (Answered 200 body ls scan_err) ctx_done start fin =
     (let r = sse_loop unmarshal completion_chunk_step ls ((new_result start)\<lparr>EndTime := fin\<rparr>)
      in r\<lparr>GeneratedText := Content r, res_err := e\<rparr>)"
proof -
  let ?r = "sse_loop unmarshal completion_chunk_step ls ((new_result start)\<lparr>EndTime := fin\<rparr>)"
  show ?thesis
    by (intro exI [of _ "if scan_err \<and> \<not> ctx_done then Some ReadingStream else res_err ?r"])
       (simp add: CompletionStream_def Let_def)
qed

lemma latency_fields:
  "TTFT (r\<lparr>res_err := e\<rparr>) = TTFT r" "ITLs (r\<lparr>res_err := e\<rparr>) = ITLs r"
  "TotalLatency (r\<lparr>res_err := e\<rparr>) = TotalLatency r"
  "TTFT (r\<lparr>GeneratedText := g\<rparr>) = TTFT r" "ITLs (r\<lparr>GeneratedText := g\<rparr>) = ITLs r"
  "TotalLatency (r\<lparr>GeneratedText := g\<rparr>) = TotalLatency r"
  by (simp_all add: TTFT_def ITLs_def TotalLatency_def split: option.splits)

text \<open>
  For a monotone clock, the latencies measured for a streamed answer are consistent, for chat and
  for completion requests: the time to first token and all inter-token latencies are not
  negative, their sum does not exceed the total latency, and there is one inter-token latency less
  than tokens.
\<close>

theorem stream_latencies_consistent:
  assumes "sorted (start # map fst ls @ [fin])"
    and "r = ChatStream um (Answered 200 body ls scan_err) ctx_done start fin \<or>
         r = CompletionStream um' (Answered 200 body ls scan_err) ctx_done start fin"
  shows "0 \<le> TTFT r \<and> (\<forall>d\<in>set (ITLs r). 0 \<le> d) \<and> TTFT r + sum_list (ITLs r) \<le> TotalLatency r \<and>
     length (ITLs r) = length (TokenTimes r) - 1"
proof -
  let ?r0 = "(new_result start)\<lparr>EndTime := fin\<rparr>"
  note chat = chat.loop_latencies [OF assms(1), of um]
    and comp = completion.loop_latencies [OF assms(1), of um']
  from assms(2) show ?thesis
  proof
    assume "r = ChatStream um (Answered 200 body ls scan_err) ctx_done start fin"
    with chat show ?thesis by (simp add: ChatStream_ok latency_fields)
  next
    assume "r = CompletionStream um' (Answered 200 body ls scan_err) ctx_done start fin"
    moreover obtain e where "CompletionStream um' (Answered 200 body ls scan_err) ctx_done start fin =
       (let r = sse_loop um' completion_chunk_step ls ?r0 in r\<lparr>GeneratedText := Content r, res_err := e\<rparr>)"
      using CompletionStream_ok by blast
    ultimately show ?thesis using comp by (simp add: Let_def latency_fields)
  qed
qed

definition one_token_chunk :: chat_chunk where
  "one_token_chunk = \<lparr>chunk_choices = [\<lparr>ch_delta = \<lparr>d_content = ''a'', d_reasoning = [], d_reasoning_content = []\<rparr>,
     ch_finish_reason = None\<rparr>], chunk_usage = None\<rparr>"

theorem stream_latencies_consistent_witness:
  "let r = ChatStream (\<lambda>_. Some one_token_chunk)
       (Answered 200 [] [(5, ''data: x''), (6, ''''), (9, ''data: y''), (10, ''data: [DONE]'')] False) False 1 11
   in ITLs r = [4] \<and> TTFT r + sum_list (ITLs r) \<le> TotalLatency r"
proof -
  let ?ls = "[(5, ''data: x''), (6, ''''), (9, ''data: y''), (10, ''data: [DONE]'')] :: (time \<times> string) list"
  let ?r = "ChatStream (\<lambda>_. Some one_token_chunk) (Answered 200 [] ?ls False) False 1 11"
  have "ITLs ?r = [4]" by code_simp
  moreover have "TTFT ?r + sum_list (ITLs ?r) \<le> TotalLatency ?r"
    using stream_latencies_consistent [of 1 ?ls 11 ?r "\<lambda>_. Some one_token_chunk" "[]" False False] by simp
  ultimately show ?thesis by (simp add: Let_def)
qed

text \<open>
  The text of a streamed chat answer is the concatenation of the first choice's deltas of the
  decodable chunks before the end marker: the visible content without the reasoning, and the
  generated text with the reasoning of a chunk before its content. Without usage in the
  stream the output token count is the number of chunks that carried text.
\<close>

theorem chat_stream_text:
  "let r = ChatStream unmarshal (Answered 200 body ls scan_err) ctx_done start fin;
       cs = map snd (decoded_chunks unmarshal ls)
   in Content r = concat (map chat_text cs) \<and> Reasoning r = concat (map chat_reasoning cs) \<and>
      GeneratedText r = concat (map (\<lambda>c. chat_reasoning c @ chat_text c) cs) \<and>
      length (TokenTimes r) = length (filter chat_counts cs)"
  by (simp add: Let_def ChatStream_ok sse_loop_fold chat_fold_text chat.fold_tokens new_result_def comp_def
      filter_map)

text \<open>
  \<open>CalibrateTokenRatio\<close> answers 4.0 only for samples under 100 bytes. For a longer sample it returns
  the rounded quotient of at most 2000 bytes by the tokenizer's count, and an error when the
  tokenizer is unavailable, so that the fallback is left to the caller.
\<close>

theorem calibrate_token_ratio_cases:
  "(length sample < 100 \<longrightarrow> CalibrateTokenRatio tokenize sample = Inr 4) \<and>
   (100 \<le> length sample \<longrightarrow>
      (case CountTokens tokenize (take 2000 sample) of
         Inl e \<Rightarrow> CalibrateTokenRatio tokenize sample = Inl e
       | Inr n \<Rightarrow> n \<noteq> 0 \<and> CalibrateTokenRatio tokenize sample =
           Inr (f64_round (of_nat (min 2000 (length sample)) / f64_of_int n))))"
proof -
  have t: "(if 2000 < length sample then take 2000 sample else sample) = take 2000 sample" by simp
  have e: "f64_of_int (int (min 2000 (length sample))) = of_nat (min 2000 (length sample))"
    by (subst f64_of_int_exact) (simp_all add: of_nat_min)
  show ?thesis
    using e
    by (auto simp: CalibrateTokenRatio_def t Let_def CountTokens_def fdiv_def min.commute
             split: reply.splits option.splits if_splits)
qed

theorem calibrate_token_ratio_cases_witness:
  "CalibrateTokenRatio (\<lambda>_. TransportFails) (replicate 200 CHR ''x'') = Inl CallFails \<and>
   CalibrateTokenRatio (\<lambda>_. TransportFails) ''short'' = Inr 4"
proof -
  have c: "CountTokens (\<lambda>_. TransportFails) s = Inl CallFails" for s
    by (simp add: CountTokens_def)
  show ?thesis
    using calibrate_token_ratio_cases [of "replicate 200 CHR ''x''" "\<lambda>_. TransportFails"]
          calibrate_token_ratio_cases [of "''short''" "\<lambda>_. TransportFails"]
    by (simp add: c)
qed

end
