(* ===== verification/Eval.thy ===== *)
theory Eval
  imports Go_Float Go_Strings
begin

text \<open>
  Package \<open>eval\<close> (\<open>eval.go\<close>): extraction of numeric and multiple-choice answers and their comparison.

  The two number patterns are given as the matchers they denote: \<open>numberRe\<close> is an optional minus,
  digits and commas, an optional point and digits; \<open>hashAnswerRe\<close> is four hashes, white space and the rest of
  the line. Both are leftmost-first. The multiple-choice patterns are an argument of
  \<open>ExtractMCAnswer\<close>: a list of functions that give the submatches of the leftmost match; theory
  \<open>Eval_Patterns\<close> supplies them.
\<close>

section \<open>Numbers\<close>

definition drop_leading_zeros :: "string \<Rightarrow> string" where
  "drop_leading_zeros s =
     (if 1 < length s \<and> s ! 0 = CHR ''0'' \<and> s ! 1 \<noteq> CHR ''.''
      then let t = trim_left (\<lambda>c. c = CHR ''0'') s
           in if t = [] \<or> hd t = CHR ''.'' then CHR ''0'' # t else t
      else s)"

definition normalizeNumber :: "string \<Rightarrow> string" where
  "normalizeNumber s =
     (let s2 = drop_leading_zeros (trim_space (remove_char CHR '','' s))
      in if contains s2 ''.'' then trim_right (\<lambda>c. c = CHR ''.'') (trim_right (\<lambda>c. c = CHR ''0'') s2) else s2)"

definition num_char :: "char \<Rightarrow> bool" where
  "num_char c \<longleftrightarrow> is_digit c \<or> c = CHR '',''"

text \<open>The match of \<open>numberRe\<close> at the front of a string, and the rest of the string.\<close>

definition number_tail :: "string \<Rightarrow> string \<times> string" where
  "number_tail s =
     (let (pt, r) = (case s of c # t \<Rightarrow> if c = CHR ''.'' then ([c], t) else ([], s) | [] \<Rightarrow> ([], []))
      in (pt @ takeWhile is_digit r, dropWhile is_digit r))"

definition number_at :: "string \<Rightarrow> (string \<times> string) option" where
  "number_at s =
     (let (sign, r) = (case s of c # t \<Rightarrow> if c = CHR ''-'' then ([c], t) else ([], s) | [] \<Rightarrow> ([], []));
          ds = takeWhile num_char r
      in if ds = [] then None
         else let (m, rest) = number_tail (dropWhile num_char r) in Some (sign @ ds @ m, rest))"

fun find_number :: "string \<Rightarrow> string" where
  "find_number [] = []"
| "find_number (c # s) = (case number_at (c # s) of Some (m, _) \<Rightarrow> m | None \<Rightarrow> find_number s)"

lemma number_at_shorter: "number_at s = Some (m, rest) \<Longrightarrow> length rest < length s"
proof -
  have dw: "length (dropWhile p r) \<le> length r" for p :: "char \<Rightarrow> bool" and r by (rule length_dropWhile_le)
  have tail: "number_tail r = (m, rest) \<Longrightarrow> length rest \<le> length r" for r m rest
    by (cases r) (auto simp: number_tail_def intro: order_trans [OF dw] le_SucI split: if_splits)
  have tw: "takeWhile p r \<noteq> [] \<Longrightarrow> length (dropWhile p r) < length r" for p :: "char \<Rightarrow> bool" and r
    by (cases r) (auto simp: le_imp_less_Suc dw split: if_splits)
  assume "number_at s = Some (m, rest)"
  then show ?thesis
    by (cases s) (auto simp: number_at_def Let_def split: if_splits prod.splits dest!: tail tw
        intro: le_less_trans [OF _ le_imp_less_Suc [OF dw]])
qed

function find_all_numbers :: "string \<Rightarrow> string list" where
  "find_all_numbers [] = []"
| "find_all_numbers (c # s) =
     (case number_at (c # s) of Some (m, rest) \<Rightarrow> m # find_all_numbers rest | None \<Rightarrow> find_all_numbers s)"
  by pat_completeness auto
termination
  by (relation "measure length") (auto dest!: number_at_shorter)

text \<open>\<open>\\s\<close> of the regular expressions, which unlike \<open>unicode.IsSpace\<close> excludes the vertical tab.\<close>

definition re_space :: "char \<Rightarrow> bool" where
  "re_space c \<longleftrightarrow> char_code c \<in> {9, 10, 12, 13, 32}"

definition newline :: "char \<Rightarrow> bool" where "newline c \<longleftrightarrow> char_code c = 10"

text \<open>The group of \<open>hashAnswerRe\<close> for a match whose hashes end before \<open>s\<close>. When only white space follows,
  the greedy \<open>\\s*\<close> gives back its last character that is not a newline.\<close>

definition hash_group :: "string \<Rightarrow> string option" where
  "hash_group s =
     (let w = takeWhile re_space s; rest = dropWhile re_space s
      in if rest \<noteq> [] then Some (takeWhile (\<lambda>c. \<not> newline c) rest)
         else case dropWhile newline (rev w) of [] \<Rightarrow> None | c # _ \<Rightarrow> Some [c])"

fun hash_answer :: "string \<Rightarrow> string option" where
  "hash_answer [] = None"
| "hash_answer (c # s) =
     (if has_prefix (c # s) ''####''
      then (case hash_group (drop 4 (c # s)) of Some g \<Rightarrow> Some g | None \<Rightarrow> hash_answer s)
      else hash_answer s)"

definition after_hash :: "string \<Rightarrow> string" where
  "after_hash g = (let after = trim_space g; nums = find_number after
                   in if nums \<noteq> [] then normalizeNumber nums else normalizeNumber after)"

definition last_number :: "string \<Rightarrow> string" where
  "last_number s = (let matches = find_all_numbers s
                    in if matches \<noteq> [] then normalizeNumber (last matches) else [])"

definition boxed_answer :: "string \<Rightarrow> string option" where
  "boxed_answer response =
     (case last_index response (CHR 0x5C # ''boxed{'') of
        None \<Rightarrow> None
      | Some idx \<Rightarrow>
          let rest = drop (idx + 7) response
          in case index_of rest ''}'' of
               None \<Rightarrow> None
             | Some e \<Rightarrow> Some (normalizeNumber (trim_space (take e rest))))"

definition ExtractAnswer :: "string \<Rightarrow> string" where
  "ExtractAnswer response =
     (case hash_answer response of
        Some g \<Rightarrow> after_hash g
      | None \<Rightarrow> (case boxed_answer response of Some a \<Rightarrow> a | None \<Rightarrow> last_number response))"

definition ExtractExpected :: "string \<Rightarrow> string" where
  "ExtractExpected answer =
     (case hash_answer answer of Some g \<Rightarrow> after_hash g | None \<Rightarrow> last_number answer)"

definition CheckCorrect :: "string \<Rightarrow> string \<Rightarrow> bool" where
  "CheckCorrect expected extracted \<longleftrightarrow>
     expected \<noteq> [] \<and> extracted \<noteq> [] \<and> normalizeNumber expected = normalizeNumber extracted"

section \<open>Multiple choice\<close>

text \<open>Go compares strings bytewise.\<close>

fun str_le :: "string \<Rightarrow> string \<Rightarrow> bool" where
  "str_le [] t = True"
| "str_le (c # s) [] = False"
| "str_le (c # s) (d # t) = (char_code c < char_code d \<or> (c = d \<and> str_le s t))"

definition in_A_D :: "string \<Rightarrow> bool" where
  "in_A_D l \<longleftrightarrow> str_le ''A'' l \<and> str_le l ''D''"

type_synonym submatch = "string \<Rightarrow> string list option"

fun mc_matches :: "nat \<Rightarrow> submatch list \<Rightarrow> string \<Rightarrow> (nat \<times> nat \<times> string) list" where
  "mc_matches prio [] body = []"
| "mc_matches prio (pat # pats) body =
     (case pat body of
        Some (m0 # m1 # ms) \<Rightarrow>
          (let letter = to_upper m1
           in if in_A_D letter then (prio, length m0, letter) # mc_matches (Suc prio) pats body
              else mc_matches (Suc prio) pats body)
      | _ \<Rightarrow> mc_matches (Suc prio) pats body)"

definition better :: "nat \<times> nat \<times> string \<Rightarrow> nat \<times> nat \<times> string \<Rightarrow> nat \<times> nat \<times> string" where
  "better m best =
     (if fst m < fst best \<or> (fst m = fst best \<and> fst (snd m) < fst (snd best)) then m else best)"

definition ExtractMCAnswer :: "submatch list \<Rightarrow> string \<Rightarrow> string" where
  "ExtractMCAnswer mcPatterns response =
     (let body = (case last_index response ''</think>'' of Some idx \<Rightarrow> drop (idx + 8) response | None \<Rightarrow> response)
      in case mc_matches 0 mcPatterns body of
           b # ms \<Rightarrow> snd (snd (fold better ms b))
         | [] \<Rightarrow>
             (case trim_left (\<lambda>c. c = CHR ''*'') (trim_space body) of
                c # _ \<Rightarrow> (let ch = to_upper [c] in if in_A_D ch then ch else [])
              | [] \<Rightarrow> []))"

fun IsMCAnswer :: "string \<Rightarrow> bool" where
  "IsMCAnswer (a # b # c # s) =
     ((a = CHR ''('' \<and> b \<in> set ''ABCD'' \<and> c = CHR '')'') \<or> IsMCAnswer (b # c # s))"
| "IsMCAnswer s = False"

definition normalizeMC :: "string \<Rightarrow> string" where
  "normalizeMC s = to_upper (trim_cutset ''()'' (trim_space s))"

definition CheckMCCorrect :: "string \<Rightarrow> string \<Rightarrow> bool" where
  "CheckMCCorrect expected extracted \<longleftrightarrow>
     expected \<noteq> [] \<and> extracted \<noteq> [] \<and> normalizeMC expected = normalizeMC extracted"

section \<open>Decimal numbers and their normal form\<close>

definition digits :: "string \<Rightarrow> bool" where
  "digits s \<longleftrightarrow> list_all is_digit s"

text \<open>The value of a fraction part and of a decimal.\<close>

fun frac_val :: "string \<Rightarrow> rat" where
  "frac_val [] = 0"
| "frac_val (c # s) = (of_nat (digit_val c) + frac_val s) / 10"

definition decimal_value :: "string \<Rightarrow> string \<Rightarrow> rat" where
  "decimal_value i f = of_nat (dec_to_nat i) + frac_val f"

text \<open>A decimal with integer part \<open>i\<close> and fraction \<open>f\<close>, commas anywhere; the point may be missing when
  the fraction is empty.\<close>

definition is_decimal :: "string \<Rightarrow> string \<Rightarrow> string \<Rightarrow> bool" where
  "is_decimal s i f \<longleftrightarrow> digits i \<and> i \<noteq> [] \<and> digits f \<and>
     (remove_char CHR '','' s = i @ CHR ''.'' # f \<or> (f = [] \<and> remove_char CHR '','' s = i))"

definition strip_zeros :: "string \<Rightarrow> string" where
  "strip_zeros i = (case dropWhile (\<lambda>c. c = CHR ''0'') i of [] \<Rightarrow> ''0'' | j \<Rightarrow> j)"

definition canonical :: "string \<Rightarrow> string \<Rightarrow> string" where
  "canonical i f = strip_zeros i @
     (case trim_right (\<lambda>c. c = CHR ''0'') f of [] \<Rightarrow> [] | g \<Rightarrow> CHR ''.'' # g)"

lemma digits_simps [simp]:
  "digits []" "digits (c # s) \<longleftrightarrow> is_digit c \<and> digits s" "digits (s @ t) \<longleftrightarrow> digits s \<and> digits t"
  by (auto simp: digits_def)

lemma digit_not [simp]: "\<not> is_digit CHR ''.''" "\<not> is_digit CHR '',''" "is_digit CHR ''0''" "digit_val CHR ''0'' = 0"
  by (simp_all add: is_digit_def char_code_def digit_val_def)

lemma digits_no_point: "digits s \<Longrightarrow> CHR ''.'' \<notin> set s"
  by (auto simp: digits_def list_all_iff)

lemma digit_not_space: "is_digit c \<Longrightarrow> \<not> is_space c"
  by (auto simp: is_digit_def is_space_def)

lemma point_not_space: "\<not> is_space CHR ''.''"
  by (simp add: is_space_def char_code_def)

lemma digits_dropWhile: "digits s \<Longrightarrow> digits (dropWhile p s)"
  by (auto simp: digits_def list_all_iff dest: set_dropWhileD)

lemma digits_trim_right: "digits s \<Longrightarrow> digits (trim_right p s)"
  by (auto simp: digits_def list_all_iff trim_right_def dest: set_dropWhileD)

lemma digits_strip_zeros: "digits i \<Longrightarrow> digits (strip_zeros i)"
  using digits_dropWhile [of i "\<lambda>c. c = CHR ''0''"] by (auto simp: strip_zeros_def split: list.splits)

lemma strip_zeros_nonempty [simp]: "strip_zeros i \<noteq> []"
  by (simp add: strip_zeros_def split: list.splits)

lemma trim_right_append: "trim_right p (s @ t) = (if trim_right p t = [] then trim_right p s else s @ trim_right p t)"
  by (auto simp: trim_right_def dropWhile_append dropWhile_eq_Nil_conv)

lemma strip_zeros_nonzero: "i \<noteq> [] \<Longrightarrow> hd i \<noteq> CHR ''0'' \<Longrightarrow> strip_zeros i = i"
  by (cases i) (simp_all add: strip_zeros_def)

text \<open>The step of \<open>normalizeNumber\<close> that removes leading zeros.\<close>

lemma leading_zeros:
  assumes "digits i" and "i \<noteq> []" and "t = [] \<or> hd t = CHR ''.''"
  shows "drop_leading_zeros (i @ t) = strip_zeros i @ t"
proof (cases "dropWhile (\<lambda>c. c = CHR ''0'') i")
  case Nil
  then have z: "\<forall>c\<in>set i. c = CHR ''0''" by (simp add: dropWhile_eq_Nil_conv)
  then have d: "trim_left (\<lambda>c. c = CHR ''0'') (i @ t) = t"
    using assms(3) by (cases t) (auto simp: trim_left_def dropWhile_append)
  from assms(2) z obtain i' where i: "i = CHR ''0'' # i'" by (cases i) auto
  have s: "strip_zeros i = ''0''" unfolding strip_zeros_def Nil by simp
  show ?thesis
  proof (cases i')
    case Nil
    with i s assms(3) show ?thesis by (cases t) (auto simp: drop_leading_zeros_def)
  next
    case (Cons c i'')
    with z i have "c = CHR ''0''" by auto
    with d s i Cons assms(1,3) show ?thesis by (auto simp: drop_leading_zeros_def)
  qed
next
  case (Cons c j)
  have c: "is_digit c" "c \<noteq> CHR ''0''"
    using digits_dropWhile [OF assms(1), of "\<lambda>c. c = CHR ''0''"] Cons hd_dropWhile [of "\<lambda>c. c = CHR ''0''" i]
    by auto
  have d: "trim_left (\<lambda>c. c = CHR ''0'') (i @ t) = strip_zeros i @ t"
    unfolding trim_left_def strip_zeros_def Cons
    using dropWhile_append1 [of c i "\<lambda>c. c = CHR ''0''" t] c Cons set_dropWhileD [of c "\<lambda>c. c = CHR ''0''" i]
    by simp
  have h: "hd (strip_zeros i @ t) = c" unfolding strip_zeros_def Cons by simp
  have "c \<noteq> CHR ''.''" using c by auto
  moreover have "i @ t = strip_zeros i @ t" if "\<not> (1 < length (i @ t) \<and> (i @ t) ! 0 = CHR ''0'' \<and> (i @ t) ! 1 \<noteq> CHR ''.'')"
  proof (cases i)
    case (Cons a i')
    show ?thesis
    proof (cases "a = CHR ''0''")
      case True
      with that Cons \<open>dropWhile _ i = c # j\<close> assms(1) obtain b i'' where "i' = b # i''" by (cases i') auto
      with that Cons True assms(1) show ?thesis by auto
    next
      case False
      with Cons show ?thesis by (simp add: strip_zeros_nonzero)
    qed
  qed (use assms(2) in simp)
  ultimately show ?thesis using d h by (auto simp: drop_leading_zeros_def)
qed

lemma normalize_canonical:
  assumes "is_decimal s i f"
  shows "normalizeNumber s = canonical i f"
proof -
  let ?z = "\<lambda>c. c = CHR ''0''" and ?p = "\<lambda>c. c = CHR ''.''"
  have i: "digits i" "i \<noteq> []" and f: "digits f" using assms by (auto simp: is_decimal_def)
  have sp: "trim_space (i @ t) = i @ t" if "t = [] \<or> t = CHR ''.'' # f" for t
    using that i f point_not_space by (intro trim_space_idle) (auto simp: list_all_iff digits_def digit_not_space)
  note di = digits_strip_zeros [OF i(1)]
  consider (pt) "remove_char CHR '','' s = i @ CHR ''.'' # f" | (no) "f = []" "remove_char CHR '','' s = i"
    using assms by (auto simp: is_decimal_def)
  then show ?thesis
  proof cases
    case no
    have "\<not> contains (strip_zeros i) ''.''" using digits_no_point [OF di] by (simp add: contains_char)
    with no sp [of "[]"] leading_zeros [OF i, of "[]"] show ?thesis
      by (simp add: normalizeNumber_def canonical_def trim_right_def)
  next
    case pt
    have n: "normalizeNumber s = trim_right ?p (trim_right ?z (strip_zeros i @ CHR ''.'' # f))"
      using pt sp [of "CHR ''.'' # f"] leading_zeros [OF i, of "CHR ''.'' # f"]
      by (simp add: normalizeNumber_def contains_char)
    have z: "trim_right ?z (strip_zeros i @ CHR ''.'' # f) = strip_zeros i @ CHR ''.'' # trim_right ?z f"
      using trim_right_append [of ?z "strip_zeros i @ [CHR ''.'']" f]
      by (auto simp: trim_right_def)
    show ?thesis
    proof (cases "trim_right ?z f = []")
      case True
      have "\<not> ?p (last (strip_zeros i))"
        using digits_no_point [OF di] by (metis last_in_set strip_zeros_nonempty)
      with True n z show ?thesis
        by (simp add: canonical_def trim_right_snoc trim_right_idle)
    next
      case False
      have "CHR ''.'' \<notin> set (trim_right ?z f)" by (rule digits_no_point [OF digits_trim_right [OF f]])
      then have "\<not> ?p (last (strip_zeros i @ CHR ''.'' # trim_right ?z f))"
        using False by (metis last_ConsR last_appendR last_in_set list.distinct(1))
      then have "trim_right ?p (strip_zeros i @ CHR ''.'' # trim_right ?z f) = strip_zeros i @ CHR ''.'' # trim_right ?z f"
        by (intro trim_right_idle) simp
      with False n z show ?thesis by (simp add: canonical_def split: list.splits)
    qed
  qed
qed

lemma digit_val_bound: "is_digit c \<Longrightarrow> digit_val c \<le> 9"
  by (auto simp: is_digit_def digit_val_def)

lemma digit_val_inject: "is_digit c \<Longrightarrow> is_digit d \<Longrightarrow> digit_val c = digit_val d \<longleftrightarrow> c = d"
  by (auto simp: is_digit_def digit_val_def char_code_inject [symmetric])

lemma digit_char_val: "is_digit c \<Longrightarrow> digit_char (digit_val c) = c"
  by (auto simp: is_digit_def digit_val_def digit_char_def char_code_inject [symmetric])

lemma frac_val_bounds: "digits s \<Longrightarrow> 0 \<le> frac_val s \<and> frac_val s < 1"
proof (induction s)
  case (Cons c s)
  then have "0 \<le> frac_val s" "frac_val s < 1" "digit_val c \<le> 9" by (auto simp: digit_val_bound)
  then have "of_nat (digit_val c) \<le> (9 :: rat)" by (metis of_nat_le_iff of_nat_numeral)
  with \<open>0 \<le> frac_val s\<close> \<open>frac_val s < 1\<close> show ?case by simp
qed simp

lemma frac_val_snoc_zero: "frac_val (s @ ''0'') = frac_val s"
  by (induction s) simp_all

lemma frac_val_trim: "frac_val (trim_right (\<lambda>c. c = CHR ''0'') s) = frac_val s"
  by (induction s rule: rev_induct) (simp_all add: trim_right_snoc frac_val_snoc_zero trim_right_def)

lemma frac_val_zero: "digits s \<Longrightarrow> frac_val s = 0 \<Longrightarrow> set s \<subseteq> {CHR ''0''}"
proof (induction s)
  case (Cons c s)
  then have "digit_val c = 0" "frac_val s = 0" using frac_val_bounds [of s] by (auto simp: add_nonneg_eq_0_iff)
  with Cons show ?case using digit_val_inject [of c "CHR ''0''"] by auto
qed simp

text \<open>A fraction without trailing zeros is determined by its value.\<close>

lemma frac_val_inject:
  assumes "digits s" and "digits t" and "s = [] \<or> last s \<noteq> CHR ''0''" and "t = [] \<or> last t \<noteq> CHR ''0''"
    and "frac_val s = frac_val t"
  shows "s = t"
  using assms
proof (induction s arbitrary: t)
  case Nil
  then have "set t \<subseteq> {CHR ''0''}" using frac_val_zero [of t] by simp
  with Nil.prems(4) show ?case by (cases t rule: rev_cases) auto
next
  case (Cons c s)
  show ?case
  proof (cases t)
    case Nil
    with Cons.prems have "set (c # s) \<subseteq> {CHR ''0''}" by (intro frac_val_zero) auto
    with Cons.prems(3) show ?thesis by (metis last_in_set list.distinct(1) singletonD subsetD)
  next
    case t: (Cons d u)
    let ?a = "of_nat (digit_val c) :: rat" and ?b = "of_nat (digit_val d) :: rat"
    have eq: "?a + frac_val s = ?b + frac_val u" using Cons.prems(5) t by simp
    have b: "0 \<le> frac_val s" "frac_val s < 1" "0 \<le> frac_val u" "frac_val u < 1"
      using frac_val_bounds [of s] frac_val_bounds [of u] Cons.prems t by auto
    have "\<lfloor>?a + frac_val s\<rfloor> = int (digit_val c)" "\<lfloor>?b + frac_val u\<rfloor> = int (digit_val d)"
      using b by (simp_all add: floor_eq_iff)
    with eq have dv: "digit_val c = digit_val d" by simp
    then have "c = d" using Cons.prems t by (simp add: digit_val_inject)
    moreover have "frac_val s = frac_val u" using eq dv by simp
    then have "s = u" using Cons.prems t by (intro Cons.IH) (auto split: if_splits)
    ultimately show ?thesis using t by simp
  qed
qed

lemma dec_to_nat_zeros: "dec_to_nat (dropWhile (\<lambda>c. c = CHR ''0'') s) = dec_to_nat s"
  by (induction s) (simp_all add: dec_to_nat_def)

lemma dec_to_nat_strip: "dec_to_nat (strip_zeros s) = dec_to_nat s"
proof (cases "dropWhile (\<lambda>c. c = CHR ''0'') s")
  case Nil
  have "strip_zeros s = ''0''" unfolding strip_zeros_def Nil by simp
  with dec_to_nat_zeros [of s] Nil show ?thesis by (simp add: dec_to_nat_def)
next
  case (Cons c t)
  have "strip_zeros s = c # t" unfolding strip_zeros_def Cons by simp
  with dec_to_nat_zeros [of s] Cons show ?thesis by simp
qed

lemma dec_to_nat_pos: "digits s \<Longrightarrow> s \<noteq> [] \<Longrightarrow> hd s \<noteq> CHR ''0'' \<Longrightarrow> 0 < dec_to_nat s"
proof (induction s rule: rev_induct)
  case (snoc c s)
  show ?case
  proof (cases "s = []")
    case True
    with snoc.prems digit_val_inject [of c "CHR ''0''"] show ?thesis by (auto simp: dec_to_nat_def)
  next
    case False
    with snoc show ?thesis by (simp add: dec_to_nat_snoc)
  qed
qed simp

lemma nat_to_dec_canonical:
  "digits s \<Longrightarrow> s \<noteq> [] \<Longrightarrow> hd s \<noteq> CHR ''0'' \<or> length s = 1 \<Longrightarrow> nat_to_dec (dec_to_nat s) = s"
proof (induction s rule: rev_induct)
  case (snoc c s)
  then have c: "is_digit c" "digit_val c \<le> 9" by (auto simp: digit_val_bound)
  show ?case
  proof (cases "s = []")
    case True
    with c show ?thesis by (simp add: dec_to_nat_def nat_to_dec.simps digit_char_val)
  next
    case False
    with snoc.prems have "hd s \<noteq> CHR ''0''" "digits s" by auto
    with False snoc.IH have "nat_to_dec (dec_to_nat s) = s" "0 < dec_to_nat s" by (auto simp: dec_to_nat_pos)
    with c show ?thesis
      by (subst nat_to_dec.simps) (simp add: dec_to_nat_snoc digit_char_val)
  qed
qed simp

lemma strip_zeros_value: "digits i \<Longrightarrow> nat_to_dec (dec_to_nat i) = strip_zeros i"
proof -
  assume d: "digits i"
  have "hd (strip_zeros i) \<noteq> CHR ''0'' \<or> length (strip_zeros i) = 1"
  proof (cases "dropWhile (\<lambda>c. c = CHR ''0'') i")
    case Nil
    then show ?thesis unfolding strip_zeros_def Nil by simp
  next
    case (Cons c t)
    with hd_dropWhile [of "\<lambda>c. c = CHR ''0''" i] have "c \<noteq> CHR ''0''" by simp
    then show ?thesis unfolding strip_zeros_def Cons by simp
  qed
  from nat_to_dec_canonical [OF digits_strip_zeros [OF d] strip_zeros_nonempty this] show ?thesis
    by (simp add: dec_to_nat_strip)
qed

lemma append_sep_inject:
  assumes "x \<notin> set a" and "x \<notin> set b" and "a @ s = b @ t" and "s = [] \<or> hd s = x" and "t = [] \<or> hd t = x"
  shows "a = b \<and> s = t"
  using assms
proof (induction a arbitrary: b)
  case Nil
  then show ?case by (cases b) auto
next
  case (Cons c a)
  then show ?case by (cases b) auto
qed

lemma canonical_inject:
  assumes "digits i" "i \<noteq> []" "digits f" "digits i'" "i' \<noteq> []" "digits f'"
  shows "canonical i f = canonical i' f' \<longleftrightarrow> decimal_value i f = decimal_value i' f'"
proof
  let ?t = "trim_right (\<lambda>c. c = CHR ''0'')"
  let ?s = "\<lambda>f. case ?t f of [] \<Rightarrow> [] | g \<Rightarrow> CHR ''.'' # g"
  assume "canonical i f = canonical i' f'"
  then have "strip_zeros i = strip_zeros i' \<and> ?s f = ?s f'"
    unfolding canonical_def
    by (intro append_sep_inject [of "CHR ''.''"])
       (use assms digits_no_point digits_strip_zeros in \<open>auto split: list.splits\<close>)
  then have "strip_zeros i = strip_zeros i'" "?t f = ?t f'" by (auto split: list.splits)
  then show "decimal_value i f = decimal_value i' f'"
    unfolding decimal_value_def by (metis dec_to_nat_strip frac_val_trim)
next
  let ?t = "trim_right (\<lambda>c. c = CHR ''0'')"
  assume eq: "decimal_value i f = decimal_value i' f'"
  have b: "0 \<le> frac_val f" "frac_val f < 1" "0 \<le> frac_val f'" "frac_val f' < 1"
    using frac_val_bounds [OF assms(3)] frac_val_bounds [OF assms(6)] by auto
  have "\<lfloor>decimal_value i f\<rfloor> = int (dec_to_nat i)" "\<lfloor>decimal_value i' f'\<rfloor> = int (dec_to_nat i')"
    using b by (simp_all add: decimal_value_def floor_eq_iff)
  with eq have n: "dec_to_nat i = dec_to_nat i'" by simp
  with eq have "frac_val f = frac_val f'" by (simp add: decimal_value_def)
  then have "?t f = ?t f'"
    by (intro frac_val_inject)
       (use assms last_trim_right [of "\<lambda>c. c = CHR ''0''"] in \<open>auto simp: frac_val_trim digits_trim_right\<close>)
  moreover have "strip_zeros i = strip_zeros i'"
    using strip_zeros_value [OF assms(1)] strip_zeros_value [OF assms(4)] n by simp
  ultimately show "canonical i f = canonical i' f'" by (simp add: canonical_def)
qed

section \<open>Properties\<close>

text \<open>
  Numeric answers are compared by value: for decimals without sign (digits, thousands separators, an
  optional fraction), \<open>CheckCorrect\<close> accepts exactly the pairs of equal value, however many leading
  zeros, trailing zeros and separators they are written with.
\<close>

theorem check_correct_by_value:
  assumes "is_decimal a i f" and "is_decimal b i' f'"
  shows "CheckCorrect a b \<longleftrightarrow> decimal_value i f = decimal_value i' f'"
proof -
  have "a \<noteq> []" "b \<noteq> []" using assms by (auto simp: is_decimal_def remove_char_def)
  moreover have "digits i" "i \<noteq> []" "digits f" "digits i'" "i' \<noteq> []" "digits f'"
    using assms by (auto simp: is_decimal_def)
  ultimately show ?thesis
    using canonical_inject [of i f i' f'] normalize_canonical [OF assms(1)] normalize_canonical [OF assms(2)]
    by (simp add: CheckCorrect_def)
qed

theorem check_correct_by_value_witness:
  "is_decimal ''1,234.50'' ''1234'' ''50'' \<and> is_decimal ''01234.5'' ''01234'' ''5'' \<and>
   CheckCorrect ''1,234.50'' ''01234.5''"
proof -
  have a: "is_decimal ''1,234.50'' ''1234'' ''50''" "is_decimal ''01234.5'' ''01234'' ''5''"
    by (simp_all add: is_decimal_def remove_char_def is_digit_def char_code_def)
  have "decimal_value ''1234'' ''50'' = decimal_value ''01234'' ''5''"
    by (simp add: decimal_value_def dec_to_nat_def digit_val_def char_code_def)
  with a check_correct_by_value [OF a] show ?thesis by blast
qed

text \<open>An answer as GSM8K writes it: digits with thousands separators and an optional fraction.\<close>

definition is_answer :: "string \<Rightarrow> string \<Rightarrow> string \<Rightarrow> bool" where
  "is_answer n w f \<longleftrightarrow> list_all num_char w \<and> remove_char CHR '','' w \<noteq> [] \<and> digits f \<and>
     (n = w @ CHR ''.'' # f \<or> (f = [] \<and> n = w))"

lemma num_char_props: "num_char c \<Longrightarrow> c \<noteq> CHR ''#'' \<and> \<not> re_space c \<and> \<not> is_space c \<and> \<not> newline c \<and> c \<noteq> CHR ''-''"
  by (auto simp: num_char_def is_digit_def re_space_def is_space_def newline_def char_code_def)

lemma point_props: "\<not> num_char CHR ''.''" "\<not> re_space CHR ''.''" "\<not> newline CHR ''.''"
  by (simp_all add: num_char_def re_space_def newline_def char_code_def)

lemma is_answer_chars:
  assumes "is_answer n w f" and "c \<in> set n"
  shows "num_char c \<or> c = CHR ''.''"
  using assms by (auto simp: is_answer_def list_all_iff digits_def num_char_def)

lemma is_answer_nonempty: "is_answer n w f \<Longrightarrow> w \<noteq> [] \<and> n \<noteq> [] \<and> num_char (hd n)"
  by (cases w) (auto simp: is_answer_def remove_char_def)

lemma is_answer_decimal: "is_answer n w f \<Longrightarrow> is_decimal n (remove_char CHR '','' w) f"
proof -
  assume a: "is_answer n w f"
  have "CHR '','' \<notin> set f" using a by (auto simp: is_answer_def digits_def list_all_iff)
  then have "remove_char CHR '','' f = f" by (auto simp: remove_char_def filter_id_conv)
  with a show ?thesis
    by (auto simp: is_answer_def is_decimal_def remove_char_def digits_def list_all_iff num_char_def)
qed

lemma number_at_answer: "is_answer n w f \<Longrightarrow> number_at n = Some (n, [])"
proof -
  assume a: "is_answer n w f"
  then obtain c t where n: "n = c # t" "c \<noteq> CHR ''-''"
    using is_answer_nonempty [OF a] num_char_props [of "hd n"] by (cases n) auto
  have w: "takeWhile num_char n = w" "dropWhile num_char n = drop (length w) n"
    using a point_props by (auto simp: is_answer_def list_all_iff takeWhile_append dropWhile_append)
  have f: "takeWhile is_digit f = f" "dropWhile is_digit f = []"
    using a by (auto simp: is_answer_def digits_def list_all_iff takeWhile_eq_all_conv dropWhile_eq_Nil_conv)
  have "number_tail (drop (length w) n) = (drop (length w) n, [])"
    using a f by (auto simp: is_answer_def number_tail_def)
  moreover have "w @ drop (length w) n = n" using a by (auto simp: is_answer_def)
  ultimately show ?thesis
    using n w is_answer_nonempty [OF a] by (auto simp: number_at_def Let_def)
qed

lemma after_hash_answer:
  assumes "is_answer n w f"
  shows "after_hash n = canonical (remove_char CHR '','' w) f"
proof -
  have "trim_space n = n"
    using is_answer_chars [OF assms] num_char_props point_not_space
    by (intro trim_space_idle) (auto simp: list_all_iff)
  moreover have "find_number n = n"
    using number_at_answer [OF assms] is_answer_nonempty [OF assms] by (cases n) auto
  ultimately show ?thesis
    using is_answer_nonempty [OF assms] normalize_canonical [OF is_answer_decimal [OF assms]]
    by (simp add: after_hash_def)
qed

lemma hash_answer_marked:
  assumes "CHR ''#'' \<notin> set p" and "is_answer n w f"
  shows "hash_answer (p @ ''#### '' @ n) = Some n"
  using assms(1)
proof (induction p)
  case Nil
  have ne: "n \<noteq> []" "\<not> re_space (hd n)"
    using is_answer_nonempty [OF assms(2)] num_char_props by auto
  then have "takeWhile re_space (CHR '' '' # n) = '' ''" "dropWhile re_space (CHR '' '' # n) = n"
    by (cases n; simp add: re_space_def char_code_def)+
  moreover have "takeWhile (\<lambda>c. \<not> newline c) n = n"
    using is_answer_chars [OF assms(2)] num_char_props point_props by (auto simp: takeWhile_eq_all_conv)
  ultimately have "hash_group (CHR '' '' # n) = Some n" using ne by (simp add: hash_group_def Let_def)
  then show ?case by (simp add: has_prefix_def numeral_eq_Suc)
qed (auto simp: has_prefix_def)

text \<open>
  Grading a GSM8K answer: when the reference answer and the model's response both end with the marker
  \<open>####\<close> and a number, and have no hash before it, the response is graded correct exactly when
  the two numbers are equal in value.
\<close>

theorem gsm8k_grading:
  assumes "CHR ''#'' \<notin> set p" and "CHR ''#'' \<notin> set q" and "is_answer m w f" and "is_answer n v g"
  shows "CheckCorrect (ExtractExpected (p @ ''#### '' @ m)) (ExtractAnswer (q @ ''#### '' @ n)) \<longleftrightarrow>
     decimal_value (remove_char CHR '','' w) f = decimal_value (remove_char CHR '','' v) g"
proof -
  let ?i = "remove_char CHR '','' w" and ?j = "remove_char CHR '','' v"
  have d: "digits ?i" "?i \<noteq> []" "digits f" "digits ?j" "?j \<noteq> []" "digits g"
    using is_answer_decimal [OF assms(3)] is_answer_decimal [OF assms(4)] by (auto simp: is_decimal_def)
  have e: "ExtractExpected (p @ ''#### '' @ m) = canonical ?i f" "ExtractAnswer (q @ ''#### '' @ n) = canonical ?j g"
    using hash_answer_marked [OF assms(1,3)] hash_answer_marked [OF assms(2,4)]
          after_hash_answer [OF assms(3)] after_hash_answer [OF assms(4)]
    by (simp_all add: ExtractExpected_def ExtractAnswer_def)
  have idem: "normalizeNumber (canonical i f) = canonical i f" if "digits i" "i \<noteq> []" "digits f" for i f
  proof -
    let ?t = "trim_right (\<lambda>c. c = CHR ''0'') f"
    have dt: "digits ?t" "digits (strip_zeros i)" using that by (simp_all add: digits_trim_right digits_strip_zeros)
    then have "CHR '','' \<notin> set (canonical i f)"
      by (cases "trim_right (\<lambda>c. c = CHR ''0'') f") (auto simp: canonical_def digits_def list_all_iff)
    then have "remove_char CHR '','' (canonical i f) = canonical i f"
      by (auto simp: remove_char_def filter_id_conv)
    then have "is_decimal (canonical i f) (strip_zeros i) ?t"
      using dt by (auto simp: is_decimal_def canonical_def split: list.splits)
    moreover have "canonical (strip_zeros i) ?t = canonical i f"
      using that dt by (subst canonical_inject) (simp_all add: decimal_value_def dec_to_nat_strip frac_val_trim)
    ultimately show ?thesis using normalize_canonical by metis
  qed
  show ?thesis
    using canonical_inject [OF d] idem d e by (simp add: CheckCorrect_def) (simp add: canonical_def)
qed

theorem gsm8k_grading_witness:
  "CheckCorrect (ExtractExpected ''6 * 7 = 42. #### 42'') (ExtractAnswer ''so we get #### 42.0'')"
proof -
  have "CheckCorrect (ExtractExpected (''6 * 7 = 42. '' @ ''#### '' @ ''42''))
          (ExtractAnswer (''so we get '' @ ''#### '' @ ''42.0''))"
    by (subst gsm8k_grading [of _ _ _ "''42''" "[]" _ "''42''" "''0''"])
       (simp_all add: is_answer_def num_char_def is_digit_def char_code_def remove_char_def decimal_value_def
          digit_val_def)
  then show ?thesis by simp
qed

text \<open>The answer that the patterns' order prescribes: the letter of the first pattern with a letter match.\<close>

fun first_mc :: "submatch list \<Rightarrow> string \<Rightarrow> string option" where
  "first_mc [] body = None"
| "first_mc (pat # pats) body =
     (case pat body of
        Some (m0 # m1 # ms) \<Rightarrow> if in_A_D (to_upper m1) then Some (to_upper m1) else first_mc pats body
      | _ \<Rightarrow> first_mc pats body)"

lemma mc_matches_prio: "m \<in> set (mc_matches k pats body) \<Longrightarrow> k \<le> fst m"
  by (induction k pats body rule: mc_matches.induct)
     (fastforce simp: Let_def split: option.splits list.splits if_splits)+

lemma better_idle: "\<forall>m\<in>set ms. fst b < fst m \<Longrightarrow> fold better ms b = b"
  by (induction ms) (auto simp: better_def)

lemma mc_matches_first:
  "(case mc_matches k pats body of [] \<Rightarrow> None | b # ms \<Rightarrow> Some (snd (snd (fold better ms b)))) = first_mc pats body"
proof (induction pats arbitrary: k)
  case (Cons pat pats)
  have "\<forall>m\<in>set (mc_matches (Suc k) pats body). k < fst m" using mc_matches_prio by fastforce
  then have idle: "fold better (mc_matches (Suc k) pats body) (k, l, x) = (k, l, x)" for l x
    by (intro better_idle) simp
  show ?case
  proof (cases "\<exists>m0 m1 ms. pat body = Some (m0 # m1 # ms) \<and> in_A_D (to_upper m1)")
    case True
    with idle show ?thesis by (auto simp: Let_def)
  next
    case False
    then have "mc_matches k (pat # pats) body = mc_matches (Suc k) pats body"
        "first_mc (pat # pats) body = first_mc pats body"
      by (auto simp: Let_def split: option.splits list.splits)
    with Cons.IH [of "Suc k"] show ?thesis by simp
  qed
qed simp

lemma in_A_D_char: "in_A_D [c] \<Longrightarrow> [c] \<in> {''A'', ''B'', ''C'', ''D''}"
proof -
  assume "in_A_D [c]"
  then have "char_code c \<in> {65, 66, 67, 68}"
    by (auto simp: in_A_D_def char_code_def split: if_splits)
  then show ?thesis by (auto simp: char_code_inject [symmetric] char_code_def)
qed

text \<open>
  The extracted multiple-choice answer is the letter of the first pattern, in the order of
  \<open>mcPatterns\<close>, that matches the text after the reasoning section; the tie-break on the length of
  the match is never used. When every pattern captures a single character, the answer is
  one of the letters A to D, or empty.
\<close>

theorem extract_mc_first_pattern:
  defines "body \<equiv> \<lambda>response. case last_index response ''</think>'' of Some i \<Rightarrow> drop (i + 8) response | None \<Rightarrow> response"
  shows "(\<forall>l. first_mc pats (body response) = Some l \<longrightarrow> ExtractMCAnswer pats response = l) \<and>
     ((\<forall>pat\<in>set pats. \<forall>m0 m1 ms. pat (body response) = Some (m0 # m1 # ms) \<longrightarrow> length m1 = 1) \<longrightarrow>
        ExtractMCAnswer pats response \<in> {[], ''A'', ''B'', ''C'', ''D''})"
proof -
  let ?t = "body response"
  have E: "ExtractMCAnswer pats response = (case first_mc pats ?t of Some l \<Rightarrow> l | None \<Rightarrow>
      (case trim_left (\<lambda>c. c = CHR ''*'') (trim_space ?t) of
         c # _ \<Rightarrow> if in_A_D (to_upper [c]) then to_upper [c] else [] | [] \<Rightarrow> []))"
    using mc_matches_first [of 0 pats ?t]
    by (auto simp: ExtractMCAnswer_def body_def Let_def split: list.splits option.splits)
  have "first_mc pats t = Some l \<Longrightarrow> \<forall>pat\<in>set pats. \<forall>m0 m1 ms. pat t = Some (m0 # m1 # ms) \<longrightarrow> length m1 = 1 \<Longrightarrow>
      l \<in> {''A'', ''B'', ''C'', ''D''}" for l t
  proof (induction pats)
    case (Cons pat pats)
    show ?case
    proof (cases "\<exists>m0 m1 ms. pat t = Some (m0 # m1 # ms) \<and> in_A_D (to_upper m1)")
      case True
      then obtain m0 m1 ms where m: "pat t = Some (m0 # m1 # ms)" "in_A_D (to_upper m1)" by blast
      with Cons.prems obtain c where "m1 = [c]" "l = to_upper m1" by (auto simp: length_Suc_conv)
      with m show ?thesis using in_A_D_char [of "upper_char c"] by (simp add: to_upper_def)
    next
      case False
      then have "first_mc (pat # pats) t = first_mc pats t" by (auto split: option.splits list.splits)
      with Cons show ?thesis by simp
    qed
  qed simp
  then have "first_mc pats ?t = Some l \<Longrightarrow> \<forall>pat\<in>set pats. \<forall>m0 m1 ms. pat ?t = Some (m0 # m1 # ms) \<longrightarrow> length m1 = 1 \<Longrightarrow>
      l \<in> {''A'', ''B'', ''C'', ''D''}" for l .
  with E show ?thesis
    using in_A_D_char by (fastforce simp: to_upper_def split: option.splits list.splits)
qed

theorem extract_mc_first_pattern_witness:
  "ExtractMCAnswer [\<lambda>_. None, \<lambda>t. Some [t, ''b''], \<lambda>t. Some [t, ''c'']] ''ans'' = ''B''"
proof -
  let ?p = "[\<lambda>_. None, \<lambda>t. Some [t, ''b''], \<lambda>t. Some [t, ''c'']] :: submatch list"
  have t: "last_index ''ans'' ''</think>'' = None" by (simp add: has_prefix_def)
  have f: "first_mc ?p ''ans'' = Some ''B''" by code_simp
  show ?thesis
    using extract_mc_first_pattern [THEN conjunct1, THEN spec, of ?p "''ans''" "''B''"] f unfolding t by simp
qed

end
