(* ===== verification/Loadgen.thy ===== *)
theory Loadgen
  imports Config Client Recorder Eval
begin

text \<open>
  Package \<open>loadgen\<close>, file \<open>generator.go\<close>: the generator's requests, conversations and records, the resizable
  stream pool, the shared request limit, the stop after consecutive errors, the stage loops of
  the three kinds of scheduling and the rate-based dispatcher. The conversation pool has its
  own theory.

  Answers of the server, the state of the context at each check, random numbers and the answers of callbacks
  are arguments. Atomic counters and the compare-and-swap loop of \<open>fill\<close> are modelled as steps of
  interleaved threads.
\<close>

section \<open>The generator and its requests\<close>

record Generator =
  g_model :: string
  g_mode :: string
  g_concurrency :: int
  g_pool_size :: int
  g_rate :: rat
  g_max_inflight :: int
  g_rampup :: duration
  g_duration :: duration
  g_cache_salt :: "cache_salt option"
  g_stream_usage :: bool

definition streamOptions :: "Generator \<Rightarrow> (string \<times> bool) list" where
  "streamOptions g = (if g_stream_usage g then [(''include_usage'', True)] else [])"

text \<open>\<open>random\<close> is the base64 text of the 32 random bytes drawn for this request.\<close>

definition cacheSalt :: "string \<Rightarrow> Generator \<Rightarrow> string" where
  "cacheSalt random g =
     (case g_cache_salt g of
        None \<Rightarrow> []
      | Some cs \<Rightarrow> if salt_mode cs = ''random'' then random
                  else if salt_mode cs = ''fixed'' then salt_value cs else [])"

definition chat_request :: "Generator \<Rightarrow> string \<Rightarrow> Conversation \<Rightarrow> Message list \<Rightarrow> Request" where
  "chat_request g random conv history =
     \<lparr>rq_model = g_model g, rq_messages = history, rq_stream = True, rq_stream_options = streamOptions g,
      rq_max_tokens = MaxTokens conv, rq_cache_salt = cacheSalt random g, rq_extra_headers = []\<rparr>"

definition completion_request :: "Generator \<Rightarrow> string \<Rightarrow> Conversation \<Rightarrow> CompletionRequest" where
  "completion_request g random conv =
     \<lparr>cr_model = g_model g, cr_prompt = Prompt conv, cr_stream = True, cr_stream_options = streamOptions g,
      cr_max_tokens = MaxTokens conv, cr_stop = Stop conv, cr_temperature = Temperature conv,
      cr_cache_salt = cacheSalt random g\<rparr>"

text \<open>Requests cut short by shutdown are not recorded.\<close>

definition cut_short :: "bool \<Rightarrow> Result \<Rightarrow> bool" where
  "cut_short ctx_done r \<longleftrightarrow> ctx_done \<and> res_err r = None \<and> FinishReason r = []"

section \<open>Conversations\<close>

record turn_env =
  te_done_before :: bool
  te_random :: string
  te_chat :: "Request \<Rightarrow> Result"
  te_completion :: "CompletionRequest \<Rightarrow> Result"
  te_done_after :: bool

datatype conv_event =
    SentChat Request Result
  | SentCompletion CompletionRequest Result
  | Recorded nat Result
  | IndexPanic

fun run_turns :: "Generator \<Rightarrow> (nat \<Rightarrow> turn_env) \<Rightarrow> Conversation \<Rightarrow> nat \<Rightarrow> Message list \<Rightarrow> Message list list \<Rightarrow> conv_event list" where
  "run_turns g env conv turn history [] = []"
| "run_turns g env conv turn history (prebuilt # rest) =
     (if te_done_before (env turn) then []
      else if prebuilt = [] then [IndexPanic]
      else let history' = history @ [last prebuilt];
               req = chat_request g (te_random (env turn)) conv history';
               result = te_chat (env turn) req
           in SentChat req result #
              (if cut_short (te_done_after (env turn)) result then []
               else Recorded turn result #
                 (if res_err result \<noteq> None then []
                  else run_turns g env conv (Suc turn)
                         (history' @ [\<lparr>msg_role = ''assistant'', msg_content = Content result\<rparr>]) rest)))"

definition runCompletion :: "Generator \<Rightarrow> turn_env \<Rightarrow> Conversation \<Rightarrow> conv_event list" where
  "runCompletion g e conv =
     (let req = completion_request g (te_random e) conv; result = te_completion e req
      in SentCompletion req result # (if cut_short (te_done_after e) result then [] else [Recorded 0 result]))"

definition runConversation :: "Generator \<Rightarrow> (nat \<Rightarrow> turn_env) \<Rightarrow> Conversation \<Rightarrow> conv_event list" where
  "runConversation g env conv =
     (if Prompt conv \<noteq> [] then runCompletion g (env 0) conv else run_turns g env conv 0 [] (Turns conv))"

section \<open>Records\<close>

definition millis :: "duration \<Rightarrow> rat" where
  "millis d = fmul (Seconds d) (f64_of_int 1000)"

definition grade :: "submatch list \<Rightarrow> string \<Rightarrow> string \<Rightarrow> string \<times> bool" where
  "grade mcPatterns expected content =
     (if IsMCAnswer expected
      then let extracted = ExtractMCAnswer mcPatterns content in (extracted, CheckMCCorrect expected extracted)
      else let extracted = ExtractAnswer content in (extracted, CheckCorrect expected extracted))"

definition recordResult ::
    "submatch list \<Rightarrow> (request_error \<Rightarrow> string) \<Rightarrow> Result \<Rightarrow> int \<Rightarrow> string \<Rightarrow> int \<Rightarrow> Conversation \<Rightarrow> Record" where
  "recordResult mcPatterns err_text result streamID convID turn conv =
     (let rec0 = \<lparr>RequestID = convID @ ''-t'' @ itoa turn, StreamID = streamID, ConversationID = convID, Turn = turn,
            rec_StartTime = TimeToFloat (RequestStart result), rec_TTFT = 0, rec_ITLs = [],
            rec_EndTime = TimeToFloat (EndTime result), PromptTokens = 0, rec_OutputTokens = OutputTokens result,
            TotalLatencyMs = millis (TotalLatency result), rec_FinishReason = [], Status = [], rec_Error = [],
            EvalExpected = [], EvalExtracted = [], EvalCorrect = None\<rparr>
      in case res_err result of
           Some e \<Rightarrow> rec0\<lparr>Status := ''error'', rec_Error := err_text e\<rparr>
         | None \<Rightarrow>
             let rec1 = rec0\<lparr>Status := ''ok'', rec_FinishReason := FinishReason result,
                   rec_TTFT := millis (TTFT result), rec_ITLs := map millis (ITLs result)\<rparr>;
                 rec2 = (case res_usage result of None \<Rightarrow> rec1
                   | Some u \<Rightarrow> rec1\<lparr>PromptTokens := prompt_tokens u, rec_OutputTokens := completion_tokens u\<rparr>)
             in if ExpectedAnswer conv = [] then rec2
                else let (extracted, correct) = grade mcPatterns (ExpectedAnswer conv) (Content result)
                     in rec2\<lparr>EvalExpected := ExpectedAnswer conv, EvalExtracted := extracted, EvalCorrect := Some correct\<rparr>)"

section \<open>Stopping after consecutive errors\<close>

definition defaultMaxConsecutiveErrors :: nat where "defaultMaxConsecutiveErrors = 5"

record error_state =
  consecutiveErrors :: nat
  stop_called :: bool

definition trackRequestStatus :: "bool \<Rightarrow> error_state \<Rightarrow> error_state" where
  "trackRequestStatus err s =
     (if err
      then let n = consecutiveErrors s + 1
           in s\<lparr>consecutiveErrors := n, stop_called := (stop_called s \<or> defaultMaxConsecutiveErrors \<le> n)\<rparr>
      else s\<lparr>consecutiveErrors := 0\<rparr>)"

section \<open>The request limit\<close>

text \<open>Threads in the compare-and-swap loop of \<open>fill\<close>, one per call.\<close>

datatype fill_pc = FillStart | Loaded int | Granted | Exhausted

record maxRequestsState =
  limit :: int
  count :: int
  done_closed :: bool
  fills :: "nat \<Rightarrow> fill_pc"

definition fill_load :: "nat \<Rightarrow> maxRequestsState \<Rightarrow> maxRequestsState option" where
  "fill_load t s =
     (if fills s t = FillStart then Some (s\<lparr>fills := (fills s)(t := Loaded (count s))\<rparr>) else None)"

definition fill_decide :: "nat \<Rightarrow> maxRequestsState \<Rightarrow> maxRequestsState option" where
  "fill_decide t s =
     (case fills s t of
        Loaded cur \<Rightarrow>
          if limit s \<le> cur then Some (s\<lparr>done_closed := True, fills := (fills s)(t := Exhausted)\<rparr>)
          else if count s = cur then Some (s\<lparr>count := cur + 1, fills := (fills s)(t := Granted)\<rparr>)
          else Some (s\<lparr>fills := (fills s)(t := FillStart)\<rparr>)
      | _ \<Rightarrow> None)"

inductive fill_step :: "maxRequestsState \<Rightarrow> maxRequestsState \<Rightarrow> bool" where
  load: "fill_load t s = Some s' \<Longrightarrow> fill_step s s'"
| decide: "fill_decide t s = Some s' \<Longrightarrow> fill_step s s'"

inductive_cases fill_stepE: "fill_step s s'"

definition new_limit :: "int \<Rightarrow> maxRequestsState" where
  "new_limit n = \<lparr>limit = n, count = 0, done_closed = False, fills = (\<lambda>_. FillStart)\<rparr>"

inductive fill_reach :: "int \<Rightarrow> maxRequestsState \<Rightarrow> bool" for n where
  init: "fill_reach n (new_limit n)"
| step: "fill_reach n s \<Longrightarrow> fill_step s s' \<Longrightarrow> fill_reach n s'"

section \<open>The stream pool\<close>

definition stagger_delay :: "duration \<Rightarrow> int \<Rightarrow> int \<Rightarrow> duration" where
  "stagger_delay rampup n idx =
     (if 0 < rampup \<and> 1 < n then tdiv (wrap64 (rampup * idx)) (n - 1) else 0)"

record streamPool =
  sp_streams :: "nat list"
  sp_next :: nat

text \<open>\<open>pick\<close> is the entry Go's map iteration yields first. The result lists the delay of each stream started.\<close>

fun cancel_streams :: "(nat list \<Rightarrow> nat) \<Rightarrow> nat \<Rightarrow> nat list \<Rightarrow> nat list" where
  "cancel_streams pick 0 ids = ids"
| "cancel_streams pick (Suc k) ids = cancel_streams pick k (if ids = [] then [] else remove1 (pick ids) ids)"

definition Resize :: "(nat list \<Rightarrow> nat) \<Rightarrow> int \<Rightarrow> duration \<Rightarrow> streamPool \<Rightarrow> streamPool \<times> (nat \<times> duration) list" where
  "Resize pick target rampup p =
     (let current = int (length (sp_streams p)); newCount = target - current
      in if current < target
         then let ids = [sp_next p ..< sp_next p + nat newCount]
              in (p\<lparr>sp_streams := sp_streams p @ ids, sp_next := sp_next p + nat newCount\<rparr>,
                  map (\<lambda>i. (sp_next p + i, stagger_delay rampup newCount (int i))) [0..<nat newCount])
         else (p\<lparr>sp_streams := cancel_streams pick (nat (current - target)) (sp_streams p)\<rparr>, []))"

definition StopPool :: "streamPool \<Rightarrow> streamPool" where
  "StopPool p = p\<lparr>sp_streams := []\<rparr>"

section \<open>Stage loops\<close>

record Stage =
  stg_concurrency :: int
  stg_pool_size :: int
  stg_duration :: duration
  stg_rampup :: duration
  stg_max_requests :: int
  stg_barrier :: bool
  stg_barrier_drain :: bool

text \<open>How the wait of a stage ended, whether the context was done at the checks before and after a
  stage, and what \<open>onStageComplete\<close> answers (a missing callback answers true).\<close>

datatype wait_end = ContextDone | DurationOver | LimitReached | RunnerDone

datatype drain_end = Drained | DrainCancelled | DrainTimedOut

record stage_env =
  se_done_before :: "nat \<Rightarrow> bool"
  se_wait :: "nat \<Rightarrow> wait_end"
  se_drain :: "nat \<Rightarrow> drain_end"
  se_done_after :: "nat \<Rightarrow> bool"
  se_continue :: "nat \<Rightarrow> bool"

datatype run_event =
    OnStage nat int
  | OnBarrier nat
  | OnStageComplete nat
  | SetLimit int
  | ResizePool int duration
  | WaitPool
  | StopStreams
  | NewPool
  | WaitRecords
  | RunConversationPool int int duration
  | CancelStage
  | RunRateBased duration duration int

definition after_stage :: "stage_env \<Rightarrow> nat \<Rightarrow> run_event list \<Rightarrow> run_event list" where
  "after_stage env i rest =
     (if se_done_after env i then rest else OnStageComplete i # (if se_continue env i then rest else []))"

definition concurrent_wait :: "stage_env \<Rightarrow> nat \<Rightarrow> Stage \<Rightarrow> run_event list" where
  "concurrent_wait env i s =
     (if 0 < stg_max_requests s \<and> se_wait env i = LimitReached
      then WaitPool # (case se_drain env i of Drained \<Rightarrow> [] | _ \<Rightarrow> [StopStreams])
      else [])"

fun concurrent_stages :: "stage_env \<Rightarrow> nat \<Rightarrow> Stage list \<Rightarrow> run_event list" where
  "concurrent_stages env i [] = []"
| "concurrent_stages env i (s # ss) =
     (if se_done_before env i then []
      else if stg_barrier s
      then (if stg_barrier_drain s then [StopStreams, WaitRecords] else []) @ OnBarrier i #
           (if stg_barrier_drain s then [NewPool] else []) @ concurrent_stages env (Suc i) ss
      else SetLimit (stg_max_requests s) # OnStage i (stg_concurrency s) #
           ResizePool (stg_concurrency s) (stg_rampup s) # concurrent_wait env i s @
           after_stage env i (concurrent_stages env (Suc i) ss))"

definition pool_wait :: "stage_env \<Rightarrow> nat \<Rightarrow> run_event list" where
  "pool_wait env i = (if se_wait env i = DurationOver then [CancelStage] else [])"

fun pool_stages :: "stage_env \<Rightarrow> nat \<Rightarrow> Stage list \<Rightarrow> run_event list" where
  "pool_stages env i [] = []"
| "pool_stages env i (s # ss) =
     (if se_done_before env i then []
      else if stg_barrier s then OnBarrier i # pool_stages env (Suc i) ss
      else SetLimit (stg_max_requests s) # OnStage i (stg_concurrency s) #
           RunConversationPool (stg_concurrency s) (stg_pool_size s) (stg_rampup s) #
           pool_wait env i @ CancelStage # after_stage env i (pool_stages env (Suc i) ss))"

fun rate_stages :: "stage_env \<Rightarrow> nat \<Rightarrow> Stage list \<Rightarrow> run_event list" where
  "rate_stages env i [] = []"
| "rate_stages env i (s # ss) =
     (if se_done_before env i then []
      else if stg_barrier s then OnBarrier i # rate_stages env (Suc i) ss
      else OnStage i (stg_concurrency s) #
           RunRateBased (stg_duration s) (stg_rampup s) (stg_max_requests s) # WaitRecords #
           after_stage env i (rate_stages env (Suc i) ss))"

definition RunStagesUntil :: "Generator \<Rightarrow> stage_env \<Rightarrow> Stage list \<Rightarrow> run_event list" where
  "RunStagesUntil g env stages =
     (if g_mode g = ''conversation_pool'' then pool_stages env 0 stages @ [WaitRecords]
      else if g_mode g = ''constant'' \<or> g_mode g = ''poisson'' then rate_stages env 0 stages
      else NewPool # concurrent_stages env 0 stages @ [StopStreams, WaitRecords])"

section \<open>Rate-based dispatch\<close>

text \<open>One iteration of the loop of \<open>runRateBased\<close>: whether the dispatch context was done at its start, after the
  sleep, and while waiting for a slot.\<close>

record rate_iter =
  ri_done_start :: bool
  ri_done_gap :: bool
  ri_done_slot :: bool

fun rate_loop :: "Generator \<Rightarrow> int \<Rightarrow> rate_iter list \<Rightarrow> int \<Rightarrow> nat \<Rightarrow> nat list" where
  "rate_loop g maxRequests [] dispatched sid = []"
| "rate_loop g maxRequests (it # its) dispatched sid =
     (if ri_done_start it \<or> (0 < maxRequests \<and> maxRequests \<le> dispatched) then []
      else if g_rate g \<le> 0 then rate_loop g maxRequests its dispatched sid
      else if ri_done_gap it then []
      else if 0 < g_max_inflight g \<and> ri_done_slot it then []
      else sid # rate_loop g maxRequests its (dispatched + 1) (Suc sid))"

text \<open>The semaphore that caps the conversations in flight: a dispatch takes a slot before the goroutine starts, the
  goroutine gives it back when its conversation ends.\<close>

inductive inflight_step :: "int \<Rightarrow> nat \<Rightarrow> nat \<Rightarrow> bool" for cap where
  dispatch: "0 < cap \<Longrightarrow> int n < cap \<Longrightarrow> inflight_step cap n (Suc n)"
| unlimited: "cap \<le> 0 \<Longrightarrow> inflight_step cap n (Suc n)"
| finish: "inflight_step cap (Suc n) n"

section \<open>Stage callbacks\<close>

fun callback :: "run_event \<Rightarrow> bool" where
  "callback (OnStage i c) = True"
| "callback (OnBarrier i) = True"
| "callback (OnStageComplete i) = True"
| "callback _ = False"

text \<open>The contract of \<open>RunStages\<close>, whatever the scheduling mode.\<close>

fun stage_contract :: "stage_env \<Rightarrow> nat \<Rightarrow> Stage list \<Rightarrow> run_event list" where
  "stage_contract env i [] = []"
| "stage_contract env i (s # ss) =
     (if se_done_before env i then []
      else if stg_barrier s then OnBarrier i # stage_contract env (Suc i) ss
      else OnStage i (stg_concurrency s) # after_stage env i (stage_contract env (Suc i) ss))"

lemma filter_after_stage: "filter callback (after_stage env i rest) = after_stage env i (filter callback rest)"
  by (simp add: after_stage_def)

lemma contract_concurrent: "filter callback (concurrent_stages env i ss) = stage_contract env i ss"
  by (induction env i ss rule: concurrent_stages.induct)
     (simp_all add: filter_after_stage concurrent_wait_def split: drain_end.splits)

lemma contract_pool: "filter callback (pool_stages env i ss) = stage_contract env i ss"
  by (induction env i ss rule: pool_stages.induct) (simp_all add: filter_after_stage pool_wait_def)

lemma contract_rate: "filter callback (rate_stages env i ss) = stage_contract env i ss"
  by (induction env i ss rule: rate_stages.induct) (simp_all add: filter_after_stage)

text \<open>The stages and barriers a trace starts, by index.\<close>

fun started :: "run_event list \<Rightarrow> nat list" where
  "started [] = []"
| "started (OnStage i c # es) = i # started es"
| "started (OnBarrier i # es) = i # started es"
| "started (e # es) = started es"

lemma started_filter: "started (filter callback es) = started es"
  by (induction es rule: started.induct) simp_all

lemma started_after_stage:
  "started (after_stage env i rest) = (if se_done_after env i \<or> se_continue env i then started rest else [])"
  by (simp add: after_stage_def)

lemma started_contract:
  "sorted_wrt (<) (started (stage_contract env i ss)) \<and>
   (\<forall>k\<in>set (started (stage_contract env i ss)). i \<le> k \<and> k < i + length ss)"
proof (induction ss arbitrary: i)
  case (Cons s ss)
  have "Suc i \<le> k \<and> k < Suc i + length ss" if "k \<in> set (started (stage_contract env (Suc i) ss))" for k
    using Cons [of "Suc i"] that by blast
  with Cons [of "Suc i"] show ?case by (auto simp: started_after_stage Suc_le_eq)
qed simp

lemma contract_complete_last:
  "stage_contract env i ss = us @ OnStageComplete k # vs \<Longrightarrow> \<not> se_continue env k \<Longrightarrow> vs = []"
proof (induction ss arbitrary: i us)
  case (Cons s ss)
  let ?rest = "stage_contract env (Suc i) ss"
  consider "stage_contract env i (s # ss) = []" | e where "stage_contract env i (s # ss) = e # ?rest" "e \<noteq> OnStageComplete k"
    | "stage_contract env i (s # ss) = OnStage i (stg_concurrency s) # OnStageComplete i # (if se_continue env i then ?rest else [])"
    by (cases "se_done_before env i"; cases "stg_barrier s"; cases "se_done_after env i") (simp_all add: after_stage_def)
  then show ?case
  proof cases
    case 1
    with Cons.prems show ?thesis by simp
  next
    case (2 e)
    then have "e # ?rest = us @ OnStageComplete k # vs" using Cons.prems(1) by simp
    with 2(2) obtain us' where "?rest = us' @ OnStageComplete k # vs" by (cases us) auto
    with Cons.IH Cons.prems(2) show ?thesis by blast
  next
    case 3
    then have "OnStage i (stg_concurrency s) # OnStageComplete i # (if se_continue env i then ?rest else []) =
        us @ OnStageComplete k # vs" using Cons.prems(1) by simp
    then obtain us' where us: "OnStageComplete i # (if se_continue env i then ?rest else []) = us' @ OnStageComplete k # vs"
      by (cases us) auto
    show ?thesis
    proof (cases us')
      case Nil
      with us Cons.prems(2) show ?thesis by auto
    next
      case (Cons u us'')
      with us have "?rest = us'' @ OnStageComplete k # vs" by (auto split: if_splits)
      with Cons.IH Cons.prems(2) show ?thesis by blast
    qed
  qed
qed simp

text \<open>The interface a stage loop offers to the callers of \<open>RunStagesUntil\<close>.\<close>

locale stage_runner =
  fixes run :: "stage_env \<Rightarrow> Stage list \<Rightarrow> run_event list"
  assumes callbacks: "filter callback (run env ss) = stage_contract env 0 ss"
begin

lemma started_in_order:
  "sorted_wrt (<) (started (run env ss)) \<and> (\<forall>k\<in>set (started (run env ss)). k < length ss)"
  using started_contract [of env 0 ss] callbacks [of env ss] started_filter [of "run env ss"] by auto

lemma stops_when_told:
  assumes "run env ss = xs @ OnStageComplete k # ys" and "\<not> se_continue env k"
  shows "started ys = []"
proof -
  have "stage_contract env 0 ss = filter callback xs @ OnStageComplete k # filter callback ys"
    using callbacks [of env ss] assms(1) by simp
  then have "filter callback ys = []" using assms(2) by (rule contract_complete_last)
  with started_filter [of ys] show ?thesis by simp
qed

end

interpretation concurrent: stage_runner "\<lambda>env. concurrent_stages env 0"
  by unfold_locales (rule contract_concurrent)

interpretation conv_pool: stage_runner "\<lambda>env. pool_stages env 0"
  by unfold_locales (rule contract_pool)

interpretation rate: stage_runner "\<lambda>env. rate_stages env 0"
  by unfold_locales (rule contract_rate)

interpretation stages: stage_runner "RunStagesUntil g" for g
  by unfold_locales (simp add: RunStagesUntil_def contract_concurrent contract_pool contract_rate)

text \<open>
  Property C16. In every scheduling mode stages and barriers start in the order of the scenario, each at most
  once, and after \<open>onStageComplete\<close> has answered false no further stage or barrier starts. The
  callbacks are those of the mode-independent contract.
\<close>

theorem run_stages_contract:
  "filter callback (RunStagesUntil g env ss) = stage_contract env 0 ss \<and>
   sorted_wrt (<) (started (RunStagesUntil g env ss)) \<and>
   (\<forall>k\<in>set (started (RunStagesUntil g env ss)). k < length ss) \<and>
   (\<forall>xs k ys. RunStagesUntil g env ss = xs @ OnStageComplete k # ys \<and> \<not> se_continue env k \<longrightarrow> started ys = [])"
  using stages.callbacks [of g env ss] stages.started_in_order [of g env ss] stages.stops_when_told [of g env ss]
  by blast

definition stop_after_first :: stage_env where
  "stop_after_first = \<lparr>se_done_before = (\<lambda>_. False), se_wait = (\<lambda>_. DurationOver), se_drain = (\<lambda>_. Drained),
     se_done_after = (\<lambda>_. False), se_continue = (\<lambda>i. i \<noteq> 0)\<rparr>"

definition plain_stage :: "int \<Rightarrow> Stage" where
  "plain_stage c = \<lparr>stg_concurrency = c, stg_pool_size = 0, stg_duration = second, stg_rampup = 0, stg_max_requests = 0,
     stg_barrier = False, stg_barrier_drain = False\<rparr>"

definition plain_generator :: "string \<Rightarrow> Generator" where
  "plain_generator m = \<lparr>g_model = ''m'', g_mode = m, g_concurrency = 1, g_pool_size = 0, g_rate = 1, g_max_inflight = 0,
     g_rampup = 0, g_duration = second, g_cache_salt = None, g_stream_usage = False\<rparr>"

theorem run_stages_contract_witness:
  "started (RunStagesUntil (plain_generator ''concurrent'') stop_after_first [plain_stage 1, plain_stage 2]) = [0]"
proof -
  let ?r = "RunStagesUntil (plain_generator ''concurrent'') stop_after_first [plain_stage 1, plain_stage 2]"
  have "filter callback ?r = [OnStage 0 1, OnStageComplete 0]"
    using run_stages_contract [of "plain_generator ''concurrent''" stop_after_first "[plain_stage 1, plain_stage 2]"]
    by (simp add: stop_after_first_def plain_stage_def after_stage_def)
  then have "started (filter callback ?r) = [0]" by simp
  then show ?thesis by (simp only: started_filter)
qed

section \<open>Conversations replay their history\<close>

fun sent_messages :: "conv_event list \<Rightarrow> (Message list \<times> Result) list" where
  "sent_messages [] = []"
| "sent_messages (SentChat q r # es) = (rq_messages q, r) # sent_messages es"
| "sent_messages (e # es) = sent_messages es"

fun recorded :: "conv_event list \<Rightarrow> (nat \<times> Result) list" where
  "recorded [] = []"
| "recorded (Recorded t r # es) = (t, r) # recorded es"
| "recorded (e # es) = recorded es"

text \<open>What each request of a multi-turn conversation carries: the previous request's messages, the answer to it, and the
  new user message.\<close>

fun replays :: "Message list \<Rightarrow> (Message list \<times> Result) list \<Rightarrow> Message list list \<Rightarrow> bool" where
  "replays history [] turns = True"
| "replays history ((ms, r) # sent) [] = False"
| "replays history ((ms, r) # sent) (t # turns) \<longleftrightarrow>
     ms = history @ [last t] \<and> replays (ms @ [\<lparr>msg_role = ''assistant'', msg_content = Content r\<rparr>]) sent turns"

lemma run_turns_replays: "replays history (sent_messages (run_turns g env conv turn history turns)) turns"
  by (induction turns arbitrary: turn history) (auto simp: Let_def chat_request_def)

lemma run_turns_recorded:
  "map fst (recorded (run_turns g env conv turn history turns)) =
     [turn ..< turn + length (recorded (run_turns g env conv turn history turns))] \<and>
   map snd (recorded (run_turns g env conv turn history turns)) =
     take (length (recorded (run_turns g env conv turn history turns)))
       (map snd (sent_messages (run_turns g env conv turn history turns))) \<and>
   length (sent_messages (run_turns g env conv turn history turns)) \<le>
     Suc (length (recorded (run_turns g env conv turn history turns)))"
proof (induction turns arbitrary: turn history)
  case (Cons t turns)
  show ?case
    using Cons.IH [of "Suc turn"] by (auto simp: Let_def upt_rec [of turn] simp del: upt_Suc)
qed simp

lemma run_turns_errors:
  "\<forall>r\<in>set (butlast (map snd (sent_messages (run_turns g env conv turn history turns)))). res_err r = None"
  by (induction turns arbitrary: turn history) (auto simp: Let_def)


definition echo_result :: "Request \<Rightarrow> Result" where
  "echo_result q = (new_result 0)\<lparr>Content := ''r'' @ msg_content (last (rq_messages q)), FinishReason := ''stop''\<rparr>"

definition echo_env :: "nat \<Rightarrow> turn_env" where
  "echo_env _ = \<lparr>te_done_before = False, te_random = [], te_chat = echo_result, te_completion = (\<lambda>_. new_result 0),
     te_done_after = False\<rparr>"

definition user_msg :: "string \<Rightarrow> Message" where
  "user_msg s = \<lparr>msg_role = ''user'', msg_content = s\<rparr>"

definition two_turns :: Conversation where
  "two_turns = \<lparr>Turns = [[user_msg ''a''], [user_msg ''a'', user_msg ''b'']], Prompt = [], MaxTokens = 1, Stop = [],
     Temperature = None, ExpectedAnswer = []\<rparr>"


section \<open>Consecutive errors\<close>

definition no_errors :: error_state where
  "no_errors = \<lparr>consecutiveErrors = 0, stop_called = False\<rparr>"

definition error_run :: "bool list \<Rightarrow> nat" where
  "error_run es = length (takeWhile id (rev es))"

lemma error_run_snoc: "error_run (es @ [e]) = (if e then Suc (error_run es) else 0)"
  by (simp add: error_run_def)

lemma track_consecutive: "consecutiveErrors (fold trackRequestStatus es no_errors) = error_run es"
  by (induction es rule: rev_induct)
     (simp_all add: error_run_snoc trackRequestStatus_def Let_def, simp_all add: no_errors_def error_run_def)

lemma error_run_replicate: "n \<le> error_run es \<longleftrightarrow> (\<exists>xs. es = xs @ replicate n True)"
proof (induction n arbitrary: es)
  case (Suc n)
  show ?case
  proof (cases es rule: rev_cases)
    case (snoc xs e)
    have "(\<exists>ys. es = ys @ replicate (Suc n) True) \<longleftrightarrow> e \<and> (\<exists>ys. xs = ys @ replicate n True)"
    proof -
      have "replicate (Suc n) True = replicate n True @ [True]" by (simp add: replicate_append_same)
      with snoc show ?thesis by (auto simp flip: append_assoc simp del: replicate.simps)
    qed
    with Suc.IH [of xs] snoc show ?thesis by (auto simp: error_run_snoc)
  qed (auto simp: error_run_def)
qed simp

text \<open>
  Property C32. The generator is stopped exactly when five requests in a row, in the order their outcomes are counted,
  have failed: a success in between resets the count.
\<close>

theorem stop_after_five_consecutive_errors:
  "stop_called (fold trackRequestStatus es no_errors) \<longleftrightarrow> (\<exists>xs ys. es = xs @ replicate 5 True @ ys)"
proof (induction es rule: rev_induct)
  case Nil
  then show ?case by (simp add: no_errors_def)
next
  case (snoc e es)
  let ?s = "fold trackRequestStatus es no_errors"
  have "stop_called (fold trackRequestStatus (es @ [e]) no_errors) \<longleftrightarrow>
      stop_called ?s \<or> 5 \<le> error_run (es @ [e])"
    by (simp add: trackRequestStatus_def Let_def track_consecutive error_run_snoc defaultMaxConsecutiveErrors_def)
  also have "\<dots> \<longleftrightarrow> (\<exists>xs ys. es = xs @ replicate 5 True @ ys) \<or> (\<exists>xs. es @ [e] = xs @ replicate 5 True)"
    using snoc.IH error_run_replicate [of 5 "es @ [e]"] by blast
  also have "\<dots> \<longleftrightarrow> (\<exists>xs ys. es @ [e] = xs @ replicate 5 True @ ys)" (is "?l \<longleftrightarrow> ?r")
  proof
    assume ?l
    then show ?r
    proof
      assume "\<exists>xs ys. es = xs @ replicate 5 True @ ys"
      then obtain xs ys where "es = xs @ replicate 5 True @ ys" by blast
      then have "es @ [e] = xs @ replicate 5 True @ (ys @ [e])" by simp
      then show ?r by blast
    next
      assume "\<exists>xs. es @ [e] = xs @ replicate 5 True"
      then obtain xs where "es @ [e] = xs @ replicate 5 True @ []" by auto
      then show ?r by blast
    qed
  next
    assume ?r
    then obtain xs ys where xy: "es @ [e] = (xs @ replicate 5 True) @ ys" by auto
    show ?l
    proof (cases ys rule: rev_cases)
      case Nil
      with xy show ?thesis by auto
    next
      case (snoc zs z)
      with xy have "es = xs @ replicate 5 True @ zs" by simp
      then show ?thesis by blast
    qed
  qed
  finally show ?case .
qed

section \<open>The request limit under concurrency\<close>

definition fill_inv :: "int \<Rightarrow> maxRequestsState \<Rightarrow> bool" where
  "fill_inv n s \<longleftrightarrow> limit s = n \<and> 0 \<le> count s \<and> count s \<le> n \<and>
     finite {t. fills s t = Granted} \<and> int (card {t. fills s t = Granted}) = count s \<and>
     (\<forall>t cur. fills s t = Loaded cur \<longrightarrow> cur \<le> count s) \<and>
     (\<forall>t. fills s t = Exhausted \<longrightarrow> count s = n) \<and> (done_closed s \<longrightarrow> count s = n)"

lemma granted_upd:
  assumes "fills s t \<noteq> Granted"
  shows "{u. ((fills s)(t := Granted)) u = Granted} = insert t {u. fills s u = Granted}"
    and "p \<noteq> Granted \<Longrightarrow> {u. ((fills s)(t := p)) u = Granted} = {u. fills s u = Granted}"
  using assms by auto

lemma fill_inv_step: "fill_inv n s \<Longrightarrow> fill_step s s' \<Longrightarrow> fill_inv n s'"
proof (erule fill_stepE)
  fix t assume inv: "fill_inv n s" and "fill_load t s = Some s'"
  then have "fills s t = FillStart" and s': "s' = s\<lparr>fills := (fills s)(t := Loaded (count s))\<rparr>"
    by (auto simp: fill_load_def split: if_splits)
  then show ?thesis using inv granted_upd(2) [of s t "Loaded (count s)"] by (auto simp: fill_inv_def)
next
  fix t assume inv: "fill_inv n s" and d: "fill_decide t s = Some s'"
  then obtain cur where cur: "fills s t = Loaded cur" by (auto simp: fill_decide_def split: fill_pc.splits)
  with inv have le: "cur \<le> count s" by (auto simp: fill_inv_def)
  consider "limit s \<le> cur" "s' = s\<lparr>done_closed := True, fills := (fills s)(t := Exhausted)\<rparr>"
    | "cur < limit s" "count s = cur" "s' = s\<lparr>count := cur + 1, fills := (fills s)(t := Granted)\<rparr>"
    | "s' = s\<lparr>fills := (fills s)(t := FillStart)\<rparr>"
    using d cur by (auto simp: fill_decide_def split: if_splits)
  then show ?thesis
  proof cases
    case 1
    with inv le have "count s = n" by (auto simp: fill_inv_def)
    with 1 inv cur granted_upd(2) [of s t Exhausted] show ?thesis by (auto simp: fill_inv_def)
  next
    case 2
    with inv cur granted_upd(1) [of s t] show ?thesis
      by (auto simp: fill_inv_def intro: order_trans [of _ "count s" "count s + 1"])
  next
    case 3
    with inv cur granted_upd(2) [of s t FillStart] show ?thesis by (auto simp: fill_inv_def)
  qed
qed

lemma fill_inv_init: "0 < n \<Longrightarrow> fill_inv n (new_limit n)"
  by (simp add: new_limit_def fill_inv_def)

lemma fill_reach_inv:
  assumes "0 < n" and "fill_reach n s"
  shows "fill_inv n s"
  using assms(2) by (induction rule: fill_reach.induct) (auto intro: fill_inv_init fill_inv_step assms(1))

text \<open>
  Property C12. With a limit on the requests of a stage, the streams are together granted at most that many conversations
  under every interleaving of their compare-and-swap loops; a stream is refused, and the stage is signalled as
  done, only when exactly the limit has been granted.
\<close>

theorem request_limit_exact:
  assumes "0 < n" and "fill_reach n s"
  shows "int (card {t. fills s t = Granted}) \<le> n \<and>
     ((done_closed s \<or> (\<exists>t. fills s t = Exhausted)) \<longrightarrow> int (card {t. fills s t = Granted}) = n)"
  using fill_reach_inv [of n s] assms by (auto simp: fill_inv_def)

theorem request_limit_exact_witness:
  "\<exists>s. fill_reach 1 s \<and> done_closed s \<and> card {t. fills s t = Granted} = 1"
proof -
  let ?s1 = "(new_limit 1)\<lparr>fills := (fills (new_limit 1))(0 := Loaded 0)\<rparr>"
  let ?s2 = "?s1\<lparr>count := 1, fills := (fills ?s1)(0 := Granted)\<rparr>"
  let ?s3 = "?s2\<lparr>fills := (fills ?s2)(1 := Loaded 1)\<rparr>"
  let ?s4 = "?s3\<lparr>done_closed := True, fills := (fills ?s3)(1 := Exhausted)\<rparr>"
  have "fill_step (new_limit 1) ?s1" by (rule fill_step.load [of 0]) (simp add: fill_load_def new_limit_def)
  moreover have "fill_step ?s1 ?s2" by (rule fill_step.decide [of 0]) (simp add: fill_decide_def new_limit_def)
  moreover have "fill_step ?s2 ?s3" by (rule fill_step.load [of 1]) (simp add: fill_load_def new_limit_def)
  moreover have "fill_step ?s3 ?s4" by (rule fill_step.decide [of 1]) (simp add: fill_decide_def new_limit_def)
  ultimately have r: "fill_reach 1 ?s4" by (meson fill_reach.init fill_reach.step)
  have d: "done_closed ?s4" by simp
  with request_limit_exact [of 1 ?s4] r have "card {t. fills ?s4 t = Granted} = 1" by simp
  with r d show ?thesis by blast
qed

section \<open>The stream pool\<close>

lemma stagger_exact:
  assumes "0 < rampup" and "1 < n" and "0 \<le> i" and "i < n" and "rampup * n < 2 ^ 63"
  shows "stagger_delay rampup n i = rampup * i div (n - 1)"
proof -
  have "rampup * i \<le> rampup * n" using assms by (intro mult_left_mono) auto
  moreover have "0 \<le> rampup * i" using assms by simp
  ultimately have "in64 (rampup * i)" using assms(5) unfolding in64_def by linarith
  with assms show ?thesis by (simp add: stagger_delay_def tdiv_nonneg)
qed

text \<open>
  Streams started by a resize are spread evenly over the ramp-up: the delays do not decrease, lie between zero and the
  ramp-up, start at zero and end at the ramp-up. The computation does not overflow for a ramp-up of up to 24
  hours and up to 65536 streams, the largest the control API admits.
\<close>

theorem stagger_delays_spread:
  assumes "0 < rampup" and "rampup \<le> 24 * hour" and "1 < n" and "n \<le> 65536"
  shows "stagger_delay rampup n 0 = 0 \<and> stagger_delay rampup n (n - 1) = rampup \<and>
     (\<forall>i j. 0 \<le> i \<and> i \<le> j \<and> j < n \<longrightarrow>
        0 \<le> stagger_delay rampup n i \<and> stagger_delay rampup n i \<le> stagger_delay rampup n j \<and>
        stagger_delay rampup n j \<le> rampup)"
proof -
  have "rampup * n \<le> 24 * hour * 65536" using assms by (intro mult_mono) (auto simp: second_def)
  then have b: "rampup * n < 2 ^ 63" by (simp add: second_def)
  note e = stagger_exact [OF assms(1,3) _ _ b]
  have "0 \<le> stagger_delay rampup n i \<and> stagger_delay rampup n i \<le> stagger_delay rampup n j \<and>
      stagger_delay rampup n j \<le> rampup" if ij: "0 \<le> i" "i \<le> j" "j < n" for i j
  proof -
    have "rampup * i div (n - 1) \<le> rampup * j div (n - 1)" "rampup * j div (n - 1) \<le> rampup * (n - 1) div (n - 1)"
      using assms ij by (intro zdiv_mono1 mult_left_mono; simp)+
    moreover have "0 \<le> rampup * i div (n - 1)" using assms ij by (simp add: pos_imp_zdiv_nonneg_iff)
    ultimately show ?thesis using e [of i] e [of j] ij assms by simp
  qed
  moreover have "stagger_delay rampup n 0 = 0" "stagger_delay rampup n (n - 1) = rampup"
    using e [of 0] e [of "n - 1"] assms by simp_all
  ultimately show ?thesis by blast
qed

theorem stagger_delays_spread_witness:
  "map (stagger_delay (10 * second) 5) [0, 1, 2, 3, 4] =
     [0, 2500 * millisecond, 5 * second, 7500 * millisecond, 10 * second] \<and>
   stagger_delay (10 * second) 5 3 \<le> 10 * second"
proof -
  have "map (stagger_delay (10 * second) 5) [0, 1, 2, 3, 4] =
     [0, 2500 * millisecond, 5 * second, 7500 * millisecond, 10 * second]" by code_simp
  with stagger_delays_spread [of "10 * second" 5] show ?thesis by (simp add: second_def)
qed

lemma cancel_streams_length:
  assumes "\<And>xs. xs \<noteq> [] \<Longrightarrow> pick xs \<in> set xs"
  shows "length (cancel_streams pick k ids) = length ids - k \<and> set (cancel_streams pick k ids) \<subseteq> set ids"
proof (induction k arbitrary: ids)
  case (Suc k)
  show ?case
  proof (cases "ids = []")
    case True
    with Suc [of "[]"] show ?thesis by simp
  next
    case False
    then have "length (remove1 (pick ids) ids) = length ids - 1" using assms by (simp add: length_remove1)
    with False Suc [of "remove1 (pick ids) ids"] show ?thesis
      using set_remove1_subset [of "pick ids" ids] by auto
  qed
qed simp

definition pool_ok :: "streamPool \<Rightarrow> bool" where
  "pool_ok p \<longleftrightarrow> distinct (sp_streams p) \<and> (\<forall>i\<in>set (sp_streams p). i < sp_next p)"

lemma cancel_streams_distinct: "distinct ids \<Longrightarrow> distinct (cancel_streams pick k ids)"
  by (induction k arbitrary: ids) (simp_all add: distinct_remove1)

text \<open>
  A resize leaves exactly the requested number of streams, never reuses a stream id, starts one stream with its delay for
  each new id, and when it shrinks the pool it only cancels streams, whichever the map
  iteration yields.
\<close>

theorem resize_reaches_target:
  assumes "\<And>xs. xs \<noteq> [] \<Longrightarrow> pick xs \<in> set xs" and "pool_ok p"
    and "Resize pick target rampup p = (p', starts)"
  shows "pool_ok p' \<and> int (length (sp_streams p')) = max 0 target \<and>
     map fst starts = filter (\<lambda>i. sp_next p \<le> i) (sp_streams p') \<and>
     (starts \<noteq> [] \<longrightarrow> set (sp_streams p) \<subseteq> set (sp_streams p')) \<and>
     (starts = [] \<longrightarrow> set (sp_streams p') \<subseteq> set (sp_streams p))"
proof (cases "int (length (sp_streams p)) < target")
  case True
  define k where "k = nat (target - int (length (sp_streams p)))"
  have p': "p' = p\<lparr>sp_streams := sp_streams p @ [sp_next p ..< sp_next p + k], sp_next := sp_next p + k\<rparr>"
    and st: "starts = map (\<lambda>i. (sp_next p + i, stagger_delay rampup (target - int (length (sp_streams p))) (int i))) [0..<k]"
    using True assms(3) by (auto simp: Resize_def Let_def k_def)
  have "map fst starts = [sp_next p ..< sp_next p + k]"
    by (simp add: st comp_def map_add_upt add.commute)
  moreover have "filter (\<lambda>i. sp_next p \<le> i) (sp_streams p) = []"
    using assms(2) by (auto simp: pool_ok_def filter_empty_conv)
  moreover have "filter (\<lambda>i. sp_next p \<le> i) [sp_next p ..< sp_next p + k] = [sp_next p ..< sp_next p + k]"
    by (simp add: filter_id_conv)
  moreover have "starts \<noteq> []" using True by (simp add: st k_def)
  moreover have "int (length (sp_streams p')) = target" using True by (simp add: p' k_def)
  ultimately show ?thesis using assms(2) True by (auto simp: p' pool_ok_def)
next
  case False
  define k where "k = nat (int (length (sp_streams p)) - target)"
  have p': "p' = p\<lparr>sp_streams := cancel_streams pick k (sp_streams p)\<rparr>" and st: "starts = []"
    using False assms(3) by (auto simp: Resize_def Let_def k_def)
  note c = cancel_streams_length [of pick k "sp_streams p", OF assms(1)]
  have "int (length (sp_streams p) - k) = max 0 target" using False by (simp add: k_def)
  moreover have "filter (\<lambda>i. sp_next p \<le> i) (sp_streams p') = []"
    using c assms(2) by (fastforce simp: p' pool_ok_def filter_empty_conv)
  ultimately show ?thesis
    using c assms(2) cancel_streams_distinct by (auto simp: p' st pool_ok_def)
qed

theorem resize_reaches_target_witness:
  "let (p', starts) = Resize hd 3 0 \<lparr>sp_streams = [4], sp_next = 5\<rparr>
   in sp_streams p' = [4, 5, 6] \<and> map fst starts = [5, 6] \<and> pool_ok p'"
proof -
  obtain p' starts where r: "Resize hd 3 0 \<lparr>sp_streams = [4], sp_next = 5\<rparr> = (p', starts)" by fastforce
  have "sp_streams (fst (Resize hd 3 0 \<lparr>sp_streams = [4], sp_next = 5\<rparr>)) = [4, 5, 6]"
    "map fst (snd (Resize hd 3 0 \<lparr>sp_streams = [4], sp_next = 5\<rparr>)) = [5, 6]" by code_simp+
  moreover have "pool_ok p'"
    by (rule resize_reaches_target [THEN conjunct1, OF _ _ r]) (simp_all add: pool_ok_def)
  ultimately show ?thesis using r by simp
qed

section \<open>Rate-based dispatch\<close>

lemma rate_loop_ids: "rate_loop g m its d sid = [sid ..< sid + length (rate_loop g m its d sid)]"
proof (induction its arbitrary: d sid)
  case (Cons it its)
  let ?r = "rate_loop g m its (d + 1) (Suc sid)"
  have "sid # ?r = [sid ..< sid + length (sid # ?r)]"
    using Cons [of "d + 1" "Suc sid"] by (simp add: upt_conv_Cons del: upt_Suc)
  with Cons [of d sid] show ?case by (auto simp del: upt_Suc)
qed simp

lemma rate_loop_limit: "0 < m \<Longrightarrow> d \<le> m \<Longrightarrow> d + int (length (rate_loop g m its d sid)) \<le> m"
proof (induction its arbitrary: d sid)
  case (Cons it its)
  from Cons.prems Cons.IH [of d sid] Cons.IH [of "d + 1" "Suc sid"] show ?case by auto
qed simp

text \<open>
  A rate-based stage dispatches conversations with consecutive stream ids, at most \<open>maxRequests\<close> of them when
  there is a limit, and none at all when the generator's rate is not positive. With an
  in-flight cap the number of running conversations never exceeds it.
\<close>

theorem rate_dispatch_bounded:
  "rate_loop g m its 0 sid = [sid ..< sid + length (rate_loop g m its 0 sid)] \<and>
   (0 < m \<longrightarrow> int (length (rate_loop g m its 0 sid)) \<le> m) \<and>
   (g_rate g \<le> 0 \<longrightarrow> rate_loop g m its 0 sid = []) \<and>
   (0 < cap \<longrightarrow> (inflight_step cap)\<^sup>*\<^sup>* 0 n \<longrightarrow> int n \<le> cap)"
proof -
  have z: "g_rate g \<le> 0 \<Longrightarrow> rate_loop g m its d sid = []" for d by (induction its arbitrary: d) auto
  have f: "int n \<le> cap" if "0 < cap" "(inflight_step cap)\<^sup>*\<^sup>* 0 n"
    using that(2) by (induction rule: rtranclp_induct) (use that(1) in \<open>auto elim!: inflight_step.cases\<close>)
  show ?thesis
    using rate_loop_ids [of g m its 0 sid] rate_loop_limit [of m 0 g its sid] z f by auto
qed

theorem rate_dispatch_bounded_witness:
  "rate_loop (plain_generator ''constant'') 2 (replicate 5 \<lparr>ri_done_start = False, ri_done_gap = False, ri_done_slot = False\<rparr>) 0 7
     = [7, 8] \<and>
   rate_loop ((plain_generator ''constant'')\<lparr>g_rate := 0\<rparr>) 0
     (replicate 5 \<lparr>ri_done_start = False, ri_done_gap = False, ri_done_slot = False\<rparr>) 0 7 = []"
proof
  show "rate_loop (plain_generator ''constant'') 2 (replicate 5 \<lparr>ri_done_start = False, ri_done_gap = False, ri_done_slot = False\<rparr>) 0 7
     = [7, 8]" by (simp add: plain_generator_def numeral_eq_Suc)
  show "rate_loop ((plain_generator ''constant'')\<lparr>g_rate := 0\<rparr>) 0
     (replicate 5 \<lparr>ri_done_start = False, ri_done_gap = False, ri_done_slot = False\<rparr>) 0 7 = []"
    by (rule rate_dispatch_bounded [THEN conjunct2, THEN conjunct2, THEN conjunct1, THEN mp]) simp
qed

section \<open>Records of results\<close>

text \<open>
  The record of a request: it identifies the conversation and turn, its status is ok exactly when the request had no error, the token
  count is the server's when it reported usage, and a grade is present exactly when the request succeeded and the
  conversation has an expected answer.
\<close>

theorem record_result_fields:
  "let rec = recordResult pats err_text r sid cid t conv
   in RequestID rec = cid @ ''-t'' @ itoa t \<and> ConversationID rec = cid \<and> Turn rec = t \<and>
      (Status rec = ''ok'') = (res_err r = None) \<and>
      rec_OutputTokens rec = OutputTokens r \<and>
      (EvalCorrect rec \<noteq> None) = (res_err r = None \<and> ExpectedAnswer conv \<noteq> []) \<and>
      (EvalCorrect rec = Some True) =
        (res_err r = None \<and> ExpectedAnswer conv \<noteq> [] \<and> snd (grade pats (ExpectedAnswer conv) (Content r)))"
  by (auto simp: recordResult_def Let_def OutputTokens_def split: option.splits prod.splits)

end
