(* ===== verification/Conversation_Pool.thy ===== *)
theory Conversation_Pool
  imports Loadgen "HOL-Library.Multiset"
begin

text \<open>
  Package \<open>loadgen\<close>, file \<open>conversation_pool.go\<close>: the scheduler that serves a fixed number of streams from a larger
  working set of conversations, and one turn of a pooled conversation.

  The ready queue is an array with a head index that is compacted now and then; a locale states
  the queue it implements. The scheduler's operations run under its mutex, so each is one step; the
  streams of \<open>runConversationPool\<close> are interleaved in \<open>pool_step\<close>.
\<close>

section \<open>The ready queue\<close>

type_synonym ready_queue = "nat list \<times> nat"

definition q_push :: "nat \<Rightarrow> ready_queue \<Rightarrow> ready_queue" where
  "q_push cid q = (fst q @ [cid], snd q)"

definition q_pop :: "ready_queue \<Rightarrow> nat option \<times> ready_queue" where
  "q_pop q =
     (let ready = fst q; head = snd q
      in if length ready \<le> head then (None, ([], 0))
         else let cid = ready ! head; head' = head + 1
              in if 1024 < head' \<and> length ready \<le> head' * 2 then (Some cid, (drop head' ready, 0))
                 else (Some cid, (ready, head')))"

definition q_abs :: "ready_queue \<Rightarrow> nat list" where
  "q_abs q = drop (snd q) (fst q)"

definition q_inv :: "ready_queue \<Rightarrow> bool" where
  "q_inv q \<longleftrightarrow> snd q \<le> length (fst q)"

locale fifo_queue =
  fixes empty :: 'q and push :: "'a \<Rightarrow> 'q \<Rightarrow> 'q" and pop :: "'q \<Rightarrow> 'a option \<times> 'q"
    and inv :: "'q \<Rightarrow> bool" and abs :: "'q \<Rightarrow> 'a list"
  assumes inv_empty: "inv empty" and abs_empty: "abs empty = []"
    and inv_push: "inv q \<Longrightarrow> inv (push x q)" and abs_push: "inv q \<Longrightarrow> abs (push x q) = abs q @ [x]"
    and inv_pop: "inv q \<Longrightarrow> inv (snd (pop q))"
    and pop_none: "inv q \<Longrightarrow> abs q = [] \<Longrightarrow> fst (pop q) = None \<and> abs (snd (pop q)) = []"
    and pop_some: "inv q \<Longrightarrow> abs q = x # xs \<Longrightarrow> fst (pop q) = Some x \<and> abs (snd (pop q)) = xs"
begin

lemma pop_cases:
  assumes "inv q" and "pop q = (r, q')"
  shows "inv q' \<and> ((r = None \<and> abs q = [] \<and> abs q' = []) \<or> (\<exists>x. r = Some x \<and> abs q = x # abs q'))"
  using assms inv_pop [of q] pop_none [of q] pop_some [of q] by (cases "abs q") auto

lemma fold_push: "inv q \<Longrightarrow> inv (fold push xs q) \<and> abs (fold push xs q) = abs q @ xs"
  by (induction xs arbitrary: q) (simp_all add: abs_push inv_push)

end

interpretation rq: fifo_queue "([], 0)" q_push q_pop q_inv q_abs
proof
  fix q :: ready_queue and x xs
  assume i: "q_inv q" and a: "q_abs q = x # xs"
  then have l: "snd q < length (fst q)" by (metis drop_all leI list.distinct(1) q_abs_def)
  with a have "fst q ! snd q = x" "drop (Suc (snd q)) (fst q) = xs"
    unfolding q_abs_def by (metis Cons_nth_drop_Suc list.inject)+
  with l show "fst (q_pop q) = Some x \<and> q_abs (snd (q_pop q)) = xs" by (simp add: q_pop_def q_abs_def Let_def)
qed (auto simp: q_inv_def q_abs_def q_push_def q_pop_def Let_def)

section \<open>The scheduler\<close>

record pooledConversation =
  pc_id :: nat
  pc_convID :: string
  pc_conv :: "Conversation option"
  pc_history :: "Message list"
  pc_turn :: nat

text \<open>The request limit of the stage is part of the state: in this mode it is only used under the scheduler's
  mutex. A limit of zero or less means no limit. The map of conversations lists its entries.\<close>

record scheduler =
  s_pool_size :: int
  s_ready :: ready_queue
  s_convs :: "(nat \<times> pooledConversation) list"
  s_next :: nat
  s_stopped :: bool
  s_limit :: int
  s_count :: int
  s_done :: bool

definition conv_delete :: "nat \<Rightarrow> (nat \<times> pooledConversation) list \<Rightarrow> (nat \<times> pooledConversation) list" where
  "conv_delete cid m = filter (\<lambda>e. fst e \<noteq> cid) m"

definition conv_insert :: "nat \<Rightarrow> pooledConversation \<Rightarrow> (nat \<times> pooledConversation) list \<Rightarrow> (nat \<times> pooledConversation) list" where
  "conv_insert cid pc m = conv_delete cid m @ [(cid, pc)]"

definition pushReadyLocked :: "nat \<Rightarrow> scheduler \<Rightarrow> scheduler" where
  "pushReadyLocked cid s = s\<lparr>s_ready := q_push cid (s_ready s)\<rparr>"

definition addConversationSlotLocked :: "scheduler \<Rightarrow> scheduler" where
  "addConversationSlotLocked s =
     (let cid = s_next s;
          pc = \<lparr>pc_id = cid, pc_convID = ''pool-c'' @ nat_to_dec cid, pc_conv = None, pc_history = [], pc_turn = 0\<rparr>
      in pushReadyLocked cid (s\<lparr>s_next := cid + 1, s_convs := conv_insert cid pc (s_convs s)\<rparr>))"

definition newConversationPoolScheduler :: "int \<Rightarrow> int \<Rightarrow> int \<Rightarrow> scheduler" where
  "newConversationPoolScheduler concurrency poolSize maxreq =
     (let pool = (if poolSize \<le> 0 then concurrency else poolSize);
          initial = (if 0 < maxreq \<and> maxreq < pool then maxreq else pool)
      in (addConversationSlotLocked ^^ nat initial)
           \<lparr>s_pool_size = pool, s_ready = ([], 0), s_convs = [], s_next = 0, s_stopped = False, s_limit = maxreq,
            s_count = 0, s_done = False\<rparr>)"

definition popReadyLocked :: "scheduler \<Rightarrow> pooledConversation option \<times> scheduler" where
  "popReadyLocked s =
     (case q_pop (s_ready s) of
        (None, q) \<Rightarrow> (None, s\<lparr>s_ready := q\<rparr>)
      | (Some cid, q) \<Rightarrow> (map_of (s_convs s) cid, s\<lparr>s_ready := q\<rparr>))"

definition reserveRequestLocked :: "scheduler \<Rightarrow> bool \<times> scheduler" where
  "reserveRequestLocked s =
     (if s_limit s \<le> 0 then (True, s)
      else if s_limit s \<le> s_count s then (False, s\<lparr>s_done := True\<rparr>)
      else let n = s_count s + 1 in (True, s\<lparr>s_count := n, s_done := (s_done s \<or> s_limit s \<le> n)\<rparr>))"

definition sched_next :: "scheduler \<Rightarrow> pooledConversation option \<times> scheduler" where
  "sched_next s =
     (if s_stopped s then (None, s)
      else case reserveRequestLocked s of
        (False, s') \<Rightarrow> (None, s')
      | (True, s') \<Rightarrow> popReadyLocked s')"

definition canCreateConversationLocked :: "scheduler \<Rightarrow> bool" where
  "canCreateConversationLocked s \<longleftrightarrow> s_limit s \<le> 0 \<or> s_count s < s_limit s"

definition complete :: "pooledConversation \<Rightarrow> bool \<Rightarrow> scheduler \<Rightarrow> scheduler" where
  "complete pc replace s =
     (let s1 = s\<lparr>s_convs := conv_delete (pc_id pc) (s_convs s)\<rparr>
      in if s_stopped s then s1
         else if replace
         then (if int (length (s_convs s1)) < s_pool_size s \<and> canCreateConversationLocked s1
               then addConversationSlotLocked s1 else s1)
         else pushReadyLocked (pc_id pc) (s1\<lparr>s_convs := conv_insert (pc_id pc) pc (s_convs s1)\<rparr>))"

definition sched_stop :: "scheduler \<Rightarrow> scheduler" where
  "sched_stop s = s\<lparr>s_stopped := True\<rparr>"

section \<open>One turn\<close>

definition runPooledCompletionTurn :: "Generator \<Rightarrow> turn_env \<Rightarrow> Conversation \<Rightarrow> bool \<times> conv_event list" where
  "runPooledCompletionTurn g e conv = (True, runCompletion g e conv)"

text \<open>The result: whether the conversation is retired, its new state, and what was sent and recorded.\<close>

definition runPooledConversationTurn ::
    "Generator \<Rightarrow> turn_env \<Rightarrow> Conversation \<Rightarrow> pooledConversation \<Rightarrow> bool \<times> pooledConversation \<times> conv_event list" where
  "runPooledConversationTurn g e conv pc =
     (if Prompt conv \<noteq> [] then (let (r, es) = runPooledCompletionTurn g e conv in (r, pc, es))
      else if length (Turns conv) \<le> pc_turn pc then (True, pc, [])
      else let prebuilt = Turns conv ! pc_turn pc
           in if prebuilt = [] then (True, pc, [])
              else let pc1 = pc\<lparr>pc_history := pc_history pc @ [last prebuilt]\<rparr>;
                       req = chat_request g (te_random e) conv (pc_history pc1);
                       result = te_chat e req
                   in if cut_short (te_done_after e) result then (True, pc1, [SentChat req result])
                      else if res_err result \<noteq> None
                      then (True, pc1, [SentChat req result, Recorded (pc_turn pc) result])
                      else let pc2 = pc1\<lparr>pc_history := pc_history pc1 @
                                 [\<lparr>msg_role = ''assistant'', msg_content = GeneratedText result\<rparr>],
                                 pc_turn := pc_turn pc + 1\<rparr>
                           in (length (Turns conv) \<le> pc_turn pc2, pc2,
                               [SentChat req result, Recorded (pc_turn pc) result]))"

section \<open>The streams of a stage\<close>

datatype stream_state = AtNext | Holding pooledConversation | Exited

record pool_run =
  pr_sched :: scheduler
  pr_streams :: "stream_state list"
  pr_cancelled :: bool

definition materialize :: "Conversation \<Rightarrow> pooledConversation \<Rightarrow> pooledConversation" where
  "materialize conv pc = (case pc_conv pc of None \<Rightarrow> pc\<lparr>pc_conv := Some conv\<rparr> | Some _ \<Rightarrow> pc)"

definition stream_take :: "Conversation \<Rightarrow> nat \<Rightarrow> pool_run \<Rightarrow> pool_run" where
  "stream_take conv i r =
     (case sched_next (pr_sched r) of
        (None, s') \<Rightarrow> r\<lparr>pr_sched := s', pr_streams := (pr_streams r)[i := Exited]\<rparr>
      | (Some pc, s') \<Rightarrow> r\<lparr>pr_sched := s', pr_streams := (pr_streams r)[i := Holding (materialize conv pc)]\<rparr>)"

definition stream_finish :: "Generator \<Rightarrow> turn_env \<Rightarrow> nat \<Rightarrow> pooledConversation \<Rightarrow> pool_run \<Rightarrow> pool_run" where
  "stream_finish g e i pc r =
     (case pc_conv pc of
        None \<Rightarrow> r
      | Some conv \<Rightarrow>
          let (replace, pc', es) = runPooledConversationTurn g e conv pc
          in r\<lparr>pr_sched := complete pc' replace (pr_sched r), pr_streams := (pr_streams r)[i := AtNext]\<rparr>)"

definition start_pool :: "int \<Rightarrow> int \<Rightarrow> int \<Rightarrow> pool_run" where
  "start_pool concurrency poolSize maxreq =
     \<lparr>pr_sched = newConversationPoolScheduler concurrency (if poolSize \<le> 0 then concurrency else poolSize) maxreq,
      pr_streams = replicate (nat concurrency) AtNext, pr_cancelled = False\<rparr>"

inductive pool_step :: "Generator \<Rightarrow> pool_run \<Rightarrow> pool_run \<Rightarrow> bool" for g where
  take: "\<not> pr_cancelled r \<Longrightarrow> i < length (pr_streams r) \<Longrightarrow> pr_streams r ! i = AtNext \<Longrightarrow>
         pool_step g r (stream_take conv i r)"
| finish: "\<not> pr_cancelled r \<Longrightarrow> i < length (pr_streams r) \<Longrightarrow> pr_streams r ! i = Holding pc \<Longrightarrow>
         pool_step g r (stream_finish g e i pc r)"
| cancel: "pool_step g r (r\<lparr>pr_cancelled := True\<rparr>)"
| exit: "pr_cancelled r \<Longrightarrow> pool_step g r (r\<lparr>pr_streams := (pr_streams r)[i := Exited]\<rparr>)"
| stop: "\<forall>st\<in>set (pr_streams r). st = Exited \<Longrightarrow> pool_step g r (r\<lparr>pr_sched := sched_stop (pr_sched r)\<rparr>)"

inductive_cases pool_stepE: "pool_step g r r'"

inductive pool_reach :: "Generator \<Rightarrow> int \<Rightarrow> int \<Rightarrow> int \<Rightarrow> pool_run \<Rightarrow> bool" for g concurrency poolSize maxreq where
  init: "pool_reach g concurrency poolSize maxreq (start_pool concurrency poolSize maxreq)"
| step: "pool_reach g concurrency poolSize maxreq r \<Longrightarrow> pool_step g r r' \<Longrightarrow>
         pool_reach g concurrency poolSize maxreq r'"

section \<open>Invariant\<close>

definition held :: "stream_state list \<Rightarrow> nat list" where
  "held ss = concat (map (\<lambda>st. case st of Holding pc \<Rightarrow> [pc_id pc] | _ \<Rightarrow> []) ss)"

text \<open>The working set a stage keeps as long as it may start requests.\<close>

definition working_set :: "scheduler \<Rightarrow> int" where
  "working_set s = (if 0 < s_limit s \<and> s_limit s < s_pool_size s then s_limit s else s_pool_size s)"

definition sched_inv :: "nat multiset \<Rightarrow> scheduler \<Rightarrow> bool" where
  "sched_inv h s \<longleftrightarrow>
     q_inv (s_ready s) \<and>
     mset (q_abs (s_ready s)) + h = mset (map fst (s_convs s)) \<and>
     distinct (map fst (s_convs s)) \<and>
     (\<forall>(i, pc)\<in>set (s_convs s). i < s_next s \<and> pc_id pc = i) \<and>
     int (length (s_convs s)) \<le> working_set s \<and>
     (s_limit s \<le> 0 \<or> s_count s < s_limit s \<longrightarrow> int (length (s_convs s)) = working_set s) \<and>
     (0 < s_limit s \<longrightarrow> int (size h) \<le> s_count s \<and> s_count s \<le> s_limit s)"

lemma map_fst_conv_delete: "map fst (conv_delete i m) = filter (\<lambda>j. j \<noteq> i) (map fst m)"
  by (simp add: conv_delete_def filter_map comp_def)

lemma conv_delete_absent: "i \<notin> fst ` set m \<Longrightarrow> conv_delete i m = m"
  by (auto simp: conv_delete_def filter_id_conv)

lemma conv_delete_Cons: "conv_delete i (e # m) = (if fst e = i then conv_delete i m else e # conv_delete i m)"
  by (simp add: conv_delete_def)

lemma mset_delete_key:
  "distinct (map fst m) \<Longrightarrow> i \<in> fst ` set m \<Longrightarrow> mset (map fst m) = add_mset i (mset (map fst (conv_delete i m)))"
proof (induction m)
  case (Cons e m)
  show ?case
  proof (cases "fst e = i")
    case True
    with Cons.prems have "i \<notin> fst ` set m" by simp
    with True show ?thesis by (simp add: conv_delete_Cons conv_delete_absent)
  next
    case False
    with Cons show ?thesis by (auto simp: conv_delete_Cons)
  qed
qed simp

lemma length_delete_key:
  "distinct (map fst m) \<Longrightarrow> i \<in> fst ` set m \<Longrightarrow> length m = Suc (length (conv_delete i m))"
  using mset_delete_key [of m i] by (metis length_map size_add_mset size_mset)

lemma conv_insert_fresh: "i \<notin> fst ` set m \<Longrightarrow> conv_insert i pc m = m @ [(i, pc)]"
  by (simp add: conv_insert_def conv_delete_absent)

lemma sched_inv_fresh: "sched_inv h s \<Longrightarrow> s_next s \<notin> fst ` set (s_convs s)"
  by (auto simp: sched_inv_def)

lemma addSlot_fields:
  assumes "s_next s \<notin> fst ` set (s_convs s)" and "q_inv (s_ready s)"
  shows "let s' = addConversationSlotLocked s
     in q_inv (s_ready s') \<and> q_abs (s_ready s') = q_abs (s_ready s) @ [s_next s] \<and>
        (\<exists>pc. pc_id pc = s_next s \<and> s_convs s' = s_convs s @ [(s_next s, pc)]) \<and> s_next s' = s_next s + 1 \<and>
        s_limit s' = s_limit s \<and> s_count s' = s_count s \<and> s_pool_size s' = s_pool_size s \<and> s_stopped s' = s_stopped s"
  using assms
  by (simp add: addConversationSlotLocked_def Let_def pushReadyLocked_def conv_insert_fresh rq.inv_push rq.abs_push)

lemma initial_slots:
  assumes "s0 = \<lparr>s_pool_size = p, s_ready = ([], 0), s_convs = [], s_next = 0, s_stopped = False, s_limit = l,
            s_count = 0, s_done = False\<rparr>"
  shows "let s = (addConversationSlotLocked ^^ n) s0
     in q_inv (s_ready s) \<and> q_abs (s_ready s) = [0..<n] \<and> map fst (s_convs s) = [0..<n] \<and> s_next s = n \<and>
        (\<forall>(i, pc)\<in>set (s_convs s). pc_id pc = i) \<and>
        s_limit s = l \<and> s_count s = 0 \<and> s_pool_size s = p \<and> \<not> s_stopped s"
proof (induction n)
  case 0
  then show ?case by (simp add: assms rq.inv_empty rq.abs_empty)
next
  case (Suc n)
  let ?s = "(addConversationSlotLocked ^^ n) s0"
  from Suc have ih: "q_inv (s_ready ?s)" "q_abs (s_ready ?s) = [0..<n]" "map fst (s_convs ?s) = [0..<n]" "s_next ?s = n"
      "\<forall>(i, pc)\<in>set (s_convs ?s). pc_id pc = i" "s_limit ?s = l" "s_count ?s = 0" "s_pool_size ?s = p" "\<not> s_stopped ?s"
    by (simp_all add: Let_def)
  have "fst ` set (s_convs ?s) = set [0..<n]" using ih(3) by (metis list.set_map)
  then have "s_next ?s \<notin> fst ` set (s_convs ?s)" using ih(4) by simp
  from addSlot_fields [OF this ih(1)] ih show ?case by (auto simp: Let_def)
qed

lemma sched_inv_start:
  assumes "0 \<le> (if pool \<le> 0 then c else pool)"
  shows "sched_inv {#} (newConversationPoolScheduler c pool l) \<and> \<not> s_stopped (newConversationPoolScheduler c pool l) \<and>
     s_limit (newConversationPoolScheduler c pool l) = l \<and>
     s_pool_size (newConversationPoolScheduler c pool l) = (if pool \<le> 0 then c else pool)"
proof -
  let ?p = "if pool \<le> 0 then c else pool"
  let ?n = "if 0 < l \<and> l < ?p then l else ?p"
  let ?s0 = "\<lparr>s_pool_size = ?p, s_ready = ([], 0), s_convs = [], s_next = 0, s_stopped = False, s_limit = l,
            s_count = 0, s_done = False\<rparr>"
  define s where "s = newConversationPoolScheduler c pool l"
  have s: "s = (addConversationSlotLocked ^^ nat ?n) ?s0" by (simp add: s_def newConversationPoolScheduler_def Let_def)
  from initial_slots [OF refl, of "nat ?n" ?p l, folded s] have f: "q_inv (s_ready s)"
      "q_abs (s_ready s) = [0..<nat ?n]" "map fst (s_convs s) = [0..<nat ?n]" "s_next s = nat ?n"
      "\<forall>(i, pc)\<in>set (s_convs s). pc_id pc = i" "s_limit s = l" "s_count s = 0" "s_pool_size s = ?p" "\<not> s_stopped s"
    by (simp_all add: Let_def)
  have "length (s_convs s) = nat ?n" using f(3) by (metis length_map diff_zero length_upt)
  then have len: "int (length (s_convs s)) = ?n" using assms by simp
  have "\<forall>(i, pc)\<in>set (s_convs s). i < s_next s"
  proof safe
    fix i pc assume "(i, pc) \<in> set (s_convs s)"
    then have "i \<in> set (map fst (s_convs s))" by force
    then show "i < s_next s" using f(3,4) by simp
  qed
  with f len show ?thesis unfolding s_def [symmetric] by (auto simp: sched_inv_def working_set_def)
qed

text \<open>The operations keep the invariant; \<open>h\<close> counts the conversations held by streams.\<close>

lemma sched_next_inv:
  assumes inv: "sched_inv h s" and run: "\<not> s_stopped s" and n: "sched_next s = (r, s')"
    and room: "int (size h) < s_pool_size s"
  shows "case r of
       None \<Rightarrow> 0 < s_limit s \<and> s_limit s \<le> s_count s \<and> sched_inv h s' \<and> s_count s' = s_count s
     | Some pc \<Rightarrow> sched_inv (add_mset (pc_id pc) h) s' \<and> pc_id pc \<in># mset (q_abs (s_ready s)) \<and>
         (0 < s_limit s \<longrightarrow> s_count s' = s_count s + 1)"
    and "s_limit s' = s_limit s" and "s_pool_size s' = s_pool_size s" and "s_stopped s' = s_stopped s"
proof -
  show fields: "s_limit s' = s_limit s" "s_pool_size s' = s_pool_size s" "s_stopped s' = s_stopped s"
    using n by (auto simp: sched_next_def reserveRequestLocked_def popReadyLocked_def Let_def
        split: if_splits option.splits prod.splits bool.splits)
  show "case r of
       None \<Rightarrow> 0 < s_limit s \<and> s_limit s \<le> s_count s \<and> sched_inv h s' \<and> s_count s' = s_count s
     | Some pc \<Rightarrow> sched_inv (add_mset (pc_id pc) h) s' \<and> pc_id pc \<in># mset (q_abs (s_ready s)) \<and>
         (0 < s_limit s \<longrightarrow> s_count s' = s_count s + 1)"
  proof (cases "0 < s_limit s \<and> s_limit s \<le> s_count s")
    case True
    then have "r = None \<and> s' = s\<lparr>s_done := True\<rparr>"
      using n run by (auto simp: sched_next_def reserveRequestLocked_def)
    with True inv show ?thesis by (auto simp: sched_inv_def working_set_def)
  next
    case False
    define s1 where "s1 = snd (reserveRequestLocked s)"
    have res: "reserveRequestLocked s = (True, s1)" and s1: "s_ready s1 = s_ready s" "s_convs s1 = s_convs s" "s_next s1 = s_next s"
        "s_limit s1 = s_limit s" "s_pool_size s1 = s_pool_size s" "0 < s_limit s \<Longrightarrow> s_count s1 = s_count s + 1"
      using False by (auto simp: s1_def reserveRequestLocked_def Let_def)
    have pop: "popReadyLocked s1 = (r, s')" using n run res by (simp add: sched_next_def)
    have len: "int (length (s_convs s)) = working_set s" using inv False by (auto simp: sched_inv_def)
    have "size h + length (q_abs (s_ready s)) = length (s_convs s)"
      using inv unfolding sched_inv_def by (metis add.commute length_map size_mset size_union)
    moreover have "int (size h) < working_set s"
      using room inv False by (auto simp: working_set_def sched_inv_def)
    ultimately have "q_abs (s_ready s) \<noteq> []" using len by auto
    moreover obtain x q where xq: "q_pop (s_ready s1) = (x, q)" by (cases "q_pop (s_ready s1)") auto
    ultimately obtain i where i: "x = Some i" "q_abs (s_ready s) = i # q_abs q" "q_inv q"
      using rq.pop_cases [OF _ xq] inv by (auto simp: s1 sched_inv_def)
    have "i \<in># mset (map fst (s_convs s))" using inv i(2) unfolding sched_inv_def by (metis mset.simps(2) union_iff union_single_eq_member)
    then obtain pc where pc: "(i, pc) \<in> set (s_convs s)" by auto
    then have m: "map_of (s_convs s) i = Some pc" using inv by (simp add: sched_inv_def)
    have "r = Some pc" "s' = s1\<lparr>s_ready := q\<rparr>" using pop xq i m by (auto simp: popReadyLocked_def s1)
    moreover have "pc_id pc = i" using inv pc by (auto simp: sched_inv_def)
    ultimately show ?thesis
      using inv i s1 False by (auto simp: sched_inv_def working_set_def)
  qed
qed

lemma complete_fields [simp]:
  "s_limit (complete pc replace s) = s_limit s" "s_pool_size (complete pc replace s) = s_pool_size s"
  "s_stopped (complete pc replace s) = s_stopped s" "s_count (complete pc replace s) = s_count s"
  by (auto simp: complete_def addConversationSlotLocked_def pushReadyLocked_def Let_def)

lemma sched_complete_inv:
  assumes inv: "sched_inv (add_mset (pc_id pc) h) s" and run: "\<not> s_stopped s" and ps: "0 \<le> s_pool_size s"
  shows "sched_inv h (complete pc replace s)"
proof -
  let ?i = "pc_id pc"
  define m where "m = conv_delete ?i (s_convs s)"
  have "?i \<in># mset (map fst (s_convs s))" using inv unfolding sched_inv_def by (metis union_iff union_single_eq_member)
  then have mem: "?i \<in> fst ` set (s_convs s)" by auto
  have d: "distinct (map fst (s_convs s))" using inv by (simp add: sched_inv_def)
  have ms: "mset (map fst (s_convs s)) = add_mset ?i (mset (map fst m))"
    unfolding m_def by (rule mset_delete_key [OF d mem])
  then have q: "mset (q_abs (s_ready s)) + h = mset (map fst m)" using inv by (simp add: sched_inv_def)
  have l: "length (s_convs s) = Suc (length m)" unfolding m_def by (rule length_delete_key [OF d mem])
  have dm: "distinct (map fst m)" "?i \<notin> fst ` set m" using d by (auto simp: m_def conv_delete_def distinct_map_filter)
  have sub: "\<forall>(j, c)\<in>set m. j < s_next s \<and> pc_id c = j" using inv by (auto simp: m_def conv_delete_def sched_inv_def)
  have il: "?i < s_next s" using inv mem by (auto simp: sched_inv_def)
  have cnt: "0 < s_limit s \<Longrightarrow> int (size h) \<le> s_count s \<and> s_count s \<le> s_limit s" using inv by (auto simp: sched_inv_def)
  note ws = inv [unfolded sched_inv_def, THEN conjunct2, THEN conjunct2, THEN conjunct2, THEN conjunct2]
  let ?s1 = "s\<lparr>s_convs := m\<rparr>"
  have qi: "q_inv (s_ready s)" using inv by (simp add: sched_inv_def)
  consider (keep) "\<not> replace" | (add) "replace" "canCreateConversationLocked s" | (drop) "replace" "\<not> canCreateConversationLocked s"
    by blast
  then show "sched_inv h (complete pc replace s)"
  proof cases
    case keep
    then have c: "complete pc replace s = s\<lparr>s_convs := m @ [(?i, pc)], s_ready := q_push ?i (s_ready s)\<rparr>"
      using run dm by (simp add: complete_def Let_def pushReadyLocked_def conv_insert_fresh m_def [symmetric])
    show ?thesis unfolding c using inv q l dm sub il qi cnt ws
      by (auto simp: sched_inv_def working_set_def rq.inv_push rq.abs_push)
  next
    case add
    then have len: "int (length (s_convs s)) = working_set s" using ws by (auto simp: canCreateConversationLocked_def)
    then have "int (length m) < s_pool_size s" using l by (auto simp: working_set_def split: if_splits)
    then have c: "complete pc replace s = addConversationSlotLocked ?s1"
      using add run by (simp add: complete_def Let_def m_def [symmetric] canCreateConversationLocked_def)
    have nf: "s_next s \<notin> fst ` set m" using sub by auto
    obtain pc' where f: "q_inv (s_ready (addConversationSlotLocked ?s1))"
        "q_abs (s_ready (addConversationSlotLocked ?s1)) = q_abs (s_ready s) @ [s_next s]"
        "pc_id pc' = s_next s" "s_convs (addConversationSlotLocked ?s1) = m @ [(s_next s, pc')]"
        "s_next (addConversationSlotLocked ?s1) = s_next s + 1" "s_limit (addConversationSlotLocked ?s1) = s_limit s"
        "s_count (addConversationSlotLocked ?s1) = s_count s" "s_pool_size (addConversationSlotLocked ?s1) = s_pool_size s"
      using addSlot_fields [of ?s1] nf qi by (auto simp: Let_def)
    have "\<forall>(j, c)\<in>set (m @ [(s_next s, pc')]). j < s_next s + 1 \<and> pc_id c = j" using sub f(3) by fastforce
    moreover have "distinct (map fst (m @ [(s_next s, pc')]))" using dm nf by simp
    moreover have "mset (q_abs (s_ready s) @ [s_next s]) + h = mset (map fst (m @ [(s_next s, pc')]))" using q by simp
    moreover have "int (length (m @ [(s_next s, pc')])) = working_set (addConversationSlotLocked ?s1)"
      using len l f by (simp add: working_set_def)
    ultimately show ?thesis unfolding c sched_inv_def f(2,4-7) using f(1) cnt by simp
  next
    case drop
    then have "complete pc replace s = ?s1"
      using run by (simp add: complete_def Let_def m_def [symmetric] canCreateConversationLocked_def)
    with drop q l dm sub qi cnt ws show ?thesis
      by (auto simp: sched_inv_def working_set_def canCreateConversationLocked_def)
  qed
qed

lemma held_update:
  assumes "i < length ss"
  shows "mset (held (ss[i := st])) + mset (held [ss ! i]) = mset (held ss) + mset (held [st])"
proof -
  have "ss = take i ss @ ss ! i # drop (Suc i) ss" by (rule id_take_nth_drop [OF assms])
  moreover have "ss[i := st] = take i ss @ st # drop (Suc i) ss" by (rule upd_conv_take_nth_drop [OF assms])
  moreover have "held (xs @ x # ys) = held xs @ held [x] @ held ys" for xs x ys by (simp add: held_def)
  ultimately have "held ss = held (take i ss) @ held [ss ! i] @ held (drop (Suc i) ss)"
    "held (ss[i := st]) = held (take i ss) @ held [st] @ held (drop (Suc i) ss)" by metis+
  then show ?thesis by simp
qed

lemma held_single [simp]: "held [AtNext] = []" "held [Exited] = []" "held [Holding pc] = [pc_id pc]"
  by (simp_all add: held_def)

lemma length_held: "length (held ss) \<le> length ss"
proof (induction ss)
  case (Cons st ss)
  have "held (st # ss) = held [st] @ held ss" by (simp add: held_def)
  moreover have "length (held [st]) \<le> 1" by (cases st) simp_all
  ultimately show ?case using Cons by simp
qed (simp add: held_def)

lemma length_held_less:
  assumes "i < length ss" and "ss ! i = AtNext"
  shows "length (held ss) < length ss"
proof -
  have "ss = take i ss @ AtNext # drop (Suc i) ss" using id_take_nth_drop [OF assms(1)] assms(2) by simp
  moreover have "held (xs @ AtNext # ys) = held xs @ held ys" for xs ys by (simp add: held_def)
  ultimately have "held ss = held (take i ss) @ held (drop (Suc i) ss)" by metis
  then show ?thesis using length_held [of "take i ss"] length_held [of "drop (Suc i) ss"] assms(1) by simp
qed

lemma materialize_id [simp]: "pc_id (materialize conv pc) = pc_id pc"
  by (simp add: materialize_def split: option.splits)

lemma turn_keeps_id: "runPooledConversationTurn g e conv pc = (replace, pc', es) \<Longrightarrow> pc_id pc' = pc_id pc"
  by (auto simp: runPooledConversationTurn_def Let_def split: if_splits prod.splits)

text \<open>The invariant of a run with as many conversations as streams, until it is cancelled or all streams have left.\<close>

definition run_inv :: "int \<Rightarrow> int \<Rightarrow> int \<Rightarrow> pool_run \<Rightarrow> bool" where
  "run_inv c p l r \<longleftrightarrow>
     int (length (pr_streams r)) = c \<and> s_limit (pr_sched r) = l \<and> s_pool_size (pr_sched r) = p \<and>
     sched_inv (mset (held (pr_streams r))) (pr_sched r) \<and>
     (s_stopped (pr_sched r) \<longrightarrow> (\<forall>st\<in>set (pr_streams r). st = Exited)) \<and>
     (\<forall>st\<in>set (pr_streams r). st = Exited \<longrightarrow> 0 < l \<and> l \<le> s_count (pr_sched r)) \<and>
     (\<forall>st\<in>set (pr_streams r). \<forall>pc. st = Holding pc \<longrightarrow> pc_conv pc \<noteq> None)"

lemma materialize_conv: "pc_conv (materialize conv pc) \<noteq> None"
  by (simp add: materialize_def split: option.splits)

lemma sched_inv_stop: "sched_inv h (sched_stop s) = sched_inv h s"
  by (simp add: sched_inv_def sched_stop_def working_set_def)

lemma set_list_update: "x \<in> set (xs[i := y]) \<Longrightarrow> x = y \<or> x \<in> set xs"
  using set_update_subset_insert [of xs i y] by auto

lemma run_inv_take:
  assumes inv: "run_inv c p l r" and cp: "c \<le> p" and i: "i < length (pr_streams r)" "pr_streams r ! i = AtNext"
  shows "run_inv c p l (stream_take conv i r)"
proof -
  let ?s = "pr_sched r" and ?ss = "pr_streams r"
  obtain x s' where n: "sched_next ?s = (x, s')" by (cases "sched_next ?s") auto
  have "AtNext \<in> set ?ss" using i by (metis nth_mem)
  then have run: "\<not> s_stopped ?s" using inv by (auto simp: run_inv_def)
  have si: "sched_inv (mset (held ?ss)) ?s" using inv by (simp add: run_inv_def)
  have room: "int (size (mset (held ?ss))) < s_pool_size ?s"
    using length_held_less [OF i] inv cp by (simp add: run_inv_def)
  note nx = sched_next_inv [OF si run n room]
  show ?thesis
  proof (cases x)
    case None
    then have t: "stream_take conv i r = r\<lparr>pr_sched := s', pr_streams := ?ss[i := Exited]\<rparr>"
      using n by (simp add: stream_take_def)
    have h: "mset (held (?ss[i := Exited])) = mset (held ?ss)"
      using held_update [OF i(1), of Exited] i(2) by simp
    show ?thesis unfolding t
      using inv nx None h run by (auto simp: run_inv_def dest!: set_list_update)
  next
    case (Some pc)
    let ?pc = "materialize conv pc"
    have t: "stream_take conv i r = r\<lparr>pr_sched := s', pr_streams := ?ss[i := Holding ?pc]\<rparr>"
      using n Some by (simp add: stream_take_def)
    have h: "mset (held (?ss[i := Holding ?pc])) = add_mset (pc_id pc) (mset (held ?ss))"
      using held_update [OF i(1), of "Holding ?pc"] i(2) by simp
    have mono: "0 < l \<and> l \<le> s_count ?s \<Longrightarrow> l \<le> s_count s'"
      using nx(1) Some inv by (auto simp: run_inv_def)
    show ?thesis unfolding t
      using inv nx Some h run mono materialize_conv by (auto simp: run_inv_def dest!: set_list_update)
  qed
qed

lemma run_inv_finish:
  assumes inv: "run_inv c p l r" and "0 \<le> p" and i: "i < length (pr_streams r)" "pr_streams r ! i = Holding pc"
  shows "run_inv c p l (stream_finish g e i pc r)"
proof -
  let ?s = "pr_sched r" and ?ss = "pr_streams r"
  have m: "Holding pc \<in> set ?ss" using i by (metis nth_mem)
  then obtain conv where conv: "pc_conv pc = Some conv" using inv by (fastforce simp: run_inv_def)
  obtain rep pc' es where tn: "runPooledConversationTurn g e conv pc = (rep, pc', es)"
    by (cases "runPooledConversationTurn g e conv pc") auto
  have idp: "pc_id pc' = pc_id pc" by (rule turn_keeps_id [OF tn])
  have f: "stream_finish g e i pc r = r\<lparr>pr_sched := complete pc' rep ?s, pr_streams := ?ss[i := AtNext]\<rparr>"
    using conv tn by (simp add: stream_finish_def)
  have run: "\<not> s_stopped ?s" using inv m by (auto simp: run_inv_def)
  have "mset (held ?ss) = add_mset (pc_id pc') (mset (held (?ss[i := AtNext])))"
    using held_update [OF i(1), of AtNext] i(2) idp by simp
  then have si: "sched_inv (add_mset (pc_id pc') (mset (held (?ss[i := AtNext])))) ?s" and ps: "0 \<le> s_pool_size ?s"
    using inv assms(2) by (simp_all add: run_inv_def)
  note c = sched_complete_inv [OF si run ps, of rep]
  show ?thesis unfolding f using inv c run by (auto simp: run_inv_def dest!: set_list_update)
qed

lemma run_inv_start:
  assumes "0 < c" and "c \<le> p"
  shows "run_inv c p l (start_pool c p l)"
proof -
  have "held (replicate n AtNext) = []" for n by (induction n) (simp_all add: held_def)
  with sched_inv_start [of p c l] assms show ?thesis by (auto simp: run_inv_def start_pool_def)
qed

lemma pool_reach_inv:
  assumes "0 < c" and "c \<le> p" and "pool_reach g c p l r"
  shows "pr_cancelled r \<or> run_inv c p l r"
  using assms(3)
proof (induction rule: pool_reach.induct)
  case init
  then show ?case using run_inv_start [OF assms(1,2)] by simp
next
  case (step r r')
  from step.hyps(2) show ?case
  proof (cases rule: pool_step.cases)
    case (take i conv)
    with step.IH run_inv_take [OF _ assms(2)] show ?thesis by blast
  next
    case (finish i pc e)
    with step.IH run_inv_finish [of c p l r i pc g e] assms show ?thesis by auto
  next
    case cancel
    then show ?thesis by simp
  next
    case (exit i)
    then show ?thesis by simp
  next
    case stop
    moreover have "s_limit (sched_stop s) = s_limit s" "s_pool_size (sched_stop s) = s_pool_size s"
        "s_count (sched_stop s) = s_count s" for s by (simp_all add: sched_stop_def)
    ultimately show ?thesis using step.IH by (auto simp: run_inv_def sched_inv_stop)
  qed
qed

section \<open>Properties\<close>

text \<open>
  Property C6. No stream starves and no reserved request is wasted: in a validated stage, where the pool has at least as many
  conversations as there are streams, and under every interleaving of the streams, a stream that asks for a conversation is turned
  away only when the stage's request limit has been reached. Without a limit no stream ever leaves before the stage is
  cancelled.
\<close>

theorem pool_never_starves:
  assumes "0 < c" and "c \<le> p" and "pool_reach g c p l r" and "\<not> pr_cancelled r"
  shows "(\<forall>i s'. i < length (pr_streams r) \<and> pr_streams r ! i = AtNext \<and> sched_next (pr_sched r) = (None, s') \<longrightarrow>
            0 < l \<and> l \<le> s_count (pr_sched r)) \<and>
     (Exited \<in> set (pr_streams r) \<longrightarrow> 0 < l \<and> l \<le> s_count (pr_sched r))"
proof (intro conjI allI impI)
  have inv: "run_inv c p l r" using pool_reach_inv [OF assms(1-3)] assms(4) by simp
  fix i s' assume i: "i < length (pr_streams r) \<and> pr_streams r ! i = AtNext \<and> sched_next (pr_sched r) = (None, s')"
  then have "AtNext \<in> set (pr_streams r)" by (metis nth_mem)
  then have run: "\<not> s_stopped (pr_sched r)" using inv by (auto simp: run_inv_def)
  have "int (size (mset (held (pr_streams r)))) < s_pool_size (pr_sched r)"
    using length_held_less [of i "pr_streams r"] i inv assms(2) by (simp add: run_inv_def)
  with sched_next_inv(1) [of "mset (held (pr_streams r))" "pr_sched r" None s'] i run inv
  show "0 < l" "l \<le> s_count (pr_sched r)" by (auto simp: run_inv_def)
next
  have inv: "run_inv c p l r" using pool_reach_inv [OF assms(1-3)] assms(4) by simp
  assume "Exited \<in> set (pr_streams r)"
  with inv show "0 < l" "l \<le> s_count (pr_sched r)" by (auto simp: run_inv_def)
qed

lemma small_pool_reach:
  "pool_reach (plain_generator ''conversation_pool'') 1 2 1
     (stream_take two_turns 0 (start_pool 1 2 1))"
  by (rule pool_reach.step [OF pool_reach.init pool_step.take]) (simp_all add: start_pool_def)

theorem pool_never_starves_witness:
  "\<exists>r. pool_reach (plain_generator ''conversation_pool'') 1 2 1 r \<and>
     pr_streams r = [AtNext] \<and> fst (sched_next (pr_sched r)) = None \<and> 1 \<le> s_count (pr_sched r)"
proof -
  let ?g = "plain_generator ''conversation_pool''"
  let ?r1 = "stream_take two_turns 0 (start_pool 1 2 1)"
  have st: "(case pr_streams ?r1 of [Holding pc] \<Rightarrow> pc_conv pc = Some two_turns | _ \<Rightarrow> False)" "\<not> pr_cancelled ?r1"
    by code_simp+
  then obtain pc where pc: "pr_streams ?r1 = [Holding pc]" "pc_conv pc = Some two_turns" "\<not> pr_cancelled ?r1"
    by (cases "pr_streams ?r1"; cases "hd (pr_streams ?r1)"; cases "tl (pr_streams ?r1)") auto
  let ?r2 = "stream_finish ?g (echo_env 0) 0 pc ?r1"
  have "pool_step ?g ?r1 ?r2" by (rule pool_step.finish) (use pc in simp_all)
  then have r2: "pool_reach ?g 1 2 1 ?r2" by (rule pool_reach.step [OF small_pool_reach])
  have "pr_streams ?r2 = [AtNext]" "\<not> pr_cancelled ?r2"
    using pc by (auto simp: stream_finish_def split: prod.splits)
  moreover have "s_limit (pr_sched ?r2) = 1" "s_count (pr_sched ?r2) = 1" "\<not> s_stopped (pr_sched ?r2)"
  proof -
    have "s_limit (pr_sched ?r1) = 1 \<and> s_count (pr_sched ?r1) = 1 \<and> \<not> s_stopped (pr_sched ?r1)" by code_simp
    then show "s_limit (pr_sched ?r2) = 1" "s_count (pr_sched ?r2) = 1" "\<not> s_stopped (pr_sched ?r2)"
      using pc(2) by (auto simp: stream_finish_def split: prod.splits)
  qed
  ultimately have a: "fst (sched_next (pr_sched ?r2)) = None"
    by (simp add: sched_next_def reserveRequestLocked_def)
  then obtain s' where "sched_next (pr_sched ?r2) = (None, s')" by (cases "sched_next (pr_sched ?r2)") auto
  with pool_never_starves [of 1 2 ?g 1 ?r2] r2 \<open>pr_streams ?r2 = [AtNext]\<close> \<open>\<not> pr_cancelled ?r2\<close>
  have "1 \<le> s_count (pr_sched ?r2)" by auto
  with r2 a \<open>pr_streams ?r2 = [AtNext]\<close> show ?thesis by blast
qed

text \<open>
  Property C7. The scheduler's bookkeeping is exact: the conversations waiting in the queue and those held by streams are
  together the working set, without repetition, so no conversation is ever run by two streams; the working set never
  exceeds the pool size, and has exactly that size when the stage has no request limit.
\<close>

theorem pool_working_set_exact:
  assumes "0 < c" and "c \<le> p" and "pool_reach g c p l r" and "\<not> pr_cancelled r"
  shows "distinct (q_abs (s_ready (pr_sched r)) @ held (pr_streams r)) \<and>
     set (q_abs (s_ready (pr_sched r)) @ held (pr_streams r)) = fst ` set (s_convs (pr_sched r)) \<and>
     int (length (s_convs (pr_sched r))) \<le> p \<and>
     (l \<le> 0 \<longrightarrow> int (length (s_convs (pr_sched r))) = p) \<and>
     (0 < l \<longrightarrow> s_count (pr_sched r) \<le> l)"
proof -
  have inv: "run_inv c p l r" using pool_reach_inv [OF assms(1-3)] assms(4) by simp
  let ?s = "pr_sched r" and ?q = "q_abs (s_ready (pr_sched r)) @ held (pr_streams r)"
  have m: "mset ?q = mset (map fst (s_convs ?s))" and d: "distinct (map fst (s_convs ?s))"
    using inv by (simp_all add: run_inv_def sched_inv_def)
  then have "distinct ?q" by (metis mset_eq_imp_distinct_iff)
  moreover have "set ?q = fst ` set (s_convs ?s)" using m by (metis list.set_map mset_eq_setD)
  ultimately show ?thesis using inv by (auto simp: run_inv_def sched_inv_def working_set_def split: if_splits)
qed

theorem pool_working_set_exact_witness:
  "\<exists>r. pool_reach (plain_generator ''conversation_pool'') 1 2 1 r \<and> held (pr_streams r) = [0] \<and>
     0 \<in> fst ` set (s_convs (pr_sched r))"
proof -
  let ?g = "plain_generator ''conversation_pool''"
  let ?r1 = "stream_take two_turns 0 (start_pool 1 2 1)"
  have h: "held (pr_streams ?r1) = [0]" "\<not> pr_cancelled ?r1" by code_simp+
  have "set (q_abs (s_ready (pr_sched ?r1)) @ held (pr_streams ?r1)) = fst ` set (s_convs (pr_sched ?r1))"
    using pool_working_set_exact [of 1 2 ?g 1 ?r1] small_pool_reach h(2) by simp
  then have "0 \<in> fst ` set (s_convs (pr_sched ?r1))" unfolding h by auto
  with small_pool_reach h show ?thesis by blast
qed

text \<open>Sequences of queue operations on the array representation and on a list, with the values popped.\<close>

datatype queue_op = Push nat | Pop

fun run_ready :: "queue_op list \<Rightarrow> ready_queue \<Rightarrow> nat option list" where
  "run_ready [] q = []"
| "run_ready (Push x # ops) q = run_ready ops (q_push x q)"
| "run_ready (Pop # ops) q = (let (r, q') = q_pop q in r # run_ready ops q')"

fun run_fifo :: "queue_op list \<Rightarrow> nat list \<Rightarrow> nat option list" where
  "run_fifo [] xs = []"
| "run_fifo (Push x # ops) xs = run_fifo ops (xs @ [x])"
| "run_fifo (Pop # ops) [] = None # run_fifo ops []"
| "run_fifo (Pop # ops) (x # xs) = Some x # run_fifo ops xs"

lemma run_ready_refines: "q_inv q \<Longrightarrow> run_ready ops q = run_fifo ops (q_abs q)"
proof (induction ops arbitrary: q)
  case (Cons op ops)
  show ?case
  proof (cases op)
    case (Push x)
    with Cons show ?thesis by (simp add: rq.inv_push rq.abs_push)
  next
    case Pop
    obtain r q' where p: "q_pop q = (r, q')" by (cases "q_pop q") auto
    with rq.pop_cases [OF Cons.prems p] Cons.IH [of q'] Pop show ?thesis by auto
  qed
qed simp

text \<open>
  The ready queue, an array with a head index that drops its consumed prefix once more than 1024 entries are
  consumed and they are half of the array, behaves as a first-in first-out queue: every sequence of
  pushes and pops yields the same values as on a plain list.
\<close>

theorem ready_queue_is_fifo: "run_ready ops ([], 0) = run_fifo ops []"
  using run_ready_refines [OF rq.inv_empty, of ops] by (simp add: rq.abs_empty)

end
