(* ===== verification/Kube_Deploy.thy ===== *)
theory Kube_Deploy
  imports Go_Strings
begin

text \<open>
  Package \<open>kube\<close>: \<open>deploy.go\<close> turns a deployment configuration and the arguments of a command into the manifest of an
  indexed Job with its headless Service and applies it with \<open>kubectl\<close>; \<open>resources.go\<close> decodes the same manifest for the control
  API. The manifest is the list of its lines; the pieces of the template stand in the order of the source. The environment variable
  \<open>NYANN_NAME_PREFIX\<close>, JSON decoding, the YAML decoder and the exit status of a \<open>kubectl\<close> call are arguments. The specification
  \<open>yaml_dq\<close> reads a double-quoted YAML scalar: the two escapes the template writes, and line folding.
\<close>

section \<open>Configuration\<close>

record VolumeSpec =
  vol_pvc :: string
  vol_path :: string

record KubeConfig =
  kc_name :: string
  kc_context :: string
  kc_namespace :: string
  kc_platform :: string
  kc_image :: string
  kc_arch :: string
  kc_workers :: int
  kc_volume :: string
  kc_volumes :: "VolumeSpec list"
  kc_cpu :: string
  kc_memory :: string
  kc_network_tuning :: "bool option"
  kc_restricted :: bool

definition zero_kube :: KubeConfig where
  "zero_kube = \<lparr>kc_name = [], kc_context = [], kc_namespace = [], kc_platform = [], kc_image = [], kc_arch = [], kc_workers = 0,
     kc_volume = [], kc_volumes = [], kc_cpu = [], kc_memory = [], kc_network_tuning = None, kc_restricted = False\<rparr>"

record Flags =
  fl_config :: string
  fl_name :: string
  fl_context :: string
  fl_namespace :: string
  fl_platform :: string
  fl_image :: string
  fl_arch :: string
  fl_volume :: string
  fl_cpu :: string
  fl_memory :: string

datatype kube_error =
    ParsingKubeConfig
  | UnsupportedPlatform string
  | DryRunFailed
  | ApplyFailed
  | DecodingManifest
  | MissingObjects

definition kube_flags :: "string list" where
  "kube_flags = [''kube'', ''kube.config'', ''kube.name'', ''kube.context'', ''kube.namespace'', ''kube.platform'', ''kube.image'',
     ''kube.arch'', ''kube.volume'', ''kube.cpu'', ''kube.memory'']"

text \<open>The flags given on a command line, as \<open>pflag\<close> visits them: in lexical order, with the printed values.\<close>

type_synonym set_flags = "(string \<times> string) list"

definition IsEnabled :: "set_flags \<Rightarrow> bool" where
  "IsEnabled given \<longleftrightarrow> list_ex (\<lambda>name. name \<in> set (map fst given)) kube_flags"

definition overlay :: "string \<Rightarrow> string \<Rightarrow> string" where
  "overlay flag configured = (if flag \<noteq> [] then flag else configured)"

definition ToConfig :: "(string \<Rightarrow> KubeConfig option) \<Rightarrow> Flags \<Rightarrow> (kube_error, KubeConfig) result" where
  "ToConfig decode f =
     (case (if fl_config f = [] then Some zero_kube else decode (fl_config f)) of
        None \<Rightarrow> Inl ParsingKubeConfig
      | Some c \<Rightarrow>
          let c' = c\<lparr>kc_name := overlay (fl_name f) (kc_name c), kc_context := overlay (fl_context f) (kc_context c),
                     kc_namespace := overlay (fl_namespace f) (kc_namespace c), kc_platform := overlay (fl_platform f) (kc_platform c),
                     kc_image := overlay (fl_image f) (kc_image c), kc_arch := overlay (fl_arch f) (kc_arch c),
                     kc_volume := overlay (fl_volume f) (kc_volume c), kc_cpu := overlay (fl_cpu f) (kc_cpu c),
                     kc_memory := overlay (fl_memory f) (kc_memory c)\<rparr>
          in if kc_platform c' \<noteq> [] \<and> kc_platform c' \<noteq> ''kubernetes'' \<and> kc_platform c' \<noteq> ''openshift''
             then Inl (UnsupportedPlatform (kc_platform c')) else Inr c')"

text \<open>\<open>namePrefix\<close> is the value of \<open>NYANN_NAME_PREFIX\<close>, if it is set.\<close>

definition applyDefaults :: "string option \<Rightarrow> string \<Rightarrow> KubeConfig \<Rightarrow> KubeConfig" where
  "applyDefaults namePrefix defaultName c =
     c\<lparr>kc_name := (if kc_name c = []
                     then (case namePrefix of Some p \<Rightarrow> p @ ''-'' @ defaultName | None \<Rightarrow> ''nyann-'' @ defaultName) else kc_name c),
       kc_image := overlay (kc_image c) ''latest'', kc_platform := overlay (kc_platform c) ''kubernetes'',
       kc_arch := overlay (kc_arch c) ''arm64'', kc_workers := (if kc_workers c = 0 then 1 else kc_workers c),
       kc_cpu := overlay (kc_cpu c) ''4'', kc_memory := overlay (kc_memory c) ''8Gi''\<rparr>"

definition defaultRegistry :: string where "defaultRegistry = ''ghcr.io/neuralmagic/nyann-bench''"

definition ResolveImage :: "string \<Rightarrow> string" where
  "ResolveImage img = (if contains img ''/'' then img else defaultRegistry @ '':'' @ img)"

definition volumePresets :: "string \<Rightarrow> VolumeSpec option" where
  "volumePresets = [''lustre'' \<mapsto> \<lparr>vol_pvc = ''lustre-pvc-vllm'', vol_path = ''/mnt/lustre''\<rparr>]"

definition resolveVolumes :: "KubeConfig \<Rightarrow> VolumeSpec list" where
  "resolveVolumes c =
     (if kc_volumes c \<noteq> [] then kc_volumes c
      else if kc_volume c \<noteq> [] then (case volumePresets (kc_volume c) of Some v \<Rightarrow> [v] | None \<Rightarrow> [])
      else [])"

section \<open>The manifest\<close>

record templateVolume =
  tv_name :: string
  tv_pvc :: string
  tv_path :: string

record templateParams =
  tp_name :: string
  tp_arch :: string
  tp_image :: string
  tp_workers :: int
  tp_cpu :: string
  tp_memory :: string
  tp_openshift :: bool
  tp_network_tuning :: bool
  tp_restricted :: bool
  tp_args :: "string list"
  tp_volumes :: "templateVolume list"

abbreviation quote :: char where "quote \<equiv> CHR 0x22"
abbreviation backslash :: char where "backslash \<equiv> CHR 0x5C"
abbreviation newline :: char where "newline \<equiv> CHR 0x0A"

definition yaml_quoted :: "string \<Rightarrow> string" where "yaml_quoted s = quote # s @ [quote]"

definition yamlEscape :: "string \<Rightarrow> string" where
  "yamlEscape s = replace_all (replace_all s [backslash] [backslash, backslash]) [quote] [backslash, quote]"

definition service_lines :: "templateParams \<Rightarrow> string list" where
  "service_lines p =
     [''apiVersion: v1'', ''kind: Service'', ''metadata:'', ''  name: '' @ tp_name p, ''spec:'', ''  clusterIP: None'',
      ''  selector:'', ''    job-name: '' @ tp_name p]"

definition job_head :: "templateParams \<Rightarrow> string list" where
  "job_head p =
     [''---'', ''apiVersion: batch/v1'', ''kind: Job'', ''metadata:'', ''  name: '' @ tp_name p, ''  labels:'', ''    app: '' @ tp_name p,
      ''spec:'', ''  backoffLimit: 0'', ''  completions: '' @ itoa (tp_workers p), ''  parallelism: '' @ itoa (tp_workers p),
      ''  completionMode: Indexed'', ''  template:'', ''    metadata:'', ''      labels:'', ''        app: '' @ tp_name p,
      ''      annotations:'', ''        prometheus.io/scrape: '' @ yaml_quoted ''true'', ''        prometheus.io/port: '' @ yaml_quoted ''9090'',
      ''    spec:'', ''      restartPolicy: Never'', ''      automountServiceAccountToken: false'', ''      subdomain: '' @ tp_name p,
      ''      affinity:'', ''        nodeAffinity:'', ''          requiredDuringSchedulingIgnoredDuringExecution:'',
      ''            nodeSelectorTerms:'', ''            - matchExpressions:'', ''              - key: kubernetes.io/arch'',
      ''                operator: In'', ''                values: ['' @ yaml_quoted (tp_arch p) @ '']'']"

definition restricted_pod :: "templateParams \<Rightarrow> string list" where
  "restricted_pod p =
     (if tp_restricted p
      then [[], ''      securityContext:'', ''        seccompProfile:'', ''          type: RuntimeDefault'', []] else [[]])"

definition sysctl_init :: "templateParams \<Rightarrow> string list" where
  "sysctl_init p =
     (if tp_network_tuning p
      then [[], ''      initContainers:'', ''        - name: sysctl'', ''          image: public.ecr.aws/docker/library/busybox:1.36'',
            ''          command: ['' @ yaml_quoted ''sh'' @ '', '' @ yaml_quoted ''-c'' @ '']'', ''          args:'', ''            - |'',
            ''              sysctl -w net.ipv4.ip_local_port_range='' @ CHR 0x27 # ''1024 65535'' @ [CHR 0x27],
            ''              sysctl -w net.ipv4.tcp_tw_reuse=1'', ''          securityContext:'', ''            privileged: true'', []]
      else [[]])"

definition container_head :: "templateParams \<Rightarrow> string list" where
  "container_head p =
     [''      containers:'', ''        - name: nyann-bench'', ''          image: '' @ tp_image p, ''          imagePullPolicy: Always'',
      ''          resources:'', ''            requests:'', ''              cpu: '' @ yaml_quoted (tp_cpu p), ''              memory: '' @ yaml_quoted (tp_memory p),
      ''            limits:'', ''              cpu: '' @ yaml_quoted (tp_cpu p), ''              memory: '' @ yaml_quoted (tp_memory p)]"

definition restricted_container :: "templateParams \<Rightarrow> string list" where
  "restricted_container p =
     (if tp_restricted p
      then [[], ''          securityContext:'', ''            allowPrivilegeEscalation: false'', ''            capabilities:'',
            ''              drop: ['' @ yaml_quoted ''ALL'' @ '']'', ''            runAsNonRoot: true'', []] else [[]])"

definition container_ports :: "templateParams \<Rightarrow> string list" where
  "container_ports p =
     [''          ports:'', ''            - name: metrics'', ''              containerPort: 9090'', ''              protocol: TCP'',
      ''            - name: barrier'', ''              containerPort: 8080'', ''              protocol: TCP'',
      ''          env:'', ''            - name: BARRIER_ADDR'', ''              value: '' @ yaml_quoted (tp_name p @ ''-0.'' @ tp_name p)]"

definition arg_line :: "string \<Rightarrow> string" where
  "arg_line a = ''            - '' @ yaml_quoted (yamlEscape a)"

definition volume_lines :: "templateParams \<Rightarrow> string list" where
  "volume_lines p =
     (if tp_volumes p = [] then []
      else ''          volumeMounts:'' # concat (map (\<lambda>v. [''            - name: '' @ tv_name v, ''              mountPath: '' @ tv_path v]) (tp_volumes p)) @
           ''      volumes:'' # concat (map (\<lambda>v. [''        - name: '' @ tv_name v, ''          persistentVolumeClaim:'',
             ''            claimName: '' @ tv_pvc v]) (tp_volumes p)))"

definition pod_monitor :: "templateParams \<Rightarrow> string list" where
  "pod_monitor p =
     (if tp_openshift p
      then [[], ''---'', ''apiVersion: monitoring.coreos.com/v1'', ''kind: PodMonitor'', ''metadata:'', ''  name: '' @ tp_name p, ''spec:'',
            ''  selector:'', ''    matchLabels:'', ''      app: '' @ tp_name p, ''  podMetricsEndpoints:'', ''    - port: metrics'',
            ''      path: /metrics'', ''      interval: 15s'', ''  podTargetLabels:'', ''    - app'', ''    - job-name'', []] else [[]])"

text \<open>The template as a whole.\<close>

definition before_args :: "templateParams \<Rightarrow> string list" where
  "before_args p = service_lines p @ job_head p @ restricted_pod p @ sysctl_init p @ container_head p @ restricted_container p @ container_ports p"

definition jobTemplate :: "templateParams \<Rightarrow> string list" where
  "jobTemplate p = before_args p @ [''          args:''] @ map arg_line (tp_args p) @ volume_lines p @ pod_monitor p"

definition volume_name :: "nat \<Rightarrow> VolumeSpec \<Rightarrow> string" where
  "volume_name i v = (if vol_pvc v = ''lustre-pvc-vllm'' then ''lustre'' else ''vol-'' @ itoa (int i))"

definition template_volumes :: "VolumeSpec list \<Rightarrow> templateVolume list" where
  "template_volumes vs =
     map (\<lambda>(i, v). \<lparr>tv_name = volume_name i v, tv_pvc = vol_pvc v, tv_path = vol_path v\<rparr>) (zip [0..<length vs] vs)"

text \<open>\<open>Deploy\<close> and \<open>RenderYAML\<close> compute the parameters alike, from a configuration with its defaults.\<close>

definition template_params :: "KubeConfig \<Rightarrow> string list \<Rightarrow> templateParams" where
  "template_params c args =
     \<lparr>tp_name = kc_name c, tp_arch = kc_arch c, tp_image = ResolveImage (kc_image c), tp_workers = kc_workers c, tp_cpu = kc_cpu c,
      tp_memory = kc_memory c, tp_openshift = (kc_platform c = ''openshift''),
      tp_network_tuning = (case kc_network_tuning c of None \<Rightarrow> kc_platform c \<noteq> ''openshift'' | Some b \<Rightarrow> b),
      tp_restricted = (kc_restricted c \<or> kc_platform c = ''openshift''), tp_args = args,
      tp_volumes = template_volumes (resolveVolumes c)\<rparr>"

definition renderYAML :: "templateParams \<Rightarrow> string" where
  "renderYAML p = concat (map (\<lambda>l. l @ [newline]) (jobTemplate p))"

definition RenderYAML :: "string option \<Rightarrow> KubeConfig \<Rightarrow> string \<Rightarrow> string list \<Rightarrow> string" where
  "RenderYAML namePrefix c defaultName args = renderYAML (template_params (applyDefaults namePrefix defaultName c) args)"

text \<open>\<open>decode\<close> gives the kinds of the documents of a manifest, with their contents.\<close>

definition RenderCoreResources ::
    "(string \<Rightarrow> (string \<times> 'o) list option) \<Rightarrow> string option \<Rightarrow> KubeConfig \<Rightarrow> string \<Rightarrow> string list \<Rightarrow> (kube_error, 'o \<times> 'o) result" where
  "RenderCoreResources decode namePrefix c defaultName args =
     (case decode (RenderYAML namePrefix c defaultName args) of
        None \<Rightarrow> Inl DecodingManifest
      | Some docs \<Rightarrow>
          (case (map snd (filter (\<lambda>d. fst d = ''Service'') docs), map snd (filter (\<lambda>d. fst d = ''Job'') docs)) of
             (s # ss, j # js) \<Rightarrow> Inr (last (s # ss), last (j # js))
           | _ \<Rightarrow> Inl MissingObjects))"

section \<open>Applying it\<close>

text \<open>A call of \<open>kubectl\<close>: its arguments and its standard input. \<open>ok\<close> tells which calls succeed.\<close>

record kube_call =
  call_args :: "string list"
  call_stdin :: "string option"

definition scope_args :: "KubeConfig \<Rightarrow> string list" where
  "scope_args c = (if kc_context c \<noteq> [] then [''--context'', kc_context c] else []) @
     (if kc_namespace c \<noteq> [] then [''-n'', kc_namespace c] else [])"

definition kubectl :: "KubeConfig \<Rightarrow> string list \<Rightarrow> kube_call" where
  "kubectl c args = \<lparr>call_args = scope_args c @ args, call_stdin = None\<rparr>"

definition delete_calls :: "KubeConfig \<Rightarrow> kube_call list" where
  "delete_calls c =
     map (\<lambda>kind. kubectl c [''delete'', kind, kc_name c, ''--ignore-not-found=true''])
       ([''job'', ''service''] @ (if kc_platform c = ''openshift'' then [''podmonitor''] else []))"

definition Deploy ::
    "(kube_call \<Rightarrow> bool) \<Rightarrow> string option \<Rightarrow> KubeConfig \<Rightarrow> string \<Rightarrow> string list \<Rightarrow> kube_call list \<times> (kube_error, unit) result" where
  "Deploy ok namePrefix config defaultName args =
     (let c = applyDefaults namePrefix defaultName config;
          yaml = renderYAML (template_params c args);
          dry = \<lparr>call_args = scope_args c @ [''apply'', ''--dry-run=server'', ''-f'', ''-''], call_stdin = Some yaml\<rparr>;
          apply = \<lparr>call_args = scope_args c @ [''apply'', ''-f'', ''-''], call_stdin = Some yaml\<rparr>
      in if \<not> ok dry then ([dry], Inl DryRunFailed)
         else (dry # delete_calls c @ [apply], if ok apply then Inr () else Inl ApplyFailed))"

definition CollectArgs :: "set_flags \<Rightarrow> string list \<Rightarrow> string list" where
  "CollectArgs given words =
     words @ concat (map (\<lambda>(name, val). if has_prefix name ''kube'' then [] else [''--'' @ name, val]) given)"

section \<open>Reading a manifest\<close>

text \<open>A double-quoted scalar after its opening quote, with the text behind the closing one: the first argument is what has been read, in
  reverse. A line break with the blanks around it is folded to a blank, several line breaks to one less.\<close>

definition line_break :: "char \<Rightarrow> bool" where "line_break c \<longleftrightarrow> c = newline \<or> c = CHR 0x0D"

definition blank :: "char \<Rightarrow> bool" where "blank c \<longleftrightarrow> c = CHR 0x20 \<or> c = CHR 0x09"

definition folded :: "string \<Rightarrow> string" where
  "folded gap = (let n = length (filter (\<lambda>c. c = newline) gap) in if n = 0 then '' '' else replicate n newline)"

function yaml_dq :: "string \<Rightarrow> string \<Rightarrow> (string \<times> string) option" where
  "yaml_dq acc s =
     (case s of
        [] \<Rightarrow> None
      | c # t \<Rightarrow>
          if c = quote then Some (rev acc, t)
          else if c = backslash
          then (case t of [] \<Rightarrow> None | e # t' \<Rightarrow> if e = quote \<or> e = backslash then yaml_dq (e # acc) t' else None)
          else if line_break c
          then yaml_dq (folded (takeWhile (\<lambda>c. blank c \<or> line_break c) t) @ dropWhile blank acc)
                 (dropWhile (\<lambda>c. blank c \<or> line_break c) t)
          else yaml_dq (c # acc) t)"
  by pat_completeness auto
termination
  by (relation "measure (\<lambda>(acc, s). length s)") (auto intro: le_less_trans [OF length_dropWhile_le])

declare yaml_dq.simps [simp del]

lemma replace_all_char: "replace_all s [c] new = concat (map (\<lambda>d. if d = c then new else [d]) s)"
  by (induction s) (simp_all add: replace_all.simps [of "_ # _"] replace_all.simps [of "[]"] has_prefix_def)

definition escape_char :: "char \<Rightarrow> string" where
  "escape_char c = (if c = backslash \<or> c = quote then [backslash, c] else [c])"

lemma yamlEscape_chars: "yamlEscape s = concat (map escape_char s)"
  by (induction s) (simp_all add: yamlEscape_def replace_all_char escape_char_def)

lemma yaml_dq_escape:
  "list_all (\<lambda>c. \<not> line_break c) s \<Longrightarrow> yaml_dq acc (yamlEscape s @ quote # rest) = Some (rev acc @ s, rest)"
proof (induction s arbitrary: acc)
  case Nil
  then show ?case by (simp add: yamlEscape_chars yaml_dq.simps)
next
  case (Cons c s)
  then show ?case
    by (subst yaml_dq.simps) (auto simp: yamlEscape_chars escape_char_def)
qed

text \<open>The arguments of the container: the sequence under \<open>args\<close> of the container \<open>nyann-bench\<close>.\<close>

definition read_arg :: "string \<Rightarrow> string option" where
  "read_arg line = (if has_prefix line (''            - '' @ [quote]) then map_option fst (yaml_dq [] (drop 15 line)) else None)"

definition manifest_args :: "string \<Rightarrow> string list" where
  "manifest_args text =
     (let container = dropWhile (\<lambda>l. l \<noteq> ''        - name: nyann-bench'') (split_on newline text);
          items = drop 1 (dropWhile (\<lambda>l. l \<noteq> ''          args:'') container)
      in map (\<lambda>l. the (read_arg l)) (takeWhile (\<lambda>l. read_arg l \<noteq> None) items))"

definition one_line :: "string \<Rightarrow> bool" where
  "one_line s \<longleftrightarrow> newline \<notin> set s \<and> CHR 0x0D \<notin> set s"

lemma one_line_list_all: "one_line s \<longleftrightarrow> list_all (\<lambda>c. \<not> line_break c) s"
  by (auto simp: one_line_def line_break_def list_all_iff)

lemma read_arg_line: "one_line a \<Longrightarrow> read_arg (arg_line a) = Some a"
  by (simp add: read_arg_def arg_line_def yaml_quoted_def has_prefix_def one_line_list_all yaml_dq_escape)

lemma split_lines: "split_on c (concat (map (\<lambda>l. l @ [c]) ls)) = concat (map (split_on c) ls) @ [[]]"
  by (induction ls) (simp_all add: split_on_append_sep)

lemma split_one_line: "list_all (\<lambda>l. c \<notin> set l) ls \<Longrightarrow> concat (map (split_on c) ls) = ls"
  by (induction ls) (simp_all add: split_on_word)

definition plain_params :: "templateParams \<Rightarrow> bool" where
  "plain_params p \<longleftrightarrow> list_all one_line (tp_args p) \<and> one_line (tp_name p) \<and> one_line (tp_arch p) \<and> one_line (tp_image p) \<and>
     one_line (tp_cpu p) \<and> one_line (tp_memory p)"

definition lines_before_container :: "templateParams \<Rightarrow> string list" where
  "lines_before_container p = service_lines p @ job_head p @ restricted_pod p @ sysctl_init p @ [''      containers:'']"

definition lines_of_container :: "templateParams \<Rightarrow> string list" where
  "lines_of_container p = drop 2 (container_head p) @ restricted_container p @ container_ports p"

lemma before_args_split:
  "before_args p = lines_before_container p @ ''        - name: nyann-bench'' # lines_of_container p"
  by (simp add: before_args_def lines_before_container_def lines_of_container_def container_head_def)

lemma itoa_one_line: "newline \<notin> set (itoa i)"
  using nat_to_dec_no_char [of newline] by (simp add: itoa_def is_digit_def char_code_def)

lemma before_args_one_line: "plain_params p \<Longrightarrow> list_all (\<lambda>l. newline \<notin> set l) (before_args p)"
  by (simp add: before_args_def service_lines_def job_head_def restricted_pod_def sysctl_init_def container_head_def
      restricted_container_def container_ports_def plain_params_def one_line_def yaml_quoted_def itoa_one_line)

lemma arg_lines_one_line: "plain_params p \<Longrightarrow> list_all (\<lambda>l. newline \<notin> set l) (map arg_line (tp_args p))"
  by (auto simp: plain_params_def list_all_iff one_line_def arg_line_def yaml_quoted_def yamlEscape_chars escape_char_def split: if_splits)

lemma no_container_before: "l \<in> set (lines_before_container p) \<Longrightarrow> l \<noteq> ''        - name: nyann-bench''"
  by (auto simp: lines_before_container_def service_lines_def job_head_def restricted_pod_def sysctl_init_def yaml_quoted_def split: if_splits)

lemma no_args_before: "l \<in> set (lines_of_container p) \<Longrightarrow> l \<noteq> ''          args:''"
  by (auto simp: lines_of_container_def container_head_def restricted_container_def container_ports_def yaml_quoted_def split: if_splits)

lemma after_args_not_arg:
  "\<exists>l ls. concat (map (split_on newline) (volume_lines p @ pod_monitor p)) @ [[]] = l # ls \<and> read_arg l = None"
  by (cases "tp_volumes p = []") (simp_all add: volume_lines_def pod_monitor_def read_arg_def has_prefix_def)

text \<open>
  Property C27. The arguments a deployment passes to its container survive the manifest: written into the YAML template and read back as
  double-quoted scalars, every list of arguments without line breaks is the list the command line gave, whatever quotes and backslashes it holds
  and whether the deployment is restricted, tuned, on OpenShift or has volumes.
\<close>

theorem args_reach_container:
  assumes "plain_params p"
  shows "manifest_args (renderYAML p) = tp_args p"
proof -
  let ?rest = "concat (map (split_on newline) (volume_lines p @ pod_monitor p)) @ [[]]"
  have lines: "split_on newline (renderYAML p) = before_args p @ ''          args:'' # map arg_line (tp_args p) @ ?rest"
  proof -
    have one: "list_all (\<lambda>l. newline \<notin> set l) [''          args:'']" by simp
    have "split_on newline (renderYAML p) = concat (map (split_on newline) (jobTemplate p)) @ [[]]"
      by (simp only: renderYAML_def split_lines)
    then show ?thesis
      unfolding jobTemplate_def map_append concat_append split_one_line [OF before_args_one_line [OF assms]]
        split_one_line [OF arg_lines_one_line [OF assms]] split_one_line [OF one]
      by (simp only: append_assoc append_Cons append_Nil)
  qed
  obtain l ls where rest: "?rest = l # ls" and l: "read_arg l = None" using after_args_not_arg by blast
  have args: "list_all (\<lambda>a. read_arg (arg_line a) = Some a) (tp_args p)"
    using assms by (auto simp: plain_params_def list_all_iff intro: read_arg_line)
  have c: "dropWhile (\<lambda>l. l \<noteq> ''        - name: nyann-bench'') (before_args p @ zs) = ''        - name: nyann-bench'' # lines_of_container p @ zs" for zs
    using no_container_before by (simp add: before_args_split dropWhile_append2)
  have a: "dropWhile (\<lambda>l. l \<noteq> ''          args:'') (''        - name: nyann-bench'' # lines_of_container p @ ''          args:'' # zs) = ''          args:'' # zs" for zs
    using no_args_before by (simp add: dropWhile_append2)
  have t: "takeWhile (\<lambda>l. read_arg l \<noteq> None) (map arg_line (tp_args p) @ l # ls) = map arg_line (tp_args p)"
    using args l by (auto simp: takeWhile_append list_all_iff takeWhile_map)
  have m: "map (\<lambda>l. the (read_arg l)) (map arg_line (tp_args p)) = tp_args p"
    using args by (auto simp: list_all_iff intro: map_idI)
  show ?thesis unfolding manifest_args_def Let_def lines c a rest by (simp only: drop_Suc_Cons drop_0 One_nat_def t m)
qed

text \<open>Every deployment of the command line without line breaks is such a case; \<open>sample_job\<close> is one with quotes, backslashes and a volume.\<close>

definition sample_job :: templateParams where
  "sample_job = template_params (applyDefaults None ''generate'' (zero_kube\<lparr>kc_volume := ''lustre'', kc_workers := 3\<rparr>))
     (CollectArgs [(''config'', [CHR 0x7B, quote, CHR 0x61, backslash, quote, CHR 0x7D]), (''kube.name'', ''n''), (''workers'', ''3'')] [''generate''])"

lemma sample_job_args:
  "tp_args sample_job = [''generate'', ''--config'', [CHR 0x7B, quote, CHR 0x61, backslash, quote, CHR 0x7D], ''--workers'', ''3'']"
  by (simp add: sample_job_def template_params_def CollectArgs_def has_prefix_def)

lemma sample_job_plain: "plain_params sample_job"
  by (simp add: plain_params_def sample_job_args one_line_def)
    (simp add: sample_job_def template_params_def applyDefaults_def zero_kube_def overlay_def ResolveImage_def contains_char defaultRegistry_def)

theorem args_reach_container_witness:
  "manifest_args (renderYAML sample_job) = [''generate'', ''--config'', [CHR 0x7B, quote, CHR 0x61, backslash, quote, CHR 0x7D], ''--workers'', ''3'']"
  using args_reach_container [OF sample_job_plain] by (simp only: sample_job_args)

text \<open>An argument with a line break is not read back: the break is folded to a blank.\<close>

lemma line_break_is_folded: "read_arg (arg_line ([CHR 0x61, newline] @ ''b'')) = Some ''a b''"
  by (simp add: read_arg_def arg_line_def yaml_quoted_def has_prefix_def yamlEscape_chars escape_char_def yaml_dq.simps line_break_def blank_def folded_def)

section \<open>Lines of the manifest\<close>

definition plain_volumes :: "templateParams \<Rightarrow> bool" where
  "plain_volumes p \<longleftrightarrow> list_all (\<lambda>v. newline \<notin> set (tv_name v) \<and> newline \<notin> set (tv_pvc v) \<and> newline \<notin> set (tv_path v)) (tp_volumes p)"

lemma rendered_lines:
  assumes "plain_params p" and "plain_volumes p"
  shows "split_on newline (renderYAML p) = jobTemplate p @ [[]]"
proof -
  have v: "list_all (\<lambda>l. newline \<notin> set l) (volume_lines p)"
    using assms(2) by (auto simp: volume_lines_def plain_volumes_def list_all_iff)
  have m: "list_all (\<lambda>l. newline \<notin> set l) (pod_monitor p)"
    using assms(1) by (simp add: pod_monitor_def plain_params_def one_line_def)
  have "list_all (\<lambda>l. newline \<notin> set l) (jobTemplate p)"
    using before_args_one_line [OF assms(1)] arg_lines_one_line [OF assms(1)] v m by (simp add: jobTemplate_def)
  then show ?thesis by (simp only: renderYAML_def split_lines split_one_line)
qed

lemma privileged_line: "''            privileged: true'' \<in> set (jobTemplate p) \<longleftrightarrow> tp_network_tuning p"
proof -
  have "l \<noteq> ''            privileged: true''" if "l \<in> set (service_lines p @ job_head p @ restricted_pod p @ container_head p)" for l
    using that by (auto simp: service_lines_def job_head_def restricted_pod_def container_head_def yaml_quoted_def split: if_splits)
  moreover have "l \<noteq> ''            privileged: true''"
    if "l \<in> set (restricted_container p @ container_ports p @ [''          args:''] @ map arg_line (tp_args p) @ volume_lines p @ pod_monitor p)" for l
    using that by (auto simp: restricted_container_def container_ports_def arg_line_def volume_lines_def pod_monitor_def yaml_quoted_def split: if_splits)
  moreover have "''            privileged: true'' \<in> set (sysctl_init p) \<longleftrightarrow> tp_network_tuning p" by (simp add: sysctl_init_def)
  ultimately show ?thesis by (auto simp: jobTemplate_def before_args_def)
qed

lemma restricted_line:
  "tp_restricted p \<Longrightarrow> {''            allowPrivilegeEscalation: false'', ''            runAsNonRoot: true'', ''          type: RuntimeDefault''} \<subseteq> set (jobTemplate p)"
  by (simp add: jobTemplate_def before_args_def restricted_pod_def restricted_container_def)

lemma job_lines:
  "{''    job-name: '' @ tp_name p, ''  completions: '' @ itoa (tp_workers p), ''  parallelism: '' @ itoa (tp_workers p), ''          image: '' @ tp_image p}
     \<subseteq> set (jobTemplate p)"
  by (simp add: jobTemplate_def before_args_def service_lines_def job_head_def container_head_def)

section \<open>Order of the calls\<close>

text \<open>
  A deployment is validated before it replaces anything: the first call is a server-side dry run, nothing else happens unless it
  succeeds, what is applied at the end is the manifest that was validated, every call names the configured context and
  namespace, and the deployment reports success exactly when both calls succeeded.
\<close>

theorem deploy_validates_first:
  "let c = applyDefaults namePrefix defaultName config; scope = scope_args c
   in \<exists>dry rest. fst (Deploy ok namePrefix config defaultName args) = dry # rest \<and>
     call_args dry = scope @ [''apply'', ''--dry-run=server'', ''-f'', ''-''] \<and>
     (rest = [] \<longleftrightarrow> \<not> ok dry) \<and>
     list_all (\<lambda>k. take (length scope) (call_args k) = scope) rest \<and>
     (rest = [] \<or> call_stdin (last rest) = call_stdin dry \<and> call_args (last rest) = scope @ [''apply'', ''-f'', ''-'']) \<and>
     (snd (Deploy ok namePrefix config defaultName args) = Inr () \<longleftrightarrow> rest \<noteq> [] \<and> ok (last rest))"
  by (auto simp: Deploy_def Let_def delete_calls_def kubectl_def list_all_iff)

text \<open>Two volumes on the preset claim get the same name.\<close>

lemma preset_volumes_collide:
  "map tv_name (template_volumes [\<lparr>vol_pvc = ''lustre-pvc-vllm'', vol_path = ''/a''\<rparr>, \<lparr>vol_pvc = ''lustre-pvc-vllm'', vol_path = ''/b''\<rparr>]) =
     [''lustre'', ''lustre'']"
  by (simp add: template_volumes_def volume_name_def)

end
