(* ===== verification/Go_JSON.thy ===== *)
theory Go_JSON
  imports Go_Float Go_Strings "HOL-Library.Multiset" "HOL-Library.Char_ord" "HOL-Library.List_Lexorder"
begin

text \<open>
  JSON values and the text that \<open>json.Marshal\<close> writes for them. Strings are bytes in valid UTF-8, as decoded JSON always is; the text of a
  floating-point number is an argument.
\<close>

section \<open>Values\<close>

datatype json = JNull | JBool bool | JNum rat | JStr string | JArr "json list" | JObj "(string \<times> json) list"

section \<open>JSON text\<close>

definition hex_nibble :: "nat \<Rightarrow> char" where
  "hex_nibble n = (if n < 10 then char_of (48 + n) else char_of (87 + n))"

definition json_backslash :: char where "json_backslash = CHR 0x5C"

text \<open>\<open>json.Marshal\<close> escapes control characters and the characters of HTML, and the two line separators of Unicode.\<close>

definition escape_json_char :: "char \<Rightarrow> string" where
  "escape_json_char c =
     (if c = CHR 0x22 \<or> c = json_backslash then [json_backslash, c]
      else if c = CHR 0x08 then [json_backslash, CHR ''b'']
      else if c = CHR 0x0C then [json_backslash, CHR ''f'']
      else if c = CHR 0x0A then [json_backslash, CHR ''n'']
      else if c = CHR 0x0D then [json_backslash, CHR ''r'']
      else if c = CHR 0x09 then [json_backslash, CHR ''t'']
      else if char_code c < 32 \<or> c = CHR ''<'' \<or> c = CHR ''>'' \<or> c = CHR 0x26
      then json_backslash # ''u00'' @ [hex_nibble (of_char c div 16), hex_nibble (of_char c mod 16)]
      else [c])"

fun escape_json :: "string \<Rightarrow> string" where
  "escape_json [] = []"
| "escape_json (c # s) =
     (if c = CHR 0xE2 \<and> take 2 s = [CHR 0x80, CHR 0xA8] then json_backslash # ''u2028'' @ escape_json (drop 2 s)
      else if c = CHR 0xE2 \<and> take 2 s = [CHR 0x80, CHR 0xA9] then json_backslash # ''u2029'' @ escape_json (drop 2 s)
      else escape_json_char c @ escape_json s)"

definition quote_json :: "string \<Rightarrow> string" where
  "quote_json s = CHR 0x22 # escape_json s @ [CHR 0x22]"

text \<open>The keys of a map come in order; \<open>number\<close> is the text of a number.\<close>

fun json_text :: "(rat \<Rightarrow> string) \<Rightarrow> json \<Rightarrow> string" where
  "json_text number JNull = ''null''"
| "json_text number (JBool b) = (if b then ''true'' else ''false'')"
| "json_text number (JNum q) = number q"
| "json_text number (JStr s) = quote_json s"
| "json_text number (JArr js) = ''['' @ join_with '','' (map (json_text number) js) @ '']''"
| "json_text number (JObj kvs) = ''{'' @ join_with '','' (map (\<lambda>(k, v). quote_json k @ '':'' @ json_text number v) kvs) @ ''}''"

definition go_map :: "(string \<times> json) list \<Rightarrow> json" where
  "go_map kvs = JObj (sort_key fst kvs)"

section \<open>Facts\<close>

lemmas char_order = less_char_def less_eq_char_def

lemma map_of_sort_key:
  assumes "distinct (map fst kvs)"
  shows "map_of (sort_key f kvs) = map_of kvs"
proof
  fix k
  have "distinct (map fst (sort_key f kvs))" using assms by (metis mset_eq_imp_distinct_iff mset_map mset_sort)
  then have "map_of (sort_key f kvs) k = Some v \<longleftrightarrow> map_of kvs k = Some v" for v using assms by (simp add: map_of_eq_Some_iff)
  then show "map_of (sort_key f kvs) k = map_of kvs k" by (metis option.exhaust)
qed

lemma length_escape_json: "length (escape_json s) \<le> 6 * length s"
proof (induction s rule: escape_json.induct)
  case (2 c s)
  have c: "length (escape_json_char c) \<le> 6" by (simp add: escape_json_char_def)
  have l: "length (drop 2 s) + 2 = length s" if "take 2 s = [x, y]" for x y using that by (cases s; cases "tl s") auto
  show ?case
  proof (cases "c = CHR 0xE2 \<and> (take 2 s = [CHR 0x80, CHR 0xA8] \<or> take 2 s = [CHR 0x80, CHR 0xA9])")
    case True
    then have "length (escape_json (drop 2 s)) \<le> 6 * length (drop 2 s)" using 2(1,2) by auto
    then show ?thesis using True l by auto
  next
    case False
    then have "length (escape_json s) \<le> 6 * length s" using 2(3) by blast
    then show ?thesis using False c by auto
  qed
qed simp

lemma length_quote_json: "length (quote_json s) \<le> 6 * length s + 2"
  using length_escape_json [of s] by (simp add: quote_json_def)

end
