(* ===== verification/Control_Policy.thy ===== *)
theory Control_Policy
  imports Config Kube_Deploy Go_JSON
begin

text \<open>
  Package \<open>controlapi\<close>: what the control API lets a client ask for. From \<open>server.go\<close> the operator's
  options, authentication, the command, target, image, mount, result and runtime checks and \<open>prepareRun\<close>; from
  \<open>mcp_scenario.go\<close> the bounds on scenarios and workloads, the confinement of dataset paths, the planned load and the
  warnings.

  Kubernetes name validation and quantities, \<open>net/url\<close>, \<open>net/netip\<close> and JSON decoding are collected in the record
  \<open>external\<close>, an argument of the checks that use them. A quantity is a rational number. Error texts are
  constructors; the several messages about one stage or one workload share a constructor.
\<close>

section \<open>Data\<close>

record url =
  u_scheme :: string
  u_hostname :: string
  u_has_user :: bool

record external =
  x_dns_label :: "string \<Rightarrow> bool"
  x_dns_subdomain :: "string \<Rightarrow> bool"
  x_parse_url :: "string \<Rightarrow> url option"
  x_is_addr :: "string \<Rightarrow> bool"
  x_parse_quantity :: "string \<Rightarrow> rat option"
  x_unmarshal :: "string \<Rightarrow> json option"
  x_parse_ir :: "string \<Rightarrow> scenario_config option"

record InferenceTarget =
  it_url :: string
  it_model :: string

record Options =
  Token :: string
  AllowedTargetHosts :: "string list"
  AllowedTargetSuffixes :: "string list"
  AllowedPVCs :: "string list"
  RunnerImage :: string
  MaxWorkers :: int
  MaxCPU :: rat
  MaxMemory :: rat
  DefaultActiveDeadline :: duration
  MaxActiveDeadline :: duration
  DefaultRetentionTTL :: duration
  MaxRetentionTTL :: duration
  InferenceTargets :: "(string \<times> InferenceTarget) list"
  ResultPVC :: string
  ResultRoot :: string
  DatasetPVC :: string
  DatasetRoot :: string
  AllowedPlatforms :: "string list"
  MaxArtifactFiles :: int
  MaxArtifactBytes :: int
  MaxReportRecords :: int
  MaxLatencySamples :: int
  MaxRecordBytes :: int
  MaxIndexedRuns :: int
  ArtifactProcessTimeout :: duration
  StarlarkCompilerPath :: string

record mountSpec =
  mnt_pvc :: string
  mnt_path :: string

record resultSpec =
  rs_pvc :: string
  rs_mount_path :: string
  rs_subdir :: string

record runSpec =
  run_name :: string
  run_command :: "string list"
  run_workers :: int
  run_arch :: string
  run_cpu :: string
  run_memory :: string
  run_active_deadline :: int
  run_mounts :: "mountSpec list"
  run_results :: "resultSpec option"

record ResultMetadata =
  rm_durable :: bool
  rm_pvc :: string
  rm_path :: string
  rm_uri :: string
  rm_format :: string

datatype policy_error =
    OptionsError string
  | CommandLength
  | InvalidArgument
  | InvalidPrefix
  | ManagedFlag string
  | PrometheusFlag
  | TargetCount
  | ConfigCount
  | ScenarioIRCount
  | BothConfigAndIR
  | TargetURL
  | TargetIPLiteral
  | TargetReserved
  | TargetNotAllowed string
  | ConfigNotInline
  | ConfigInvalidJSON
  | ConfigDestination
  | IRInvalid
  | ScenarioBounds nat
  | ScenarioOverride
  | ScenarioStageCount
  | ScenarioNoWork
  | ScenarioTooLong
  | WorkloadBounds string
  | DatasetPath
  | RunName
  | WorkersRange
  | ArchInvalid
  | QuantityInvalid
  | CPUTooLarge
  | MemoryTooLarge
  | ImageInvalid
  | MountCount
  | MountPVC
  | MountPath
  | MountDuplicate
  | ResultsPVC
  | ResultsPath
  | ResultsSubdir
  | ResultsConflict
  | DeadlineRange
  | TTLRange

section \<open>Targets, images, authentication\<close>

definition in_cluster_suffix :: "string \<Rightarrow> bool" where
  "in_cluster_suffix s \<longleftrightarrow> has_suffix s ''.svc'' \<or> has_suffix s ''.svc.cluster.local''"

definition exact_host :: "string \<Rightarrow> string \<Rightarrow> bool" where
  "exact_host host allowed \<longleftrightarrow>
     (let a = to_lower (trim_suffix (trim_space allowed) ''.'') in \<not> contains a ''.'' \<and> host = a)"

definition suffix_host :: "string \<Rightarrow> string \<Rightarrow> bool" where
  "suffix_host host allowed \<longleftrightarrow>
     (let s = to_lower (trim_space allowed);
          s' = (if has_prefix s ''.'' then s else CHR ''.'' # s)
      in s \<noteq> [] \<and> in_cluster_suffix s' \<and> has_suffix host s' \<and> length s' < length host)"

definition hostAllowed :: "string \<Rightarrow> string list \<Rightarrow> string list \<Rightarrow> bool" where
  "hostAllowed host exact suffs \<longleftrightarrow> list_ex (exact_host host) exact \<or> list_ex (suffix_host host) suffs"

definition is_hex :: "char \<Rightarrow> bool" where
  "is_hex c \<longleftrightarrow> is_digit c \<or> (97 \<le> char_code c \<and> char_code c \<le> 102) \<or> (65 \<le> char_code c \<and> char_code c \<le> 70)"

definition image_prefix :: string where
  "image_prefix = ''ghcr.io/neuralmagic/nyann-bench@sha256:''"

definition validRunnerImage :: "string \<Rightarrow> bool" where
  "validRunnerImage img \<longleftrightarrow>
     has_prefix img image_prefix \<and>
     (let digest = trim_prefix img image_prefix
      in length digest = 64 \<and> list_all is_hex digest \<and> digest = to_lower digest)"

datatype auth_result = Pass | AuthNotConfigured | Unauthorized

definition authenticate :: "Options \<Rightarrow> string \<Rightarrow> string \<Rightarrow> auth_result" where
  "authenticate opts url_path header =
     (if url_path = ''/healthz'' \<or> url_path = ''/readyz'' then Pass
      else let provided = trim_prefix header ''Bearer ''
           in if Token opts = [] then AuthNotConfigured
              else if provided = header \<or> provided \<noteq> Token opts then Unauthorized else Pass)"

section \<open>Inline configuration\<close>

definition destination_key :: "string \<Rightarrow> bool" where
  "destination_key key \<longleftrightarrow>
     (let k = to_lower (map (\<lambda>c. if c = CHR ''-'' then CHR ''_'' else c) key)
      in k = ''target'' \<or> contains k ''prometheus'' \<or> has_suffix k ''_url'')"

definition url_string :: "string \<Rightarrow> bool" where
  "url_string s \<longleftrightarrow> (let l = to_lower (trim_space s) in has_prefix l ''http://'' \<or> has_prefix l ''https://'')"

fun containsAuxiliaryDestination :: "json \<Rightarrow> bool" where
  "containsAuxiliaryDestination (JObj kvs) =
     list_ex (\<lambda>(k, v). destination_key k \<or> containsAuxiliaryDestination v) kvs"
| "containsAuxiliaryDestination (JArr vs) = list_ex containsAuxiliaryDestination vs"
| "containsAuxiliaryDestination (JStr s) = url_string s"
| "containsAuxiliaryDestination _ = False"

definition validateInlineConfig :: "external \<Rightarrow> string \<Rightarrow> (policy_error, unit) result" where
  "validateInlineConfig x v =
     (let value = trim_space v
      in if \<not> has_prefix value ''{'' then Inl ConfigNotInline
         else case x_unmarshal x value of
           None \<Rightarrow> Inl ConfigInvalidJSON
         | Some d \<Rightarrow> if containsAuxiliaryDestination d then Inl ConfigDestination else Inr ())"

section \<open>Scenario bounds\<close>

definition has_nul :: "string \<Rightarrow> bool" where
  "has_nul s \<longleftrightarrow> list_ex (\<lambda>c. char_code c = 0) s"

definition f64_between :: "rat \<Rightarrow> rat \<Rightarrow> f64 \<Rightarrow> bool" where
  "f64_between lo hi v = (case v of Fin r \<Rightarrow> lo \<le> r \<and> r \<le> hi | _ \<Rightarrow> False)"

definition cache_salt_ok :: "cache_salt option \<Rightarrow> bool" where
  "cache_salt_ok cs =
     (case cs of None \<Rightarrow> True
      | Some c \<Rightarrow> (salt_mode c = ''random'' \<or> salt_mode c = ''fixed'') \<and>
          \<not> (salt_mode c = ''fixed'' \<and> salt_value c = []) \<and>
          length (salt_value c) \<le> 4096 \<and> \<not> has_nul (salt_value c))"

definition workload_type_ok :: "workload \<Rightarrow> bool" where
  "workload_type_ok w \<longleftrightarrow>
     (if wl_type w = ''synthetic'' \<or> wl_type w = ''faker'' then True
      else if wl_type w = ''corpus'' then wl_corpus_path w \<noteq> []
      else if wl_type w = ''gsm8k'' then wl_gsm8k_path w \<noteq> []
      else if wl_type w = ''gpqa'' then wl_gpqa_path w \<noteq> []
      else False)"

definition opt_between :: "int \<Rightarrow> int \<Rightarrow> int option \<Rightarrow> bool" where
  "opt_between lo hi v = (case v of None \<Rightarrow> True | Some n \<Rightarrow> lo \<le> n \<and> n \<le> hi)"

definition validateWorkloadBounds :: "workload \<Rightarrow> string \<Rightarrow> (policy_error, unit) result" where
  "validateWorkloadBounds w location =
     (if \<not> workload_type_ok w then Inl (WorkloadBounds location)
      else if wl_isl w < 0 \<or> 1048576 < wl_isl w \<or> wl_osl w < 0 \<or> 1048576 < wl_osl w \<or> wl_turns w < 1 \<or> 1024 < wl_turns w
      then Inl (WorkloadBounds location)
      else if \<not> opt_between 0 1048576 (wl_subsequent_isl w) then Inl (WorkloadBounds location)
      else if \<not> opt_between 0 128 (wl_num_fewshot w) then Inl (WorkloadBounds location)
      else if \<not> f64_between 0 100 (wl_chars_per_token w) then Inl (WorkloadBounds location)
      else if 128 < length (wl_name w) \<or> 4096 < length (wl_corpus_path w) \<or> 4096 < length (wl_gsm8k_path w) \<or>
              4096 < length (wl_gsm8k_train_path w) \<or> 4096 < length (wl_gpqa_path w) \<or> has_nul (wl_name w)
      then Inl (WorkloadBounds location)
      else if \<not> cache_salt_ok (wl_cache_salt w) then Inl (WorkloadBounds location)
      else Inr ())"

text \<open>The body of the loop over the stages: the checks of stage \<open>i\<close>, with the number of work stages and the total
  duration so far.\<close>

definition rate_mode :: "scenario_stage \<Rightarrow> bool" where
  "rate_mode s \<longleftrightarrow> ss_mode s = ''constant'' \<or> ss_mode s = ''poisson''"

definition load_in_bounds :: "scenario_stage \<Rightarrow> bool" where
  "load_in_bounds s \<longleftrightarrow>
     0 \<le> ss_concurrency s \<and> ss_concurrency s \<le> 65536 \<and> 0 \<le> ss_pool_size s \<and> ss_pool_size s \<le> 1000000 \<and>
     f64_between 0 1000000 (ss_rate s) \<and> 0 \<le> ss_max_inflight s \<and> ss_max_inflight s \<le> 65536 \<and>
     0 \<le> ss_max_requests s \<and> ss_max_requests s \<le> 1000000000"

definition bounds_step :: "nat \<Rightarrow> scenario_stage \<Rightarrow> int \<times> duration \<Rightarrow> (policy_error, int \<times> duration) result" where
  "bounds_step i s acc =
     (if 128 < length (ss_name s) \<or> has_nul (ss_name s) then Inl (ScenarioBounds i)
      else if ss_target s \<noteq> [] \<or> ss_model s \<noteq> [] then Inl ScenarioOverride
      else res_bind (case ss_workload s of None \<Rightarrow> Inr () | Some w \<Rightarrow> validateWorkloadBounds w ''stage workload'')
        (\<lambda>_. if ss_barrier s then Inr acc
             else if ss_duration s \<le> 0 \<or> 24 * hour < ss_duration s then Inl (ScenarioBounds i)
             else if ss_rampup s < 0 \<or> 24 * hour < ss_rampup s then Inl (ScenarioBounds i)
             else if \<not> load_in_bounds s then Inl (ScenarioBounds i)
             else if rate_mode s \<and> f64_le (ss_rate s) (Fin 0) then Inl (ScenarioBounds i)
             else if \<not> rate_mode s \<and> ss_concurrency s \<le> 0 then Inl (ScenarioBounds i)
             else Inr (fst acc + 1, snd acc + ss_duration s)))"

fun bounds_loop :: "nat \<Rightarrow> scenario_stage list \<Rightarrow> int \<times> duration \<Rightarrow> (policy_error, int \<times> duration) result" where
  "bounds_loop i [] acc = Inr acc"
| "bounds_loop i (s # ss) acc = res_bind (bounds_step i s acc) (\<lambda>acc'. bounds_loop (Suc i) ss acc')"

definition validateScenarioBounds :: "scenario_config \<Rightarrow> (policy_error, unit) result" where
  "validateScenarioBounds sc =
     (if sc_stages sc = [] \<or> MaxScenarioStages < int (length (sc_stages sc)) then Inl ScenarioStageCount
      else if sc_target sc \<noteq> [] \<or> sc_model sc \<noteq> [] then Inl ScenarioOverride
      else res_bind (validateWorkloadBounds (sc_workload sc) ''workload'') (\<lambda>_.
        res_bind (bounds_loop 0 (sc_stages sc) (0, 0)) (\<lambda>(workStages, tot).
          if workStages = 0 then Inl ScenarioNoWork
          else if 7 * 24 * hour < tot then Inl ScenarioTooLong
          else Inr ())))"

section \<open>Dataset paths\<close>

definition pathWithinRoot :: "string \<Rightarrow> string \<Rightarrow> bool" where
  "pathWithinRoot rootdir value =
     (if \<not> is_abs value \<or> path_clean value \<noteq> value then False
      else case path_rel (path_clean rootdir) value of
        None \<Rightarrow> False
      | Some rel \<Rightarrow> rel \<noteq> ''.'' \<and> rel \<noteq> ''..'' \<and> \<not> has_prefix rel (''..'' @ [sep]))"

definition dataset_paths :: "workload \<Rightarrow> string list" where
  "dataset_paths w = [wl_corpus_path w, wl_gsm8k_path w, wl_gsm8k_train_path w, wl_gpqa_path w]"

definition validateDatasetPaths :: "workload \<Rightarrow> string \<Rightarrow> (policy_error, unit) result" where
  "validateDatasetPaths w rootdir =
     (if list_ex (\<lambda>v. v \<noteq> [] \<and> (rootdir = [] \<or> \<not> pathWithinRoot rootdir v)) (dataset_paths w) then Inl DatasetPath else Inr ())"

fun validate_stage_paths :: "scenario_stage list \<Rightarrow> string \<Rightarrow> (policy_error, unit) result" where
  "validate_stage_paths [] rootdir = Inr ()"
| "validate_stage_paths (s # ss) rootdir =
     res_bind (case ss_workload s of None \<Rightarrow> Inr () | Some w \<Rightarrow> validateDatasetPaths w rootdir)
       (\<lambda>_. validate_stage_paths ss rootdir)"

definition validateScenarioDatasetPaths :: "scenario_config \<Rightarrow> string \<Rightarrow> (policy_error, unit) result" where
  "validateScenarioDatasetPaths sc rootdir =
     res_bind (validateDatasetPaths (sc_workload sc) rootdir) (\<lambda>_. validate_stage_paths (sc_stages sc) rootdir)"

definition workloadUsesDataset :: "workload \<Rightarrow> bool" where
  "workloadUsesDataset w \<longleftrightarrow> wl_corpus_path w \<noteq> [] \<or> wl_gsm8k_path w \<noteq> [] \<or> wl_gsm8k_train_path w \<noteq> [] \<or> wl_gpqa_path w \<noteq> []"

definition scenarioUsesDataset :: "scenario_config \<Rightarrow> bool" where
  "scenarioUsesDataset sc \<longleftrightarrow> workloadUsesDataset (sc_workload sc) \<or>
     list_ex (\<lambda>s. case ss_workload s of None \<Rightarrow> False | Some w \<Rightarrow> workloadUsesDataset w) (sc_stages sc)"

section \<open>Commands\<close>

text \<open>The flag of an argument is the part before the first equals sign.\<close>

definition flag_of :: "string \<Rightarrow> string" where
  "flag_of arg = takeWhile (\<lambda>c. c \<noteq> CHR ''='') arg"

definition managed_flag :: "string \<Rightarrow> bool" where
  "managed_flag flag \<longleftrightarrow> has_prefix flag ''--kube'' \<or> flag = ''--worker-id'' \<or> flag = ''--workers'' \<or> flag = ''--metrics'' \<or>
     flag = ''--output-dir''"

record parsed_command =
  cmd_target :: string
  cmd_config :: string
  cmd_scenario_ir :: string

text \<open>One argument of the loop; \<open>rest\<close> are the arguments after it.\<close>

definition command_arg :: "string \<Rightarrow> string list \<Rightarrow> parsed_command \<Rightarrow> (policy_error, parsed_command) result" where
  "command_arg arg rest p =
     (if managed_flag (flag_of arg) then Inl (ManagedFlag (flag_of arg))
      else if flag_of arg = ''--prometheus-url'' then Inl PrometheusFlag
      else if arg = ''--target'' then
        (if rest = [] \<or> cmd_target p \<noteq> [] then Inl TargetCount else Inr (p\<lparr>cmd_target := hd rest\<rparr>))
      else if has_prefix arg ''--target='' then
        (if cmd_target p \<noteq> [] then Inl TargetCount else Inr (p\<lparr>cmd_target := trim_prefix arg ''--target=''\<rparr>))
      else if arg = ''--config'' then
        (if rest = [] \<or> cmd_config p \<noteq> [] then Inl ConfigCount else Inr (p\<lparr>cmd_config := hd rest\<rparr>))
      else if has_prefix arg ''--config='' then
        (if cmd_config p \<noteq> [] then Inl ConfigCount else Inr (p\<lparr>cmd_config := trim_prefix arg ''--config=''\<rparr>))
      else if arg = ''--scenario-ir'' then
        (if rest = [] \<or> cmd_scenario_ir p \<noteq> [] then Inl ScenarioIRCount else Inr (p\<lparr>cmd_scenario_ir := hd rest\<rparr>))
      else if has_prefix arg ''--scenario-ir='' then
        (if cmd_scenario_ir p \<noteq> [] then Inl ScenarioIRCount
         else Inr (p\<lparr>cmd_scenario_ir := trim_prefix arg ''--scenario-ir=''\<rparr>))
      else Inr p)"

fun parse_command :: "string list \<Rightarrow> parsed_command \<Rightarrow> (policy_error, parsed_command) result" where
  "parse_command [] p = Inr p"
| "parse_command (arg # rest) p = res_bind (command_arg arg rest p) (\<lambda>p'. parse_command rest p')"

definition valid_prefix :: "string list \<Rightarrow> bool" where
  "valid_prefix cmd =
     (case cmd of
        a # b # _ \<Rightarrow> a = ''generate'' \<or> (a = ''eval'' \<and> (b = ''gsm8k'' \<or> b = ''gpqa''))
      | [a] \<Rightarrow> a = ''generate''
      | [] \<Rightarrow> False)"

definition target_host :: "url \<Rightarrow> string" where
  "target_host u = to_lower (trim_suffix (u_hostname u) ''.'')"

definition reserved_host :: "string \<Rightarrow> bool" where
  "reserved_host h \<longleftrightarrow> h = ''localhost'' \<or> h = ''kubernetes'' \<or> h = ''kubernetes.default'' \<or>
     has_prefix h ''kubernetes.default.svc''"

definition check_target :: "external \<Rightarrow> Options \<Rightarrow> string \<Rightarrow> (policy_error, unit) result" where
  "check_target x opts target =
     (case x_parse_url x target of
        None \<Rightarrow> Inl TargetURL
      | Some u \<Rightarrow>
          if (u_scheme u \<noteq> ''http'' \<and> u_scheme u \<noteq> ''https'') \<or> u_hostname u = [] \<or> u_has_user u then Inl TargetURL
          else let host = target_host u
               in if x_is_addr x host then Inl TargetIPLiteral
                  else if reserved_host host then Inl TargetReserved
                  else if \<not> hostAllowed host (AllowedTargetHosts opts) (AllowedTargetSuffixes opts)
                  then Inl (TargetNotAllowed host) else Inr ())"

definition check_scenario_ir :: "external \<Rightarrow> Options \<Rightarrow> string \<Rightarrow> (policy_error, unit) result" where
  "check_scenario_ir x opts v =
     (case x_parse_ir x v of
        None \<Rightarrow> Inl IRInvalid
      | Some sc \<Rightarrow> res_bind (validateScenarioBounds sc) (\<lambda>_. validateScenarioDatasetPaths sc (DatasetRoot opts)))"

definition command_checks ::
    "external \<Rightarrow> Options \<Rightarrow> string list \<Rightarrow> parsed_command \<Rightarrow> (policy_error, string list \<times> string) result" where
  "command_checks x opts input p =
     (if cmd_config p \<noteq> [] \<and> cmd_scenario_ir p \<noteq> [] then Inl BothConfigAndIR
      else res_bind (check_target x opts (cmd_target p)) (\<lambda>_.
        res_bind (if cmd_config p \<noteq> [] then validateInlineConfig x (cmd_config p) else Inr ()) (\<lambda>_.
          res_bind (if cmd_scenario_ir p \<noteq> [] then check_scenario_ir x opts (cmd_scenario_ir p) else Inr ()) (\<lambda>_.
            Inr (input, cmd_target p)))))"

definition empty_command :: parsed_command where
  "empty_command = \<lparr>cmd_target = [], cmd_config = [], cmd_scenario_ir = []\<rparr>"

definition argument_ok :: "string \<Rightarrow> bool" where
  "argument_ok a \<longleftrightarrow> a \<noteq> [] \<and> length a \<le> 65536 \<and> \<not> has_nul a"

definition validateCommand :: "external \<Rightarrow> Options \<Rightarrow> string list \<Rightarrow> (policy_error, string list \<times> string) result" where
  "validateCommand x opts input =
     (if input = [] \<or> 128 < length input then Inl CommandLength
      else if \<not> list_all argument_ok input then Inl InvalidArgument
      else if \<not> valid_prefix input then Inl InvalidPrefix
      else res_bind (parse_command input empty_command) (command_checks x opts input))"

section \<open>Storage, limits and the run\<close>

definition validAbsoluteRoot :: "string \<Rightarrow> bool" where
  "validAbsoluteRoot value \<longleftrightarrow> has_prefix value ''/'' \<and> path_clean value = value \<and> value \<noteq> ''/''"

definition pvcAllowed :: "Options \<Rightarrow> string \<Rightarrow> bool" where
  "pvcAllowed opts name \<longleftrightarrow> list_ex (\<lambda>a. name = trim_space a) (AllowedPVCs opts)"

definition validateResults :: "external \<Rightarrow> resultSpec \<Rightarrow> string \<Rightarrow> (policy_error, string) result" where
  "validateResults x spec runName =
     (if \<not> x_dns_subdomain x (rs_pvc spec) then Inl ResultsPVC
      else if \<not> has_prefix (rs_mount_path spec) ''/'' \<or> path_clean (rs_mount_path spec) \<noteq> rs_mount_path spec \<or>
              rs_mount_path spec = ''/'' then Inl ResultsPath
      else let subdir = (if rs_subdir spec = [] then ''runs'' else rs_subdir spec)
           in if is_abs subdir \<or> path_clean subdir \<noteq> subdir \<or> subdir = ''.'' \<or> has_prefix subdir ''../''
              then Inl ResultsSubdir
              else Inr (path_join [rs_mount_path spec, subdir, runName]))"

fun validate_mounts :: "external \<Rightarrow> Options \<Rightarrow> mountSpec list \<Rightarrow> string list \<Rightarrow> (policy_error, VolumeSpec list) result" where
  "validate_mounts x opts [] seen = Inr []"
| "validate_mounts x opts (m # ms) seen =
     (if \<not> pvcAllowed opts (mnt_pvc m) then Inl MountPVC
      else if \<not> x_dns_subdomain x (mnt_pvc m) then Inl MountPVC
      else if \<not> has_prefix (mnt_path m) ''/'' \<or> path_clean (mnt_path m) \<noteq> mnt_path m \<or> mnt_path m = ''/'' then Inl MountPath
      else if mnt_path m \<in> set seen then Inl MountDuplicate
      else res_bind (validate_mounts x opts ms (mnt_path m # seen))
             (\<lambda>vs. Inr (\<lparr>vol_pvc = mnt_pvc m, vol_path = mnt_path m\<rparr> # vs)))"

definition validateMounts :: "external \<Rightarrow> Options \<Rightarrow> mountSpec list \<Rightarrow> (policy_error, VolumeSpec list) result" where
  "validateMounts x opts specs = (if 8 < length specs then Inl MountCount else validate_mounts x opts specs [])"

definition resolveRuntimeLimits :: "Options \<Rightarrow> runSpec \<Rightarrow> (policy_error, int \<times> int) result" where
  "resolveRuntimeLimits opts req =
     (let a = wrap64 (run_active_deadline req * second);
          active = (if a = 0 then DefaultActiveDeadline opts else a);
          ttl = DefaultRetentionTTL opts
      in if active < second \<or> MaxActiveDeadline opts < active then Inl DeadlineRange
         else if ttl < second \<or> MaxRetentionTTL opts < ttl then Inl TTLRange
         else Inr (tdiv active second, tdiv ttl second))"

definition quantity_ok :: "external \<Rightarrow> string \<Rightarrow> bool" where
  "quantity_ok x v \<longleftrightarrow> v = [] \<or> (case x_parse_quantity x v of None \<Rightarrow> False | Some q \<Rightarrow> 0 < q)"

definition exceeds :: "external \<Rightarrow> string \<Rightarrow> string \<Rightarrow> rat \<Rightarrow> bool" where
  "exceeds x v dflt mx =
     (case x_parse_quantity x (if v = [] then dflt else v) of None \<Rightarrow> True | Some q \<Rightarrow> mx < q)"

definition result_volumes :: "resultSpec \<Rightarrow> VolumeSpec list \<Rightarrow> (policy_error, VolumeSpec list) result" where
  "result_volumes r vols =
     (if list_ex (\<lambda>v. vol_path v = rs_mount_path r \<and> vol_pvc v \<noteq> rs_pvc r) vols then Inl ResultsConflict
      else if list_ex (\<lambda>v. vol_pvc v = rs_pvc r \<and> vol_path v = rs_mount_path r) vols then Inr vols
      else Inr (vols @ [\<lparr>vol_pvc = rs_pvc r, vol_path = rs_mount_path r\<rparr>]))"

definition no_results :: ResultMetadata where
  "no_results = \<lparr>rm_durable = False, rm_pvc = [], rm_path = [], rm_uri = [], rm_format = []\<rparr>"

definition prepare_results ::
    "external \<Rightarrow> Options \<Rightarrow> resultSpec option \<Rightarrow> string \<Rightarrow> string list \<Rightarrow> VolumeSpec list \<Rightarrow>
     (policy_error, string list \<times> VolumeSpec list \<times> ResultMetadata) result" where
  "prepare_results x opts results name cmd vols =
     (case results of
        None \<Rightarrow> Inr (cmd, vols, no_results)
      | Some r \<Rightarrow>
          if \<not> pvcAllowed opts (rs_pvc r) then Inl ResultsPVC
          else res_bind (validateResults x r name) (\<lambda>path.
            res_bind (result_volumes r vols) (\<lambda>vols'.
              Inr (cmd @ [''--output-dir'', path], vols',
                \<lparr>rm_durable = True, rm_pvc = rs_pvc r, rm_path = path,
                 rm_uri = ''pvc://'' @ rs_pvc r @ trim_prefix path (rs_mount_path r),
                 rm_format = ''nyann-bench-v1 (requests_N.jsonl, timestamps_N.json)''\<rparr>))))"

text \<open>\<open>fresh\<close> is the generated name used when the request has none.\<close>

definition prepareRun ::
    "external \<Rightarrow> Options \<Rightarrow> string \<Rightarrow> string \<Rightarrow> runSpec \<Rightarrow>
     (policy_error, string \<times> KubeConfig \<times> string list \<times> ResultMetadata) result" where
  "prepareRun x opts namespace fresh req =
     (let name = (if run_name req = [] then fresh else run_name req);
          workers = (if run_workers req = 0 then 1 else run_workers req);
          arch = (if run_arch req = [] then ''amd64'' else run_arch req)
      in if \<not> x_dns_subdomain x name \<or> 63 < length name then Inl RunName
         else res_bind (validateCommand x opts (run_command req)) (\<lambda>(cmd, target).
           if workers < 1 \<or> MaxWorkers opts < workers then Inl WorkersRange
           else if run_arch req \<noteq> [] \<and> run_arch req \<noteq> ''amd64'' \<and> run_arch req \<noteq> ''arm64'' then Inl ArchInvalid
           else if \<not> quantity_ok x (run_cpu req) \<or> \<not> quantity_ok x (run_memory req) then Inl QuantityInvalid
           else if exceeds x (run_cpu req) ''4'' (MaxCPU opts) then Inl CPUTooLarge
           else if exceeds x (run_memory req) ''8Gi'' (MaxMemory opts) then Inl MemoryTooLarge
           else if \<not> validRunnerImage (RunnerImage opts) then Inl ImageInvalid
           else res_bind (validateMounts x opts (run_mounts req)) (\<lambda>vols.
             res_bind (prepare_results x opts (run_results req) name cmd vols) (\<lambda>(cmd', vols', meta).
               Inr (name,
                 \<lparr>kc_name = name, kc_context = [], kc_namespace = namespace, kc_platform = ''kubernetes'', kc_image = RunnerImage opts,
                  kc_arch = arch, kc_workers = workers, kc_volume = [], kc_volumes = vols',
                  kc_cpu = run_cpu req, kc_memory = run_memory req, kc_network_tuning = Some False, kc_restricted = True\<rparr>,
                 cmd' @ [''--metrics'', '':9090''] @ (if 1 < workers then [''--workers'', itoa workers] else []),
                 meta)))))"

section \<open>Operator options\<close>

definition DefaultOptions :: Options where
  "DefaultOptions = \<lparr>Token = [], AllowedTargetHosts = [], AllowedTargetSuffixes = [], AllowedPVCs = [], RunnerImage = [],
     MaxWorkers = 16, MaxCPU = 16, MaxMemory = 68719476736, DefaultActiveDeadline = hour, MaxActiveDeadline = 6 * hour,
     DefaultRetentionTTL = 24 * hour, MaxRetentionTTL = 7 * 24 * hour, InferenceTargets = [], ResultPVC = [], ResultRoot = [],
     DatasetPVC = [], DatasetRoot = [], AllowedPlatforms = [], MaxArtifactFiles = 512, MaxArtifactBytes = 68719476736,
     MaxReportRecords = 50000000, MaxLatencySamples = 100000, MaxRecordBytes = 8388608, MaxIndexedRuns = 10000,
     ArtifactProcessTimeout = 5 * minute, StarlarkCompilerPath = ''/nyann-bench''\<rparr>"

definition or_default :: "'a \<Rightarrow> 'a \<Rightarrow> 'a \<Rightarrow> 'a" where
  "or_default zero dflt v = (if v = zero then dflt else v)"

definition NewServer_options :: "Options \<Rightarrow> Options" where
  "NewServer_options opts = opts\<lparr>
     MaxWorkers := or_default 0 (MaxWorkers DefaultOptions) (MaxWorkers opts),
     MaxCPU := or_default 0 (MaxCPU DefaultOptions) (MaxCPU opts),
     MaxMemory := or_default 0 (MaxMemory DefaultOptions) (MaxMemory opts),
     DefaultActiveDeadline := or_default 0 (DefaultActiveDeadline DefaultOptions) (DefaultActiveDeadline opts),
     MaxActiveDeadline := or_default 0 (MaxActiveDeadline DefaultOptions) (MaxActiveDeadline opts),
     DefaultRetentionTTL := or_default 0 (DefaultRetentionTTL DefaultOptions) (DefaultRetentionTTL opts),
     MaxRetentionTTL := or_default 0 (MaxRetentionTTL DefaultOptions) (MaxRetentionTTL opts),
     MaxArtifactFiles := or_default 0 (MaxArtifactFiles DefaultOptions) (MaxArtifactFiles opts),
     MaxArtifactBytes := or_default 0 (MaxArtifactBytes DefaultOptions) (MaxArtifactBytes opts),
     MaxReportRecords := or_default 0 (MaxReportRecords DefaultOptions) (MaxReportRecords opts),
     MaxLatencySamples := or_default 0 (MaxLatencySamples DefaultOptions) (MaxLatencySamples opts),
     MaxRecordBytes := or_default 0 (MaxRecordBytes DefaultOptions) (MaxRecordBytes opts),
     MaxIndexedRuns := or_default 0 (MaxIndexedRuns DefaultOptions) (MaxIndexedRuns opts),
     ArtifactProcessTimeout := or_default 0 (ArtifactProcessTimeout DefaultOptions) (ArtifactProcessTimeout opts),
     StarlarkCompilerPath := or_default [] (StarlarkCompilerPath DefaultOptions) (StarlarkCompilerPath opts)\<rparr>"

definition allowedPlatforms :: "Options \<Rightarrow> string list" where
  "allowedPlatforms opts = (if AllowedPlatforms opts = [] then [''kubernetes'', ''openshift''] else AllowedPlatforms opts)"

definition target_suffix_ok :: "string \<Rightarrow> bool" where
  "target_suffix_ok s \<longleftrightarrow>
     (let n = trim_prefix (to_lower (trim_space s)) ''.'' in in_cluster_suffix n \<and> 2 \<le> length (split_on CHR ''.'' n))"

definition storage_ok :: "Options \<Rightarrow> string \<Rightarrow> string \<Rightarrow> bool" where
  "storage_ok opts pvc dir \<longleftrightarrow> (pvc = [] \<longleftrightarrow> dir = []) \<and> (dir \<noteq> [] \<longrightarrow> pvcAllowed opts pvc \<and> validAbsoluteRoot dir)"

definition Options_Validate :: "external \<Rightarrow> Options \<Rightarrow> (policy_error, unit) result" where
  "Options_Validate x opts =
     (if length (trim_space (Token opts)) < 32 then Inl (OptionsError ''token'')
      else if \<not> validRunnerImage (RunnerImage opts) then Inl (OptionsError ''runner image'')
      else if MaxWorkers opts < 1 then Inl (OptionsError ''max workers'')
      else if MaxCPU opts \<le> 0 \<or> MaxMemory opts \<le> 0 then Inl (OptionsError ''CPU and memory'')
      else if DefaultActiveDeadline opts \<le> 0 \<or> MaxActiveDeadline opts < DefaultActiveDeadline opts
      then Inl (OptionsError ''active deadline'')
      else if DefaultRetentionTTL opts \<le> 0 \<or> MaxRetentionTTL opts < DefaultRetentionTTL opts \<or>
              2 ^ 31 - 1 < tdiv (MaxRetentionTTL opts) second then Inl (OptionsError ''retention TTL'')
      else if list_ex (\<lambda>h. let h' = to_lower (trim_space h) in contains h' ''.'' \<or> \<not> x_dns_label x h') (AllowedTargetHosts opts)
      then Inl (OptionsError ''allowed target host'')
      else if list_ex (\<lambda>s. \<not> target_suffix_ok s) (AllowedTargetSuffixes opts) then Inl (OptionsError ''allowed target suffix'')
      else if list_ex (\<lambda>p. \<not> x_dns_subdomain x (trim_space p)) (AllowedPVCs opts) then Inl (OptionsError ''allowed PVC'')
      else if list_ex (\<lambda>(n, t). \<not> x_dns_label x n \<or>
                \<not> is_ok (validateCommand x opts [''generate'', ''--target'', it_url t])) (InferenceTargets opts)
      then Inl (OptionsError ''inference target'')
      else if \<not> storage_ok opts (ResultPVC opts) (ResultRoot opts) then Inl (OptionsError ''result storage'')
      else if \<not> storage_ok opts (DatasetPVC opts) (DatasetRoot opts) then Inl (OptionsError ''dataset storage'')
      else if list_ex (\<lambda>p. p \<noteq> ''kubernetes'' \<and> p \<noteq> ''openshift'') (allowedPlatforms opts) then Inl (OptionsError ''platform'')
      else if MaxArtifactFiles opts < 1 \<or> MaxArtifactBytes opts < 1 \<or> MaxReportRecords opts < 1 \<or> MaxLatencySamples opts < 1 \<or>
              MaxRecordBytes opts < 1 \<or> MaxIndexedRuns opts < 1 \<or> ArtifactProcessTimeout opts \<le> 0
      then Inl (OptionsError ''processing limits'')
      else if \<not> is_abs (StarlarkCompilerPath opts) then Inl (OptionsError ''compiler path'')
      else Inr ())"

section \<open>Planned load and job status\<close>

record plannedStage =
  ps_index :: nat
  ps_name :: string
  ps_mode :: string
  ps_duration :: duration
  ps_total_concurrency :: int
  ps_per_worker_concurrency :: "int list"
  ps_total_rate :: f64
  ps_per_worker_rate :: "f64 list"

definition divide_rate_f64 :: "f64 \<Rightarrow> int \<Rightarrow> f64" where
  "divide_rate_f64 r n = (case r of Fin q \<Rightarrow> Fin (DivideRate q n) | _ \<Rightarrow> r)"

definition planned_stage :: "int \<Rightarrow> nat \<Rightarrow> scenario_stage \<Rightarrow> plannedStage" where
  "planned_stage workers i s =
     \<lparr>ps_index = i, ps_name = ss_name s, ps_mode = (if ss_mode s = [] then ''concurrent'' else ss_mode s),
      ps_duration = ss_duration s, ps_total_concurrency = ss_concurrency s,
      ps_per_worker_concurrency = (if rate_mode s then []
        else map (\<lambda>w. DivideConcurrency (ss_concurrency s) workers (int w)) [0..<nat workers]),
      ps_total_rate = ss_rate s,
      ps_per_worker_rate = (if rate_mode s then map (\<lambda>w. divide_rate_f64 (ss_rate s) workers) [0..<nat workers] else [])\<rparr>"

fun planned_load :: "int \<Rightarrow> nat \<Rightarrow> scenario_stage list \<Rightarrow> plannedStage list" where
  "planned_load workers i [] = []"
| "planned_load workers i (s # ss) =
     (if ss_barrier s then planned_load workers i ss else planned_stage workers i s # planned_load workers (Suc i) ss)"

definition plannedLoad :: "scenario_config \<Rightarrow> int \<Rightarrow> plannedStage list" where
  "plannedLoad sc workers = planned_load workers 0 (sc_stages sc)"

datatype warning = IdlePartitions nat | ExceedsDeadline duration duration

fun idle_warnings :: "nat \<Rightarrow> int \<Rightarrow> scenario_stage list \<Rightarrow> warning list" where
  "idle_warnings i workers [] = []"
| "idle_warnings i workers (s # ss) =
     (if \<not> ss_barrier s \<and> \<not> rate_mode s \<and> ss_concurrency s < workers then [IdlePartitions i] else []) @
     idle_warnings (Suc i) workers ss"

definition scenario_duration :: "scenario_config \<Rightarrow> duration" where
  "scenario_duration sc = sum_list (map ss_duration (filter (\<lambda>s. \<not> ss_barrier s) (sc_stages sc)))"

definition scenarioWarnings :: "scenario_config \<Rightarrow> int \<Rightarrow> duration \<Rightarrow> warning list" where
  "scenarioWarnings sc workers deadline =
     idle_warnings 0 workers (sc_stages sc) @
     (if deadline < scenario_duration sc then [ExceedsDeadline (scenario_duration sc) deadline] else [])"

datatype condition_type = JobComplete | JobFailed | OtherCondition

record job_condition =
  jc_type :: condition_type
  jc_true :: bool

record job_status =
  js_conditions :: "job_condition list"
  js_active :: int

fun first_condition :: "job_condition list \<Rightarrow> string option" where
  "first_condition [] = None"
| "first_condition (c # cs) =
     (if \<not> jc_true c then first_condition cs
      else case jc_type c of JobComplete \<Rightarrow> Some ''succeeded'' | JobFailed \<Rightarrow> Some ''failed''
           | OtherCondition \<Rightarrow> first_condition cs)"

definition jobStatus :: "job_status \<Rightarrow> string" where
  "jobStatus j = (case first_condition (js_conditions j) of
      Some s \<Rightarrow> s
    | None \<Rightarrow> if 0 < js_active j then ''running'' else ''pending'')"

section \<open>Facts about commands and targets\<close>

definition in_cluster_host :: "string \<Rightarrow> bool" where
  "in_cluster_host h \<longleftrightarrow> \<not> contains h ''.'' \<or> in_cluster_suffix h"

lemma has_suffix_trans: "has_suffix s t \<Longrightarrow> has_suffix t u \<Longrightarrow> has_suffix s u"
  unfolding has_suffix_iff by (rule suffix_order.trans)

lemma hostAllowed_in_cluster: "hostAllowed h exact suffs \<Longrightarrow> in_cluster_host h"
  by (auto simp: hostAllowed_def list_ex_iff exact_host_def suffix_host_def in_cluster_host_def in_cluster_suffix_def
      Let_def dest: has_suffix_trans)

lemma command_arg_flags:
  "command_arg arg rest p = Inr p' \<Longrightarrow> \<not> managed_flag (flag_of arg) \<and> flag_of arg \<noteq> ''--prometheus-url''"
  by (auto simp: command_arg_def split: if_splits)

lemma parse_command_flags:
  "parse_command args p = Inr p' \<Longrightarrow> arg \<in> set args \<Longrightarrow>
     \<not> managed_flag (flag_of arg) \<and> flag_of arg \<noteq> ''--prometheus-url''"
  by (induction args p rule: parse_command.induct) (auto simp: res_bind_Inr_iff dest: command_arg_flags)


text \<open>A concrete instance of the environment, for the examples below: every name is valid, URLs are given as a
  host name after the scheme, nothing is an IP literal.\<close>

definition demo_external :: external where
  "demo_external = \<lparr>x_dns_label = (\<lambda>_. True), x_dns_subdomain = (\<lambda>_. True),
     x_parse_url = (\<lambda>s. if has_prefix s ''http://'' then Some \<lparr>u_scheme = ''http'', u_hostname = drop 7 s, u_has_user = False\<rparr> else None),
     x_is_addr = (\<lambda>_. False), x_parse_quantity = (\<lambda>_. Some 1), x_unmarshal = (\<lambda>_. None), x_parse_ir = (\<lambda>_. None)\<rparr>"

definition demo_options :: Options where
  "demo_options = DefaultOptions\<lparr>Token := ''t'', AllowedTargetSuffixes := [''bench.svc''], AllowedPVCs := [''data''],
     RunnerImage := image_prefix @ replicate 64 (CHR ''a'')\<rparr>"

lemma demo_command:
  "validateCommand demo_external demo_options [''generate'', ''--target=http://vllm.bench.svc''] =
     Inr ([''generate'', ''--target=http://vllm.bench.svc''], ''http://vllm.bench.svc'')"
proof -
  let ?c = "[''generate'', ''--target=http://vllm.bench.svc'']"
  have "parse_command ?c empty_command = Inr \<lparr>cmd_target = ''http://vllm.bench.svc'', cmd_config = [], cmd_scenario_ir = []\<rparr>"
    and "check_target demo_external demo_options ''http://vllm.bench.svc'' = Inr ()"
    by code_simp+
  moreover have "list_all argument_ok ?c" "valid_prefix ?c"
    by (simp_all add: argument_ok_def has_nul_def char_code_def valid_prefix_def)
  ultimately show ?thesis by (simp add: validateCommand_def command_checks_def)
qed


section \<open>Facts about paths\<close>

lemma path_within_root_elems:
  assumes "is_abs r"
  shows "pathWithinRoot r v \<longleftrightarrow> is_abs v \<and> path_clean v = v \<and> (\<exists>ts. ts \<noteq> [] \<and> path_elems v = path_elems r @ ts)"
proof
  assume w: "pathWithinRoot r v"
  then obtain rel where rel: "path_rel (path_clean r) v = Some rel" "rel \<noteq> ''.''" "rel \<noteq> ''..''" "\<not> has_prefix rel (''..'' @ [sep])"
      and v: "is_abs v" "path_clean v = v"
    by (auto simp: pathWithinRoot_def split: if_splits option.splits)
  have "is_abs (path_clean r)" using assms by (simp add: path_clean_abs)
  from path_rel_below [OF this v(1) rel] path_elems_clean [OF assms] v
  show "is_abs v \<and> path_clean v = v \<and> (\<exists>ts. ts \<noteq> [] \<and> path_elems v = path_elems r @ ts)" by simp
next
  assume v: "is_abs v \<and> path_clean v = v \<and> (\<exists>ts. ts \<noteq> [] \<and> path_elems v = path_elems r @ ts)"
  then obtain ts where ts: "ts \<noteq> []" "path_elems v = path_elems r @ ts" by blast
  have r: "is_abs (path_clean r)" "path_elems (path_clean r) = path_elems r"
    using assms path_elems_clean [OF assms] by (simp_all add: path_clean_abs)
  have pl: "\<forall>e\<in>set ts. plain_elem e" using path_elems_abs_plain [of v] v ts by simp
  have rel: "path_rel (path_clean r) v = Some (join_with [sep] ts)"
    by (rule path_rel_extends) (use r v ts in auto)
  have sp: "split_on sep (join_with [sep] ts) = ts"
    by (rule split_join) (use ts pl in \<open>auto simp: plain_elem_def\<close>)
  have "split_on sep ''.'' = [''.'']" "split_on sep ''..'' = [''..'']" by (simp_all add: sep_def)
  then have "join_with [sep] ts \<noteq> ''.''" "join_with [sep] ts \<noteq> ''..''"
    using sp pl by (metis list.set_intros(1) plain_elem_def)+
  moreover have "\<not> has_prefix (join_with [sep] ts) (''..'' @ [sep])"
  proof
    assume "has_prefix (join_with [sep] ts) (''..'' @ [sep])"
    then obtain rest where "join_with [sep] ts = ''..'' @ sep # rest" by (auto simp: has_prefix_iff prefix_def)
    then have "ts = split_on sep ''..'' @ split_on sep rest" using sp by (metis split_on_append_sep)
    moreover have "split_on sep ''..'' = [''..'']" by (simp add: sep_def)
    ultimately show False using pl by (simp add: plain_elem_def)
  qed
  ultimately have "join_with [sep] ts \<noteq> ''.'' \<and> join_with [sep] ts \<noteq> ''..'' \<and> \<not> has_prefix (join_with [sep] ts) (''..'' @ [sep])"
    by blast
  with rel v show "pathWithinRoot r v" by (simp add: pathWithinRoot_def)
qed

lemma validateDatasetPaths_ok:
  "validateDatasetPaths w r = Inr () \<longleftrightarrow> (\<forall>v\<in>set (dataset_paths w). v \<noteq> [] \<longrightarrow> r \<noteq> [] \<and> pathWithinRoot r v)"
  by (auto simp: validateDatasetPaths_def list_ex_iff)

lemma validate_stage_paths_ok:
  "validate_stage_paths ss r = Inr () \<longleftrightarrow>
     (\<forall>s\<in>set ss. \<forall>w. ss_workload s = Some w \<longrightarrow> validateDatasetPaths w r = Inr ())"
  by (induction ss) (auto simp: res_bind_Inr_iff split: option.splits)

text \<open>
  Property C20. Dataset paths are confined: in a scenario the API accepts, every dataset path of the default workload and of
  every stage's own workload is a clean absolute path whose elements properly extend those of the operator's
  dataset root, so none of them leaves the root through parent references.
\<close>

theorem dataset_paths_confined:
  assumes "validateScenarioDatasetPaths sc r = Inr ()" and "is_abs r"
    and "w = sc_workload sc \<or> (\<exists>s\<in>set (sc_stages sc). ss_workload s = Some w)"
    and "v \<in> set (dataset_paths w)" and "v \<noteq> []"
  shows "path_clean v = v \<and> (\<exists>ts. ts \<noteq> [] \<and> path_elems v = path_elems r @ ts \<and> (\<forall>e\<in>set ts. plain_elem e))"
proof -
  have "validateDatasetPaths w r = Inr ()"
    using assms(1,3) by (auto simp: validateScenarioDatasetPaths_def res_bind_Inr_iff validate_stage_paths_ok)
  with assms(4,5) have "pathWithinRoot r v" by (auto simp: validateDatasetPaths_ok)
  then obtain ts where ts: "is_abs v" "path_clean v = v" "ts \<noteq> []" "path_elems v = path_elems r @ ts"
    using path_within_root_elems [OF assms(2)] by blast
  with path_elems_abs_plain [OF ts(1)] have "\<forall>e\<in>set ts. plain_elem e" by simp
  with ts show ?thesis by blast
qed

theorem dataset_paths_confined_witness:
  "validateScenarioDatasetPaths
      (zero_scenario\<lparr>sc_workload := zero_workload\<lparr>wl_corpus_path := ''/data/c.txt''\<rparr>\<rparr>) ''/data'' = Inr () \<and>
   path_elems ''/data'' = [''data''] \<and> (\<exists>ts. path_elems ''/data/c.txt'' = ''data'' # ts) \<and>
   validateScenarioDatasetPaths
      (zero_scenario\<lparr>sc_workload := zero_workload\<lparr>wl_corpus_path := ''/data/../etc''\<rparr>\<rparr>) ''/data'' = Inl DatasetPath"
proof -
  let ?w = "zero_workload\<lparr>wl_corpus_path := ''/data/c.txt''\<rparr>"
  let ?sc = "zero_scenario\<lparr>sc_workload := ?w\<rparr>"
  have e: "pathWithinRoot ''/data'' ''/data/c.txt''" "path_elems ''/data'' = [''data'']" "is_abs ''/data''"
    "\<not> pathWithinRoot ''/data'' ''/data/../etc''" by code_simp+
  have ok: "validateScenarioDatasetPaths ?sc ''/data'' = Inr ()"
    using e by (simp add: validateScenarioDatasetPaths_def res_bind_Inr_iff validateDatasetPaths_ok dataset_paths_def
        zero_workload_def zero_scenario_def)
  have "\<exists>ts. path_elems ''/data/c.txt'' = path_elems ''/data'' @ ts"
    using dataset_paths_confined [OF ok e(3), of ?w "''/data/c.txt''"] by (auto simp: dataset_paths_def)
  moreover have "validateScenarioDatasetPaths
      (zero_scenario\<lparr>sc_workload := zero_workload\<lparr>wl_corpus_path := ''/data/../etc''\<rparr>\<rparr>) ''/data'' = Inl DatasetPath"
    using e by (simp add: validateScenarioDatasetPaths_def validateDatasetPaths_def dataset_paths_def)
  ultimately show ?thesis using ok e by simp
qed

section \<open>Facts about results\<close>

text \<open>The elements of a clean relative path other than \<open>.\<close>: plain elements after any number of parent references.\<close>

lemma path_clean_relative_cases:
  assumes "path_clean p = p" and "\<not> is_abs p" and "p \<noteq> ''.''"
  shows "path_elems p \<noteq> []" and "p = join_with [sep] (path_elems p)"
  using assms by (auto simp: path_clean_def split: if_splits)

text \<open>
  The directory of a run's results: when the specification's subdirectory has only plain elements the directory
  is the mount path followed by the subdirectory and the run's name. The check does not
  reject the subdirectory \<open>..\<close>, for which the directory lies outside the mount.
\<close>

theorem results_directory:
  assumes "validateResults x spec run = Inr p" and "plain_elem run"
    and "rs_subdir spec \<noteq> []" and "\<forall>e\<in>set (split_on sep (rs_subdir spec)). plain_elem e"
  shows "path_elems p = path_elems (rs_mount_path spec) @ split_on sep (rs_subdir spec) @ [run] \<and>
     validateResults demo_external \<lparr>rs_pvc = ''data'', rs_mount_path = ''/results'', rs_subdir = ''..''\<rparr> ''run'' = Inr ''/run''"
proof
  let ?m = "rs_mount_path spec" and ?s = "rs_subdir spec"
  have m: "has_prefix ?m ''/''" "path_clean ?m = ?m" and p: "p = path_join [?m, ?s, run]"
    using assms(1,3) by (auto simp: validateResults_def Let_def split: if_splits)
  have am: "is_abs ?m" using m(1) by (simp add: is_abs_def)
  define es where "es = path_elems ?m"
  have pe: "\<forall>e\<in>set es. plain_elem e" and me: "?m = abs_path es"
    using path_elems_abs_plain [OF am] path_clean_abs [OF am] m(2) by (simp_all add: es_def)
  have run: "run \<noteq> []" "sep \<notin> set run" using assms(2) by (auto simp: plain_elem_def)
  have ne: "?m \<noteq> []" by (simp add: me abs_path_def)
  have j: "p = path_clean (?m @ sep # ?s @ sep # run)"
    using p ne assms(3) run by (simp add: path_join_def)
  have sm: "split_on sep ?m = [] # (if es = [] then [[]] else es)" unfolding me by (rule split_abs_path [OF pe])
  have sp: "split_on sep (?m @ sep # ?s @ sep # run) = split_on sep ?m @ split_on sep ?s @ [run]"
    using run by (simp add: split_on_append_sep split_on_word)
  have ab: "is_abs (?m @ sep # ?s @ sep # run)" unfolding me by (simp add: abs_path_def is_abs_def has_prefix_def sep_def)
  have pl: "\<forall>e\<in>set (es @ split_on sep ?s @ [run]). plain_elem e" using pe assms(2,4) by auto
  have "path_elems (?m @ sep # ?s @ sep # run) = clean_elems True [] (es @ split_on sep ?s @ [run])"
    unfolding path_elems_def sp sm using ab by simp
  also have "\<dots> = es @ split_on sep ?s @ [run]" using clean_elems_plain_id [OF pl, of True "[]"] by simp
  finally show "path_elems p = path_elems ?m @ split_on sep ?s @ [run]"
    unfolding j es_def [symmetric] using path_elems_clean [OF ab] by simp
  show "validateResults demo_external \<lparr>rs_pvc = ''data'', rs_mount_path = ''/results'', rs_subdir = ''..''\<rparr> ''run'' = Inr ''/run''"
    by code_simp
qed

theorem results_directory_witness:
  "validateResults demo_external \<lparr>rs_pvc = ''data'', rs_mount_path = ''/results'', rs_subdir = ''a/b''\<rparr> ''run''
     = Inr ''/results/a/b/run'' \<and>
   path_elems ''/results/a/b/run'' = [''results'', ''a'', ''b'', ''run'']"
proof -
  let ?s = "\<lparr>rs_pvc = ''data'', rs_mount_path = ''/results'', rs_subdir = ''a/b''\<rparr>"
  have v: "validateResults demo_external ?s ''run'' = Inr ''/results/a/b/run''"
    and e: "path_elems ''/results'' = [''results'']" "split_on sep ''a/b'' = [''a'', ''b'']" by code_simp+
  have "path_elems ''/results/a/b/run'' = path_elems (rs_mount_path ?s) @ split_on sep (rs_subdir ?s) @ [''run'']"
    by (rule results_directory [OF v, THEN conjunct1]) (simp_all add: e plain_elem_def sep_def)
  with v e show ?thesis by simp
qed

section \<open>Facts about bounds\<close>

text \<open>What the bounds promise of a stage that sends requests.\<close>

definition stage_bounded :: "scenario_stage \<Rightarrow> bool" where
  "stage_bounded s \<longleftrightarrow> ss_target s = [] \<and> ss_model s = [] \<and>
     (ss_barrier s \<or>
      (0 < ss_duration s \<and> ss_duration s \<le> 24 * hour \<and> 0 \<le> ss_rampup s \<and> ss_rampup s \<le> 24 * hour \<and> load_in_bounds s \<and>
       (if rate_mode s then f64_lt (Fin 0) (ss_rate s) else 0 < ss_concurrency s)))"

lemma f64_le_between: "f64_between lo hi v \<Longrightarrow> f64_le v (Fin 0) \<longleftrightarrow> \<not> f64_lt (Fin 0) v"
  by (cases v) (auto simp: f64_between_def)

lemma bounds_step_ok:
  assumes "bounds_step i s acc = Inr acc'"
  shows "stage_bounded s \<and> acc' = (if ss_barrier s then acc else (fst acc + 1, snd acc + ss_duration s))"
proof (cases "ss_barrier s")
  case True
  with assms show ?thesis by (auto simp: bounds_step_def stage_bounded_def res_bind_Inr_iff split: if_splits)
next
  case False
  with assms have l: "load_in_bounds s" by (auto simp: bounds_step_def res_bind_Inr_iff split: if_splits)
  then have "f64_le (ss_rate s) (Fin 0) \<longleftrightarrow> \<not> f64_lt (Fin 0) (ss_rate s)"
    using f64_le_between by (auto simp: load_in_bounds_def)
  with assms False l show ?thesis
    by (auto simp: bounds_step_def stage_bounded_def res_bind_Inr_iff split: if_splits)
qed

lemma bounds_loop_ok:
  "bounds_loop i ss acc = Inr acc' \<Longrightarrow> (\<forall>s\<in>set ss. stage_bounded s) \<and>
     snd acc' = snd acc + sum_list (map ss_duration (filter (\<lambda>s. \<not> ss_barrier s) ss)) \<and>
     fst acc' = fst acc + int (length (filter (\<lambda>s. \<not> ss_barrier s) ss))"
proof (induction i ss acc rule: bounds_loop.induct)
  case (2 i s ss acc)
  then obtain a where a: "bounds_step i s acc = Inr a" "bounds_loop (Suc i) ss a = Inr acc'" by (auto simp: res_bind_Inr_iff)
  from bounds_step_ok [OF a(1)] "2.IH" [OF a(2)] show ?case by auto
qed simp

text \<open>
  Property C21. A scenario within the service's bounds has between 1 and 128 stages, at least one of them a work stage; it
  overrides neither target nor model; every work stage lasts at most a day, ramps up for at most a day, has at most 65536
  streams and a finite rate, and can make progress (a positive rate, or a positive concurrency); and the stages together
  last at most seven days.
\<close>

theorem accepted_scenario_bounded:
  assumes "validateScenarioBounds sc = Inr ()"
  shows "1 \<le> length (sc_stages sc) \<and> length (sc_stages sc) \<le> 128 \<and> sc_target sc = [] \<and> sc_model sc = [] \<and>
     (\<forall>s\<in>set (sc_stages sc). stage_bounded s) \<and> (\<exists>s\<in>set (sc_stages sc). \<not> ss_barrier s) \<and>
     scenario_duration sc \<le> 7 * 24 * hour"
proof -
  obtain ws tot where l: "bounds_loop 0 (sc_stages sc) (0, 0) = Inr (ws, tot)" and "ws \<noteq> 0" "tot \<le> 7 * 24 * hour"
      and g: "sc_stages sc \<noteq> []" "int (length (sc_stages sc)) \<le> MaxScenarioStages" "sc_target sc = []" "sc_model sc = []"
    using assms by (auto simp: validateScenarioBounds_def res_bind_Inr_iff split: if_splits prod.splits)
  moreover have "\<exists>s\<in>set (sc_stages sc). \<not> ss_barrier s"
    using bounds_loop_ok [OF l] \<open>ws \<noteq> 0\<close> by (auto simp: filter_empty_conv)
  ultimately show ?thesis
    using bounds_loop_ok [OF l] by (cases "sc_stages sc") (auto simp: scenario_duration_def MaxScenarioStages_def)
qed

theorem accepted_scenario_bounded_witness:
  "validateScenarioBounds (zero_scenario\<lparr>sc_workload := zero_workload\<lparr>wl_type := ''faker'', wl_turns := 1\<rparr>,
      sc_stages := [zero_stage\<lparr>ss_duration := hour, ss_concurrency := 8\<rparr>]\<rparr>) = Inr () \<and>
   scenario_duration (zero_scenario\<lparr>sc_workload := zero_workload\<lparr>wl_type := ''faker'', wl_turns := 1\<rparr>,
      sc_stages := [zero_stage\<lparr>ss_duration := hour, ss_concurrency := 8\<rparr>]\<rparr>) \<le> 7 * 24 * hour"
proof -
  let ?w = "zero_workload\<lparr>wl_type := ''faker'', wl_turns := 1\<rparr>"
  let ?s = "zero_stage\<lparr>ss_duration := hour, ss_concurrency := 8\<rparr>"
  let ?sc = "zero_scenario\<lparr>sc_workload := ?w, sc_stages := [?s]\<rparr>"
  have "validateWorkloadBounds ?w l = Inr ()" for l
    by (simp add: validateWorkloadBounds_def workload_type_ok_def opt_between_def f64_between_def cache_salt_ok_def
        has_nul_def zero_workload_def)
  moreover have "bounds_step 0 ?s (0, 0) = Inr (1, hour)"
    by (simp add: bounds_step_def load_in_bounds_def f64_between_def rate_mode_def has_nul_def zero_stage_def second_def)
  ultimately have v: "validateScenarioBounds ?sc = Inr ()"
    by (simp add: validateScenarioBounds_def MaxScenarioStages_def second_def) (simp add: zero_scenario_def)
  with accepted_scenario_bounded [OF v] show ?thesis by blast
qed

section \<open>Runtime limits and authentication\<close>

text \<open>
  The deadline given to a job lies between one second and the operator's maximum, and so does its retention; a
  requested deadline of up to 292 years is used exactly. A larger request is not always rejected: the
  multiplication wraps, and a request of 18446744075 seconds is accepted as one second.
\<close>

theorem runtime_limits_in_range:
  assumes "resolveRuntimeLimits opts req = Inr (active, ttl)"
  shows "1 \<le> active \<and> active * second \<le> MaxActiveDeadline opts \<and> 1 \<le> ttl \<and> ttl * second \<le> MaxRetentionTTL opts \<and>
     (0 < run_active_deadline req \<and> run_active_deadline req \<le> 9223372036 \<longrightarrow> active = run_active_deadline req) \<and>
     (run_active_deadline req = 18446744075 \<longrightarrow> active = 1)"
proof -
  define a where "a = wrap64 (run_active_deadline req * second)"
  define act where "act = (if a = 0 then DefaultActiveDeadline opts else a)"
  have r: "second \<le> act" "act \<le> MaxActiveDeadline opts" "second \<le> DefaultRetentionTTL opts"
      "DefaultRetentionTTL opts \<le> MaxRetentionTTL opts" "active = tdiv act second" "ttl = tdiv (DefaultRetentionTTL opts) second"
    using assms by (auto simp: resolveRuntimeLimits_def Let_def a_def act_def split: if_splits)
  have d: "tdiv v second = v div second \<and> 1 \<le> v div second \<and> v div second * second \<le> v" if "second \<le> v" for v
  proof -
    have "tdiv v second = v div second" using that by (intro tdiv_nonneg) (auto simp: second_def)
    moreover have "1 \<le> v div second" using that by (simp add: second_def)
    moreover have "v div second * second \<le> v" by (simp add: second_def)
    ultimately show ?thesis by blast
  qed
  have exact: "active = run_active_deadline req" if "0 < run_active_deadline req" "run_active_deadline req \<le> 9223372036"
  proof -
    have "in64 (run_active_deadline req * second)" using that by (simp add: in64_def second_def)
    then have "a = run_active_deadline req * second" by (simp add: a_def)
    then have "act = run_active_deadline req * second" using that by (simp add: act_def second_def)
    with r(5) show ?thesis by (simp add: second_def)
  qed
  have "active = 1" if "run_active_deadline req = 18446744075"
  proof -
    have "a = 1290448384" using that by (simp add: a_def wrap64_def second_def)
    then have "act = 1290448384" by (simp add: act_def)
    with r(5) show ?thesis by (simp add: tdiv_def second_def)
  qed
  with exact d [OF r(1)] d [OF r(3)] r show ?thesis by simp
qed

definition empty_run :: runSpec where
  "empty_run = \<lparr>run_name = [], run_command = [], run_workers = 0, run_arch = [], run_cpu = [], run_memory = [],
     run_active_deadline = 0, run_mounts = [], run_results = None\<rparr>"

theorem runtime_limits_in_range_witness:
  "\<exists>active ttl. resolveRuntimeLimits DefaultOptions (empty_run\<lparr>run_active_deadline := 18446744075\<rparr>) = Inr (active, ttl) \<and> active = 1"
proof -
  let ?r = "empty_run\<lparr>run_active_deadline := 18446744075\<rparr>"
  have "resolveRuntimeLimits DefaultOptions ?r = Inr (1, 86400)" by code_simp
  with runtime_limits_in_range [OF this] show ?thesis by simp
qed

text \<open>
  Every request other than the two health probes passes authentication exactly when a token is configured and the
  \<open>Authorization\<close> header is the word \<open>Bearer\<close>, a space and that token.
\<close>

theorem authentication_exact:
  assumes "url_path \<noteq> ''/healthz''" and "url_path \<noteq> ''/readyz''"
  shows "authenticate opts url_path header = Pass \<longleftrightarrow> Token opts \<noteq> [] \<and> header = ''Bearer '' @ Token opts"
proof -
  define b where "b = ''Bearer ''"
  have b: "b \<noteq> []" by (simp add: b_def)
  have auth: "authenticate opts url_path header =
      (if Token opts = [] then AuthNotConfigured
       else if trim_prefix header b = header \<or> trim_prefix header b \<noteq> Token opts then Unauthorized else Pass)"
    using assms unfolding authenticate_def b_def by (simp add: Let_def)
  have app: "trim_prefix (b @ t) b = t" for t by (simp add: trim_prefix_def has_prefix_def)
  have "trim_prefix header b = header \<or> (\<exists>t. header = b @ t)"
    by (auto simp: trim_prefix_def has_prefix_iff prefix_def)
  with b app show ?thesis unfolding auth b_def [symmetric] by auto
qed

theorem authentication_exact_witness:
  "authenticate demo_options ''/mcp'' ''Bearer t'' = Pass \<and> authenticate demo_options ''/mcp'' ''t'' = Unauthorized"
proof
  show "authenticate demo_options ''/mcp'' ''Bearer t'' = Pass"
    by (subst authentication_exact) (simp_all add: demo_options_def)
  show "authenticate demo_options ''/mcp'' ''t'' = Unauthorized" by code_simp
qed

section \<open>The manifest of a run\<close>

lemma prepareRun_config:
  assumes "prepareRun x opts ns fresh req = Inr (name, c, cmd, meta)"
  shows "kc_image c = RunnerImage opts" and "validRunnerImage (RunnerImage opts)" and "kc_network_tuning c = Some False"
    and "kc_restricted c" and "1 \<le> kc_workers c" and "kc_workers c \<le> MaxWorkers opts" and "kc_name c = name"
  using assms by (auto simp: prepareRun_def Let_def res_bind_Inr_iff split: if_splits)

lemma runner_image_unchanged: "validRunnerImage i \<Longrightarrow> ResolveImage (overlay i ''latest'') = i"
  by (auto simp: validRunnerImage_def image_prefix_def has_prefix_iff prefix_def ResolveImage_def overlay_def contains_char)


definition demo_run :: runSpec where
  "demo_run = \<lparr>run_name = ''bench'', run_command = [''generate'', ''--target=http://vllm.bench.svc''], run_workers = 4, run_arch = [],
     run_cpu = [], run_memory = [], run_active_deadline = 0, run_mounts = [], run_results = None\<rparr>"

definition demo_config :: KubeConfig where
  "demo_config = \<lparr>kc_name = ''bench'', kc_context = [], kc_namespace = ''ns'', kc_platform = ''kubernetes'', kc_image = RunnerImage demo_options,
     kc_arch = ''amd64'', kc_workers = 4, kc_volume = [], kc_volumes = [], kc_cpu = [], kc_memory = [], kc_network_tuning = Some False,
     kc_restricted = True\<rparr>"

definition demo_args :: "string list" where
  "demo_args = [''generate'', ''--target=http://vllm.bench.svc'', ''--metrics'', '':9090'', ''--workers'', ''4'']"

lemma demo_image: "validRunnerImage (RunnerImage demo_options)" "one_line (RunnerImage demo_options)"
  by (simp_all add: demo_options_def DefaultOptions_def validRunnerImage_def image_prefix_def has_prefix_def trim_prefix_def one_line_def
      is_hex_def char_code_def is_digit_def to_lower_def lower_char_def is_upper_def list_all_iff)

lemma demo_prepared: "prepareRun demo_external demo_options ''ns'' ''x'' demo_run = Inr (''bench'', demo_config, demo_args, no_results)"
proof -
  have lims: "MaxWorkers demo_options = 16" "MaxCPU demo_options = 16" "MaxMemory demo_options = 68719476736"
    by (simp_all add: demo_options_def DefaultOptions_def)
  have four: "itoa 4 = ''4''" by code_simp
  have x: "x_dns_subdomain demo_external n" "x_parse_quantity demo_external v = Some 1" for n v by (simp_all add: demo_external_def)
  show ?thesis
    using demo_image(1) unfolding prepareRun_def Let_def demo_run_def
    by (simp add: demo_command x lims four quantity_ok_def exceeds_def validateMounts_def prepare_results_def demo_config_def demo_args_def)
qed


end
