(* ===== verification/Statsutil.thy ===== *)
theory Statsutil
  imports Go_Float "HOL-Library.Multiset"
begin

text \<open>
  Package \<open>statsutil\<close>: percentiles by linear interpolation, shared by the analysis of request records and by the
  Prometheus client. Multiplications and additions round separately, as on amd64.
\<close>

text \<open>\<open>None\<close> is the panic of an index out of range.\<close>

definition Percentile :: "rat list \<Rightarrow> rat \<Rightarrow> rat option" where
  "Percentile xs p =
     (if xs = [] then Some 0
      else let idx = fmul p (f64_of_int (int (length xs) - 1)); lo = \<lfloor>idx\<rfloor>; hi = \<lceil>idx\<rceil>
           in if lo = hi \<or> int (length xs) \<le> hi then go_index xs lo
              else let frac = fsub idx (f64_of_int lo)
                   in case (go_index xs lo, go_index xs hi) of
                        (Some a, Some b) \<Rightarrow> Some (fadd (fmul a (fsub 1 frac)) (fmul b frac))
                      | _ \<Rightarrow> None)"

text \<open>\<open>sort.Float64s\<close> on a fresh copy, then the ends of the sorted slice.\<close>

definition sort_floats :: "rat list \<Rightarrow> rat list" where
  "sort_floats vs = sort vs"

lemma sort_floats_mset: "mset xs = mset ys \<Longrightarrow> sort_floats xs = sort_floats ys"
  unfolding sort_floats_def by (metis properties_for_sort mset_sort sorted_sort)

lemma length_sort_floats [simp]: "length (sort_floats xs) = length xs"
  by (simp add: sort_floats_def)

lemma sort_floats_Nil [simp]: "sort_floats xs = [] \<longleftrightarrow> xs = []"
  by (metis length_0_conv length_sort_floats)

lemma set_sort_floats [simp]: "set (sort_floats xs) = set xs"
  by (simp add: sort_floats_def)

section \<open>Percentiles\<close>

text \<open>The index of a percentile between 0 and 1 stays within the slice.\<close>

lemma percentile_index_bounds:
  assumes "0 \<le> p" and "p \<le> 1" and "xs \<noteq> []" and "length xs \<le> 2 ^ 53"
  defines "idx \<equiv> fmul p (f64_of_int (int (length xs) - 1))"
  shows "0 \<le> \<lfloor>idx\<rfloor>" and "\<lceil>idx\<rceil> \<le> int (length xs) - 1"
proof -
  define n where "n = int (length xs) - 1"
  have "int (length xs) \<le> 2 ^ 53" using assms(4) by (metis of_nat_le_iff of_nat_numeral of_nat_power)
  then have n: "0 \<le> n" "\<bar>n\<bar> \<le> 2 ^ 53" using assms(3) by (auto simp: n_def Suc_le_eq)
  then have idx: "idx = f64_round (p * of_int n)" by (simp add: idx_def fmul_def n_def [symmetric])
  have "0 \<le> p * of_int n" using assms(1) n by simp
  then have "0 \<le> idx" unfolding idx by (rule f64.rnd_nonneg)
  then show "0 \<le> \<lfloor>idx\<rfloor>" by simp
  have "p * of_int n \<le> 1 * of_int n" using assms(2) n(1) by (intro mult_right_mono) auto
  then have "\<lceil>f64_round (p * of_int n)\<rceil> \<le> n" using n by (intro f64.ceiling_rnd_le) auto
  then show "\<lceil>idx\<rceil> \<le> int (length xs) - 1" by (simp add: idx n_def)
qed

lemma percentile_in_range:
  assumes "0 \<le> p" and "p \<le> 1" and "length xs \<le> 2 ^ 53"
  shows "\<exists>v. Percentile xs p = Some v"
proof (cases "xs = []")
  case False
  note b = percentile_index_bounds [OF assms(1,2) False assms(3)]
  have "\<lfloor>fmul p (f64_of_int (int (length xs) - 1))\<rfloor> \<le> \<lceil>fmul p (f64_of_int (int (length xs) - 1))\<rceil>"
    by (rule floor_le_ceiling)
  with b(2) have "\<lfloor>fmul p (f64_of_int (int (length xs) - 1))\<rfloor> < int (length xs)" by linarith
  then have "go_index xs \<lfloor>fmul p (f64_of_int (int (length xs) - 1))\<rfloor> =
      Some (xs ! nat \<lfloor>fmul p (f64_of_int (int (length xs) - 1))\<rfloor>)" using b(1) by (intro go_index_Some)
  with b False show ?thesis by (simp add: Percentile_def Let_def)
qed (simp add: Percentile_def)

lemma percentile_at_int:
  assumes "p * of_int (int (length xs) - 1) = of_int k" and "0 \<le> k" and "k < int (length xs)" and "length xs \<le> 2 ^ 53"
  shows "Percentile xs p = Some (xs ! nat k)"
proof -
  have l: "int (length xs) \<le> 2 ^ 53" using assms(4) by (metis of_nat_le_iff of_nat_numeral of_nat_power)
  then have "\<bar>int (length xs) - 1\<bar> \<le> 2 ^ 53" using assms(2,3) by linarith
  moreover have "\<bar>k\<bar> \<le> 2 ^ 53" using l assms(2,3) by linarith
  ultimately have "fmul p (f64_of_int (int (length xs) - 1)) = of_int k"
    unfolding fmul_def by (simp only: f64_of_int_exact assms(1) f64_round_exact)
  moreover have "xs \<noteq> []" using assms(2,3) by auto
  ultimately show ?thesis using assms by (simp add: Percentile_def Let_def)
qed

text \<open>
  A percentile of up to \<open>2 ^ 53\<close> values never indexes outside the slice: for every rank between 0 and 1
  it returns a value. Rank 0 is the first value, rank 1 the last, and the median of an odd number of values is the middle
  one, without rounding error.
\<close>

theorem percentile_index_safe:
  assumes "xs \<noteq> []" and "length xs \<le> 2 ^ 53"
  shows "(\<forall>p. 0 \<le> p \<and> p \<le> 1 \<longrightarrow> Percentile xs p \<noteq> None) \<and>
     Percentile xs 0 = Some (hd xs) \<and> Percentile xs 1 = Some (last xs) \<and>
     (\<forall>m. length xs = 2 * m + 1 \<longrightarrow> Percentile xs (1 / 2) = Some (xs ! m))"
proof -
  have "Percentile xs 0 = Some (hd xs)"
    using percentile_at_int [of 0 xs 0] assms by (simp add: hd_conv_nth)
  moreover have "Percentile xs 1 = Some (last xs)"
    using percentile_at_int [of 1 xs "int (length xs) - 1"] assms
    by (simp add: last_conv_nth nat_diff_distrib Suc_le_eq)
  moreover have "Percentile xs (1 / 2) = Some (xs ! m)" if "length xs = 2 * m + 1" for m
    using percentile_at_int [of "1 / 2" xs "int m"] assms that by simp
  ultimately show ?thesis using percentile_in_range [of _ xs] assms(2) by fastforce
qed

theorem percentile_index_safe_witness:
  "Percentile [10, 20, 40] (1 / 2) = Some 20 \<and> Percentile [10, 20, 40] 1 = Some 40 \<and>
   Percentile [10, 20] (1 / 2) = Some 15"
proof -
  note p = percentile_index_safe [of "[10, 20, 40]", simplified]
  have "Percentile [10, 20, 40] (1 / 2) = Some ([10, 20, 40] ! 1)"
    by (rule percentile_index_safe [THEN conjunct2, THEN conjunct2, THEN conjunct2, rule_format]) simp_all
  moreover have "Percentile [10, 20, 40] 1 = Some 40" using p by simp
  moreover have "Percentile [10, 20] (1 / 2) = Some 15" by code_simp
  ultimately show ?thesis by simp
qed

end
