(* ===== verification/Prometheus.thy ===== *)
theory Prometheus
  imports Statsutil Recorder Go_Strings
begin

text \<open>
  Package \<open>prometheus\<close>: the client that asks a Prometheus server for the metrics of a stage. The server is the
  argument \<open>prom_get\<close>: the reply to a range query with its start, end and step in seconds. \<open>prom_parse\<close> is \<open>strconv.ParseFloat\<close> on
  the text of a sample. Queries the code runs in parallel do not share state; the model runs them in the order they are started.
\<close>

section \<open>Data\<close>

datatype raw_json = RawNull | RawNumber rat | RawString string | RawOther

text \<open>The body of a reply: the \<open>values\<close> of each series, each a list of raw pairs.\<close>

datatype prom_reply = GetFailed | ReadFailed | BadJSON | Series "raw_json list list list"

datatype prom_error = RangeQueryError | ReadingResponse | ParsingResponse

record prom_client =
  prom_get :: "string \<Rightarrow> int \<Rightarrow> int \<Rightarrow> rat \<Rightarrow> prom_reply"
  prom_parse :: "string \<Rightarrow> f64 option"

record DataPoint =
  dp_timestamp :: rat
  dp_value :: rat

record prom_latency =
  pl_p10 :: rat
  pl_p50 :: rat
  pl_p95 :: rat
  pl_p99 :: rat

record GaugeStats =
  gs_min :: rat
  gs_p50 :: rat
  gs_max :: rat

definition zero_latency :: prom_latency where
  "zero_latency = \<lparr>pl_p10 = 0, pl_p50 = 0, pl_p95 = 0, pl_p99 = 0\<rparr>"

definition zero_gauge :: GaugeStats where
  "zero_gauge = \<lparr>gs_min = 0, gs_p50 = 0, gs_max = 0\<rparr>"

section \<open>Queries\<close>

definition unix_seconds :: "time \<Rightarrow> int" where
  "unix_seconds t = t div second"

text \<open>Decoding into a \<open>float64\<close> or a \<open>string\<close>; \<open>null\<close> leaves the zero value.\<close>

definition raw_float :: "raw_json \<Rightarrow> rat option" where
  "raw_float v = (case v of RawNull \<Rightarrow> Some 0 | RawNumber x \<Rightarrow> Some x | _ \<Rightarrow> None)"

definition raw_string :: "raw_json \<Rightarrow> string option" where
  "raw_string v = (case v of RawNull \<Rightarrow> Some [] | RawString s \<Rightarrow> Some s | _ \<Rightarrow> None)"

text \<open>The body of the loop over the samples of the first series: \<open>None\<close> is \<open>continue\<close>.\<close>

definition sample_point :: "(string \<Rightarrow> f64 option) \<Rightarrow> raw_json list \<Rightarrow> DataPoint option" where
  "sample_point parse_float pair =
     (case pair of
        t # v # _ \<Rightarrow>
          (case (raw_float t, raw_string v) of
             (Some ts, Some valStr) \<Rightarrow>
               (case parse_float valStr of
                  Some (Fin val) \<Rightarrow> Some \<lparr>dp_timestamp = ts, dp_value = val\<rparr>
                | _ \<Rightarrow> None)
           | _ \<Rightarrow> None)
      | _ \<Rightarrow> None)"

definition QueryRange ::
    "prom_client \<Rightarrow> string \<Rightarrow> time \<Rightarrow> time \<Rightarrow> duration \<Rightarrow> (prom_error, DataPoint list) result" where
  "QueryRange c query start end_time step =
     (case prom_get c query (unix_seconds start) (unix_seconds end_time) (Seconds step) of
        GetFailed \<Rightarrow> Inl RangeQueryError
      | ReadFailed \<Rightarrow> Inl ReadingResponse
      | BadJSON \<Rightarrow> Inl ParsingResponse
      | Series [] \<Rightarrow> Inr []
      | Series (values # _) \<Rightarrow> Inr (List.map_filter (sample_point (prom_parse c)) values))"

definition window_seconds :: "time \<Rightarrow> time \<Rightarrow> int" where
  "window_seconds start end_time = int_of_f64 (Seconds (end_time - start))"

definition quantile_query :: "string \<Rightarrow> string \<Rightarrow> string \<Rightarrow> int \<Rightarrow> string" where
  "quantile_query quantile bucket labels window =
     ''histogram_quantile('' @ quantile @ '', sum(increase('' @ bucket @ ''{'' @ labels @ ''}['' @
     itoa window @ ''s])) by (le))''"

text \<open>One of the four goroutines of \<open>HistogramQuantile\<close>.\<close>

definition quantile_value :: "prom_client \<Rightarrow> string \<Rightarrow> time \<Rightarrow> (prom_error, rat) result" where
  "quantile_value c query end_time =
     res_bind (QueryRange c query end_time end_time second)
       (\<lambda>points. Inr (case points of [] \<Rightarrow> 0 | p # _ \<Rightarrow> dp_value p))"

definition HistogramQuantile ::
    "prom_client \<Rightarrow> string \<Rightarrow> string \<Rightarrow> string \<Rightarrow> time \<Rightarrow> time \<Rightarrow> (prom_error, prom_latency) result" where
  "HistogramQuantile c bucket podFilter jobFilter start end_time =
     (let window = window_seconds start end_time;
          labels = ''pod=~\"'' @ podFilter @ ''\", job=\"'' @ jobFilter @ ''\"'';
          ask = (\<lambda>q. quantile_value c (quantile_query q bucket labels window) end_time)
      in if window < 1 then Inr zero_latency
         else res_bind (ask ''0.1'') (\<lambda>v10. res_bind (ask ''0.5'') (\<lambda>v50.
              res_bind (ask ''0.95'') (\<lambda>v95. res_bind (ask ''0.99'') (\<lambda>v99.
                Inr \<lparr>pl_p10 = v10, pl_p50 = v50, pl_p95 = v95, pl_p99 = v99\<rparr>)))))"

text \<open>The result is \<open>None\<close> when the percentile would panic.\<close>

definition gauge_stats :: "rat list \<Rightarrow> GaugeStats option" where
  "gauge_stats values =
     (if values = [] then Some zero_gauge
      else let vals = sort_floats values
           in case Percentile vals (1 / 2) of
                None \<Rightarrow> None
              | Some p50 \<Rightarrow> Some \<lparr>gs_min = hd vals, gs_p50 = p50, gs_max = last vals\<rparr>)"

definition QueryGaugeStats ::
    "prom_client \<Rightarrow> string \<Rightarrow> time \<Rightarrow> time \<Rightarrow> (prom_error, GaugeStats option) result" where
  "QueryGaugeStats c query start end_time =
     res_bind (QueryRange c query start end_time (5 * second)) (\<lambda>points. Inr (gauge_stats (map dp_value points)))"

section \<open>Facts\<close>

lemma gauge_stats_some:
  assumes "length vs \<le> 2 ^ 53"
  obtains g where "gauge_stats vs = Some g"
proof (cases "vs = []")
  case False
  with assms percentile_in_range [of "1 / 2" "sort_floats vs"] that show ?thesis
    by (auto simp: gauge_stats_def Let_def)
qed (use that in \<open>simp add: gauge_stats_def\<close>)

lemma hd_sort_floats_le:
  assumes "x \<in> set vs"
  shows "hd (sort_floats vs) \<le> x \<and> x \<le> last (sort_floats vs)"
proof -
  have s: "sorted (sort_floats vs)" by (simp add: sort_floats_def)
  have x: "x \<in> set (sort_floats vs)" and ne: "sort_floats vs \<noteq> []" using assms by auto
  from x obtain i where i: "i < length vs" "sort_floats vs ! i = x" by (metis in_set_conv_nth length_sort_floats)
  have "sort_floats vs ! 0 \<le> sort_floats vs ! i" "sort_floats vs ! i \<le> sort_floats vs ! (length vs - 1)"
    using s i(1) by (intro sorted_nth_mono; simp)+
  with ne i(2) show ?thesis by (simp add: hd_conv_nth last_conv_nth)
qed

end
