(* ===== verification/Analysis.thy ===== *)
theory Analysis
  imports Prometheus Config
begin

text \<open>
  Package \<open>analysis\<close>: summaries of request records (\<open>stats.go\<close>), per-stage summaries and the server metrics of a stage
  (\<open>stage.go\<close>), and the congestion check that ends a sweep early (\<open>congestion.go\<close>).

  Reading the files is the argument of \<open>LoadRecords\<close> and \<open>LoadTimestamps\<close>; the tables printed for people are in
  theory \<open>Summary_Text\<close>. The Go map of turns per conversation is an association list: Go iterates over it in an unspecified order, and \<open>compute_order_independent\<close> shows that the
  order does not matter.
\<close>

section \<open>Data\<close>

record LatencyStats =
  ls_mean :: rat
  ls_p10 :: rat
  ls_p50 :: rat
  ls_p90 :: rat
  ls_p95 :: rat
  ls_p99 :: rat
  ls_min :: rat
  ls_max :: rat

record ServerMetrics =
  sm_aggregate :: bool
  sm_ttft :: prom_latency
  sm_itl :: prom_latency
  sm_output_p50 :: rat
  sm_output_max :: rat
  sm_prefill_kv_min :: rat
  sm_prefill_kv_max :: rat
  sm_decode_kv_min :: rat
  sm_decode_kv_max :: rat

record StageSummary =
  sg_concurrency :: int
  sg_total :: int
  sg_success :: int
  sg_errors :: int
  sg_duration :: rat
  sg_output_tokens :: int
  sg_tokens_per_s :: rat
  sg_ttft :: LatencyStats
  sg_itl :: LatencyStats
  sg_e2e :: LatencyStats
  sg_server :: "ServerMetrics option"

record Summary =
  TotalRequests :: int
  SuccessRequests :: int
  ErrorRequests :: int
  TotalDurationS :: rat
  RequestsPerSec :: rat
  TotalOutputTokens :: int
  TotalPromptTokens :: int
  OutputTokensPerS :: rat
  TTFTMs :: LatencyStats
  ITLMs :: LatencyStats
  E2EMs :: LatencyStats
  Conversations :: int
  TurnsPerConv :: LatencyStats
  EvalTotal :: int
  EvalCorrectCount :: int
  EvalIncorrect :: int
  EvalAccuracy :: rat
  sum_timestamps :: "Timestamps option"
  sum_stages :: "StageSummary list"

definition zero_stats :: LatencyStats where
  "zero_stats = \<lparr>ls_mean = 0, ls_p10 = 0, ls_p50 = 0, ls_p90 = 0, ls_p95 = 0, ls_p99 = 0, ls_min = 0, ls_max = 0\<rparr>"

definition zero_summary :: Summary where
  "zero_summary = \<lparr>TotalRequests = 0, SuccessRequests = 0, ErrorRequests = 0, TotalDurationS = 0, RequestsPerSec = 0,
     TotalOutputTokens = 0, TotalPromptTokens = 0, OutputTokensPerS = 0, TTFTMs = zero_stats, ITLMs = zero_stats,
     E2EMs = zero_stats, Conversations = 0, TurnsPerConv = zero_stats, EvalTotal = 0, EvalCorrectCount = 0,
     EvalIncorrect = 0, EvalAccuracy = 0, sum_timestamps = None, sum_stages = []\<rparr>"

section \<open>Loading results\<close>

datatype load_error = NoRequestFiles | LoadingFile string | NoTimestampFiles | TimestampFile string

fun load_all :: "(string \<Rightarrow> Record list option) \<Rightarrow> string list \<Rightarrow> (load_error, Record list) result" where
  "load_all loadJSONL [] = Inr []"
| "load_all loadJSONL (path # paths) =
     (case loadJSONL path of
        None \<Rightarrow> Inl (LoadingFile path)
      | Some recs \<Rightarrow> res_bind (load_all loadJSONL paths) (\<lambda>rest. Inr (recs @ rest)))"

text \<open>\<open>matches\<close> are the paths of the glob pattern. \<open>sort.Slice\<close> leaves the order of records with the same start open.\<close>

definition LoadRecords :: "(string \<Rightarrow> Record list option) \<Rightarrow> string list \<Rightarrow> (load_error, Record list) result" where
  "LoadRecords loadJSONL matches =
     (if matches = [] then Inl NoRequestFiles
      else res_bind (load_all loadJSONL matches) (\<lambda>recs. Inr (sort_key rec_StartTime recs)))"

fun merge_windows :: "(string \<Rightarrow> Timestamps option) \<Rightarrow> string list \<Rightarrow> rat \<times> rat \<Rightarrow> (load_error, rat \<times> rat) result" where
  "merge_windows read_ts [] w = Inr w"
| "merge_windows read_ts (path # paths) (startTime, endTime) =
     (case read_ts path of
        None \<Rightarrow> Inl (TimestampFile path)
      | Some ts \<Rightarrow> merge_windows read_ts paths
          (if startTime < ts_rampup_end ts then ts_rampup_end ts else startTime,
           if ts_end ts < endTime then ts_end ts else endTime))"

definition LoadTimestamps :: "(string \<Rightarrow> Timestamps option) \<Rightarrow> string list \<Rightarrow> (load_error, rat \<times> rat) result" where
  "LoadTimestamps read_ts matches =
     (case matches of
        [] \<Rightarrow> Inl NoTimestampFiles
      | path # paths \<Rightarrow>
          (case read_ts path of
             None \<Rightarrow> Inl (TimestampFile path)
           | Some ts \<Rightarrow> merge_windows read_ts paths (ts_rampup_end ts, ts_end ts)))"

section \<open>Latency statistics\<close>

definition computeLatencyStats :: "rat list \<Rightarrow> LatencyStats option" where
  "computeLatencyStats values =
     (if values = [] then Some zero_stats
      else let xs = sort_floats values; pct = (\<lambda>p. Percentile xs (f64_round p))
           in case (pct (10 / 100), pct (50 / 100), pct (90 / 100), pct (95 / 100), pct (99 / 100)) of
                (Some p10, Some p50, Some p90, Some p95, Some p99) \<Rightarrow>
                  Some \<lparr>ls_mean = fdiv (fold (\<lambda>v acc. fadd acc v) xs 0) (f64_of_int (int (length xs))),
                        ls_p10 = p10, ls_p50 = p50, ls_p90 = p90, ls_p95 = p95, ls_p99 = p99,
                        ls_min = hd xs, ls_max = last xs\<rparr>
              | _ \<Rightarrow> None)"

section \<open>Summary of all records\<close>

text \<open>The variables of the loop of \<open>Compute\<close>.\<close>

record compute_acc =
  a_total :: int
  a_ok :: int
  a_err :: int
  a_out :: int
  a_prompt :: int
  a_ttfts :: "rat list"
  a_e2es :: "rat list"
  a_itls :: "rat list"
  a_min :: rat
  a_max :: rat
  a_convs :: "(string \<times> int) list"

fun incr_conv :: "string \<Rightarrow> (string \<times> int) list \<Rightarrow> (string \<times> int) list" where
  "incr_conv k [] = [(k, 1)]"
| "incr_conv k ((k', n) # rest) = (if k = k' then (k', n + 1) # rest else (k', n) # incr_conv k rest)"

definition compute_step :: "Record \<Rightarrow> compute_acc \<Rightarrow> compute_acc" where
  "compute_step r a =
     (let a1 = a\<lparr>a_total := a_total a + 1\<rparr>;
          a2 = (if Status r = ''ok''
                then a1\<lparr>a_ok := a_ok a1 + 1, a_ttfts := a_ttfts a1 @ [rec_TTFT r], a_e2es := a_e2es a1 @ [TotalLatencyMs r],
                        a_itls := a_itls a1 @ rec_ITLs r, a_out := wrap64 (a_out a1 + rec_OutputTokens r),
                        a_prompt := wrap64 (a_prompt a1 + PromptTokens r)\<rparr>
                else a1\<lparr>a_err := a_err a1 + 1\<rparr>)
      in a2\<lparr>a_min := (if rec_StartTime r < a_min a2 then rec_StartTime r else a_min a2),
            a_max := (if a_max a2 < rec_EndTime r then rec_EndTime r else a_max a2),
            a_convs := incr_conv (ConversationID r) (a_convs a2)\<rparr>)"

definition compute_init :: "Record \<Rightarrow> compute_acc" where
  "compute_init r = \<lparr>a_total = 0, a_ok = 0, a_err = 0, a_out = 0, a_prompt = 0, a_ttfts = [], a_e2es = [], a_itls = [],
     a_min = rec_StartTime r, a_max = rec_EndTime r, a_convs = []\<rparr>"

definition in_window :: "rat \<Rightarrow> rat \<Rightarrow> Record \<Rightarrow> bool" where
  "in_window startTime endTime r \<longleftrightarrow> startTime \<le> rec_StartTime r \<and> rec_EndTime r \<le> endTime"

definition per_second :: "int \<Rightarrow> rat \<Rightarrow> rat" where
  "per_second n dur = (if 0 < dur then fdiv (f64_of_int n) dur else 0)"

fun eval_counts :: "Record list \<Rightarrow> int \<times> int \<times> int \<Rightarrow> int \<times> int \<times> int" where
  "eval_counts [] c = c"
| "eval_counts (r # rs) (n, yes, no) =
     eval_counts rs (case EvalCorrect r of
         None \<Rightarrow> (n, yes, no)
       | Some correct \<Rightarrow> if correct then (n + 1, yes + 1, no) else (n + 1, yes, no + 1))"

definition summarize :: "compute_acc \<Rightarrow> int \<times> int \<times> int \<Rightarrow> Summary option" where
  "summarize a ev =
     (let dur = fsub (a_max a) (a_min a); (n, yes, no) = ev
      in case (computeLatencyStats (a_ttfts a), computeLatencyStats (a_itls a), computeLatencyStats (a_e2es a),
               computeLatencyStats (map (\<lambda>(_, c). f64_of_int c) (a_convs a))) of
           (Some ttft, Some itl, Some e2e, Some turns) \<Rightarrow>
             Some (zero_summary\<lparr>TotalRequests := a_total a, SuccessRequests := a_ok a, ErrorRequests := a_err a,
               TotalDurationS := dur, RequestsPerSec := per_second (a_ok a) dur,
               TotalOutputTokens := a_out a, TotalPromptTokens := a_prompt a, OutputTokensPerS := per_second (a_out a) dur,
               TTFTMs := ttft, ITLMs := itl, E2EMs := e2e,
               Conversations := int (length (a_convs a)), TurnsPerConv := turns,
               EvalTotal := n, EvalCorrectCount := yes, EvalIncorrect := no,
               EvalAccuracy := (if 0 < n then fdiv (f64_of_int yes) (f64_of_int n) else 0)\<rparr>)
         | _ \<Rightarrow> None)"

definition measured :: "rat \<Rightarrow> rat \<Rightarrow> Record list \<Rightarrow> Record list" where
  "measured startTime endTime recs =
     (if 0 < startTime \<and> 0 < endTime then filter (in_window startTime endTime) recs else recs)"

definition Compute :: "Record list \<Rightarrow> rat \<Rightarrow> rat \<Rightarrow> Summary option" where
  "Compute recs startTime endTime =
     (case measured startTime endTime recs of
        [] \<Rightarrow> Some zero_summary
      | r # rs \<Rightarrow> summarize (fold compute_step (r # rs) (compute_init r)) (eval_counts (r # rs) (0, 0, 0)))"

section \<open>Summary of the stages\<close>

text \<open>The inner loop of \<open>ComputePerStage\<close> over the records of one stage.\<close>

definition stage_step :: "StageTimestamp \<Rightarrow> Record \<Rightarrow> compute_acc \<Rightarrow> compute_acc" where
  "stage_step stage r a =
     (if rec_StartTime r < st_start stage \<or> st_end stage < rec_EndTime r then a
      else let a1 = (if Status r = ''ok''
                then a\<lparr>a_ok := a_ok a + 1, a_ttfts := a_ttfts a @ [rec_TTFT r], a_e2es := a_e2es a @ [TotalLatencyMs r],
                        a_itls := a_itls a @ rec_ITLs r, a_out := wrap64 (a_out a + rec_OutputTokens r)\<rparr>
                else a\<lparr>a_err := a_err a + 1\<rparr>)
           in a1\<lparr>a_min := (if rec_StartTime r < a_min a1 then rec_StartTime r else a_min a1),
                 a_max := (if a_max a1 < rec_EndTime r then rec_EndTime r else a_max a1)\<rparr>)"

definition stage_init :: "StageTimestamp \<Rightarrow> compute_acc" where
  "stage_init stage = \<lparr>a_total = 0, a_ok = 0, a_err = 0, a_out = 0, a_prompt = 0, a_ttfts = [], a_e2es = [], a_itls = [],
     a_min = st_end stage, a_max = st_start stage, a_convs = []\<rparr>"

definition stage_summary :: "StageTimestamp \<Rightarrow> compute_acc \<Rightarrow> StageSummary option" where
  "stage_summary stage a =
     (let dur = fsub (a_max a) (a_min a)
      in case (computeLatencyStats (a_ttfts a), computeLatencyStats (a_itls a), computeLatencyStats (a_e2es a)) of
           (Some ttft, Some itl, Some e2e) \<Rightarrow>
             Some \<lparr>sg_concurrency = st_concurrency stage, sg_total = a_ok a + a_err a, sg_success = a_ok a,
               sg_errors = a_err a, sg_duration = dur, sg_output_tokens = a_out a,
               sg_tokens_per_s = per_second (a_out a) dur, sg_ttft = ttft, sg_itl = itl, sg_e2e = e2e,
               sg_server = None\<rparr>
         | _ \<Rightarrow> None)"

fun ComputePerStage :: "Record list \<Rightarrow> StageTimestamp list \<Rightarrow> StageSummary list option" where
  "ComputePerStage recs [] = Some []"
| "ComputePerStage recs (stage # stages) =
     (case (stage_summary stage (fold (stage_step stage) recs (stage_init stage)), ComputePerStage recs stages) of
        (Some s, Some ss) \<Rightarrow> Some (s # ss)
      | _ \<Rightarrow> None)"

section \<open>Server metrics of a stage\<close>

definition HasData :: "ServerMetrics option \<Rightarrow> bool" where
  "HasData sm =
     (case sm of
        None \<Rightarrow> False
      | Some s \<Rightarrow> pl_p50 (sm_ttft s) \<noteq> 0 \<or> pl_p50 (sm_itl s) \<noteq> 0 \<or> sm_output_p50 s \<noteq> 0 \<or> sm_output_max s \<noteq> 0)"

definition floatToTime :: "rat \<Rightarrow> time" where
  "floatToTime f =
     (let sec = int_of_f64 f; nsec = int_of_f64 (fmul (fsub f (f64_of_int sec)) (f64_of_int 1000000000))
      in sec * second + nsec)"

definition trimStage :: "time \<Rightarrow> time \<Rightarrow> time \<times> time" where
  "trimStage start end_time =
     (let dur = end_time - start
      in (start + int_of_f64 (fmul (f64_of_int dur) (f64_round (20 / 100))),
          start + int_of_f64 (fmul (f64_of_int dur) (f64_round (95 / 100)))))"

text \<open>The steady part of a stage, or the whole stage when that part is shorter than five seconds.\<close>

definition steady_window :: "time \<Rightarrow> time \<Rightarrow> time \<times> time" where
  "steady_window start end_time =
     (let (s, e) = trimStage start end_time in if e - s < 5 * second then (start, end_time) else (s, e))"

definition quoted :: "string \<Rightarrow> string" where "quoted s = ''\"'' @ s @ ''\"''"

definition replace_first :: "string \<Rightarrow> string \<Rightarrow> string \<Rightarrow> string" where
  "replace_first s old new =
     (case index_of s old of None \<Rightarrow> s | Some i \<Rightarrow> take i s @ new @ drop (i + length old) s)"

definition kv_query :: "string \<Rightarrow> string \<Rightarrow> string \<Rightarrow> string" where
  "kv_query agg job pods = agg @ ''(vllm:kv_cache_usage_perc{job='' @ quoted job @ '', pod=~'' @ quoted pods @ ''})''"

text \<open>A failed query leaves the zero values of its fields. \<open>None\<close> as a gauge is the panic of the percentile.\<close>

definition latency_or_zero :: "(prom_error, prom_latency) result \<Rightarrow> prom_latency" where
  "latency_or_zero r = (case r of Inl _ \<Rightarrow> zero_latency | Inr l \<Rightarrow> l)"

definition kv_range :: "prom_client \<Rightarrow> string \<Rightarrow> string \<Rightarrow> time \<Rightarrow> time \<Rightarrow> (rat \<times> rat) option" where
  "kv_range c job pods s e =
     (case QueryGaugeStats c (kv_query ''min'' job pods) s e of
        Inl _ \<Rightarrow> Some (0, 0)
      | Inr None \<Rightarrow> None
      | Inr (Some lo) \<Rightarrow>
          (case QueryGaugeStats c (kv_query ''max'' job pods) s e of
             Inl _ \<Rightarrow> Some (0, 0)
           | Inr None \<Rightarrow> None
           | Inr (Some hi) \<Rightarrow> Some (gs_min lo, gs_max hi)))"

definition throughput :: "prom_client \<Rightarrow> string \<Rightarrow> string \<Rightarrow> time \<Rightarrow> time \<Rightarrow> (rat \<times> rat) option" where
  "throughput c job pods s e =
     (case QueryGaugeStats c (''sum(rate(vllm:generation_tokens_total{job='' @ quoted job @ '', pod=~'' @ quoted pods @
              ''}[10s]))'') s e of
        Inl _ \<Rightarrow> Some (0, 0)
      | Inr None \<Rightarrow> None
      | Inr (Some g) \<Rightarrow> Some (gs_p50 g, gs_max g))"

definition QueryStageServerMetrics :: "prom_client \<Rightarrow> StageTimestamp \<Rightarrow> string \<Rightarrow> ServerMetrics option" where
  "QueryStageServerMetrics c ts deployName =
     (let podFilter = deployName @ ''.*'';
          isAggregate = (\<not> contains deployName ''-decode'');
          (s, e) = steady_window (floatToTime (st_start ts)) (floatToTime (st_end ts));
          jobFilter = (if isAggregate then ''vllm-aggregate'' else ''vllm-decode'');
          ttft = latency_or_zero (HistogramQuantile c ''vllm:time_to_first_token_seconds_bucket'' podFilter jobFilter s e);
          itl = latency_or_zero (HistogramQuantile c ''vllm:inter_token_latency_seconds_bucket'' podFilter jobFilter s e);
          prefill = (if isAggregate then Some (0, 0)
                     else kv_range c ''vllm-prefill'' (replace_first deployName ''-decode'' ''-prefill'' @ ''.*'') s e);
          decode = kv_range c jobFilter podFilter s e
      in case (throughput c jobFilter podFilter s e, prefill, decode) of
           (Some (p50, peak), Some (pmin, pmax), Some (dmin, dmax)) \<Rightarrow>
             Some \<lparr>sm_aggregate = isAggregate, sm_ttft = ttft, sm_itl = itl, sm_output_p50 = p50, sm_output_max = peak,
               sm_prefill_kv_min = pmin, sm_prefill_kv_max = pmax, sm_decode_kv_min = dmin, sm_decode_kv_max = dmax\<rparr>
         | _ \<Rightarrow> None)"

section \<open>Congestion\<close>

record CongestionRoleMetrics =
  rm_role :: string
  rm_waiting_p50 :: rat
  rm_ttft_p99 :: rat
  rm_kv_usage_max :: rat
  rm_preemptions :: rat

text \<open>The two kinds of reasons, with the values the messages print.\<close>

datatype congestion_reason =
    Queueing rat string rat string
  | KVCache string rat rat

record CongestionResult =
  cg_congested :: bool
  cg_reasons :: "congestion_reason list"
  cg_roles :: "CongestionRoleMetrics list"

datatype query_kind = WaitingRequests | TTFTQuery | KVCacheQuery | PreemptionsQuery

record roleTarget =
  rt_role :: string
  rt_job :: string
  rt_pods :: string

definition role_targets :: "string \<Rightarrow> roleTarget list" where
  "role_targets deployName =
     (if contains deployName ''-decode''
      then [\<lparr>rt_role = ''prefill'', rt_job = ''vllm-prefill'',
              rt_pods = replace_first deployName ''-decode'' ''-prefill'' @ ''.*''\<rparr>,
            \<lparr>rt_role = ''decode'', rt_job = ''vllm-decode'', rt_pods = deployName @ ''.*''\<rparr>]
      else [\<lparr>rt_role = ''aggregate'', rt_job = ''vllm-aggregate'', rt_pods = deployName @ ''.*''\<rparr>])"

text \<open>The four goroutines of one role: each writes its field, or reports an error and leaves the field zero.\<close>

definition role_queries ::
    "prom_client \<Rightarrow> time \<times> time \<Rightarrow> time \<Rightarrow> int \<Rightarrow> roleTarget \<Rightarrow>
     (CongestionRoleMetrics \<times> (string \<times> query_kind \<times> prom_error) list) option" where
  "role_queries c steady end_time windowSeconds t =
     (let (s, e) = steady;
          labels = ''job='' @ quoted (rt_job t) @ '', pod=~'' @ quoted (rt_pods t);
          waiting = QueryGaugeStats c (''sum(vllm:num_requests_waiting{'' @ labels @ ''})'') s e;
          ttft = HistogramQuantile c ''vllm:time_to_first_token_seconds_bucket'' (rt_pods t) (rt_job t) s e;
          kv = QueryGaugeStats c (''max(vllm:kv_cache_usage_perc{'' @ labels @ ''})'') s e;
          pre = QueryRange c (''sum(increase(vllm:num_preemptions_total{'' @ labels @ ''}['' @ itoa windowSeconds @ ''s]))'')
                  end_time end_time second;
          fail = (\<lambda>kind err. [(rt_role t, kind, err)])
      in if waiting = Inr None \<or> kv = Inr None then None
         else Some
          (\<lparr>rm_role = rt_role t,
             rm_waiting_p50 = (case waiting of Inr (Some g) \<Rightarrow> gs_p50 g | _ \<Rightarrow> 0),
             rm_ttft_p99 = (case ttft of Inr l \<Rightarrow> pl_p99 l | _ \<Rightarrow> 0),
             rm_kv_usage_max = (case kv of Inr (Some g) \<Rightarrow> gs_max g | _ \<Rightarrow> 0),
             rm_preemptions = (case pre of Inr points \<Rightarrow> if points = [] then 0 else dp_value (last points) | _ \<Rightarrow> 0)\<rparr>,
           (case waiting of Inl err \<Rightarrow> fail WaitingRequests err | _ \<Rightarrow> []) @
           (case ttft of Inl err \<Rightarrow> fail TTFTQuery err | _ \<Rightarrow> []) @
           (case kv of Inl err \<Rightarrow> fail KVCacheQuery err | _ \<Rightarrow> []) @
           (case pre of Inl err \<Rightarrow> fail PreemptionsQuery err | _ \<Rightarrow> [])))"

text \<open>The largest value over the roles and the role that has it; both start at the zero value.\<close>

definition max_role :: "(CongestionRoleMetrics \<Rightarrow> rat) \<Rightarrow> CongestionRoleMetrics list \<Rightarrow> rat \<times> string" where
  "max_role metric roles =
     fold (\<lambda>role (top, name). if top < metric role then (metric role, rm_role role) else (top, name)) roles (0, [])"

definition kv_congested :: "congestion_condition \<Rightarrow> CongestionRoleMetrics \<Rightarrow> bool" where
  "kv_congested cond role \<longleftrightarrow>
     f64_le (cc_kv_cache_usage cond) (Fin (rm_kv_usage_max role)) \<and>
     f64_le (cc_preemptions cond) (Fin (rm_preemptions role))"

definition congestion_reasons :: "congestion_condition \<Rightarrow> CongestionRoleMetrics list \<Rightarrow> congestion_reason list" where
  "congestion_reasons cond roles =
     (let (maxWaiting, waitingRole) = max_role rm_waiting_p50 roles; (maxTTFT, ttftRole) = max_role rm_ttft_p99 roles
      in (if f64_le (cc_waiting_requests_p50 cond) (Fin maxWaiting) \<and> Seconds (cc_ttft_p99 cond) \<le> maxTTFT
          then [Queueing maxWaiting waitingRole maxTTFT ttftRole] else []) @
         map (\<lambda>role. KVCache (rm_role role) (rm_kv_usage_max role) (rm_preemptions role)) (filter (kv_congested cond) roles))"

fun all_some :: "'a option list \<Rightarrow> 'a list option" where
  "all_some [] = Some []"
| "all_some (x # xs) = (case (x, all_some xs) of (Some y, Some ys) \<Rightarrow> Some (y # ys) | _ \<Rightarrow> None)"

definition CheckStageCongestion ::
    "prom_client \<Rightarrow> StageTimestamp \<Rightarrow> string \<Rightarrow> congestion_condition \<Rightarrow>
     (CongestionResult \<times> (string \<times> query_kind \<times> prom_error) list) option" where
  "CheckStageCongestion c ts deployName cond =
     (let start = floatToTime (st_start ts); end_time = floatToTime (st_end ts);
          windowSeconds = max 1 (window_seconds start end_time)
      in case all_some (map (role_queries c (steady_window start end_time) end_time windowSeconds) (role_targets deployName)) of
           None \<Rightarrow> None
         | Some answers \<Rightarrow>
             let roles = map fst answers; reasons = congestion_reasons cond roles
             in Some (\<lparr>cg_congested = (reasons \<noteq> []), cg_reasons = reasons, cg_roles = roles\<rparr>, concat (map snd answers)))"

section \<open>Facts about the loops\<close>

lemma fold_compute_simps:
  "a_total (fold compute_step rs a) = a_total a + int (length rs)"
  "a_ok (fold compute_step rs a) = a_ok a + int (length (filter (\<lambda>r. Status r = ''ok'') rs))"
  "a_err (fold compute_step rs a) = a_err a + int (length (filter (\<lambda>r. Status r \<noteq> ''ok'') rs))"
  "a_ttfts (fold compute_step rs a) = a_ttfts a @ map rec_TTFT (filter (\<lambda>r. Status r = ''ok'') rs)"
  "a_e2es (fold compute_step rs a) = a_e2es a @ map TotalLatencyMs (filter (\<lambda>r. Status r = ''ok'') rs)"
  "a_itls (fold compute_step rs a) = a_itls a @ concat (map rec_ITLs (filter (\<lambda>r. Status r = ''ok'') rs))"
  "a_convs (fold compute_step rs a) = fold incr_conv (map ConversationID rs) (a_convs a)"
  "a_min (fold compute_step rs a) = fold min (map rec_StartTime rs) (a_min a)"
  "a_max (fold compute_step rs a) = fold max (map rec_EndTime rs) (a_max a)"
  by (induction rs arbitrary: a; simp add: compute_step_def Let_def min_def max_def not_less)+

lemma wrap64_add_left [simp]: "wrap64 (wrap64 a + b) = wrap64 (a + b)"
  by (simp add: wrap64_def mod_simps algebra_simps)

lemma fold_compute_tokens:
  "in64 (a_out a) \<Longrightarrow> a_out (fold compute_step rs a) =
     wrap64 (a_out a + sum_list (map rec_OutputTokens (filter (\<lambda>r. Status r = ''ok'') rs)))"
  "in64 (a_prompt a) \<Longrightarrow> a_prompt (fold compute_step rs a) =
     wrap64 (a_prompt a + sum_list (map PromptTokens (filter (\<lambda>r. Status r = ''ok'') rs)))"
  by (induction rs arbitrary: a; simp add: compute_step_def Let_def add.assoc)+

lemma eval_counts_eq:
  "eval_counts rs (n, yes, no) =
     (n + int (length (filter (\<lambda>r. EvalCorrect r \<noteq> None) rs)),
      yes + int (length (filter (\<lambda>r. EvalCorrect r = Some True) rs)),
      no + int (length (filter (\<lambda>r. EvalCorrect r = Some False) rs)))"
  by (induction rs "(n, yes, no)" arbitrary: n yes no rule: eval_counts.induct) (auto split: option.splits)

text \<open>The table of turns per conversation.\<close>

lemma incr_conv_keys: "set (map fst (incr_conv k al)) = insert k (set (map fst al))"
  by (induction k al rule: incr_conv.induct) auto

lemma incr_conv_distinct: "distinct (map fst al) \<Longrightarrow> distinct (map fst (incr_conv k al))"
proof (induction k al rule: incr_conv.induct)
  case (2 k k' n rest)
  then show ?case using incr_conv_keys [of k rest] by auto
qed simp

lemma incr_conv_map_of:
  "map_of (incr_conv k al) = (map_of al)(k \<mapsto> (case map_of al k of None \<Rightarrow> 1 | Some n \<Rightarrow> n + 1))"
  by (induction k al rule: incr_conv.induct) (auto simp: fun_eq_iff)

lemma fold_incr_conv:
  assumes "distinct (map fst al)"
  shows "distinct (map fst (fold incr_conv ks al)) \<and> set (map fst (fold incr_conv ks al)) = set (map fst al) \<union> set ks \<and>
    (\<forall>k. map_of (fold incr_conv ks al) k =
       (if k \<in> set ks then Some ((case map_of al k of None \<Rightarrow> 0 | Some n \<Rightarrow> n) + int (count (mset ks) k)) else map_of al k))"
  using assms
proof (induction ks arbitrary: al)
  case (Cons x ks)
  note ih = Cons.IH [OF incr_conv_distinct [OF Cons.prems, of x]]
  have "map_of (fold incr_conv (x # ks) al) k =
      (if k \<in> set (x # ks) then Some ((case map_of al k of None \<Rightarrow> 0 | Some n \<Rightarrow> n) + int (count (mset (x # ks)) k))
       else map_of al k)" for k
    using ih by (auto simp: incr_conv_map_of not_in_iff split: option.splits)
  with ih incr_conv_keys [of x al] show ?case by auto
qed simp

definition conv_counts :: "string list \<Rightarrow> int multiset" where
  "conv_counts ks = image_mset (\<lambda>k. int (count (mset ks) k)) (mset_set (set ks))"

lemma conv_values:
  "mset (map snd (fold incr_conv ks [])) = conv_counts ks"
proof -
  define al where "al = fold incr_conv ks []"
  have d: "distinct (map fst al)" and keys: "set (map fst al) = set ks"
    and v: "map_of al k = (if k \<in> set ks then Some (int (count (mset ks) k)) else None)" for k
    using fold_incr_conv [of "[]" ks] by (simp_all add: al_def)
  have "map snd al = map (\<lambda>k. int (count (mset ks) k)) (map fst al)"
  proof -
    have "snd kv = int (count (mset ks) (fst kv))" if "kv \<in> set al" for kv
      using map_of_is_SomeI [OF d, of "fst kv" "snd kv"] that v [of "fst kv"] by (auto split: if_splits)
    then show ?thesis by simp
  qed
  then have "mset (map snd al) = image_mset (\<lambda>k. int (count (mset ks) k)) (mset (map fst al))"
    by (metis mset_map)
  also have "mset (map fst al) = mset_set (set ks)" using mset_set_set [OF d] keys by simp
  finally show ?thesis by (simp add: al_def conv_counts_def)
qed

lemma conv_length: "length (fold incr_conv ks []) = card (set ks)"
  using fold_incr_conv [of "[]" ks] distinct_card [of "map fst (fold incr_conv ks [])"] by simp

lemma conv_counts_mset: "mset ks = mset ks' \<Longrightarrow> conv_counts ks = conv_counts ks'"
  unfolding conv_counts_def by (metis set_mset_mset)

lemma computeLatencyStats_mset:
  assumes "mset xs = mset ys"
  shows "computeLatencyStats xs = computeLatencyStats ys"
proof -
  have "xs = [] \<longleftrightarrow> ys = []" using assms by auto
  with sort_floats_mset [OF assms] show ?thesis by (simp add: computeLatencyStats_def)
qed

lemma computeLatencyStats_total:
  assumes "length xs \<le> 2 ^ 53"
  shows "computeLatencyStats xs \<noteq> None"
proof -
  have "Percentile (sort_floats xs) (f64_round p) \<noteq> None" if "0 \<le> p" "p \<le> 1" for p
    using percentile_in_range [of "f64_round p" "sort_floats xs"] f64.rnd_nonneg [of p] f64.rnd_le_int [of p 1] that assms
    by auto
  from this [of "10 / 100"] this [of "50 / 100"] this [of "90 / 100"] this [of "95 / 100"] this [of "99 / 100"]
  show ?thesis by (auto simp: computeLatencyStats_def Let_def)
qed

text \<open>What the accumulator of a non-empty list of records determines.\<close>

definition run_compute :: "Record list \<Rightarrow> compute_acc" where
  "run_compute rs = fold compute_step rs (compute_init (hd rs))"

lemma run_compute_window:
  assumes "rs \<noteq> []"
  shows "a_min (run_compute rs) = Min (rec_StartTime ` set rs)" and "a_max (run_compute rs) = Max (rec_EndTime ` set rs)"
proof -
  obtain r rs' where r: "rs = r # rs'" using assms by (cases rs) auto
  have "fold min (map rec_StartTime rs) (rec_StartTime r) = Min (set (rec_StartTime r # map rec_StartTime rs))"
    "fold max (map rec_EndTime rs) (rec_EndTime r) = Max (set (rec_EndTime r # map rec_EndTime rs))"
    by (simp_all only: Min.set_eq_fold Max.set_eq_fold)
  then show "a_min (run_compute rs) = Min (rec_StartTime ` set rs)" "a_max (run_compute rs) = Max (rec_EndTime ` set rs)"
    by (simp_all only: run_compute_def fold_compute_simps) (simp_all add: r compute_init_def)
qed

lemma run_compute_fields:
  "a_total (run_compute rs) = int (length rs)"
  "a_ok (run_compute rs) = int (length (filter (\<lambda>r. Status r = ''ok'') rs))"
  "a_err (run_compute rs) = int (length (filter (\<lambda>r. Status r \<noteq> ''ok'') rs))"
  "a_out (run_compute rs) = wrap64 (sum_list (map rec_OutputTokens (filter (\<lambda>r. Status r = ''ok'') rs)))"
  "a_prompt (run_compute rs) = wrap64 (sum_list (map PromptTokens (filter (\<lambda>r. Status r = ''ok'') rs)))"
  "a_ttfts (run_compute rs) = map rec_TTFT (filter (\<lambda>r. Status r = ''ok'') rs)"
  "a_e2es (run_compute rs) = map TotalLatencyMs (filter (\<lambda>r. Status r = ''ok'') rs)"
  "a_itls (run_compute rs) = concat (map rec_ITLs (filter (\<lambda>r. Status r = ''ok'') rs))"
  "a_convs (run_compute rs) = fold incr_conv (map ConversationID rs) []"
  by (simp_all add: run_compute_def fold_compute_simps fold_compute_tokens compute_init_def in64_def)

lemma Compute_eq:
  "Compute recs s e = (let ms = measured s e recs in
     if ms = [] then Some zero_summary else summarize (run_compute ms) (eval_counts ms (0, 0, 0)))"
  by (simp add: Compute_def run_compute_def Let_def split: list.split)

lemma summarize_cong:
  assumes "a_total a = a_total b" "a_ok a = a_ok b" "a_err a = a_err b" "a_out a = a_out b" "a_prompt a = a_prompt b"
    and "a_min a = a_min b" "a_max a = a_max b" and "length (a_convs a) = length (a_convs b)"
    and "mset (a_ttfts a) = mset (a_ttfts b)" "mset (a_e2es a) = mset (a_e2es b)" "mset (a_itls a) = mset (a_itls b)"
    and "mset (map snd (a_convs a)) = mset (map snd (a_convs b))"
  shows "summarize a ev = summarize b ev"
proof -
  have "mset (map (\<lambda>(_, c). f64_of_int c) al) = image_mset f64_of_int (mset (map snd al))" for al :: "(string \<times> int) list"
    by (induction al) auto
  with assms(12) have "computeLatencyStats (map (\<lambda>(_, c). f64_of_int c) (a_convs a)) =
      computeLatencyStats (map (\<lambda>(_, c). f64_of_int c) (a_convs b))"
    by (intro computeLatencyStats_mset) simp
  with assms(1-8) show ?thesis
    using assms(9-11) [THEN computeLatencyStats_mset] unfolding summarize_def by (simp only:)
qed

lemma mset_filter_length: "mset xs = mset ys \<Longrightarrow> length (filter P xs) = length (filter P ys)"
  by (metis mset_filter size_mset)

lemma mset_concat_map: "mset (concat (map f xs)) = sum_mset (image_mset (\<lambda>x. mset (f x)) (mset xs))"
  by (induction xs) simp_all

lemma run_compute_mset:
  assumes "mset xs = mset ys" and "xs \<noteq> []"
  shows "summarize (run_compute xs) ev = summarize (run_compute ys) ev"
proof (rule summarize_cong)
  have ys: "ys \<noteq> []" using assms by auto
  have set_eq: "set xs = set ys" using assms(1) by (rule mset_eq_setD)
  have oks: "mset (filter (\<lambda>r. Status r = ''ok'') xs) = mset (filter (\<lambda>r. Status r = ''ok'') ys)"
    using assms(1) by simp
  show "a_min (run_compute xs) = a_min (run_compute ys)" "a_max (run_compute xs) = a_max (run_compute ys)"
    by (simp_all add: run_compute_window assms(2) ys set_eq)
  show "a_total (run_compute xs) = a_total (run_compute ys)"
    using mset_eq_length [OF assms(1)] by (simp add: run_compute_fields)
  show "a_ok (run_compute xs) = a_ok (run_compute ys)" "a_err (run_compute xs) = a_err (run_compute ys)"
    using mset_filter_length [OF assms(1)] by (simp_all add: run_compute_fields)
  show "a_out (run_compute xs) = a_out (run_compute ys)" "a_prompt (run_compute xs) = a_prompt (run_compute ys)"
    using oks by (simp_all only: run_compute_fields sum_mset_sum_list [symmetric] mset_map)
  show "mset (a_ttfts (run_compute xs)) = mset (a_ttfts (run_compute ys))"
    "mset (a_e2es (run_compute xs)) = mset (a_e2es (run_compute ys))"
    "mset (a_itls (run_compute xs)) = mset (a_itls (run_compute ys))"
    using oks by (simp_all only: run_compute_fields mset_map mset_concat_map)
  have keys: "mset (map ConversationID xs) = mset (map ConversationID ys)" using assms(1) by simp
  show "length (a_convs (run_compute xs)) = length (a_convs (run_compute ys))"
    using set_eq by (simp add: run_compute_fields conv_length)
  show "mset (map snd (a_convs (run_compute xs))) = mset (map snd (a_convs (run_compute ys)))"
    using conv_counts_mset [OF keys] by (simp only: run_compute_fields conv_values)
qed

text \<open>
  Property C33. A summary depends only on the multiset of records: the order in which workers wrote them, the order of records
  with the same start time and the iteration order of the table of conversations change nothing, although the
  mean is a rounded floating-point sum.
\<close>

theorem compute_order_independent:
  assumes "mset recs = mset recs'"
  shows "Compute recs startTime endTime = Compute recs' startTime endTime"
proof -
  define xs ys where "xs = measured startTime endTime recs" and "ys = measured startTime endTime recs'"
  have m: "mset xs = mset ys" using assms by (simp add: xs_def ys_def measured_def)
  have "eval_counts xs (0, 0, 0) = eval_counts ys (0, 0, 0)"
    by (simp only: eval_counts_eq mset_filter_length [OF m])
  moreover have "xs = [] \<longleftrightarrow> ys = []" using m by auto
  ultimately show ?thesis
    using run_compute_mset [OF m] by (simp add: Compute_eq Let_def flip: xs_def ys_def)
qed

definition sample_record :: "string \<Rightarrow> rat \<Rightarrow> string \<Rightarrow> Record" where
  "sample_record conv start status =
     \<lparr>RequestID = conv, StreamID = 0, ConversationID = conv, Turn = 0, rec_StartTime = start, rec_TTFT = start, rec_ITLs = [],
      rec_EndTime = start + 1, PromptTokens = 3, rec_OutputTokens = 7, TotalLatencyMs = 1000, rec_FinishReason = ''stop'',
      Status = status, rec_Error = [], EvalExpected = [], EvalExtracted = [], EvalCorrect = Some (conv = ''a'')\<rparr>"

theorem compute_order_independent_witness:
  "[sample_record ''a'' 1 ''ok'', sample_record ''b'' 2 ''error''] \<noteq> [sample_record ''b'' 2 ''error'', sample_record ''a'' 1 ''ok''] \<and>
   Compute [sample_record ''a'' 1 ''ok'', sample_record ''b'' 2 ''error''] 0 0 =
   Compute [sample_record ''b'' 2 ''error'', sample_record ''a'' 1 ''ok''] 0 0"
proof
  show "[sample_record ''a'' 1 ''ok'', sample_record ''b'' 2 ''error''] \<noteq>
     [sample_record ''b'' 2 ''error'', sample_record ''a'' 1 ''ok'']" by (simp add: sample_record_def)
  show "Compute [sample_record ''a'' 1 ''ok'', sample_record ''b'' 2 ''error''] 0 0 =
     Compute [sample_record ''b'' 2 ''error'', sample_record ''a'' 1 ''ok''] 0 0"
    by (rule compute_order_independent) simp
qed

lemma summarize_some:
  assumes "length (a_ttfts a) \<le> 2 ^ 53" "length (a_e2es a) \<le> 2 ^ 53" "length (a_itls a) \<le> 2 ^ 53" "length (a_convs a) \<le> 2 ^ 53"
  shows "\<exists>s. summarize a (n, yes, no) = Some s \<and> TotalRequests s = a_total a \<and> SuccessRequests s = a_ok a \<and>
     ErrorRequests s = a_err a \<and> TotalOutputTokens s = a_out a \<and> Conversations s = int (length (a_convs a)) \<and>
     TotalDurationS s = fsub (a_max a) (a_min a) \<and> EvalTotal s = n \<and>
     EvalCorrectCount s = yes \<and> EvalIncorrect s = no \<and>
     EvalAccuracy s = (if 0 < n then fdiv (f64_of_int yes) (f64_of_int n) else 0)"
proof -
  have "length (map (\<lambda>(_, c). f64_of_int c) (a_convs a)) \<le> 2 ^ 53" using assms(4) by simp
  from assms(1-3) [THEN computeLatencyStats_total] computeLatencyStats_total [OF this]
  show ?thesis by (auto simp: summarize_def Let_def zero_summary_def)
qed

lemma accuracy_range:
  assumes "0 \<le> yes" and "yes \<le> n" and "n \<le> 2 ^ 53"
  shows "0 \<le> fdiv (f64_of_int yes) (f64_of_int n) \<and> fdiv (f64_of_int yes) (f64_of_int n) \<le> 1"
proof -
  have e: "f64_of_int yes = of_int yes" "f64_of_int n = of_int n" using assms by simp_all
  have q: "0 \<le> (of_int yes / of_int n :: rat)" "of_int yes / of_int n \<le> (1 :: rat)"
    using assms by (cases "n = 0"; simp add: divide_le_eq_1)+
  show ?thesis unfolding fdiv_def e using f64.rnd_nonneg [OF q(1)] f64.rnd_le_int [of _ 1] q(2) by simp
qed

text \<open>
  Computing a summary never panics, and it accounts for every record of the measurement window: each is either
  successful or failed, tokens are summed over the successful ones, conversations are counted by distinct
  id, the graded records split into correct and incorrect, and the accuracy is a fraction between 0 and 1.
\<close>

theorem compute_accounts_for_records:
  fixes recs :: "Record list" and startTime endTime :: rat
  assumes "length recs \<le> 2 ^ 53" and "length (concat (map rec_ITLs recs)) \<le> 2 ^ 53"
  defines "ms \<equiv> measured startTime endTime recs"
  shows "\<exists>s. Compute recs startTime endTime = Some s \<and>
     TotalRequests s = int (length ms) \<and> TotalRequests s = SuccessRequests s + ErrorRequests s \<and>
     SuccessRequests s = int (length (filter (\<lambda>r. Status r = ''ok'') ms)) \<and>
     TotalOutputTokens s = wrap64 (sum_list (map rec_OutputTokens (filter (\<lambda>r. Status r = ''ok'') ms))) \<and>
     Conversations s = int (card (ConversationID ` set ms)) \<and>
     EvalTotal s = int (length (filter (\<lambda>r. EvalCorrect r \<noteq> None) ms)) \<and>
     EvalTotal s = EvalCorrectCount s + EvalIncorrect s \<and> 0 \<le> EvalAccuracy s \<and> EvalAccuracy s \<le> 1"
proof (cases "ms = []")
  case True
  then show ?thesis by (simp add: Compute_eq ms_def zero_summary_def wrap64_def)
next
  case False
  have sub: "length ms \<le> length recs" by (simp add: ms_def measured_def)
  have itls: "length (concat (map rec_ITLs (filter P xs))) \<le> length (concat (map rec_ITLs xs))" for P xs
    by (induction xs) auto
  have "length (concat (map rec_ITLs (filter (\<lambda>r. Status r = ''ok'') ms))) \<le> length (concat (map rec_ITLs recs))"
    by (auto simp: ms_def measured_def intro: itls)
  with assms(2) have i: "length (a_itls (run_compute ms)) \<le> 2 ^ 53" by (simp only: run_compute_fields)
  have f: "length (filter P ms) \<le> 2 ^ 53" for P using sub assms(1) length_filter_le [of P ms] by linarith
  have c: "length (a_convs (run_compute ms)) \<le> 2 ^ 53"
    using sub assms(1) card_length [of "map ConversationID ms"] by (simp add: run_compute_fields conv_length)
  let ?n = "length (filter (\<lambda>r. EvalCorrect r \<noteq> None) ms)" and ?y = "length (filter (\<lambda>r. EvalCorrect r = Some True) ms)"
    and ?no = "length (filter (\<lambda>r. EvalCorrect r = Some False) ms)"
  have split: "length (filter (\<lambda>r. EvalCorrect r \<noteq> None) xs) =
      length (filter (\<lambda>r. EvalCorrect r = Some True) xs) + length (filter (\<lambda>r. EvalCorrect r = Some False) xs)" for xs
    by (induction xs) (auto simp: not_None_eq, metis (full_types) not_None_eq)
  obtain s where s: "summarize (run_compute ms) (int ?n, int ?y, int ?no) = Some s"
    "TotalRequests s = int (length ms)" "SuccessRequests s = int (length (filter (\<lambda>r. Status r = ''ok'') ms))"
    "ErrorRequests s = int (length (filter (\<lambda>r. Status r \<noteq> ''ok'') ms))"
    "TotalOutputTokens s = wrap64 (sum_list (map rec_OutputTokens (filter (\<lambda>r. Status r = ''ok'') ms)))"
    "Conversations s = int (card (ConversationID ` set ms))"
    "EvalTotal s = int ?n" "EvalCorrectCount s = int ?y" "EvalIncorrect s = int ?no"
    "EvalAccuracy s = (if 0 < int ?n then fdiv (f64_of_int (int ?y)) (f64_of_int (int ?n)) else 0)"
    using summarize_some [of "run_compute ms" "int ?n" "int ?y" "int ?no"] i c f
    by (auto simp: run_compute_fields conv_length)
  have "Compute recs startTime endTime = Some s"
    using s(1) False by (simp add: Compute_eq Let_def eval_counts_eq flip: ms_def)
  moreover have "length ms = length (filter (\<lambda>r. Status r = ''ok'') ms) + length (filter (\<lambda>r. Status r \<noteq> ''ok'') ms)"
    by (simp add: sum_length_filter_compl)
  moreover have "int ?n \<le> 2 ^ 53" using f by (metis of_nat_le_iff of_nat_numeral of_nat_power)
  then have "0 \<le> EvalAccuracy s \<and> EvalAccuracy s \<le> 1"
    using accuracy_range [of "int ?y" "int ?n"] split [of ms] by (simp add: s)
  ultimately show ?thesis using s split [of ms] by (intro exI [of _ s]) simp
qed


theorem compute_accounts_for_records_witness:
  "\<exists>s. Compute [sample_record ''a'' 1 ''ok'', sample_record ''b'' 2 ''error'', sample_record ''a'' 9 ''ok''] 1 5 = Some s \<and>
     TotalRequests s = 2 \<and> SuccessRequests s + ErrorRequests s = 2 \<and> TotalOutputTokens s = 7 \<and> Conversations s = 2"
proof -
  let ?rs = "[sample_record ''a'' 1 ''ok'', sample_record ''b'' 2 ''error'', sample_record ''a'' 9 ''ok'']"
  have m: "measured 1 5 ?rs = [sample_record ''a'' 1 ''ok'', sample_record ''b'' 2 ''error'']"
    by (simp add: measured_def in_window_def sample_record_def)
  have l: "length ?rs \<le> 2 ^ 53" "length (concat (map rec_ITLs ?rs)) \<le> 2 ^ 53" by (simp_all add: sample_record_def)
  from compute_accounts_for_records [OF l, of 1 5] show ?thesis
    unfolding m by (auto simp: sample_record_def wrap64_def)
qed

section \<open>Stages\<close>

abbreviation in_stage :: "StageTimestamp \<Rightarrow> Record \<Rightarrow> bool" where
  "in_stage stage \<equiv> in_window (st_start stage) (st_end stage)"

lemma fold_stage_simps:
  "a_ok (fold (stage_step st) rs a) = a_ok a + int (length (filter (\<lambda>r. Status r = ''ok'') (filter (in_stage st) rs)))"
  "a_err (fold (stage_step st) rs a) = a_err a + int (length (filter (\<lambda>r. Status r \<noteq> ''ok'') (filter (in_stage st) rs)))"
  "length (a_ttfts (fold (stage_step st) rs a)) \<le> length (a_ttfts a) + length rs"
  "length (a_e2es (fold (stage_step st) rs a)) \<le> length (a_e2es a) + length rs"
  "length (a_itls (fold (stage_step st) rs a)) \<le> length (a_itls a) + length (concat (map rec_ITLs rs))"
  by (induction rs arbitrary: a; fastforce simp: stage_step_def in_window_def Let_def not_less intro: le_trans)+

lemma stage_summary_counts:
  assumes "length recs \<le> 2 ^ 53" and "length (concat (map rec_ITLs recs)) \<le> 2 ^ 53"
  shows "\<exists>s. stage_summary st (fold (stage_step st) recs (stage_init st)) = Some s \<and>
     sg_concurrency s = st_concurrency st \<and> sg_total s = sg_success s + sg_errors s \<and>
     sg_total s = int (length (filter (in_stage st) recs)) \<and>
     sg_success s = int (length (filter (\<lambda>r. Status r = ''ok'') (filter (in_stage st) recs)))"
proof -
  let ?a = "fold (stage_step st) recs (stage_init st)"
  have l: "length (a_ttfts ?a) \<le> 2 ^ 53" "length (a_e2es ?a) \<le> 2 ^ 53" "length (a_itls ?a) \<le> 2 ^ 53"
    using fold_stage_simps(3-5) [of st recs "stage_init st"] assms by (simp_all add: stage_init_def)
  have some: "computeLatencyStats (a_ttfts ?a) \<noteq> None" "computeLatencyStats (a_e2es ?a) \<noteq> None"
    "computeLatencyStats (a_itls ?a) \<noteq> None" by (rule l [THEN computeLatencyStats_total])+
  have ok: "a_ok ?a = int (length (filter (\<lambda>r. Status r = ''ok'') (filter (in_stage st) recs)))"
    and err: "a_err ?a = int (length (filter (\<lambda>r. Status r \<noteq> ''ok'') (filter (in_stage st) recs)))"
    by (simp_all only: fold_stage_simps) (simp_all add: stage_init_def)
  have "a_ok ?a + a_err ?a = int (length (filter (in_stage st) recs))"
    by (simp only: ok err of_nat_add [symmetric] sum_length_filter_compl)
  with some ok show ?thesis by (auto simp: stage_summary_def Let_def)
qed

lemma sum_filters_le:
  assumes "\<And>r. r \<in> set recs \<Longrightarrow> (\<Sum>s\<leftarrow>stages. if P s r then 1 else 0 :: int) \<le> 1"
  shows "(\<Sum>s\<leftarrow>stages. int (length (filter (P s) recs))) \<le> int (length recs)"
  using assms
proof (induction recs)
  case Nil
  show ?case by (induction stages) simp_all
next
  case (Cons r recs)
  have "(\<Sum>s\<leftarrow>stages. int (length (filter (P s) (r # recs)))) =
      (\<Sum>s\<leftarrow>stages. (if P s r then 1 else 0) + int (length (filter (P s) recs)))"
    by (intro arg_cong [where f = sum_list] map_cong) auto
  also have "\<dots> \<le> 1 + int (length recs)"
    using Cons.IH Cons.prems by (simp only: sum_list_addf) (intro add_mono; simp)
  finally show ?case by simp
qed

lemma disjoint_stages_once:
  assumes "sorted_wrt (\<lambda>a b. st_end a < st_start b) stages" and "rec_StartTime r \<le> rec_EndTime r"
  shows "(\<Sum>s\<leftarrow>stages. if in_stage s r then 1 else 0 :: int) \<le> 1"
  using assms
proof (induction stages)
  case (Cons s stages)
  show ?case
  proof (cases "in_stage s r")
    case True
    then have "\<forall>t\<in>set stages. \<not> in_stage t r" using Cons.prems by (force simp: in_window_def)
    then have "(\<Sum>t\<leftarrow>stages. if in_stage t r then 1 else 0 :: int) = 0" by (induction stages) auto
    with True show ?thesis by simp
  next
    case False
    with Cons show ?thesis by simp
  qed
qed simp

lemma ComputePerStage_all:
  assumes "\<And>st. \<exists>s. stage_summary st (fold (stage_step st) recs (stage_init st)) = Some s \<and> Q st s"
  shows "\<exists>ss. ComputePerStage recs stages = Some ss \<and> list_all2 Q stages ss"
proof (induction stages)
  case (Cons st stages)
  with assms [of st] show ?case by fastforce
qed simp

text \<open>
  Per-stage summaries never panic; there is one per stage, in order, and it counts exactly the records that
  started and ended within the stage, each as successful or failed. When the stages do not overlap no request is counted
  in two stages.
\<close>

theorem per_stage_counts:
  assumes "length recs \<le> 2 ^ 53" and "length (concat (map rec_ITLs recs)) \<le> 2 ^ 53"
    and "\<And>r. r \<in> set recs \<Longrightarrow> rec_StartTime r \<le> rec_EndTime r"
  shows "\<exists>ss. ComputePerStage recs stages = Some ss \<and>
     map sg_total ss = map (\<lambda>st. int (length (filter (in_stage st) recs))) stages \<and>
     map sg_concurrency ss = map st_concurrency stages \<and> (\<forall>s\<in>set ss. sg_total s = sg_success s + sg_errors s) \<and>
     (sorted_wrt (\<lambda>a b. st_end a < st_start b) stages \<longrightarrow> sum_list (map sg_total ss) \<le> int (length recs))"
proof -
  obtain ss where ss: "ComputePerStage recs stages = Some ss"
    and q: "list_all2 (\<lambda>st s. sg_concurrency s = st_concurrency st \<and> sg_total s = sg_success s + sg_errors s \<and>
      sg_total s = int (length (filter (in_stage st) recs))) stages ss"
    using ComputePerStage_all [of recs "\<lambda>st s. sg_concurrency s = st_concurrency st \<and> sg_total s = sg_success s + sg_errors s \<and>
      sg_total s = int (length (filter (in_stage st) recs))" stages] stage_summary_counts [OF assms(1,2)] by blast
  from q have m: "map sg_total ss = map (\<lambda>st. int (length (filter (in_stage st) recs))) stages"
    "map sg_concurrency ss = map st_concurrency stages" "\<forall>s\<in>set ss. sg_total s = sg_success s + sg_errors s"
    by (induction rule: list_all2_induct) simp_all
  have "sum_list (map sg_total ss) \<le> int (length recs)" if "sorted_wrt (\<lambda>a b. st_end a < st_start b) stages"
    unfolding m(1) by (rule sum_filters_le) (rule disjoint_stages_once [OF that assms(3)])
  with ss m show ?thesis by blast
qed

theorem per_stage_counts_witness:
  "\<exists>ss. ComputePerStage [sample_record ''a'' 1 ''ok'', sample_record ''b'' 5 ''error'']
      [\<lparr>st_stage = 0, st_concurrency = 4, st_start = 0, st_end = 3\<rparr>, \<lparr>st_stage = 1, st_concurrency = 8, st_start = 4, st_end = 7\<rparr>]
      = Some ss \<and> map sg_total ss = [1, 1] \<and> map sg_concurrency ss = [4, 8]"
proof -
  let ?rs = "[sample_record ''a'' 1 ''ok'', sample_record ''b'' 5 ''error'']"
  have "length ?rs \<le> 2 ^ 53" "length (concat (map rec_ITLs ?rs)) \<le> 2 ^ 53"
    "\<And>r. r \<in> set ?rs \<Longrightarrow> rec_StartTime r \<le> rec_EndTime r" by (auto simp: sample_record_def)
  from per_stage_counts [OF this, of "[\<lparr>st_stage = 0, st_concurrency = 4, st_start = 0, st_end = 3\<rparr>,
      \<lparr>st_stage = 1, st_concurrency = 8, st_start = 4, st_end = 7\<rparr>]"]
  show ?thesis by (auto simp: sample_record_def in_window_def)
qed

section \<open>Congestion\<close>

lemma fst_max_role:
  fixes metric :: "CongestionRoleMetrics \<Rightarrow> rat"
  shows "x \<le> fst (fold (\<lambda>role (top, name). if top < metric role then (metric role, rm_role role) else (top, name)) roles (t, n))
     \<longleftrightarrow> x \<le> t \<or> (\<exists>r\<in>set roles. x \<le> metric r)"
proof (induction roles arbitrary: t n)
  case (Cons r roles)
  show ?case by (cases "t < metric r"; auto simp: Cons; linarith)
qed simp

lemma max_role_ge: "0 < x \<Longrightarrow> x \<le> fst (max_role metric roles) \<longleftrightarrow> (\<exists>r\<in>set roles. x \<le> metric r)"
  by (simp add: max_role_def fst_max_role)

lemma congestion_reasons_iff:
  assumes "cc_waiting_requests_p50 cond = Fin w" and "0 < w" and "0 < Seconds (cc_ttft_p99 cond)"
  shows "congestion_reasons cond roles \<noteq> [] \<longleftrightarrow>
     ((\<exists>r\<in>set roles. w \<le> rm_waiting_p50 r) \<and> (\<exists>r\<in>set roles. Seconds (cc_ttft_p99 cond) \<le> rm_ttft_p99 r)) \<or>
     (\<exists>r\<in>set roles. kv_congested cond r)"
  using max_role_ge [OF assms(2), of rm_waiting_p50 roles] max_role_ge [OF assms(3), of rm_ttft_p99 roles] assms(1)
  by (auto simp: congestion_reasons_def filter_empty_conv split: prod.splits)

lemma all_some_map_Some [simp]: "all_some (map Some ys) = Some ys"
  by (induction ys) simp_all

lemma all_some_map: "all_some xs = Some ys \<longleftrightarrow> xs = map Some ys"
proof
  show "all_some xs = Some ys \<Longrightarrow> xs = map Some ys"
    by (induction xs arbitrary: ys) (auto split: option.splits)
qed simp

lemma map_Some_transfer:
  "map q ts = map Some xs \<Longrightarrow> (\<And>t x. q t = Some x \<Longrightarrow> f x = g t) \<Longrightarrow> map f xs = map g ts"
  by (induction ts arbitrary: xs) (auto simp: Cons_eq_map_conv)

text \<open>
  A stage counts as congested exactly when queue depth and time to first token both reach their thresholds,
  possibly on different roles, or when cache usage and preemptions reach theirs on the same role; each role of the deployment is
  examined. When every query fails the stage is not congested and the failures are reported.
\<close>

theorem congestion_same_role:
  assumes "cc_waiting_requests_p50 cond = Fin w" and "0 < w" and "0 < Seconds (cc_ttft_p99 cond)"
    and "cc_kv_cache_usage cond = Fin kv" and "0 < kv" and "cc_preemptions cond = Fin pre"
    and "CheckStageCongestion c ts deploy cond = Some (res, errs)"
  shows "map rm_role (cg_roles res) = (if contains deploy ''-decode'' then [''prefill'', ''decode''] else [''aggregate'']) \<and>
     (cg_congested res \<longleftrightarrow>
       ((\<exists>r\<in>set (cg_roles res). w \<le> rm_waiting_p50 r) \<and> (\<exists>r\<in>set (cg_roles res). Seconds (cc_ttft_p99 cond) \<le> rm_ttft_p99 r)) \<or>
       (\<exists>r\<in>set (cg_roles res). kv \<le> rm_kv_usage_max r \<and> pre \<le> rm_preemptions r)) \<and>
     ((\<forall>q a b s. prom_get c q a b s = GetFailed) \<longrightarrow> \<not> cg_congested res \<and> errs \<noteq> [])"
proof -
  let ?q = "role_queries c (steady_window (floatToTime (st_start ts)) (floatToTime (st_end ts))) (floatToTime (st_end ts))
     (max 1 (window_seconds (floatToTime (st_start ts)) (floatToTime (st_end ts))))"
  obtain answers where a: "map ?q (role_targets deploy) = map Some answers"
    and roles: "cg_roles res = map fst answers" and errs: "errs = concat (map snd answers)"
    and cong: "cg_congested res = (congestion_reasons cond (map fst answers) \<noteq> [])"
    using assms(7) by (auto simp: CheckStageCongestion_def Let_def all_some_map split: option.splits)
  have name: "(rm_role \<circ> fst) x = rt_role t" if "?q t = Some x" for t x
    using that by (auto simp: role_queries_def Let_def split: prod.splits if_splits)
  have "map rm_role (map fst answers) = map rt_role (role_targets deploy)"
    using map_Some_transfer [OF a, of "rm_role \<circ> fst" rt_role] name by simp
  then have n: "map rm_role (cg_roles res) = (if contains deploy ''-decode'' then [''prefill'', ''decode''] else [''aggregate''])"
    by (simp add: roles role_targets_def)
  have iff: "cg_congested res \<longleftrightarrow>
       ((\<exists>r\<in>set (cg_roles res). w \<le> rm_waiting_p50 r) \<and> (\<exists>r\<in>set (cg_roles res). Seconds (cc_ttft_p99 cond) \<le> rm_ttft_p99 r)) \<or>
       (\<exists>r\<in>set (cg_roles res). kv \<le> rm_kv_usage_max r \<and> pre \<le> rm_preemptions r)"
    using congestion_reasons_iff [OF assms(1-3), of "map fst answers"] assms(4,6)
    by (simp add: cong roles kv_congested_def)
  have "\<not> cg_congested res \<and> errs \<noteq> []" if f: "\<forall>q a b s. prom_get c q a b s = GetFailed"
  proof -
    have z: "rm_waiting_p50 (fst x) = 0 \<and> rm_kv_usage_max (fst x) = 0 \<and> snd x \<noteq> []" if "?q t = Some x" for t x
      using that f by (auto simp: role_queries_def QueryGaugeStats_def QueryRange_def Let_def split: prod.splits if_splits)
    have "\<forall>x\<in>set answers. \<exists>t. ?q t = Some x" using a by (metis (no_types, lifting) in_set_conv_nth length_map nth_map)
    with z have "\<forall>x\<in>set answers. rm_waiting_p50 (fst x) = 0 \<and> rm_kv_usage_max (fst x) = 0 \<and> snd x \<noteq> []" by blast
    moreover have "answers \<noteq> []" using a by (auto simp: role_targets_def split: if_splits)
    ultimately show ?thesis using assms(2,5) iff by (cases answers) (auto simp: roles errs)
  qed
  with n iff show ?thesis by blast
qed


definition nine_client :: prom_client where
  "nine_client = \<lparr>prom_get = (\<lambda>q a b s. Series [[[RawNumber 0, RawString ''9'']]]), prom_parse = (\<lambda>t. if t = ''9'' then Some (Fin 9) else None)\<rparr>"

definition sample_condition :: congestion_condition where
  "sample_condition = \<lparr>cc_waiting_requests_p50 = Fin 5, cc_ttft_p99 = second, cc_kv_cache_usage = Fin 1, cc_preemptions = Fin 5\<rparr>"

definition ten_seconds :: StageTimestamp where
  "ten_seconds = \<lparr>st_stage = 0, st_concurrency = 1, st_start = 0, st_end = 10\<rparr>"

lemma nine_queries:
  "QueryRange nine_client q s e st = Inr [\<lparr>dp_timestamp = 0, dp_value = 9\<rparr>]"
  "QueryGaugeStats nine_client q s e = Inr (Some \<lparr>gs_min = 9, gs_p50 = 9, gs_max = 9\<rparr>)"
  "\<exists>l. HistogramQuantile nine_client b p j s e = Inr l"
proof -
  show r: "QueryRange nine_client q s e st = Inr [\<lparr>dp_timestamp = 0, dp_value = 9\<rparr>]" for q s e st
    by (simp add: QueryRange_def nine_client_def map_filter_simps sample_point_def raw_float_def raw_string_def)
  have "Percentile [9] (1 / 2) = Some 9" using percentile_at_int [of "1 / 2" "[9]" 0] by simp
  then show "QueryGaugeStats nine_client q s e = Inr (Some \<lparr>gs_min = 9, gs_p50 = 9, gs_max = 9\<rparr>)"
    by (simp add: QueryGaugeStats_def r gauge_stats_def sort_floats_def)
  show "\<exists>l. HistogramQuantile nine_client b p j s e = Inr l"
    by (simp add: HistogramQuantile_def quantile_value_def r Let_def)
qed

theorem congestion_same_role_witness:
  "\<exists>res. CheckStageCongestion nine_client ten_seconds ''vllm'' sample_condition = Some (res, []) \<and>
     cg_congested res \<and> map rm_role (cg_roles res) = [''aggregate'']"
proof -
  have "tdiv second second = 1" "tmod second second = 0" by (simp_all add: tdiv_nonneg tmod_nonneg second_def)
  then have sec: "Seconds second = 1" using f64_round_exact [of 1] by (simp add: Seconds_def fadd_def fdiv_def)
  have dec: "contains ''vllm'' ''-decode'' = False" by code_simp
  have w: "0 < Seconds (cc_ttft_p99 sample_condition)" by (simp add: sample_condition_def sec)
  have q: "\<exists>l. role_queries nine_client st e ws t = Some (\<lparr>rm_role = rt_role t, rm_waiting_p50 = 9, rm_ttft_p99 = l,
      rm_kv_usage_max = 9, rm_preemptions = 9\<rparr>, [])" for st e ws t
    using nine_queries(3) [of "''vllm:time_to_first_token_seconds_bucket''" "rt_pods t" "rt_job t" "fst st" "snd st"]
    by (auto simp: role_queries_def nine_queries(1,2) Let_def split: prod.splits sum.splits)
  let ?s = "floatToTime (st_start ten_seconds)" and ?e = "floatToTime (st_end ten_seconds)"
  obtain res where r: "CheckStageCongestion nine_client ten_seconds ''vllm'' sample_condition = Some (res, [])"
    and roles: "map rm_kv_usage_max (cg_roles res) = [9]" "map rm_preemptions (cg_roles res) = [9]"
    using q [of "steady_window ?s ?e" ?e "max 1 (window_seconds ?s ?e)"
      "\<lparr>rt_role = ''aggregate'', rt_job = ''vllm-aggregate'', rt_pods = ''vllm'' @ ''.*''\<rparr>"]
    by (auto simp: CheckStageCongestion_def role_targets_def dec Let_def)
  then obtain role where role: "cg_roles res = [role]" "rm_kv_usage_max role = 9" "rm_preemptions role = 9" by auto
  have "cg_congested res \<and> map rm_role (cg_roles res) = [''aggregate'']"
    using congestion_same_role [OF _ _ w _ _ _ r, of 5 1 5] role by (simp add: sample_condition_def dec)
  then show ?thesis by (intro exI [of _ res] conjI r) (erule conjunct1, erule conjunct2)
qed

end
