(* ===== verification/Dataset.thy ===== *)
theory Dataset
  imports Client Go_Path
begin

text \<open>
  Package \<open>dataset\<close>: the conversations the load generator sends. This theory has the token budget (\<open>token_trim.go\<close>) and the three
  generators of conversations with a given input and output length: \<open>synthetic.go\<close>, \<open>faker.go\<close> and \<open>corpus.go\<close>. The
  evaluation datasets have their own theory.

  The remote token counter, the random words, the sentences of the library \<open>gofakeit\<close> and the file tree of a corpus
  are arguments. A slice expression out of range panics: \<open>None\<close>.
\<close>

section \<open>Trimming to a token budget\<close>

text \<open>A \<open>TokenCounter\<close>: \<open>None\<close> is its error. A dataset without a counter has \<open>None\<close> in place of one.\<close>

type_synonym token_counter = "string \<Rightarrow> int option"

definition go_slice :: "'a list \<Rightarrow> int \<Rightarrow> int \<Rightarrow> 'a list option" where
  "go_slice xs lo hi =
     (if 0 \<le> lo \<and> lo \<le> hi \<and> hi \<le> int (length xs) then Some (take (nat (hi - lo)) (drop (nat lo) xs)) else None)"

text \<open>\<open>utf8.RuneStart\<close>: the byte is not a continuation byte \<open>10xxxxxx\<close>.\<close>

definition rune_start :: "char \<Rightarrow> bool" where
  "rune_start c \<longleftrightarrow> char_code c div 64 \<noteq> 2"

fun back_to_rune :: "string \<Rightarrow> nat \<Rightarrow> nat" where
  "back_to_rune txt 0 = 0"
| "back_to_rune txt (Suc k) = (if rune_start (txt ! Suc k) then Suc k else back_to_rune txt k)"

definition utf8SafePrefix :: "string \<Rightarrow> int \<Rightarrow> string option" where
  "utf8SafePrefix txt keep =
     (if int (length txt) \<le> keep then Some txt
      else if keep < 0 then None
      else Some (take (back_to_rune txt (nat keep)) txt))"

record trim_state =
  hi_bytes :: int
  hi_count :: int
  lo_bytes :: int
  lo_count :: int
  best :: string

definition trim_keep :: "int \<Rightarrow> trim_state \<Rightarrow> int" where
  "trim_keep target s =
     wrap64 (lo_bytes s + tdiv (wrap64 ((target - lo_count s) * (hi_bytes s - lo_bytes s))) (hi_count s - lo_count s))"

definition trim_final :: "string \<Rightarrow> int \<Rightarrow> trim_state \<Rightarrow> string option" where
  "trim_final source target s =
     (if best s \<noteq> [] then Some (best s)
      else utf8SafePrefix source (tdiv (wrap64 (hi_bytes s * target)) (hi_count s)))"

text \<open>The first argument counts the attempts that are left.\<close>

fun trim_loop :: "nat \<Rightarrow> string \<Rightarrow> int \<Rightarrow> token_counter \<Rightarrow> trim_state \<Rightarrow> string option" where
  "trim_loop 0 source target counter s = trim_final source target s"
| "trim_loop (Suc n) source target counter s =
     (if hi_count s - lo_count s \<le> 0 then trim_final source target s
      else case utf8SafePrefix source (trim_keep target s) of
        None \<Rightarrow> None
      | Some candidate \<Rightarrow>
          if candidate = [] then Some candidate
          else case counter candidate of
            None \<Rightarrow> Some (if best s \<noteq> [] then best s else candidate)
          | Some c \<Rightarrow>
              if c = target then Some candidate
              else if c < target
              then trim_loop n source target counter (s\<lparr>best := candidate, lo_bytes := int (length candidate), lo_count := c\<rparr>)
              else trim_loop n source target counter (s\<lparr>hi_bytes := int (length candidate), hi_count := c\<rparr>))"

definition maxAttempts :: nat where "maxAttempts = 6"

definition trimToTokenBudgetWithCount :: "string \<Rightarrow> int \<Rightarrow> int \<Rightarrow> token_counter \<Rightarrow> string option" where
  "trimToTokenBudgetWithCount txt targetTokens n counter =
     trim_loop maxAttempts txt targetTokens counter
       \<lparr>hi_bytes = int (length txt), hi_count = n, lo_bytes = 0, lo_count = 0, best = []\<rparr>"

definition trimToTokenBudget :: "string \<Rightarrow> int \<Rightarrow> token_counter option \<Rightarrow> string option" where
  "trimToTokenBudget txt targetTokens tokenCounter =
     (case tokenCounter of
        None \<Rightarrow> Some txt
      | Some counter \<Rightarrow>
          if targetTokens \<le> 0 \<or> txt = [] then Some txt
          else case counter txt of
            None \<Rightarrow> Some txt
          | Some n \<Rightarrow> if n \<le> targetTokens then Some txt
                      else trimToTokenBudgetWithCount txt targetTokens n counter)"

section \<open>Padding\<close>

definition target_chars :: "int \<Rightarrow> rat \<Rightarrow> int" where
  "target_chars targetTokens charsPerToken = int_of_f64 (fmul (f64_of_int targetTokens) charsPerToken)"

text \<open>The loop that appends pieces, each followed by a space; piece \<open>k\<close> is the \<open>k\<close>-th one drawn.\<close>

function pad_loop :: "(nat \<Rightarrow> string) \<Rightarrow> nat \<Rightarrow> int \<Rightarrow> string \<Rightarrow> string" where
  "pad_loop piece k targetChars b =
     (if int (length b) < targetChars then pad_loop piece (Suc k) targetChars (b @ piece k @ '' '') else b)"
  by pat_completeness auto
termination
  by (relation "measure (\<lambda>(piece, k, targetChars, b). nat (targetChars - int (length b)))") auto

declare pad_loop.simps [simp del]

text \<open>\<open>padToTokens\<close> and \<open>padWithFaker\<close> differ in what they append.\<close>

definition pad_with :: "(nat \<Rightarrow> string) \<Rightarrow> string \<Rightarrow> int \<Rightarrow> rat \<Rightarrow> token_counter option \<Rightarrow> string option" where
  "pad_with piece base targetTokens charsPerToken tokenCounter =
     (let targetChars = target_chars targetTokens charsPerToken;
          b = (if targetChars \<le> int (length base) then base else pad_loop piece 0 targetChars (base @ '' ''))
      in case go_slice b 0 targetChars of
           None \<Rightarrow> None
         | Some kept \<Rightarrow> trimToTokenBudget kept targetTokens tokenCounter)"

definition pad_words :: "string list" where
  "pad_words = [''the'', ''of'', ''and'', ''to'', ''in'', ''is'', ''for'', ''that'', ''with'', ''on'',
     ''are'', ''be'', ''this'', ''from'', ''or'', ''an'', ''by'', ''as'', ''but'', ''not'',
     ''what'', ''all'', ''were'', ''when'', ''we'', ''there'', ''can'', ''been'', ''has'', ''more'']"

text \<open>\<open>draw k\<close> is the \<open>k\<close>-th value of \<open>rand.Intn(len(words))\<close>.\<close>

definition padToTokens :: "(nat \<Rightarrow> nat) \<Rightarrow> string \<Rightarrow> int \<Rightarrow> rat \<Rightarrow> token_counter option \<Rightarrow> string option" where
  "padToTokens draw base targetTokens charsPerToken tokenCounter =
     pad_with (\<lambda>k. pad_words ! (draw k mod length pad_words)) base targetTokens charsPerToken tokenCounter"

text \<open>\<open>sentence k\<close> is the \<open>k\<close>-th sentence of the faker.\<close>

definition padWithFaker :: "(nat \<Rightarrow> string) \<Rightarrow> string \<Rightarrow> int \<Rightarrow> rat \<Rightarrow> token_counter option \<Rightarrow> string option" where
  "padWithFaker sentence base targetTokens charsPerToken tokenCounter =
     pad_with sentence base targetTokens charsPerToken tokenCounter"

section \<open>Turns\<close>

abbreviation user_msg :: "string \<Rightarrow> Message" where
  "user_msg c \<equiv> \<lparr>msg_role = ''user'', msg_content = c\<rparr>"

abbreviation assistant_msg :: "string \<Rightarrow> Message" where
  "assistant_msg c \<equiv> \<lparr>msg_role = ''assistant'', msg_content = c\<rparr>"

text \<open>The loop the three generators share: turn \<open>t\<close> of \<open>n\<close> appends a user message, snapshots the history, and between turns
  appends an assistant message. The contents may advance a state.\<close>

fun build_turns ::
    "(nat \<Rightarrow> 's \<Rightarrow> (string \<times> 's) option) \<Rightarrow> (nat \<Rightarrow> 's \<Rightarrow> (string \<times> 's) option) \<Rightarrow> nat \<Rightarrow> nat \<Rightarrow> Message list \<Rightarrow> 's \<Rightarrow>
     (Message list list \<times> 's) option" where
  "build_turns user asst t 0 history s = Some ([], s)"
| "build_turns user asst t (Suc n) history s =
     (case user t s of
        None \<Rightarrow> None
      | Some (u, s1) \<Rightarrow>
          let history' = history @ [user_msg u]
          in if n = 0 then Some ([history'], s1)
             else case asst t s1 of
               None \<Rightarrow> None
             | Some (a, s2) \<Rightarrow>
                 (case build_turns user asst (Suc t) n (history' @ [assistant_msg a]) s2 of
                    None \<Rightarrow> None
                  | Some (rest, s3) \<Rightarrow> Some (history' # rest, s3)))"

definition turns_conversation :: "Message list list \<Rightarrow> int \<Rightarrow> Conversation" where
  "turns_conversation ts osl = \<lparr>Turns = ts, Prompt = [], MaxTokens = osl, Stop = [], Temperature = None, ExpectedAnswer = []\<rparr>"


section \<open>Synthetic conversations\<close>

text \<open>The fields of \<open>Synthetic\<close> and \<open>Faker\<close>; the faker also has the sequence number that seeds it.\<close>

record generated =
  gen_isl :: int
  gen_subsequent :: int
  gen_osl :: int
  gen_turns :: int
  gen_cpt :: rat
  gen_counter :: "token_counter option"
  gen_seq :: nat

definition new_generated :: "int \<Rightarrow> int \<Rightarrow> int \<Rightarrow> rat \<Rightarrow> token_counter option \<Rightarrow> generated" where
  "new_generated isl0 osl turns charsPerToken tokenCounter =
     \<lparr>gen_isl = isl0, gen_subsequent = 0, gen_osl = osl, gen_turns = (if turns < 1 then 1 else turns), gen_cpt = charsPerToken,
      gen_counter = tokenCounter, gen_seq = 0\<rparr>"

definition NewSyntheticWithTokenCounter :: "int \<Rightarrow> int \<Rightarrow> int \<Rightarrow> rat \<Rightarrow> token_counter option \<Rightarrow> generated" where
  "NewSyntheticWithTokenCounter = new_generated"

definition NewFakerWithTokenCounter :: "int \<Rightarrow> int \<Rightarrow> int \<Rightarrow> rat \<Rightarrow> token_counter option \<Rightarrow> generated" where
  "NewFakerWithTokenCounter = new_generated"

definition turnISL :: "int \<Rightarrow> int \<Rightarrow> nat \<Rightarrow> int" where
  "turnISL isl0 subsequent t = (if 0 < t \<and> 0 < subsequent then subsequent else isl0)"

definition turn_prompt :: "nat \<Rightarrow> int \<Rightarrow> string" where
  "turn_prompt t osl = ''Turn '' @ itoa (int t + 1) @ '': Please respond with approximately '' @ itoa osl @ '' tokens.''"

text \<open>\<open>draw c k\<close> is the \<open>k\<close>-th random number of the \<open>c\<close>-th message.\<close>

definition synthetic_next :: "(nat \<Rightarrow> nat \<Rightarrow> nat) \<Rightarrow> generated \<Rightarrow> Conversation option" where
  "synthetic_next draw s =
     map_option (\<lambda>(ts, _). turns_conversation ts (gen_osl s))
       (build_turns
         (\<lambda>t u. map_option (\<lambda>c. (c, u)) (padToTokens (draw (2 * t)) (turn_prompt t (gen_osl s))
                 (turnISL (gen_isl s) (gen_subsequent s) t) (gen_cpt s) (gen_counter s)))
         (\<lambda>t u. map_option (\<lambda>c. (c, u)) (padToTokens (draw (2 * t + 1)) ''This is a simulated assistant response.''
                 (gen_osl s) (gen_cpt s) (gen_counter s)))
         0 (nat (gen_turns s)) [] ())"

section \<open>Faker conversations\<close>

text \<open>The templates of \<open>generatePrompt\<close>; \<open>w k\<close> is the \<open>k\<close>-th text the template draws from the faker.\<close>

definition generatePrompt :: "nat \<Rightarrow> (nat \<Rightarrow> string) \<Rightarrow> string" where
  "generatePrompt idx w =
     (if idx = 0 then ''Hello, my name is '' @ w 0 @ '' '' @ w 1 @ '' from '' @ w 2 @ '', '' @ w 3 @ ''. '' @ w 4
      else if idx = 1 then ''I'' @ [CHR 0x27] @ ''m working on a project about '' @ w 0 @ ''. Can you explain '' @ w 1 @ '' in detail?''
      else if idx = 2 then ''As a '' @ w 0 @ '' at '' @ w 1 @ '', I need help with the following: '' @ w 2
      else if idx = 3 then ''Write a '' @ w 0 @ '' about '' @ w 1 @ '' who lives in '' @ w 2 @
        ''. The story should explore themes of '' @ w 3 @ ''.''
      else if idx = 4 then ''Please analyze this situation: '' @ w 0 @ ''. Consider the perspective of someone from '' @ w 1 @
        '' who works as a '' @ w 2 @ ''.''
      else if idx = 5 then ''Translate the following concept into simple terms: '' @ w 0 @ ''. '' @ w 1
      else ''I'' @ [CHR 0x27] @ ''d like to discuss '' @ w 0 @ ''. Specifically, '' @ w 1 @ '' How does this relate to '' @ w 2 @ ''?'')"

text \<open>What the faker seeded with \<open>seed\<close> draws for turn \<open>t\<close>: the template, its words, and the sentences that pad the user
  and the assistant message.\<close>

record faker_draws =
  fk_template :: "nat \<Rightarrow> nat"
  fk_words :: "nat \<Rightarrow> nat \<Rightarrow> string"
  fk_user :: "nat \<Rightarrow> nat \<Rightarrow> string"
  fk_assistant :: "nat \<Rightarrow> nat \<Rightarrow> string"

definition faker_next :: "(nat \<Rightarrow> faker_draws) \<Rightarrow> generated \<Rightarrow> (Conversation \<times> generated) option" where
  "faker_next gofakeit f =
     (let seed = gen_seq f + 1; fk = gofakeit seed
      in map_option (\<lambda>(ts, _). (turns_conversation ts (gen_osl f), f\<lparr>gen_seq := seed\<rparr>))
       (build_turns
         (\<lambda>t u. map_option (\<lambda>c. (c, u)) (padWithFaker (fk_user fk t) (generatePrompt (fk_template fk t mod 7) (fk_words fk t))
                 (turnISL (gen_isl f) (gen_subsequent f) t) (gen_cpt f) (gen_counter f)))
         (\<lambda>t u. map_option (\<lambda>c. (c, u)) (padWithFaker (fk_assistant fk t) ''Here is my response.''
                 (gen_osl f) (gen_cpt f) (gen_counter f)))
         0 (nat (gen_turns f)) [] ()))"

section \<open>Corpus conversations\<close>

record corpus =
  co_isl :: int
  co_subsequent :: int
  co_osl :: int
  co_turns :: int
  co_cpt :: rat
  co_counter :: "token_counter option"
  co_text :: string
  co_offset :: int

text \<open>\<open>uint64\<close> arithmetic.\<close>

definition u64 :: "int \<Rightarrow> int" where "u64 x = x mod 2 ^ 64"

definition fetchText :: "int \<Rightarrow> corpus \<Rightarrow> (string \<times> corpus) option" where
  "fetchText nBytes c =
     (let textLen = int (length (co_text c));
          added = u64 (co_offset c + u64 nBytes);
          start = u64 (added - u64 nBytes) mod textLen;
          stop = u64 (start + u64 nBytes);
          c' = c\<lparr>co_offset := added\<rparr>
      in if stop \<le> textLen then map_option (\<lambda>t. (t, c')) (go_slice (co_text c) start stop)
         else let remaining = nBytes - (textLen - start); wrapped = u64 remaining mod textLen
              in Some (drop (nat start) (co_text c) @ take (nat wrapped) (co_text c), c'))"

text \<open>The part of \<open>nextChunk\<close> after the first count: extend when the text is too short, then trim.\<close>

definition extend_chunk :: "int \<Rightarrow> token_counter \<Rightarrow> string \<Rightarrow> int \<Rightarrow> corpus \<Rightarrow> (string \<times> corpus) option" where
  "extend_chunk targetTokens counter txt actualTokens c =
     (if actualTokens < targetTokens \<and> 0 < actualTokens
      then let bytesPerToken = fdiv (f64_of_int (int (length txt))) (f64_of_int actualTokens);
               extra = wrap64 (int_of_f64 (fmul (f64_of_int (targetTokens - actualTokens)) bytesPerToken) * 2)
           in case fetchText extra c of
                None \<Rightarrow> None
              | Some (further, c') \<Rightarrow>
                  (case counter (txt @ further) of
                     None \<Rightarrow> Some (txt @ further, c')
                   | Some n \<Rightarrow>
                       if n \<le> targetTokens then Some (txt @ further, c')
                       else map_option (\<lambda>t. (t, c')) (trimToTokenBudgetWithCount (txt @ further) targetTokens n counter))
      else if actualTokens \<le> targetTokens then Some (txt, c)
      else map_option (\<lambda>t. (t, c)) (trimToTokenBudgetWithCount txt targetTokens actualTokens counter))"

definition nextChunk :: "int \<Rightarrow> corpus \<Rightarrow> (string \<times> corpus) option" where
  "nextChunk targetTokens c =
     (let estimatedBytes = target_chars targetTokens (co_cpt c)
      in case co_counter c of
           None \<Rightarrow> fetchText estimatedBytes c
         | Some counter \<Rightarrow>
             (case fetchText (wrap64 (estimatedBytes * 2)) c of
                None \<Rightarrow> None
              | Some (txt, c') \<Rightarrow>
                  (case counter txt of
                     None \<Rightarrow> if estimatedBytes \<le> int (length txt)
                             then map_option (\<lambda>t. (t, c')) (go_slice txt 0 estimatedBytes)
                             else Some (txt, c')
                   | Some actualTokens \<Rightarrow> extend_chunk targetTokens counter txt actualTokens c')))"

definition corpus_next :: "corpus \<Rightarrow> (Conversation \<times> corpus) option" where
  "corpus_next c =
     map_option (\<lambda>(ts, c'). (turns_conversation ts (co_osl c), c'))
       (build_turns (\<lambda>t. nextChunk (turnISL (co_isl c) (co_subsequent c) t)) (\<lambda>t. nextChunk (co_osl c))
         0 (nat (co_turns c)) [] c)"

section \<open>Loading a corpus\<close>

text \<open>The tree below the corpus path: a file has its size and, unless reading fails, its bytes; \<open>FsError\<close> is an
  entry the walk reports with an error.\<close>

datatype fs_tree = FsFile string int "string option" | FsDir string "fs_tree list" | FsError

definition text_exts :: "string list" where
  "text_exts = [''.txt'', ''.md'', ''.py'', ''.go'', ''.js'', ''.ts'', ''.java'', ''.c'', ''.h'', ''.cpp'', ''.rs'', ''.rb'',
     ''.sh'', ''.yaml'', ''.yml'', ''.json'', ''.toml'', ''.cfg'', ''.ini'', ''.xml'', ''.html'', ''.css'', ''.sql'', ''.r'',
     ''.scala'', ''.kt'', ''.swift'', ''.ex'', ''.erl'', ''.hs'', ''.ml'', ''.lisp'', ''.el'', ''.vim'', ''.lua'', ''.pl'',
     ''.pm'', ''.tex'', ''.rst'', ''.org'']"

definition skipped_dir :: "string \<Rightarrow> bool" where
  "skipped_dir name \<longleftrightarrow> has_prefix name ''.'' \<or> name \<in> {''vendor'', ''node_modules'', ''__pycache__''}"

definition file_text :: "string \<Rightarrow> int \<Rightarrow> string option \<Rightarrow> string" where
  "file_text name nbytes data =
     (if to_lower (path_ext name) \<notin> set text_exts then []
      else if 2 ^ 20 < nbytes then []
      else case data of None \<Rightarrow> [] | Some d \<Rightarrow> d @ [CHR 0x0A])"

fun walk_text :: "fs_tree \<Rightarrow> string" where
  "walk_text (FsFile name nbytes data) = file_text name nbytes data"
| "walk_text (FsDir name entries) = (if skipped_dir name then [] else concat (map walk_text entries))"
| "walk_text FsError = []"

datatype corpus_error = LoadingCorpus string | EmptyCorpus string

definition loadCorpusText :: "(string \<Rightarrow> fs_tree) \<Rightarrow> string \<Rightarrow> string option" where
  "loadCorpusText fs path =
     (case fs path of
        FsError \<Rightarrow> None
      | FsFile _ _ data \<Rightarrow> data
      | FsDir name entries \<Rightarrow> Some (walk_text (FsDir name entries)))"

text \<open>\<open>start\<close> is the random offset below the length of the text.\<close>

definition NewCorpus ::
    "(string \<Rightarrow> fs_tree) \<Rightarrow> (nat \<Rightarrow> nat) \<Rightarrow> string \<Rightarrow> int \<Rightarrow> int \<Rightarrow> int \<Rightarrow> rat \<Rightarrow> token_counter option \<Rightarrow> (corpus_error, corpus) result" where
  "NewCorpus fs intn corpusPath isl0 osl turns charsPerToken tokenCounter =
     (case loadCorpusText fs corpusPath of
        None \<Rightarrow> Inl (LoadingCorpus corpusPath)
      | Some t \<Rightarrow>
          if t = [] then Inl (EmptyCorpus corpusPath)
          else Inr \<lparr>co_isl = isl0, co_subsequent = 0, co_osl = osl, co_turns = (if turns < 1 then 1 else turns),
                    co_cpt = charsPerToken, co_counter = tokenCounter, co_text = t, co_offset = int (intn (length t) mod length t)\<rparr>)"


section \<open>Facts about trimming\<close>

lemma back_to_rune_le: "back_to_rune txt k \<le> k"
  by (induction "txt" k rule: back_to_rune.induct) auto

lemma back_to_rune_start: "back_to_rune txt k = 0 \<or> rune_start (txt ! back_to_rune txt k)"
  by (induction "txt" k rule: back_to_rune.induct) auto

lemma back_to_rune_ge: "j \<le> k \<Longrightarrow> j = 0 \<or> rune_start (txt ! j) \<Longrightarrow> j \<le> back_to_rune txt k"
  by (induction "txt" k rule: back_to_rune.induct) (auto simp: le_Suc_eq)

text \<open>A prefix that does not split a multi-byte character.\<close>

definition rune_prefix :: "string \<Rightarrow> string \<Rightarrow> bool" where
  "rune_prefix r txt \<longleftrightarrow>
     prefix r txt \<and> (length r = 0 \<or> length r = length txt \<or> rune_start (txt ! length r))"

lemma utf8SafePrefix_prefix:
  assumes "0 \<le> keep" and "keep < int (length txt)"
  obtains r where "utf8SafePrefix txt keep = Some r" and "rune_prefix r txt" and "int (length r) \<le> keep"
    and "\<And>j. int j \<le> keep \<Longrightarrow> j = 0 \<or> rune_start (txt ! j) \<Longrightarrow> j \<le> length r"
proof -
  let ?k = "back_to_rune txt (nat keep)"
  have "?k \<le> nat keep" by (rule back_to_rune_le)
  then have k: "int ?k \<le> keep" "?k < length txt" using assms by linarith+
  have "utf8SafePrefix txt keep = Some (take ?k txt)" using assms by (simp add: utf8SafePrefix_def)
  moreover have "rune_prefix (take ?k txt) txt"
    using k(2) back_to_rune_start [of "txt" "nat keep"] by (auto simp: rune_prefix_def take_is_prefix)
  moreover have "j \<le> length (take ?k txt)" if "int j \<le> keep" "j = 0 \<or> rune_start (txt ! j)" for j
    using back_to_rune_ge [of j "nat keep" "txt"] that k(2) by simp
  ultimately show thesis using that k by simp
qed

text \<open>The invariant of the trimming loop: the target lies strictly between the counts of the two prefixes.\<close>

definition trim_inv :: "string \<Rightarrow> int \<Rightarrow> int \<Rightarrow> token_counter \<Rightarrow> trim_state \<Rightarrow> bool" where
  "trim_inv source target n counter s \<longleftrightarrow>
     0 \<le> lo_bytes s \<and> lo_bytes s \<le> hi_bytes s \<and> hi_bytes s \<le> int (length source) \<and> lo_bytes s < int (length source) \<and>
     0 \<le> lo_count s \<and> lo_count s < target \<and> target < hi_count s \<and>
     (hi_bytes s = int (length source) \<and> hi_count s = n \<or> counter (take (nat (hi_bytes s)) source) = Some (hi_count s)) \<and>
     (best s = [] \<and> lo_bytes s = 0 \<or>
      rune_prefix (best s) source \<and> int (length (best s)) = lo_bytes s \<and> counter (best s) = Some (lo_count s))"

lemma mult_div_le_int: "0 < d \<Longrightarrow> d * (x div d) \<le> (x :: int)"
  using pos_mod_sign [of d x] mult_div_mod_eq [of d x] by linarith

lemma div_proper:
  fixes t w d :: int
  assumes "0 \<le> t" and "t < d" and "0 \<le> w"
  shows "0 \<le> t * w div d" and "t * w div d \<le> w" and "0 < w \<Longrightarrow> t * w div d < w"
proof -
  have d: "0 < d" using assms by linarith
  show "0 \<le> t * w div d" using assms d by (simp add: pos_imp_zdiv_nonneg_iff)
  have "t * w \<le> d * w" using assms by (intro mult_right_mono) auto
  then have "t * w div d \<le> d * w div d" using d by (rule zdiv_mono1)
  then show "t * w div d \<le> w" using d by simp
  assume "0 < w"
  then have "t * w < d * w" using assms by (intro mult_strict_right_mono)
  moreover have "d * (t * w div d) \<le> t * w" using d by (rule mult_div_le_int)
  ultimately have "d * (t * w div d) < d * w" by linarith
  then show "t * w div d < w" using d by (simp add: mult_less_cancel_left_pos)
qed

lemma trim_keep_bounds:
  assumes "trim_inv source target n counter s" and "target * int (length source) < 2 ^ 63" and "int (length source) < 2 ^ 62"
  shows "lo_bytes s \<le> trim_keep target s" and "trim_keep target s < int (length source)" and "trim_keep target s \<le> hi_bytes s"
proof -
  define t w d where "t = target - lo_count s" and "w = hi_bytes s - lo_bytes s" and "d = hi_count s - lo_count s"
  have b: "0 \<le> t" "t < d" "0 \<le> w" "t \<le> target" "w \<le> int (length source)"
    using assms(1) by (auto simp: trim_inv_def t_def w_def d_def)
  note p = div_proper [OF b(1-3)]
  have "t * w \<le> target * int (length source)" using b by (intro mult_mono) auto
  moreover have "0 \<le> t * w" using b by simp
  ultimately have tw: "in64 (t * w)" using assms(2) unfolding in64_def by linarith
  have "in64 (lo_bytes s + t * w div d)"
    using p(1,2) assms(1,3) b(5) by (auto simp: in64_def trim_inv_def)
  then have k: "trim_keep target s = lo_bytes s + t * w div d"
    using tw b \<open>0 \<le> t * w\<close> by (simp add: trim_keep_def tdiv_nonneg flip: t_def w_def d_def)
  show "lo_bytes s \<le> trim_keep target s" using p(1) by (simp add: k)
  show "trim_keep target s \<le> hi_bytes s" using p(2) by (simp add: k w_def)
  show "trim_keep target s < int (length source)"
    using p assms(1) by (cases "0 < w") (auto simp: k w_def trim_inv_def)
qed


text \<open>What a trimmed text promises: it is shorter, splits no character, and was measured to fit, could not be
  measured, or is cut in proportion from a prefix measured over the budget.\<close>

definition trim_ok :: "string \<Rightarrow> int \<Rightarrow> int \<Rightarrow> token_counter \<Rightarrow> string \<Rightarrow> bool" where
  "trim_ok source target n counter r \<longleftrightarrow>
     rune_prefix r source \<and> length r < length source \<and>
     (r = [] \<or> counter r = None \<or> (\<exists>c. counter r = Some c \<and> c \<le> target) \<or>
      (\<exists>h hc. target < hc \<and> (h = int (length source) \<and> hc = n \<or> counter (take (nat h) source) = Some hc) \<and>
              int (length r) * hc \<le> h * target))"

lemma trim_final_ok:
  assumes "trim_inv source target n counter s" and "target * int (length source) < 2 ^ 63"
  shows "\<exists>r. trim_final source target s = Some r \<and> trim_ok source target n counter r"
proof (cases "best s = []")
  case False
  with assms(1) show ?thesis by (auto simp: trim_final_def trim_ok_def trim_inv_def intro: order.strict_implies_order)
next
  case True
  have b: "0 \<le> target" "target < hi_count s" "0 \<le> hi_bytes s" "hi_bytes s \<le> int (length source)" "0 < int (length source)"
    using assms(1) by (auto simp: trim_inv_def)
  define q where "q = target * hi_bytes s div hi_count s"
  note p = div_proper [OF b(1-3), folded q_def]
  have "target * hi_bytes s \<le> target * int (length source)" using b by (intro mult_left_mono) auto
  moreover have "0 \<le> target * hi_bytes s" using b by simp
  ultimately have "in64 (target * hi_bytes s)" using assms(2) unfolding in64_def by linarith
  then have q: "tdiv (wrap64 (hi_bytes s * target)) (hi_count s) = q"
    using b \<open>0 \<le> target * hi_bytes s\<close> by (simp add: tdiv_nonneg q_def mult.commute)
  have "q < int (length source)" using p(2,3) b by (cases "0 < hi_bytes s") linarith+
  then obtain r where r: "utf8SafePrefix source q = Some r" "rune_prefix r source" "int (length r) \<le> q"
    using utf8SafePrefix_prefix [OF p(1)] by blast
  have "int (length r) * hi_count s \<le> q * hi_count s" using r(3) b by (intro mult_right_mono) auto
  also have "\<dots> \<le> hi_bytes s * target"
    using mult_div_le_int [of "hi_count s" "target * hi_bytes s"] b by (simp add: q_def mult.commute)
  finally have "int (length r) * hi_count s \<le> hi_bytes s * target" .
  moreover have "length r < length source" using r(3) \<open>q < int (length source)\<close> by linarith
  moreover have "hi_bytes s = int (length source) \<and> hi_count s = n \<or> counter (take (nat (hi_bytes s)) source) = Some (hi_count s)"
    using assms(1) by (simp add: trim_inv_def)
  ultimately have "trim_ok source target n counter r"
    unfolding trim_ok_def using r(2) b(2) by blast
  with r(1) True q show ?thesis by (simp add: trim_final_def)
qed

lemma trim_loop_ok:
  assumes "trim_inv source target n counter s" and "target * int (length source) < 2 ^ 63" and "int (length source) < 2 ^ 62"
    and "\<And>x c. counter x = Some c \<Longrightarrow> 0 \<le> c"
  shows "\<exists>r. trim_loop k source target counter s = Some r \<and> trim_ok source target n counter r"
  using assms(1)
proof (induction k arbitrary: s)
  case 0
  with trim_final_ok assms(2) show ?case by simp
next
  case (Suc k)
  note inv = Suc.prems and kb = trim_keep_bounds [OF Suc.prems assms(2,3)]
  have "0 \<le> trim_keep target s" using kb(1) inv by (simp add: trim_inv_def)
  then obtain c where c: "utf8SafePrefix source (trim_keep target s) = Some c" "rune_prefix c source"
      "int (length c) \<le> trim_keep target s"
    and bk: "\<And>j. int j \<le> trim_keep target s \<Longrightarrow> j = 0 \<or> rune_start (source ! j) \<Longrightarrow> j \<le> length c"
    using utf8SafePrefix_prefix [OF _ kb(2)] by blast
  have short: "length c < length source" using c(3) kb(2) by linarith
  have takec: "take (length c) source = c" using c(2) by (metis append_eq_conv_conj prefixE rune_prefix_def)
  have "lo_bytes s = int (length (best s))" using inv by (auto simp: trim_inv_def)
  then have "nat (lo_bytes s) = 0 \<or> rune_start (source ! nat (lo_bytes s))"
    using inv by (auto simp: trim_inv_def rune_prefix_def)
  then have lo: "lo_bytes s \<le> int (length c)" using bk [of "nat (lo_bytes s)"] kb(1) inv by (auto simp: trim_inv_def)
  show ?case
  proof (cases "c = [] \<or> counter c = None")
    case True
    then have "trim_ok source target n counter c" using c(2) short by (auto simp: trim_ok_def)
    moreover have "trim_ok source target n counter (best s)" if "best s \<noteq> []"
      using that inv by (auto simp: trim_ok_def trim_inv_def intro: order.strict_implies_order)
    ultimately show ?thesis using True c(1) inv by (auto simp: trim_inv_def)
  next
    case False
    then obtain m where m: "c \<noteq> []" "counter c = Some m" by auto
    have under: "trim_inv source target n counter (s\<lparr>best := c, lo_bytes := int (length c), lo_count := m\<rparr>)" if "m < target"
      using that inv c short kb(3) m assms(4) [OF m(2)] by (auto simp: trim_inv_def)
    have over: "trim_inv source target n counter (s\<lparr>hi_bytes := int (length c), hi_count := m\<rparr>)" if "target < m"
      using that inv c lo short m by (auto simp: trim_inv_def takec)
    have "trim_ok source target n counter c" if "m = target" using that c(2) short m by (auto simp: trim_ok_def)
    then show ?thesis using Suc.IH [OF under] Suc.IH [OF over] c(1) m inv by (auto simp: trim_inv_def not_less)
  qed
qed

text \<open>
  Trimming a text to a token budget never panics and needs at most six further counts: the result is a shorter prefix
  that splits no UTF-8 character, and it was measured to fit the budget, could not be measured, or is cut in proportion from
  a prefix measured over the budget.
\<close>

theorem trim_to_budget:
  assumes "txt \<noteq> []" and "0 < target" and "target < n" and "target * int (length txt) < 2 ^ 63"
    and "int (length txt) < 2 ^ 62" and "\<And>x c. counter x = Some c \<Longrightarrow> 0 \<le> c"
  shows "\<exists>r. trimToTokenBudgetWithCount txt target n counter = Some r \<and> rune_prefix r txt \<and> length r < length txt \<and>
     (r = [] \<or> counter r = None \<or> (\<exists>c. counter r = Some c \<and> c \<le> target) \<or>
      (\<exists>h hc. target < hc \<and> (h = int (length txt) \<and> hc = n \<or> counter (take (nat h) txt) = Some hc) \<and>
              int (length r) * hc \<le> h * target))"
proof -
  have "trim_inv txt target n counter \<lparr>hi_bytes = int (length txt), hi_count = n, lo_bytes = 0, lo_count = 0, best = []\<rparr>"
    using assms(1-3) by (simp add: trim_inv_def)
  from trim_loop_ok [OF this assms(4-6), where k = maxAttempts] show ?thesis
    by (simp add: trimToTokenBudgetWithCount_def trim_ok_def)
qed

theorem trim_to_budget_witness:
  "trimToTokenBudgetWithCount ''abcdef'' 2 6 (\<lambda>x. Some (int (length x))) = Some ''ab'' \<and>
   (\<exists>r. trimToTokenBudgetWithCount ''abcdef'' 2 6 (\<lambda>x. Some (int (length x))) = Some r \<and> rune_prefix r ''abcdef'')"
proof
  show "trimToTokenBudgetWithCount ''abcdef'' 2 6 (\<lambda>x. Some (int (length x))) = Some ''ab''" by code_simp
  show "\<exists>r. trimToTokenBudgetWithCount ''abcdef'' 2 6 (\<lambda>x. Some (int (length x))) = Some r \<and> rune_prefix r ''abcdef''"
    using trim_to_budget [of "''abcdef''" 2 6 "\<lambda>x. Some (int (length x))"] by auto
qed


section \<open>Reading the corpus\<close>

lemma u64_id: "0 \<le> x \<Longrightarrow> x < 2 ^ 64 \<Longrightarrow> u64 x = x"
  by (simp add: u64_def)

lemma u64_add_diff: "0 \<le> x \<Longrightarrow> x < 2 ^ 64 \<Longrightarrow> u64 (u64 (x + y) - y) = x"
  by (simp add: u64_def mod_simps)

text \<open>A corpus whose offset is a \<open>uint64\<close> and whose text is of a practical size.\<close>

definition corpus_text_ok :: "corpus \<Rightarrow> bool" where
  "corpus_text_ok c \<longleftrightarrow> co_text c \<noteq> [] \<and> int (length (co_text c)) \<le> 2 ^ 30 \<and> 0 \<le> co_offset c \<and> co_offset c < 2 ^ 64"

lemma fetchText_eq:
  assumes "corpus_text_ok c" and "0 \<le> n" and "n < 2 ^ 62"
  defines "L \<equiv> int (length (co_text c))" and "start \<equiv> co_offset c mod int (length (co_text c))"
  shows "fetchText n c =
     Some (if start + n \<le> L then take (nat n) (drop (nat start) (co_text c))
           else drop (nat start) (co_text c) @ take (nat ((n - (L - start)) mod L)) (co_text c),
           c\<lparr>co_offset := u64 (co_offset c + n)\<rparr>)"
proof -
  have L: "0 < L" "L \<le> 2 ^ 30" using assms(1) by (auto simp: corpus_text_ok_def L_def)
  have st: "0 \<le> start" "start < L" using L by (simp_all add: start_def flip: L_def)
  have n: "u64 n = n" using assms(2,3) by (intro u64_id) auto
  have s: "u64 (u64 (co_offset c + n) - n) mod L = start"
    using assms(1) by (simp add: u64_add_diff corpus_text_ok_def start_def L_def)
  have e: "u64 (start + n) = start + n" using st L assms(2,3) by (intro u64_id) auto
  have "u64 (n - (L - start)) = n - (L - start)" if "\<not> start + n \<le> L"
    using that st assms(3) L by (intro u64_id) auto
  then show ?thesis
    using st assms(2) by (auto simp: fetchText_def Let_def n s e go_slice_def simp flip: L_def)
qed

lemma fetch_text_cyclic_lemma:
  assumes "corpus_text_ok c" and "0 \<le> n" and "n < 2 ^ 62"
  shows "\<exists>t. fetchText n c = Some (t, c\<lparr>co_offset := u64 (co_offset c + n)\<rparr>) \<and>
     (\<forall>i < length t. t ! i = co_text c ! nat ((co_offset c + int i) mod int (length (co_text c)))) \<and>
     int (length t) \<le> n \<and>
     (int (length t) = n \<longleftrightarrow> co_offset c mod int (length (co_text c)) + n < 2 * int (length (co_text c)))"
proof -
  define L start where "L = int (length (co_text c))" and "start = co_offset c mod L"
  have L: "0 < L" using assms(1) by (auto simp: corpus_text_ok_def L_def)
  then have st: "0 \<le> start" "start < L" by (simp_all add: start_def)
  have sl: "nat start \<le> length (co_text c)" using st by (simp add: L_def)
  have idx: "(co_offset c + int i) mod L = (start + int i) mod L" for i by (simp add: start_def mod_simps)
  note f = fetchText_eq [OF assms, folded L_def, folded start_def]
  show ?thesis
  proof (cases "start + n \<le> L")
    case True
    let ?t = "take (nat n) (drop (nat start) (co_text c))"
    have l: "int (length ?t) = n" using True st assms(2) by (simp add: L_def)
    have "?t ! i = co_text c ! nat ((co_offset c + int i) mod L)" if "i < length ?t" for i
    proof -
      have "int i < n" using that l by linarith
      then have "start + int i < L" using True by linarith
      then show ?thesis using that st sl by (simp add: idx nat_add_distrib)
    qed
    with f True l L show ?thesis by (auto simp flip: L_def start_def)
  next
    case False
    define r where "r = n - (L - start)"
    have r: "0 < r" using False by (simp add: r_def)
    have m: "0 \<le> r mod L" "r mod L < L" "r mod L \<le> r" using L r by (simp_all add: zmod_le_nonneg_dividend)
    let ?t = "drop (nat start) (co_text c) @ take (nat (r mod L)) (co_text c)"
    have l: "int (length ?t) = (L - start) + r mod L" using st m by (simp add: L_def min_def)
    have "r mod L = r \<longleftrightarrow> r < L" using L r by (metis m(2) mod_pos_pos_trivial less_imp_le)
    then have exact: "int (length ?t) = n \<longleftrightarrow> start + n < 2 * L" using l by (auto simp: r_def)
    have "?t ! i = co_text c ! nat ((co_offset c + int i) mod L)" if i: "i < length ?t" for i
    proof (cases "i < length (co_text c) - nat start")
      case True
      then have "start + int i < L" using st by (simp add: L_def)
      with True st sl show ?thesis by (simp add: idx nth_append nat_add_distrib)
    next
      case False
      have b: "L \<le> start + int i" "start + int i < 2 * L" using False i l m(2) st by (auto simp: L_def)
      then have "(start + int i) mod L = start + int i - L"
        using st by (metis L add_diff_cancel_left' diff_add_cancel diff_ge_0_iff_ge less_diff_eq mod_add_self2 mod_pos_pos_trivial mult_2)
      moreover have "nat (start + int i - L) = i - (length (co_text c) - nat start)" using b st by (simp add: L_def)
      moreover have "i - (length (co_text c) - nat start) < nat (r mod L)"
        using i False by (metis length_append length_drop length_take less_diff_conv2 linorder_not_less min_less_iff_conj add.commute)
      ultimately show ?thesis using False by (simp add: idx nth_append)
    qed
    moreover have "int (length ?t) \<le> n" using l m(3) by (simp add: r_def)
    ultimately show ?thesis using f False exact by (auto simp flip: L_def start_def r_def)
  qed
qed


text \<open>
  The text a corpus hands out is read cyclically from the shared offset, and the offset advances by the number of bytes asked
  for. All of the bytes asked for are returned exactly when the read ends before the second end of the text; a longer read
  returns fewer bytes.
\<close>

theorem fetch_text_cyclic:
  assumes "corpus_text_ok c" and "0 \<le> n" and "n < 2 ^ 62"
  shows "\<exists>t. fetchText n c = Some (t, c\<lparr>co_offset := u64 (co_offset c + n)\<rparr>) \<and>
     (\<forall>i < length t. t ! i = co_text c ! nat ((co_offset c + int i) mod int (length (co_text c)))) \<and>
     int (length t) \<le> n \<and>
     (int (length t) = n \<longleftrightarrow> co_offset c mod int (length (co_text c)) + n < 2 * int (length (co_text c)))"
  using assms by (rule fetch_text_cyclic_lemma)

definition tiny_corpus :: corpus where
  "tiny_corpus = \<lparr>co_isl = 1, co_subsequent = 0, co_osl = 1, co_turns = 1, co_cpt = 4, co_counter = None, co_text = ''abc'',
     co_offset = 2\<rparr>"

theorem fetch_text_cyclic_witness:
  "map_option fst (fetchText 2 tiny_corpus) = Some ''ca'' \<and> map_option fst (fetchText 7 tiny_corpus) = Some ''c'' \<and>
   (\<exists>t. fetchText 2 tiny_corpus = Some (t, tiny_corpus\<lparr>co_offset := u64 (co_offset tiny_corpus + 2)\<rparr>) \<and> int (length t) = 2)"
proof (intro conjI)
  show "map_option fst (fetchText 2 tiny_corpus) = Some ''ca''" by code_simp
  show "map_option fst (fetchText 7 tiny_corpus) = Some ''c''" by code_simp
  have ok: "corpus_text_ok tiny_corpus" by code_simp
  have len: "co_offset tiny_corpus mod int (length (co_text tiny_corpus)) + 2 < 2 * int (length (co_text tiny_corpus))" by code_simp
  from fetch_text_cyclic [OF ok, of 2] len
  show "\<exists>t. fetchText 2 tiny_corpus = Some (t, tiny_corpus\<lparr>co_offset := u64 (co_offset tiny_corpus + 2)\<rparr>) \<and> int (length t) = 2"
    by auto
qed

text \<open>A corpus directory that is hidden, such as the path of the current directory, is skipped as a whole.\<close>

lemma hidden_root_is_empty:
  assumes "fs path = FsDir name entries" and "has_prefix name ''.''"
  shows "NewCorpus fs intn path isl0 osl turns cpt counter = Inl (EmptyCorpus path)"
  using assms by (simp add: NewCorpus_def loadCorpusText_def skipped_dir_def)

section \<open>Shape of the turns\<close>

text \<open>Turn \<open>k\<close> of a conversation repeats the earlier messages and ends with a new user message.\<close>

definition cumulative :: "Message list list \<Rightarrow> bool" where
  "cumulative ts \<longleftrightarrow>
     (\<forall>k < length ts. length (ts ! k) = 2 * k + 1 \<and> msg_role (last (ts ! k)) = ''user'' \<and>
        (Suc k < length ts \<longrightarrow> prefix (ts ! k) (ts ! Suc k)))"

lemma build_turns_shape:
  "build_turns user asst t n h s = Some (ts, s') \<Longrightarrow>
     length ts = n \<and> (\<forall>k < n. length (ts ! k) = length h + 2 * k + 1 \<and> msg_role (last (ts ! k)) = ''user'' \<and>
       prefix h (ts ! k) \<and> (Suc k < n \<longrightarrow> prefix (ts ! k) (ts ! Suc k)))"
proof (induction user asst t n h s arbitrary: ts s' rule: build_turns.induct)
  case (2 user asst t n h s)
  obtain u s1 where u: "user t s = Some (u, s1)" using "2.prems" by (auto split: option.splits)
  let ?h = "h @ [user_msg u]"
  show ?case
  proof (cases "n = 0")
    case True
    with "2.prems" u show ?thesis by auto
  next
    case False
    obtain a s2 where a: "asst t s1 = Some (a, s2)" using "2.prems" u False by (auto simp: Let_def split: option.splits)
    obtain rest where r: "build_turns user asst (Suc t) n (?h @ [assistant_msg a]) s2 = Some (rest, s')" and ts: "ts = ?h # rest"
      using "2.prems" u False a by (auto simp: Let_def split: option.splits)
    have ih: "length rest = n \<and> (\<forall>k < n. length (rest ! k) = length (?h @ [assistant_msg a]) + 2 * k + 1 \<and>
        msg_role (last (rest ! k)) = ''user'' \<and> prefix (?h @ [assistant_msg a]) (rest ! k) \<and>
        (Suc k < n \<longrightarrow> prefix (rest ! k) (rest ! Suc k)))"
      using "2.IH" [OF u refl _ False a refl r] by simp
    have "prefix ?h (rest ! k)" if "k < n" for k using ih that by (metis append_prefixD)
    moreover have "prefix h (rest ! k)" if "k < n" for k using calculation [OF that] by (metis append_prefixD)
    ultimately show ?thesis using ih by (auto simp: ts nth_Cons less_Suc_eq_0_disj split: nat.splits)
  qed
qed simp

lemma build_turns_cumulative: "build_turns user asst t n [] s = Some (ts, s') \<Longrightarrow> length ts = n \<and> cumulative ts"
  using build_turns_shape [of user asst t n "[]" s ts s'] by (auto simp: cumulative_def)

lemma build_turns_total:
  assumes "\<And>t s. P s \<Longrightarrow> \<exists>u s'. user t s = Some (u, s') \<and> P s'" and "\<And>t s. P s \<Longrightarrow> \<exists>u s'. asst t s = Some (u, s') \<and> P s'"
    and "P s"
  shows "\<exists>ts s'. build_turns user asst t n h s = Some (ts, s') \<and> P s'"
  using assms(3)
proof (induction n arbitrary: t h s)
  case (Suc n)
  obtain u s1 where u: "user t s = Some (u, s1)" "P s1" using assms(1) [OF Suc.prems] by blast
  obtain a s2 where a: "asst t s1 = Some (a, s2)" "P s2" using assms(2) [OF u(2)] by blast
  from Suc.IH [OF a(2), of "Suc t" "(h @ [user_msg u]) @ [assistant_msg a]"] u a show ?case
    by (auto simp: Let_def split: option.splits)
qed auto

section \<open>Padding\<close>

lemma pad_loop_length: "targetChars \<le> int (length (pad_loop piece k targetChars b))"
  by (induction piece k targetChars b rule: pad_loop.induct) (subst pad_loop.simps, auto)

lemma pad_loop_prefix: "prefix b (pad_loop piece k targetChars b)"
proof (induction piece k targetChars b rule: pad_loop.induct)
  case (1 piece k targetChars b)
  then show ?case by (subst pad_loop.simps) (auto dest: append_prefixD)
qed

text \<open>Lengths and ratios of a practical size, and a counter that counts.\<close>

definition tokens_ok :: "int \<Rightarrow> bool" where "tokens_ok n \<longleftrightarrow> 0 \<le> n \<and> n \<le> 2 ^ 20"

definition ratio_ok :: "rat \<Rightarrow> bool" where "ratio_ok r \<longleftrightarrow> 0 \<le> r \<and> r \<le> 2 ^ 10"

definition counter_ok :: "token_counter option \<Rightarrow> bool" where
  "counter_ok tc \<longleftrightarrow> (\<forall>counter. tc = Some counter \<longrightarrow> (\<forall>x c. counter x = Some c \<longrightarrow> 0 \<le> c))"

lemma target_chars_bounds:
  assumes "tokens_ok n" and "ratio_ok r"
  shows "0 \<le> target_chars n r" and "target_chars n r \<le> 2 ^ 30"
proof -
  have n: "f64_of_int n = of_int n" using assms(1) by (simp add: tokens_ok_def)
  have "0 \<le> of_int n * r" using assms by (simp add: tokens_ok_def ratio_ok_def)
  then have nn: "0 \<le> f64_round (of_int n * r)" by (rule f64.rnd_nonneg)
  have "of_int n \<le> (of_int (2 ^ 20) :: rat)" using assms(1) unfolding tokens_ok_def of_int_le_iff by simp
  then have "of_int n * r \<le> of_int (2 ^ 20) * 2 ^ 10" using assms by (intro mult_mono) (auto simp: tokens_ok_def ratio_ok_def)
  then have "of_int n * r \<le> of_int (2 ^ 30)" by simp
  then have "f64_round (of_int n * r) \<le> of_int (2 ^ 30)" by (rule f64.rnd_le_int) simp
  then show "target_chars n r \<le> 2 ^ 30" "0 \<le> target_chars n r"
    using nn by (simp_all add: target_chars_def fmul_def n int_of_f64_def floor_le_iff)
qed

lemma trim_count_total:
  assumes "tokens_ok target" and "target < n" and "int (length t) \<le> 2 ^ 32" and "counter_ok (Some counter)" and "0 < target \<or> t = []"
  shows "\<exists>r. trimToTokenBudgetWithCount t target n counter = Some r \<and> prefix r t"
proof (cases "t = []")
  case True
  have "utf8SafePrefix [] 0 = Some []" by (simp add: utf8SafePrefix_def)
  moreover have m: "maxAttempts = Suc 5" by (simp add: maxAttempts_def)
  moreover have "tdiv 0 n = 0" "wrap64 0 = 0" by (simp_all add: tdiv_def wrap64_def)
  ultimately show ?thesis
    using True assms(1,2) unfolding trimToTokenBudgetWithCount_def m trim_loop.simps by (simp add: trim_keep_def tokens_ok_def)
next
  case False
  with assms(5) have pos: "0 < target" by simp
  have "target * int (length t) \<le> 2 ^ 20 * 2 ^ 32" using assms(1,3) by (intro mult_mono) (auto simp: tokens_ok_def)
  then have b: "target * int (length t) < 2 ^ 63" "int (length t) < 2 ^ 62" using assms(3) by simp_all
  have "trim_inv t target n counter \<lparr>hi_bytes = int (length t), hi_count = n, lo_bytes = 0, lo_count = 0, best = []\<rparr>"
    using False pos assms(2) by (simp add: trim_inv_def)
  from trim_loop_ok [OF this b, where k = maxAttempts] assms(4) show ?thesis
    by (auto simp: trimToTokenBudgetWithCount_def trim_ok_def rune_prefix_def counter_ok_def)
qed

lemma trimToTokenBudget_total:
  assumes "tokens_ok target" and "int (length t) \<le> 2 ^ 32" and "counter_ok tc"
  shows "\<exists>r. trimToTokenBudget t target tc = Some r \<and> prefix r t"
  using trim_count_total [OF assms(1) _ assms(2)] assms(3)
  by (auto simp: trimToTokenBudget_def not_le split: option.splits)

lemma pad_with_total:
  assumes "tokens_ok n" and "ratio_ok r" and "counter_ok tc"
  shows "\<exists>p. pad_with piece base n r tc = Some p \<and> int (length p) \<le> target_chars n r \<and>
     (tc = None \<longrightarrow> int (length p) = target_chars n r)"
proof -
  define T where "T = target_chars n r"
  define b where "b = (if T \<le> int (length base) then base else pad_loop piece 0 T (base @ '' ''))"
  have T: "0 \<le> T" "T \<le> 2 ^ 30" using target_chars_bounds [OF assms(1,2)] by (simp_all add: T_def)
  have "T \<le> int (length b)" by (simp add: b_def pad_loop_length)
  then have s: "go_slice b 0 T = Some (take (nat T) b)" and l: "int (length (take (nat T) b)) = T"
    using T by (simp_all add: go_slice_def)
  have "int (length (take (nat T) b)) \<le> 2 ^ 32" unfolding l using T(2) by simp
  from trimToTokenBudget_total [OF assms(1) this assms(3)] obtain p
    where p: "trimToTokenBudget (take (nat T) b) n tc = Some p" "prefix p (take (nat T) b)" by blast
  moreover have "int (length p) \<le> T" using prefix_length_le [OF p(2)] l by linarith
  moreover have "tc = None \<Longrightarrow> int (length p) = T" using p(1) l by (simp add: trimToTokenBudget_def)
  ultimately show ?thesis using s by (auto simp: pad_with_def Let_def simp flip: T_def b_def)
qed


section \<open>The interface of a dataset\<close>

text \<open>A conversation the load generator can send: a prompt, or at least one turn and no turn without messages.\<close>

definition sendable :: "Conversation \<Rightarrow> bool" where
  "sendable conv \<longleftrightarrow> Prompt conv \<noteq> [] \<or> (Turns conv \<noteq> [] \<and> [] \<notin> set (Turns conv))"

fun draw_conversations :: "('s \<Rightarrow> (Conversation \<times> 's) option) \<Rightarrow> nat \<Rightarrow> 's \<Rightarrow> (Conversation list \<times> 's) option" where
  "draw_conversations nxt 0 s = Some ([], s)"
| "draw_conversations nxt (Suc n) s =
     (case nxt s of
        None \<Rightarrow> None
      | Some (c, s') \<Rightarrow> map_option (\<lambda>(cs, s''). (c # cs, s'')) (draw_conversations nxt n s'))"

text \<open>What the load generator relies on: \<open>NextConversation\<close> always returns, again and again, a conversation that can be sent.\<close>

locale conversation_source =
  fixes next_conv :: "'s \<Rightarrow> (Conversation \<times> 's) option" and valid :: "'s \<Rightarrow> bool"
  assumes next_valid: "valid s \<Longrightarrow> \<exists>c s'. next_conv s = Some (c, s') \<and> valid s'"
    and next_sendable: "valid s \<Longrightarrow> next_conv s = Some (c, s') \<Longrightarrow> sendable c"
begin

lemma draws: "valid s \<Longrightarrow> \<exists>cs s'. draw_conversations next_conv n s = Some (cs, s') \<and> length cs = n \<and> list_all sendable cs"
proof (induction n arbitrary: s)
  case (Suc n)
  obtain c s1 where c: "next_conv s = Some (c, s1)" "valid s1" using next_valid [OF Suc.prems] by blast
  with Suc.IH [OF c(2)] next_sendable [OF Suc.prems c(1)] show ?case by auto
qed simp

end

lemma cumulative_sendable:
  assumes "cumulative ts" and "ts \<noteq> []"
  shows "sendable (turns_conversation ts osl)"
proof -
  have "ts ! k \<noteq> []" if "k < length ts" for k using assms(1) that by (auto simp: cumulative_def)
  with assms(2) show ?thesis by (auto simp: sendable_def turns_conversation_def in_set_conv_nth)
qed

definition generated_ok :: "generated \<Rightarrow> bool" where
  "generated_ok g \<longleftrightarrow> tokens_ok (gen_isl g) \<and> tokens_ok (gen_subsequent g) \<and> tokens_ok (gen_osl g) \<and>
     ratio_ok (gen_cpt g) \<and> counter_ok (gen_counter g) \<and> 1 \<le> gen_turns g"

lemma turnISL_ok: "tokens_ok a \<Longrightarrow> tokens_ok b \<Longrightarrow> tokens_ok (turnISL a b t)"
  by (simp add: turnISL_def)

lemma generated_turns:
  assumes "generated_ok g"
  obtains ts where "build_turns
      (\<lambda>t u. map_option (\<lambda>c. (c, u)) (pad_with (pu t) (bu t) (turnISL (gen_isl g) (gen_subsequent g) t) (gen_cpt g) (gen_counter g)))
      (\<lambda>t u. map_option (\<lambda>c. (c, u)) (pad_with (pa t) (ba t) (gen_osl g) (gen_cpt g) (gen_counter g)))
      0 (nat (gen_turns g)) [] () = Some (ts, ())" and "cumulative ts" and "int (length ts) = gen_turns g"
proof -
  let ?user = "\<lambda>t u. map_option (\<lambda>c. (c, u :: unit)) (pad_with (pu t) (bu t) (turnISL (gen_isl g) (gen_subsequent g) t) (gen_cpt g) (gen_counter g))"
  let ?asst = "\<lambda>t u. map_option (\<lambda>c. (c, u :: unit)) (pad_with (pa t) (ba t) (gen_osl g) (gen_cpt g) (gen_counter g))"
  have ok: "tokens_ok (gen_isl g)" "tokens_ok (gen_subsequent g)" "tokens_ok (gen_osl g)" "ratio_ok (gen_cpt g)" "counter_ok (gen_counter g)"
    using assms(1) by (auto simp: generated_ok_def)
  have "\<exists>c s'. ?user t s = Some (c, s') \<and> True" for t s
    using pad_with_total [OF turnISL_ok [OF ok(1,2)] ok(4,5)] by fastforce
  moreover have "\<exists>c s'. ?asst t s = Some (c, s') \<and> True" for t s using pad_with_total [OF ok(3-5)] by fastforce
  ultimately obtain ts where ts: "build_turns ?user ?asst 0 (nat (gen_turns g)) [] () = Some (ts, ())"
    using build_turns_total [of "\<lambda>_. True" ?user ?asst "()" 0 "nat (gen_turns g)" "[]"] by auto
  with build_turns_cumulative [OF ts] assms(1) that show thesis by (auto simp: generated_ok_def)
qed

lemma synthetic_next_some:
  assumes "generated_ok g"
  obtains ts where "synthetic_next draw g = Some (turns_conversation ts (gen_osl g))" and "cumulative ts" and "int (length ts) = gen_turns g"
  using generated_turns [OF assms, of "\<lambda>t k. pad_words ! (draw (2 * t) k mod length pad_words)" "\<lambda>t. turn_prompt t (gen_osl g)"
      "\<lambda>t k. pad_words ! (draw (2 * t + 1) k mod length pad_words)" "\<lambda>t. ''This is a simulated assistant response.''"] that
  unfolding synthetic_next_def padToTokens_def by fastforce

lemma faker_next_some:
  assumes "generated_ok f"
  obtains ts where "faker_next gofakeit f = Some (turns_conversation ts (gen_osl f), f\<lparr>gen_seq := gen_seq f + 1\<rparr>)"
    and "cumulative ts" and "int (length ts) = gen_turns f"
proof -
  let ?fk = "gofakeit (gen_seq f + 1)"
  from generated_turns [OF assms, of "fk_user ?fk" "\<lambda>t. generatePrompt (fk_template ?fk t mod 7) (fk_words ?fk t)"
      "fk_assistant ?fk" "\<lambda>t. ''Here is my response.''"] that
  show thesis unfolding faker_next_def padWithFaker_def Let_def by fastforce
qed

lemma turns_nonempty: "generated_ok g \<Longrightarrow> int (length ts) = gen_turns g \<Longrightarrow> ts \<noteq> []"
  by (auto simp: generated_ok_def)

interpretation synthetic: conversation_source "\<lambda>g. map_option (\<lambda>c. (c, g)) (synthetic_next draw g)" generated_ok for draw
proof
  fix g assume g: "generated_ok g"
  obtain ts where ts: "synthetic_next draw g = Some (turns_conversation ts (gen_osl g))" "cumulative ts" "int (length ts) = gen_turns g"
    by (rule synthetic_next_some [OF g])
  then show "\<exists>c s'. map_option (\<lambda>c. (c, g)) (synthetic_next draw g) = Some (c, s') \<and> generated_ok s'" using g by simp
  fix c s' assume "map_option (\<lambda>c. (c, g)) (synthetic_next draw g) = Some (c, s')"
  with ts cumulative_sendable [OF ts(2) turns_nonempty [OF g ts(3)]] show "sendable c" by auto
qed

interpretation faker: conversation_source "faker_next gofakeit" generated_ok for gofakeit
proof
  fix g assume g: "generated_ok g"
  obtain ts where ts: "faker_next gofakeit g = Some (turns_conversation ts (gen_osl g), g\<lparr>gen_seq := gen_seq g + 1\<rparr>)"
    "cumulative ts" "int (length ts) = gen_turns g" by (rule faker_next_some [OF g])
  then show "\<exists>c s'. faker_next gofakeit g = Some (c, s') \<and> generated_ok s'" using g by (simp add: generated_ok_def)
  fix c s' assume "faker_next gofakeit g = Some (c, s')"
  with ts cumulative_sendable [OF ts(2) turns_nonempty [OF g ts(3)]] show "sendable c" by auto
qed


section \<open>Chunks of the corpus\<close>

definition corpus_ok :: "corpus \<Rightarrow> bool" where
  "corpus_ok c \<longleftrightarrow> corpus_text_ok c \<and> tokens_ok (co_isl c) \<and> tokens_ok (co_subsequent c) \<and> tokens_ok (co_osl c) \<and>
     ratio_ok (co_cpt c) \<and> counter_ok (co_counter c) \<and> 1 \<le> co_turns c"

lemma corpus_ok_offset: "corpus_ok c \<Longrightarrow> corpus_ok (c\<lparr>co_offset := u64 x\<rparr>)"
  by (simp add: corpus_ok_def corpus_text_ok_def u64_def)

lemma fetch_total:
  assumes "corpus_ok c" and "0 \<le> n" and "n < 2 ^ 62"
  obtains t x where "fetchText n c = Some (t, c\<lparr>co_offset := u64 x\<rparr>)" and "int (length t) \<le> n" and "int (length t) \<le> 2 ^ 31"
proof -
  have ok: "corpus_text_ok c" using assms(1) by (simp add: corpus_ok_def)
  have "int (length (co_text c)) \<le> 2 ^ 30" using ok by (simp add: corpus_text_ok_def)
  moreover obtain t where t: "fetchText n c = Some (t, c\<lparr>co_offset := u64 (co_offset c + n)\<rparr>)" "int (length t) \<le> n"
    using fetch_text_cyclic_lemma [OF ok assms(2,3)] by blast
  moreover have "length t \<le> 2 * length (co_text c)"
    using t(1) fetchText_eq [OF ok assms(2,3)] by (auto split: if_splits)
  ultimately have "int (length t) \<le> 2 ^ 31" by simp
  with that t show thesis by blast
qed

lemma extend_chunk_total:
  assumes "corpus_ok c" and "co_counter c = Some counter" and "tokens_ok target" and "int (length t) \<le> 2 ^ 31" and "0 < target \<or> t = []"
  shows "\<exists>r x. extend_chunk target counter t n c = Some (r, c\<lparr>co_offset := x\<rparr>) \<and> corpus_ok (c\<lparr>co_offset := x\<rparr>)"
proof -
  have ctr: "counter_ok (Some counter)" using assms(1,2) by (simp add: corpus_ok_def)
  have same: "c\<lparr>co_offset := co_offset c\<rparr> = c" by simp
  consider "n < target \<and> 0 < n" | "\<not> (n < target \<and> 0 < n)" "n \<le> target" | "target < n" by linarith
  then show ?thesis
  proof cases
    case 1
    define q where "q = fdiv (f64_of_int (int (length t))) (f64_of_int n)"
    define e where "e = int_of_f64 (fmul (f64_of_int (target - n)) q)"
    have n: "1 \<le> n" "n \<le> 2 ^ 20" "target - n \<le> 2 ^ 20" "0 < target" using 1 assms(3) by (auto simp: tokens_ok_def)
    have len: "\<bar>int (length t)\<bar> \<le> 2 ^ 53" using assms(4) by simp
    have ex: "f64_of_int (int (length t)) = of_int (int (length t))" "f64_of_int n = of_int n" "f64_of_int (target - n) = of_int (target - n)"
      using len n by (simp_all only: f64_of_int_exact) (use n in simp_all)
    have "of_int (int (length t)) / of_int n \<le> (of_int (int (length t)) / 1 :: rat)" using n by (intro divide_left_mono) auto
    also have "\<dots> \<le> of_int (2 ^ 31)" using assms(4) by (simp only: of_int_le_iff div_by_1)
    finally have q: "q \<le> of_int (2 ^ 31)" unfolding q_def fdiv_def ex by (rule f64.rnd_le_int) simp
    have q0: "0 \<le> q" unfolding q_def fdiv_def ex by (rule f64.rnd_nonneg) (use n in simp)
    have "of_int (target - n) \<le> (of_int (2 ^ 20) :: rat)" using n(3) by (simp only: of_int_le_iff)
    then have "of_int (target - n) * q \<le> of_int (2 ^ 20) * of_int (2 ^ 31)" using q q0 by (intro mult_mono) simp_all
    then have "of_int (target - n) * q \<le> of_int (2 ^ 51)" by simp
    then have "f64_round (of_int (target - n) * q) \<le> of_int (2 ^ 51)" by (rule f64.rnd_le_int) simp
    moreover have "0 \<le> f64_round (of_int (target - n) * q)" by (rule f64.rnd_nonneg) (use 1 q0 in simp)
    ultimately have e: "0 \<le> e" "e \<le> 2 ^ 51" by (simp_all add: e_def fmul_def ex int_of_f64_def floor_le_iff)
    then have w: "wrap64 (e * 2) = e * 2" by (intro wrap64_id) (simp add: in64_def)
    have "0 \<le> e * 2" "e * 2 < 2 ^ 62" using e by simp_all
    then obtain m x where m: "fetchText (e * 2) c = Some (m, c\<lparr>co_offset := u64 x\<rparr>)" "int (length m) \<le> 2 ^ 31"
      by (rule fetch_total [OF assms(1)])
    have "int (length (t @ m)) \<le> 2 ^ 32" using assms(4) m(2) by simp
    from trim_count_total [OF assms(3) _ this ctr] n(4) m(1) w 1 corpus_ok_offset [OF assms(1), of x] show ?thesis
      by (auto simp: extend_chunk_def Let_def not_le split: option.splits simp flip: q_def e_def)
  next
    case 2
    then show ?thesis using assms(1) same by (auto simp: extend_chunk_def intro!: exI [of _ "co_offset c"])
  next
    case 3
    have "int (length t) \<le> 2 ^ 32" using assms(4) by simp
    from trim_count_total [OF assms(3) 3 this ctr assms(5)] 3 assms(1) same show ?thesis
      by (auto simp: extend_chunk_def intro!: exI [of _ "co_offset c"])
  qed
qed

lemma nextChunk_total:
  assumes "corpus_ok c" and "tokens_ok n"
  shows "\<exists>t x. nextChunk n c = Some (t, c\<lparr>co_offset := x\<rparr>) \<and> corpus_ok (c\<lparr>co_offset := x\<rparr>)"
proof -
  define e where "e = target_chars n (co_cpt c)"
  have e: "0 \<le> e" "e \<le> 2 ^ 30" using target_chars_bounds [OF assms(2)] assms(1) by (auto simp: e_def corpus_ok_def)
  show ?thesis
  proof (cases "co_counter c")
    case None
    have "e < 2 ^ 62" using e(2) by simp
    then obtain t x where "fetchText e c = Some (t, c\<lparr>co_offset := u64 x\<rparr>)" by (rule fetch_total [OF assms(1) e(1)])
    with None corpus_ok_offset [OF assms(1), of x] show ?thesis by (auto simp: nextChunk_def simp flip: e_def)
  next
    case (Some counter)
    have w: "wrap64 (e * 2) = e * 2" using e by (intro wrap64_id) (simp add: in64_def)
    have "0 \<le> e * 2" "e * 2 < 2 ^ 62" using e by simp_all
    then obtain t x where t: "fetchText (e * 2) c = Some (t, c\<lparr>co_offset := u64 x\<rparr>)" "int (length t) \<le> e * 2" "int (length t) \<le> 2 ^ 31"
      by (rule fetch_total [OF assms(1)])
    let ?c = "c\<lparr>co_offset := u64 x\<rparr>"
    have ok: "corpus_ok ?c" by (rule corpus_ok_offset [OF assms(1)])
    have z: "0 < n \<or> t = []"
    proof (cases "n = 0")
      case True
      then have "e = 0" by (simp add: e_def target_chars_def fmul_def int_of_f64_def)
      with t(2) show ?thesis by simp
    qed (use assms(2) in \<open>simp add: tokens_ok_def\<close>)
    have cc: "co_counter ?c = Some counter" using Some by simp
    have "\<exists>r y. extend_chunk n counter t m ?c = Some (r, c\<lparr>co_offset := y\<rparr>) \<and> corpus_ok (c\<lparr>co_offset := y\<rparr>)" for m
      using extend_chunk_total [OF ok cc assms(2) t(3) z, of m] by auto
    moreover have "go_slice t 0 e = Some (take (nat e) t)" if "e \<le> int (length t)" using that e by (simp add: go_slice_def)
    ultimately show ?thesis using Some t(1) ok w
      by (auto simp: nextChunk_def Let_def split: option.splits simp flip: e_def)
  qed
qed


lemma corpus_next_some:
  assumes "corpus_ok c"
  obtains ts c' where "corpus_next c = Some (turns_conversation ts (co_osl c), c')" and "corpus_ok c'" and "cumulative ts"
    and "int (length ts) = co_turns c" and "co_text c' = co_text c"
proof -
  let ?P = "\<lambda>d. \<exists>x. d = c\<lparr>co_offset := x\<rparr> \<and> corpus_ok d"
  have ok: "tokens_ok (co_isl c)" "tokens_ok (co_subsequent c)" "tokens_ok (co_osl c)" using assms by (auto simp: corpus_ok_def)
  have step: "\<exists>u d'. nextChunk n d = Some (u, d') \<and> ?P d'" if "?P d" "tokens_ok n" for n d
    using nextChunk_total [of d n] that by (auto intro: exI)
  have p0: "?P c" by (rule exI [of _ "co_offset c"]) (use assms in simp)
  obtain ts c' where b: "build_turns (\<lambda>t. nextChunk (turnISL (co_isl c) (co_subsequent c) t)) (\<lambda>t. nextChunk (co_osl c))
      0 (nat (co_turns c)) [] c = Some (ts, c')" and c': "?P c'"
    using build_turns_total [of ?P "\<lambda>t. nextChunk (turnISL (co_isl c) (co_subsequent c) t)" "\<lambda>t. nextChunk (co_osl c)" c,
      OF step [OF _ turnISL_ok [OF ok(1,2)]] step [OF _ ok(3)] p0] by blast
  have "length ts = nat (co_turns c)" "cumulative ts" using build_turns_cumulative [OF b] by simp_all
  with b c' assms that show thesis by (auto simp: corpus_next_def corpus_ok_def)
qed

interpretation corpus: conversation_source corpus_next corpus_ok
proof
  fix c assume c: "corpus_ok c"
  obtain ts c' where n: "corpus_next c = Some (turns_conversation ts (co_osl c), c')" "corpus_ok c'" "cumulative ts"
    "int (length ts) = co_turns c" by (rule corpus_next_some [OF c])
  then show "\<exists>conv s'. corpus_next c = Some (conv, s') \<and> corpus_ok s'" by blast
  have "ts \<noteq> []" using n(4) c by (auto simp: corpus_ok_def)
  then have "sendable (turns_conversation ts (co_osl c))" by (rule cumulative_sendable [OF n(3)])
  then show "\<And>conv s'. corpus_next c = Some (conv, s') \<Longrightarrow> sendable conv" using n(1) by auto
qed

text \<open>
  Conversations of the synthetic, faker and corpus datasets have the configured number of turns; turn \<open>k\<close> holds
  \<open>2 k + 1\<close> messages, starts with the messages of the turn before and ends with a new user message. No lookup or slice of these generators
  can panic for practical lengths.
\<close>

theorem conversations_are_cumulative:
  assumes "generated_ok g" and "corpus_ok c"
  shows "(\<exists>ts. synthetic_next draw g = Some (turns_conversation ts (gen_osl g)) \<and> cumulative ts \<and> int (length ts) = gen_turns g) \<and>
     (\<exists>ts g'. faker_next gofakeit g = Some (turns_conversation ts (gen_osl g), g') \<and> cumulative ts \<and> int (length ts) = gen_turns g) \<and>
     (\<exists>ts c'. corpus_next c = Some (turns_conversation ts (co_osl c), c') \<and> cumulative ts \<and> int (length ts) = co_turns c)"
  by (intro conjI; (rule synthetic_next_some [OF assms(1)] faker_next_some [OF assms(1)] corpus_next_some [OF assms(2)], blast))

theorem conversations_are_cumulative_witness:
  "generated_ok (new_generated 8 4 2 4 None) \<and>
   (\<exists>ts. synthetic_next (\<lambda>c k. k) (new_generated 8 4 2 4 None) = Some (turns_conversation ts 4) \<and> cumulative ts \<and> length ts = 2)"
proof
  show ok: "generated_ok (new_generated 8 4 2 4 None)"
    by (simp add: generated_ok_def new_generated_def tokens_ok_def ratio_ok_def counter_ok_def)
  have c: "corpus_ok tiny_corpus"
    by (simp add: corpus_ok_def corpus_text_ok_def tiny_corpus_def tokens_ok_def ratio_ok_def counter_ok_def)
  from conversations_are_cumulative [OF ok c]
  show "\<exists>ts. synthetic_next (\<lambda>c k. k) (new_generated 8 4 2 4 None) = Some (turns_conversation ts 4) \<and> cumulative ts \<and> length ts = 2"
    by (simp add: new_generated_def)
qed

end
