(* ===== verification/Eval_Dataset.thy ===== *)
theory Eval_Dataset
  imports Dataset Eval Config "HOL-Library.Multiset"
begin

text \<open>
  The evaluation datasets of package \<open>dataset\<close> (\<open>gsm8k.go\<close>, \<open>gpqa.go\<close>) and the commands that run them (\<open>cmd/nyann-bench/eval.go\<close>): loading,
  the division of the questions over workers, the prompts, and the scenario an evaluation runs.

  Arguments: reading a file; the JSON decoders (the values decoded from a stream before its first error, with a flag for the error,
  and a whole array); the seeded shuffle and permutations of \<open>math/rand\<close>.
\<close>

section \<open>Loading\<close>

datatype dataset_error =
    ReadingDataset string
  | ParsingDataset string
  | NoQuestions string
  | TrainPathRequired
  | NeedFewShot int int

text \<open>\<open>parseGSM8K\<close> and \<open>parseGPQARaw\<close>: a stream of objects, the ones without a question left out, or else a JSON array.\<close>

definition parse_items :: "('a \<Rightarrow> bool) \<Rightarrow> (string \<Rightarrow> 'a list \<times> bool) \<Rightarrow> (string \<Rightarrow> 'a list option) \<Rightarrow> string \<Rightarrow> 'a list option" where
  "parse_items has_question stream array data =
     (let (decoded, failed) = stream data; items = (if failed then [] else filter has_question decoded)
      in if items \<noteq> [] then Some items else array data)"

section \<open>Dividing the questions\<close>

definition partition_share :: "int \<Rightarrow> int \<Rightarrow> int \<Rightarrow> int" where
  "partition_share n workerID numWorkers =
     (if workerID < tmod n numWorkers then tdiv n numWorkers + 1 else tdiv n numWorkers)"

text \<open>\<open>None\<close> is the panic of a division by zero.\<close>

definition PartitionSize :: "int \<Rightarrow> int \<Rightarrow> int \<Rightarrow> int option" where
  "PartitionSize n workerID numWorkers = (if numWorkers = 0 then None else Some (partition_share n workerID numWorkers))"

definition partition_start :: "int \<Rightarrow> int \<Rightarrow> int \<Rightarrow> int" where
  "partition_start n workerID numWorkers = workerID * tdiv n numWorkers + min workerID (tmod n numWorkers)"

definition partition_items :: "int \<Rightarrow> int \<Rightarrow> 'a list \<Rightarrow> 'a list option" where
  "partition_items workerID numWorkers items =
     (if numWorkers \<le> 0 \<or> workerID < 0 \<or> numWorkers \<le> workerID then None
      else let n = int (length items); start = partition_start n workerID numWorkers
           in go_slice items start (start + partition_share n workerID numWorkers))"

section \<open>GSM8K\<close>

record gsm8kItem =
  g8_question :: string
  g8_answer :: string

record GSM8K =
  g8_items :: "gsm8kItem list"
  g8_fewshot :: "gsm8kItem list"
  g8_nshot :: int
  g8_idx :: int

definition parseGSM8K :: "(string \<Rightarrow> gsm8kItem list \<times> bool) \<Rightarrow> (string \<Rightarrow> gsm8kItem list option) \<Rightarrow> string \<Rightarrow> gsm8kItem list option" where
  "parseGSM8K = parse_items (\<lambda>item. g8_question item \<noteq> [])"

definition load_fewshot :: "(string \<Rightarrow> string option) \<Rightarrow> (string \<Rightarrow> gsm8kItem list option) \<Rightarrow> string \<Rightarrow> int \<Rightarrow>
    (dataset_error, gsm8kItem list) result" where
  "load_fewshot read_file parse trainPath numFewShot =
     (if numFewShot \<le> 0 then Inr []
      else if trainPath = [] then Inl TrainPathRequired
      else case read_file trainPath of
        None \<Rightarrow> Inl (ReadingDataset trainPath)
      | Some data \<Rightarrow>
          (case parse data of
             None \<Rightarrow> Inl (ParsingDataset trainPath)
           | Some fewShot \<Rightarrow>
               if int (length fewShot) < numFewShot then Inl (NeedFewShot numFewShot (int (length fewShot))) else Inr fewShot))"

definition NewGSM8K ::
    "(string \<Rightarrow> string option) \<Rightarrow> (string \<Rightarrow> gsm8kItem list option) \<Rightarrow> (gsm8kItem list \<Rightarrow> gsm8kItem list) \<Rightarrow> string \<Rightarrow> string \<Rightarrow> int \<Rightarrow>
     (dataset_error, GSM8K) result" where
  "NewGSM8K read_file parse shuffle testPath trainPath numFewShot =
     (case read_file testPath of
        None \<Rightarrow> Inl (ReadingDataset testPath)
      | Some data \<Rightarrow>
          (case parse data of
             None \<Rightarrow> Inl (ParsingDataset testPath)
           | Some items \<Rightarrow>
               if items = [] then Inl (NoQuestions testPath)
               else res_bind (load_fewshot read_file parse trainPath numFewShot)
                      (\<lambda>fewShot. Inr \<lparr>g8_items = shuffle items, g8_fewshot = fewShot, g8_nshot = numFewShot, g8_idx = 0\<rparr>)))"

definition gsm8k_partition :: "int \<Rightarrow> int \<Rightarrow> GSM8K \<Rightarrow> GSM8K option" where
  "gsm8k_partition workerID numWorkers g =
     map_option (\<lambda>items. g\<lparr>g8_items := items, g8_idx := 0\<rparr>) (partition_items workerID numWorkers (g8_items g))"

definition CountGSM8KItems :: "(string \<Rightarrow> string option) \<Rightarrow> (string \<Rightarrow> gsm8kItem list option) \<Rightarrow> string \<Rightarrow> (dataset_error, int) result" where
  "CountGSM8KItems read_file parse testPath =
     (case read_file testPath of
        None \<Rightarrow> Inl (ReadingDataset testPath)
      | Some data \<Rightarrow>
          (case parse data of None \<Rightarrow> Inl (ParsingDataset testPath) | Some items \<Rightarrow> Inr (int (length items))))"

abbreviation newline :: string where "newline \<equiv> [CHR 0x0A]"

definition shot_text :: "gsm8kItem \<Rightarrow> string" where
  "shot_text ex = ''Question: '' @ g8_question ex @ newline @ ''Answer: '' @ g8_answer ex"

text \<open>\<open>perm\<close> is \<open>rand.Perm(len(fewShot))\<close>. \<open>None\<close> is a slice or index out of range.\<close>

definition buildPrompt :: "nat list \<Rightarrow> GSM8K \<Rightarrow> gsm8kItem \<Rightarrow> string option" where
  "buildPrompt perm g testItem =
     (let question = ''Question: '' @ g8_question testItem @ newline @ ''Answer:''
      in if g8_nshot g \<le> 0 then Some question
         else case go_slice perm 0 (g8_nshot g) of
           None \<Rightarrow> None
         | Some indices \<Rightarrow>
             if list_all (\<lambda>i. i < length (g8_fewshot g)) indices
             then Some (join_with (newline @ newline) (map (\<lambda>i. shot_text (g8_fewshot g ! i)) indices) @ newline @ newline @ question)
             else None)"

definition gsm8k_conversation :: "string \<Rightarrow> gsm8kItem \<Rightarrow> Conversation" where
  "gsm8k_conversation prompt item =
     \<lparr>Turns = [], Prompt = prompt, MaxTokens = 2048, Stop = [''Question:'', ''</s>'', ''<|im_end|>''], Temperature = Some 0,
      ExpectedAnswer = ExtractExpected (g8_answer item)\<rparr>"

text \<open>\<open>perms n k\<close> is the permutation of \<open>n\<close> elements drawn for question \<open>k\<close>. With no question left the remainder panics.\<close>

definition gsm8k_next :: "(nat \<Rightarrow> int \<Rightarrow> nat list) \<Rightarrow> GSM8K \<Rightarrow> (Conversation \<times> GSM8K) option" where
  "gsm8k_next perms g =
     (if g8_items g = [] then None
      else let added = u64 (g8_idx g + 1); idx = u64 (added - 1); item = g8_items g ! nat (idx mod int (length (g8_items g)))
           in map_option (\<lambda>prompt. (gsm8k_conversation prompt item, g\<lparr>g8_idx := added\<rparr>))
                (buildPrompt (perms (length (g8_fewshot g)) idx) g item))"

section \<open>GPQA\<close>

record gpqaItem =
  gq_question :: string
  gq_choices :: "string list"
  gq_answer :: string
  gq_inline :: bool

record gpqaRawItem =
  QuestionCap :: string
  CorrectAnswer :: string
  IncorrectAnswer1 :: string
  IncorrectAnswer2 :: string
  IncorrectAnswer3 :: string
  QuestionLower :: string
  AnswerLower :: string

record GPQA =
  gq_items :: "gpqaItem list"
  gq_idx :: int
  gq_max_tokens :: int

text \<open>The expression \<open>\[.*?\]\<close> from an opening bracket: the shortest match that has no line break.\<close>

fun close_bracket :: "string \<Rightarrow> string option" where
  "close_bracket [] = None"
| "close_bracket (c # s) = (if c = CHR '']'' then Some s else if char_code c = 10 then None else close_bracket s)"

lemma close_bracket_length: "close_bracket s = Some r \<Longrightarrow> length r < length s"
  by (induction s rule: close_bracket.induct) (auto split: if_splits)

function remove_brackets :: "string \<Rightarrow> string" where
  "remove_brackets [] = []"
| "remove_brackets (c # s) =
     (if c = CHR ''['' then (case close_bracket s of Some r \<Rightarrow> remove_brackets r | None \<Rightarrow> c # remove_brackets s)
      else c # remove_brackets s)"
  by pat_completeness auto
termination
  by (relation "measure length") (auto dest: close_bracket_length)

definition preprocess :: "string \<Rightarrow> string" where
  "preprocess txt = replace_all (remove_brackets (replace_all (trim_space txt) '' [title]'' ''. '')) ''  '' '' ''"

definition choice_letter :: "nat \<Rightarrow> string" where
  "choice_letter i = [char_of (65 + i)]"

text \<open>The loop over the permutation: the shuffled choices and the position of the correct one. \<open>perm\<close> is the seeded
  permutation of four.\<close>

fun shuffle_choices :: "string list \<Rightarrow> nat \<Rightarrow> nat list \<Rightarrow> string list \<times> nat \<Rightarrow> string list \<times> nat" where
  "shuffle_choices choices j [] acc = acc"
| "shuffle_choices choices j (p # ps) (shuffled, correctIdx) =
     shuffle_choices choices (Suc j) ps (shuffled @ [choices ! p], if p = 0 then j else correctIdx)"

definition buildIdavidreinItem :: "(nat \<Rightarrow> nat list) \<Rightarrow> gpqaRawItem \<Rightarrow> nat \<Rightarrow> gpqaItem" where
  "buildIdavidreinItem perm4 raw seed =
     (let choices = [preprocess (CorrectAnswer raw), preprocess (IncorrectAnswer1 raw), preprocess (IncorrectAnswer2 raw),
                     preprocess (IncorrectAnswer3 raw)];
          (shuffled, correctIdx) = shuffle_choices choices 0 (perm4 seed) ([], 0)
      in \<lparr>gq_question = preprocess (QuestionCap raw), gq_choices = shuffled, gq_answer = ''('' @ choice_letter correctIdx @ '')'',
          gq_inline = False\<rparr>)"

definition buildFingertapItem :: "gpqaRawItem \<Rightarrow> gpqaItem" where
  "buildFingertapItem raw =
     \<lparr>gq_question = QuestionLower raw, gq_choices = ['''', '''', '''', ''''],
      gq_answer = ''('' @ trim_space (to_upper (AnswerLower raw)) @ '')'', gq_inline = True\<rparr>"

fun build_gpqa :: "(nat \<Rightarrow> nat list) \<Rightarrow> nat \<Rightarrow> gpqaRawItem list \<Rightarrow> gpqaItem list" where
  "build_gpqa perm4 i [] = []"
| "build_gpqa perm4 i (raw # raws) =
     (if CorrectAnswer raw \<noteq> [] then buildIdavidreinItem perm4 raw i # build_gpqa perm4 (Suc i) raws
      else if QuestionLower raw \<noteq> [] then buildFingertapItem raw # build_gpqa perm4 (Suc i) raws
      else build_gpqa perm4 (Suc i) raws)"

definition parseGPQARaw ::
    "(string \<Rightarrow> gpqaRawItem list \<times> bool) \<Rightarrow> (string \<Rightarrow> gpqaRawItem list option) \<Rightarrow> string \<Rightarrow> gpqaRawItem list option" where
  "parseGPQARaw = parse_items (\<lambda>item. QuestionCap item \<noteq> [] \<or> QuestionLower item \<noteq> [])"

definition parseAndBuildGPQA :: "(string \<Rightarrow> gpqaRawItem list option) \<Rightarrow> (nat \<Rightarrow> nat list) \<Rightarrow> string \<Rightarrow> gpqaItem list option" where
  "parseAndBuildGPQA parse perm4 data = map_option (build_gpqa perm4 0) (parse data)"

definition NewGPQA ::
    "(string \<Rightarrow> string option) \<Rightarrow> (string \<Rightarrow> gpqaItem list option) \<Rightarrow> (gpqaItem list \<Rightarrow> gpqaItem list) \<Rightarrow> string \<Rightarrow> int \<Rightarrow>
     (dataset_error, GPQA) result" where
  "NewGPQA read_file parse_build shuffle path maxTokens =
     (case read_file path of
        None \<Rightarrow> Inl (ReadingDataset path)
      | Some data \<Rightarrow>
          (case parse_build data of
             None \<Rightarrow> Inl (ParsingDataset path)
           | Some items \<Rightarrow>
               if items = [] then Inl (NoQuestions path)
               else Inr \<lparr>gq_items = shuffle items, gq_idx = 0, gq_max_tokens = (if maxTokens \<le> 0 then 16384 else maxTokens)\<rparr>))"

definition gpqa_partition :: "int \<Rightarrow> int \<Rightarrow> GPQA \<Rightarrow> GPQA option" where
  "gpqa_partition workerID numWorkers g =
     map_option (\<lambda>items. g\<lparr>gq_items := items, gq_idx := 0\<rparr>) (partition_items workerID numWorkers (gq_items g))"

definition gpqa_prompt :: "gpqaItem \<Rightarrow> string" where
  "gpqa_prompt item =
     (if gq_inline item then gq_question item
      else gq_question item @ newline @
        concat (map (\<lambda>i. ''('' @ choice_letter i @ '') '' @ gq_choices item ! i @ newline) [0..<length (gq_choices item)])) @
     ''Express your final answer as the corresponding option '' @ [CHR 0x27] @ ''A'' @ [CHR 0x27] @ '', '' @ [CHR 0x27] @ ''B'' @
     [CHR 0x27] @ '', '' @ [CHR 0x27] @ ''C'' @ [CHR 0x27] @ '', or '' @ [CHR 0x27] @ ''D'' @ [CHR 0x27] @ ''.''"

definition gpqa_conversation :: "int \<Rightarrow> gpqaItem \<Rightarrow> Conversation" where
  "gpqa_conversation maxTokens item =
     \<lparr>Turns = [[user_msg (gpqa_prompt item)]], Prompt = [], MaxTokens = maxTokens, Stop = [], Temperature = Some 0,
      ExpectedAnswer = gq_answer item\<rparr>"

definition gpqa_next :: "GPQA \<Rightarrow> (Conversation \<times> GPQA) option" where
  "gpqa_next g =
     (if gq_items g = [] then None
      else let added = u64 (gq_idx g + 1); idx = u64 (added - 1); item = gq_items g ! nat (idx mod int (length (gq_items g)))
           in Some (gpqa_conversation (gq_max_tokens g) item, g\<lparr>gq_idx := added\<rparr>))"


section \<open>The evaluation commands\<close>

record eval_flags =
  ef_target :: string
  ef_model :: string
  ef_concurrency :: int
  ef_path :: string
  ef_train_path :: string
  ef_num_fewshot :: int
  ef_timeout :: string
  ef_worker_id :: int
  ef_workers :: int
  ef_max_tokens :: int

datatype eval_error =
    InvalidTimeout string
  | PathRequired
  | TrainRequired
  | WorkerOutOfRange int int
  | LoadingDataset dataset_error
  | PartitionPanic

text \<open>The worker id, detected from the environment variable \<open>JOB_COMPLETION_INDEX\<close> when the flag is zero.\<close>

definition eval_worker_id :: "string option \<Rightarrow> eval_flags \<Rightarrow> int" where
  "eval_worker_id env f =
     (if ef_worker_id f = 0
      then (case env of None \<Rightarrow> 0 | Some idx \<Rightarrow> (case atoi idx of None \<Rightarrow> 0 | Some v \<Rightarrow> v))
      else ef_worker_id f)"

definition eval_scenario :: "eval_flags \<Rightarrow> string \<Rightarrow> workload \<Rightarrow> duration \<Rightarrow> int \<Rightarrow> int \<Rightarrow> scenario_config" where
  "eval_scenario f name w timeout workerID partitionItems =
     zero_scenario\<lparr>sc_target := ef_target f, sc_model := ef_model f, sc_workload := w,
       sc_stages := [zero_stage\<lparr>ss_name := name, ss_duration := timeout, ss_mode := ''concurrent'',
         ss_concurrency := ef_concurrency f, ss_max_requests := partitionItems\<rparr>],
       sc_workers := ef_workers f, sc_worker_id := workerID\<rparr>"

definition gsm8k_workload :: "eval_flags \<Rightarrow> workload" where
  "gsm8k_workload f = zero_workload\<lparr>wl_type := ''gsm8k'', wl_gsm8k_path := ef_path f, wl_gsm8k_train_path := ef_train_path f,
     wl_num_fewshot := Some (ef_num_fewshot f)\<rparr>"

definition gpqa_workload :: "eval_flags \<Rightarrow> workload" where
  "gpqa_workload f = zero_workload\<lparr>wl_type := ''gpqa'', wl_gpqa_path := ef_path f\<rparr>"

text \<open>The partition step of both commands: only with more than one worker.\<close>

definition eval_partition :: "int \<Rightarrow> int \<Rightarrow> (int \<Rightarrow> int \<Rightarrow> 'd \<Rightarrow> 'd option) \<Rightarrow> 'd \<Rightarrow> (eval_error, 'd) result" where
  "eval_partition workers workerID part ds =
     (if 1 < workers then (case part workerID workers ds of None \<Rightarrow> Inl PartitionPanic | Some d \<Rightarrow> Inr d) else Inr ds)"

definition eval_gsm8k ::
    "(string \<Rightarrow> duration option) \<Rightarrow> string option \<Rightarrow> (string \<Rightarrow> string \<Rightarrow> int \<Rightarrow> (dataset_error, GSM8K) result) \<Rightarrow> eval_flags \<Rightarrow>
     (eval_error, GSM8K \<times> scenario_config) result" where
  "eval_gsm8k parse_duration env load f =
     (case parse_duration (ef_timeout f) of
        None \<Rightarrow> Inl (InvalidTimeout (ef_timeout f))
      | Some timeout \<Rightarrow>
          if ef_path f = [] then Inl PathRequired
          else if 0 < ef_num_fewshot f \<and> ef_train_path f = [] then Inl TrainRequired
          else let workerID = eval_worker_id env f
               in if 1 < ef_workers f \<and> ef_workers f \<le> workerID then Inl (WorkerOutOfRange workerID (ef_workers f))
                  else case load (ef_path f) (ef_train_path f) (ef_num_fewshot f) of
                    Inl e \<Rightarrow> Inl (LoadingDataset e)
                  | Inr ds \<Rightarrow>
                      res_bind (eval_partition (ef_workers f) workerID gsm8k_partition ds)
                        (\<lambda>d. Inr (d, eval_scenario f ''gsm8k-eval'' (gsm8k_workload f) timeout workerID (int (length (g8_items d))))))"

definition eval_gpqa ::
    "(string \<Rightarrow> duration option) \<Rightarrow> string option \<Rightarrow> (string \<Rightarrow> int \<Rightarrow> (dataset_error, GPQA) result) \<Rightarrow> eval_flags \<Rightarrow>
     (eval_error, GPQA \<times> scenario_config) result" where
  "eval_gpqa parse_duration env load f =
     (case parse_duration (ef_timeout f) of
        None \<Rightarrow> Inl (InvalidTimeout (ef_timeout f))
      | Some timeout \<Rightarrow>
          if ef_path f = [] then Inl PathRequired
          else let workerID = eval_worker_id env f
               in if 1 < ef_workers f \<and> ef_workers f \<le> workerID then Inl (WorkerOutOfRange workerID (ef_workers f))
                  else case load (ef_path f) (ef_max_tokens f) of
                    Inl e \<Rightarrow> Inl (LoadingDataset e)
                  | Inr ds \<Rightarrow>
                      res_bind (eval_partition (ef_workers f) workerID gpqa_partition ds)
                        (\<lambda>d. Inr (d, eval_scenario f ''gpqa-eval'' (gpqa_workload f) timeout workerID (int (length (gq_items d))))))"

section \<open>The division of the questions\<close>

interpretation ps: fair_division "\<lambda>n w k. partition_share n k w"
proof
  fix t n w :: int
  assume "0 \<le> t" "1 \<le> n" "0 \<le> w" "w < t mod n"
  then show "partition_share t w n = t div n + 1" by (simp add: partition_share_def tdiv_nonneg tmod_nonneg)
next
  fix t n w :: int
  assume "0 \<le> t" "1 \<le> n" "t mod n \<le> w" "w < n"
  then show "partition_share t w n = t div n" by (simp add: partition_share_def tdiv_nonneg tmod_nonneg)
qed

definition part_bound :: "nat \<Rightarrow> nat \<Rightarrow> nat \<Rightarrow> nat" where
  "part_bound n k i = i * (n div k) + min i (n mod k)"

lemma tdiv_tmod_nat:
  assumes "0 < k"
  shows "tdiv (int n) (int k) = int (n div k)" and "tmod (int n) (int k) = int (n mod k)"
  using assms by (simp_all add: tdiv_nonneg tmod_nonneg zdiv_int zmod_int)

lemma partition_start_bound:
  "0 < k \<Longrightarrow> partition_start (int n) (int i) (int k) = int (part_bound n k i)"
  by (simp add: partition_start_def part_bound_def tdiv_tmod_nat of_nat_min)

lemma part_bound_Suc:
  assumes "0 < k"
  shows "int (part_bound n k (Suc i)) = int (part_bound n k i) + partition_share (int n) (int i) (int k)"
  by (simp add: partition_share_def tdiv_tmod_nat assms part_bound_def min_def)

lemma part_bound_ends: "0 < k \<Longrightarrow> part_bound n k 0 = 0 \<and> part_bound n k k = n"
proof -
  assume k: "0 < k"
  then have "min k (n mod k) = n mod k" by (simp add: less_imp_le)
  moreover have "k * (n div k) + n mod k = n" by simp
  ultimately show ?thesis by (simp add: part_bound_def)
qed

lemma part_bound_le:
  assumes "0 < k" and "i \<le> k"
  shows "part_bound n k i \<le> n"
proof -
  have "i * (n div k) \<le> k * (n div k)" using assms(2) by (rule mult_right_mono) simp
  moreover have "min i (n mod k) \<le> n mod k" by simp
  moreover have "k * (n div k) + n mod k = n" by simp
  ultimately show ?thesis unfolding part_bound_def by linarith
qed

lemma partition_items_slice:
  assumes "0 < k" and "i < k"
  shows "partition_items (int i) (int k) xs =
     Some (take (part_bound (length xs) k (Suc i) - part_bound (length xs) k i) (drop (part_bound (length xs) k i) xs))"
proof -
  have "0 \<le> partition_share (int (length xs)) (int i) (int k)" using assms by (intro ps.share_nonneg) simp_all
  moreover have "part_bound (length xs) k (Suc i) \<le> length xs" using assms by (intro part_bound_le) simp_all
  moreover have "nat (partition_share (int (length xs)) (int i) (int k)) = part_bound (length xs) k (Suc i) - part_bound (length xs) k i"
    using part_bound_Suc [OF assms(1), of "length xs" i] by linarith
  ultimately show ?thesis
    using assms part_bound_Suc [OF assms(1), of "length xs" i]
    by (simp add: partition_items_def Let_def partition_start_bound go_slice_def)
qed

lemma partition_concat:
  assumes "0 < k"
  shows "concat (map (\<lambda>i. the (partition_items (int i) (int k) xs)) [0..<k]) = xs"
proof -
  have "map (\<lambda>i. the (partition_items (int i) (int k) xs)) [0..<k] =
      map (\<lambda>i. take (part_bound (length xs) k (Suc i) - part_bound (length xs) k i) (drop (part_bound (length xs) k i) xs)) [0..<k]"
    using assms by (intro map_cong refl) (simp add: partition_items_slice)
  moreover have "part_bound (length xs) k i \<le> part_bound (length xs) k (Suc i)" for i by (simp add: part_bound_def)
  ultimately show ?thesis
    using part_bound_ends [OF assms, of "length xs"] by (simp only: concat_slices) simp
qed


lemma partition_length:
  assumes "0 < k" and "i < k" and "partition_items (int i) (int k) xs = Some part"
  shows "int (length part) = partition_share (int (length xs)) (int i) (int k)"
proof -
  have "part_bound (length xs) k (Suc i) \<le> length xs" using assms by (intro part_bound_le) simp_all
  with assms part_bound_Suc [OF assms(1), of "length xs" i] ps.share_nonneg [of "int (length xs)" "int k" "int i"] show ?thesis
    by (auto simp: partition_items_slice)
qed

text \<open>
  The questions are divided over the workers without loss or overlap: the parts, in the order of the workers, are the whole list;
  the size computed in advance is the size of the part; and the sizes differ by at most one.
\<close>

theorem partition_exact:
  assumes "0 < k"
  shows "concat (map (\<lambda>i. the (partition_items (int i) (int k) xs)) [0..<k]) = xs \<and>
     (\<forall>i < k. \<exists>part. partition_items (int i) (int k) xs = Some part \<and>
        PartitionSize (int (length xs)) (int i) (int k) = Some (int (length part))) \<and>
     (\<forall>i < k. \<forall>j < k. \<bar>partition_share (int (length xs)) (int i) (int k) - partition_share (int (length xs)) (int j) (int k)\<bar> \<le> 1)"
proof (intro conjI allI impI)
  show "concat (map (\<lambda>i. the (partition_items (int i) (int k) xs)) [0..<k]) = xs" using assms by (rule partition_concat)
  fix i assume i: "i < k"
  show "\<exists>part. partition_items (int i) (int k) xs = Some part \<and> PartitionSize (int (length xs)) (int i) (int k) = Some (int (length part))"
    using partition_length [OF assms i, of xs] assms by (auto simp: PartitionSize_def partition_items_slice [OF assms i])
  fix j assume "j < k"
  with i show "\<bar>partition_share (int (length xs)) (int i) (int k) - partition_share (int (length xs)) (int j) (int k)\<bar> \<le> 1"
    by (intro ps.share_fair) simp_all
qed

theorem partition_exact_witness:
  "map (\<lambda>i. partition_items (int i) 3 [1, 2, 3, 4, 5, 6, 7 :: nat]) [0, 1, 2] = [Some [1, 2, 3], Some [4, 5], Some [6, 7]] \<and>
   concat (map (\<lambda>i. the (partition_items (int i) (int 3) [1, 2, 3, 4, 5, 6, 7 :: nat])) [0..<3]) = [1, 2, 3, 4, 5, 6, 7]"
proof
  show "map (\<lambda>i. partition_items (int i) 3 [1, 2, 3, 4, 5, 6, 7 :: nat]) [0, 1, 2] = [Some [1, 2, 3], Some [4, 5], Some [6, 7]]"
    by code_simp
  show "concat (map (\<lambda>i. the (partition_items (int i) (int 3) [1, 2, 3, 4, 5, 6, 7 :: nat])) [0..<3]) = [1, 2, 3, 4, 5, 6, 7]"
    using partition_exact [of 3 "[1, 2, 3, 4, 5, 6, 7 :: nat]"] by (meson zero_less_numeral)
qed

section \<open>The evaluation datasets as sources of conversations\<close>

definition gsm8k_ok :: "(nat \<Rightarrow> int \<Rightarrow> nat list) \<Rightarrow> GSM8K \<Rightarrow> bool" where
  "gsm8k_ok perms g \<longleftrightarrow> g8_items g \<noteq> [] \<and> 0 \<le> g8_idx g \<and> g8_idx g < 2 ^ 64 \<and>
     (0 < g8_nshot g \<longrightarrow> g8_nshot g \<le> int (length (g8_fewshot g)) \<and>
        (\<forall>idx. mset (perms (length (g8_fewshot g)) idx) = mset [0..<length (g8_fewshot g)]))"

lemma buildPrompt_some:
  assumes "gsm8k_ok perms g"
  shows "\<exists>p. buildPrompt (perms (length (g8_fewshot g)) idx) g item = Some p \<and> p \<noteq> []"
proof (cases "0 < g8_nshot g")
  case True
  let ?p = "perms (length (g8_fewshot g)) idx"
  have m: "mset ?p = mset [0..<length (g8_fewshot g)]" "g8_nshot g \<le> int (length (g8_fewshot g))"
    using True assms by (auto simp: gsm8k_ok_def)
  have "length ?p = length (g8_fewshot g)" using mset_eq_length [OF m(1)] by simp
  then have s: "go_slice ?p 0 (g8_nshot g) = Some (take (nat (g8_nshot g)) ?p)" using m(2) True by (simp add: go_slice_def)
  have "\<forall>i\<in>set (take (nat (g8_nshot g)) ?p). i < length (g8_fewshot g)"
    using mset_eq_setD [OF m(1)] set_take_subset by fastforce
  then show ?thesis using True s by (simp add: buildPrompt_def Let_def list_all_iff)
qed (simp add: buildPrompt_def)

lemma gsm8k_next_some:
  assumes "gsm8k_ok perms g"
  obtains p where "gsm8k_next perms g =
      Some (gsm8k_conversation p (g8_items g ! nat (g8_idx g mod int (length (g8_items g)))), g\<lparr>g8_idx := u64 (g8_idx g + 1)\<rparr>)"
    and "p \<noteq> []" and "gsm8k_ok perms (g\<lparr>g8_idx := u64 (g8_idx g + 1)\<rparr>)"
proof -
  have "u64 (u64 (g8_idx g + 1) - 1) = g8_idx g" using assms by (simp add: u64_add_diff gsm8k_ok_def)
  moreover have "gsm8k_ok perms (g\<lparr>g8_idx := u64 x\<rparr>)" for x using assms by (simp add: gsm8k_ok_def u64_def)
  moreover obtain p where "buildPrompt (perms (length (g8_fewshot g)) (g8_idx g)) g
      (g8_items g ! nat (g8_idx g mod int (length (g8_items g)))) = Some p" "p \<noteq> []"
    using buildPrompt_some [OF assms] by blast
  ultimately show thesis using that assms by (simp add: gsm8k_next_def Let_def gsm8k_ok_def)
qed

definition gpqa_ok :: "GPQA \<Rightarrow> bool" where
  "gpqa_ok g \<longleftrightarrow> gq_items g \<noteq> [] \<and> 0 \<le> gq_idx g \<and> gq_idx g < 2 ^ 64"

interpretation gsm8k: conversation_source "gsm8k_next perms" "gsm8k_ok perms" for perms
proof
  fix g assume g: "gsm8k_ok perms g"
  obtain p where p: "gsm8k_next perms g =
      Some (gsm8k_conversation p (g8_items g ! nat (g8_idx g mod int (length (g8_items g)))), g\<lparr>g8_idx := u64 (g8_idx g + 1)\<rparr>)"
    "p \<noteq> []" "gsm8k_ok perms (g\<lparr>g8_idx := u64 (g8_idx g + 1)\<rparr>)" by (rule gsm8k_next_some [OF g])
  then show "\<exists>c s'. gsm8k_next perms g = Some (c, s') \<and> gsm8k_ok perms s'" by blast
  show "\<And>c s'. gsm8k_next perms g = Some (c, s') \<Longrightarrow> sendable c"
    using p(1,2) by (auto simp: sendable_def gsm8k_conversation_def)
qed

interpretation gpqa: conversation_source gpqa_next gpqa_ok
proof
  fix g assume g: "gpqa_ok g"
  then show "\<exists>c s'. gpqa_next g = Some (c, s') \<and> gpqa_ok s'" by (simp add: gpqa_next_def gpqa_ok_def Let_def u64_def)
  show "\<And>c s'. gpqa_next g = Some (c, s') \<Longrightarrow> sendable c"
    using g by (auto simp: gpqa_next_def gpqa_ok_def Let_def sendable_def gpqa_conversation_def)
qed

lemma gsm8k_draws:
  assumes "gsm8k_ok perms g" and "g8_idx g = int j" and "j + n \<le> length (g8_items g)" and "length (g8_items g) < 2 ^ 63"
  shows "\<exists>cs g'. draw_conversations (gsm8k_next perms) n g = Some (cs, g') \<and>
     map ExpectedAnswer cs = map (\<lambda>item. ExtractExpected (g8_answer item)) (take n (drop j (g8_items g)))"
  using assms
proof (induction n arbitrary: g j)
  case (Suc n)
  obtain p where p: "gsm8k_next perms g =
      Some (gsm8k_conversation p (g8_items g ! nat (g8_idx g mod int (length (g8_items g)))), g\<lparr>g8_idx := u64 (g8_idx g + 1)\<rparr>)"
    "gsm8k_ok perms (g\<lparr>g8_idx := u64 (g8_idx g + 1)\<rparr>)" by (rule gsm8k_next_some [OF Suc.prems(1)])
  have j: "j < length (g8_items g)" using Suc.prems(3) by simp
  have "int (length (g8_items g)) < 2 ^ 63" using Suc.prems(4) by (metis of_nat_less_iff of_nat_numeral of_nat_power)
  then have "u64 (g8_idx g + 1) = int (Suc j)" using j Suc.prems(2) by (simp add: u64_id)
  moreover have "nat (g8_idx g mod int (length (g8_items g))) = j" using j Suc.prems(2) by simp
  moreover have "take (Suc n) (drop j (g8_items g)) = g8_items g ! j # take n (drop (Suc j) (g8_items g))"
    using j by (simp add: take_Suc_conv_app_nth Cons_nth_drop_Suc [symmetric])
  ultimately show ?case
    using Suc.IH [of "g\<lparr>g8_idx := u64 (g8_idx g + 1)\<rparr>" "Suc j"] p Suc.prems by (auto simp: gsm8k_conversation_def)
qed simp


section \<open>Running an evaluation on several workers\<close>

text \<open>What worker \<open>i\<close> of \<open>k\<close> grades: the expected answers of as many conversations as its scenario asks for.\<close>

definition graded_by ::
    "(string \<Rightarrow> duration option) \<Rightarrow> (string \<Rightarrow> string \<Rightarrow> int \<Rightarrow> (dataset_error, GSM8K) result) \<Rightarrow> (nat \<Rightarrow> int \<Rightarrow> nat list) \<Rightarrow> eval_flags \<Rightarrow>
     nat \<Rightarrow> nat \<Rightarrow> string list option" where
  "graded_by parse_duration load perms f k i =
     (case eval_gsm8k parse_duration None load (f\<lparr>ef_worker_id := int i, ef_workers := int k\<rparr>) of
        Inl _ \<Rightarrow> None
      | Inr (d, sc) \<Rightarrow>
          (case sc_stages sc of
             [] \<Rightarrow> None
           | s # _ \<Rightarrow> map_option (\<lambda>(cs, _). map ExpectedAnswer cs)
                        (draw_conversations (gsm8k_next perms) (nat (ss_max_requests s)) d)))"

text \<open>An evaluation that can start: the flags are accepted and the dataset loads.\<close>

definition eval_ready ::
    "(string \<Rightarrow> duration option) \<Rightarrow> (string \<Rightarrow> string \<Rightarrow> int \<Rightarrow> (dataset_error, GSM8K) result) \<Rightarrow> eval_flags \<Rightarrow> GSM8K \<Rightarrow> bool" where
  "eval_ready parse_duration load f ds \<longleftrightarrow>
     parse_duration (ef_timeout f) \<noteq> None \<and> ef_path f \<noteq> [] \<and> (0 < ef_num_fewshot f \<longrightarrow> ef_train_path f \<noteq> []) \<and>
     load (ef_path f) (ef_train_path f) (ef_num_fewshot f) = Inr ds"

lemma eval_gsm8k_worker:
  assumes "eval_ready parse_duration load f ds" and "i < k"
  shows "\<exists>d sc s. eval_gsm8k parse_duration None load (f\<lparr>ef_worker_id := int i, ef_workers := int k\<rparr>) = Inr (d, sc) \<and>
     g8_items d = (if k = 1 then g8_items ds else the (partition_items (int i) (int k) (g8_items ds))) \<and>
     g8_idx d = (if k = 1 then g8_idx ds else 0) \<and> g8_fewshot d = g8_fewshot ds \<and> g8_nshot d = g8_nshot ds \<and>
     sc_stages sc = [s] \<and> ss_max_requests s = int (length (g8_items d))"
proof -
  have w: "eval_worker_id None (f\<lparr>ef_worker_id := int i, ef_workers := int k\<rparr>) = int i" by (simp add: eval_worker_id_def)
  have "\<exists>part. partition_items (int i) (int k) (g8_items ds) = Some part"
    using assms(2) by (simp add: partition_items_slice)
  with assms w show ?thesis
    by (auto simp: eval_ready_def eval_gsm8k_def eval_partition_def gsm8k_partition_def eval_scenario_def Let_def)
qed

lemma graded_by_part:
  assumes "eval_ready parse_duration load f ds" and "gsm8k_ok perms ds" and "g8_idx ds = 0"
    and "length (g8_items ds) < 2 ^ 63" and "i < k" and "k \<le> length (g8_items ds)"
  shows "graded_by parse_duration load perms f k i =
     Some (map (\<lambda>item. ExtractExpected (g8_answer item)) (the (partition_items (int i) (int k) (g8_items ds))))"
proof -
  obtain d sc s where e: "eval_gsm8k parse_duration None load (f\<lparr>ef_worker_id := int i, ef_workers := int k\<rparr>) = Inr (d, sc)"
    and items: "g8_items d = (if k = 1 then g8_items ds else the (partition_items (int i) (int k) (g8_items ds)))"
    and rest: "g8_idx d = (if k = 1 then g8_idx ds else 0)" "g8_fewshot d = g8_fewshot ds" "g8_nshot d = g8_nshot ds"
    and s: "sc_stages sc = [s]" "ss_max_requests s = int (length (g8_items d))"
    using eval_gsm8k_worker [OF assms(1,5)] by blast
  obtain part where part: "partition_items (int i) (int k) (g8_items ds) = Some part"
    using assms(5) by (simp add: partition_items_slice)
  have "partition_items (int i) (int 1) (g8_items ds) = Some (g8_items ds)" if "k = 1"
    using that assms(5) part_bound_ends [of 1 "length (g8_items ds)"] partition_items_slice [of 1 0 "g8_items ds"] by simp
  then have items': "g8_items d = part" using items part by auto
  have "0 < partition_share (int (length (g8_items ds))) (int i) (int k)"
    using assms(5,6) ps.share_eq [of "int (length (g8_items ds))" "int k" "int i"]
    by (simp add: zero_less_iff_neq_zero div_eq_0_iff flip: zdiv_int)
  then have ne: "part \<noteq> []" using partition_length [OF _ assms(5) part] assms(5) by auto
  have "length part \<le> length (g8_items ds)" using part by (auto simp: partition_items_def Let_def go_slice_def split: if_splits)
  then have short: "length (g8_items d) < 2 ^ 63" using assms(4) unfolding items' by (rule le_less_trans)
  have ok: "gsm8k_ok perms d" using assms(2,3) items' ne rest by (auto simp: gsm8k_ok_def)
  have "g8_idx d = int 0" using rest(1) assms(3) by simp
  from gsm8k_draws [OF ok this _ short, of "length (g8_items d)"] obtain cs g'
    where "draw_conversations (gsm8k_next perms) (length (g8_items d)) d = Some (cs, g')"
      "map ExpectedAnswer cs = map (\<lambda>item. ExtractExpected (g8_answer item)) (g8_items d)" by auto
  with e s items' part show ?thesis by (simp add: graded_by_def)
qed

text \<open>
  An evaluation on \<open>k\<close> workers, at most as many as there are questions, asks every question of the dataset exactly once: the
  answers the workers expect, worker after worker, are the expected answers of the whole dataset.
\<close>

theorem evaluation_asks_each_question_once:
  assumes "eval_ready parse_duration load f ds" and "gsm8k_ok perms ds" and "g8_idx ds = 0"
    and "length (g8_items ds) < 2 ^ 63" and "0 < k" and "k \<le> length (g8_items ds)"
  shows "concat (map (\<lambda>i. the (graded_by parse_duration load perms f k i)) [0..<k]) =
     map (\<lambda>item. ExtractExpected (g8_answer item)) (g8_items ds) \<and>
     (\<forall>i < k. graded_by parse_duration load perms f k i \<noteq> None)"
proof -
  let ?ans = "map (\<lambda>item. ExtractExpected (g8_answer item))"
  have "map (\<lambda>i. the (graded_by parse_duration load perms f k i)) [0..<k] =
      map ?ans (map (\<lambda>i. the (partition_items (int i) (int k) (g8_items ds))) [0..<k])"
    using graded_by_part [OF assms(1-4) _ assms(6)] by simp
  then have "concat (map (\<lambda>i. the (graded_by parse_duration load perms f k i)) [0..<k]) =
      ?ans (concat (map (\<lambda>i. the (partition_items (int i) (int k) (g8_items ds))) [0..<k]))"
    by (simp only: map_concat)
  with partition_concat [OF assms(5), of "g8_items ds"] graded_by_part [OF assms(1-4) _ assms(6)] show ?thesis by simp
qed

text \<open>With more workers than questions the last workers get no question: their request limit is zero, which means no limit, and
  the first conversation they ask for panics.\<close>

lemma empty_partition_panics:
  assumes "eval_ready parse_duration load f ds" and "length (g8_items ds) \<le> i" and "i < k" and "1 < k"
  shows "\<exists>d sc s. eval_gsm8k parse_duration None load (f\<lparr>ef_worker_id := int i, ef_workers := int k\<rparr>) = Inr (d, sc) \<and>
     sc_stages sc = [s] \<and> ss_max_requests s = 0 \<and> gsm8k_next perms d = None"
proof -
  obtain part where part: "partition_items (int i) (int k) (g8_items ds) = Some part"
    using assms(3) by (simp add: partition_items_slice)
  have "partition_share (int (length (g8_items ds))) (int i) (int k) = 0"
    using assms(2-4) by (simp add: partition_share_def tdiv_tmod_nat)
  then have "part = []" using partition_length [OF _ assms(3) part] assms(4) by simp
  with eval_gsm8k_worker [OF assms(1,3)] part assms(4) show ?thesis by (auto simp: gsm8k_next_def)
qed


definition two_questions :: GSM8K where
  "two_questions = \<lparr>g8_items = [\<lparr>g8_question = ''1+1?'', g8_answer = ''#### 2''\<rparr>, \<lparr>g8_question = ''2+2?'', g8_answer = ''#### 4''\<rparr>],
     g8_fewshot = [], g8_nshot = 0, g8_idx = 0\<rparr>"

definition sample_flags :: eval_flags where
  "sample_flags = \<lparr>ef_target = ''t'', ef_model = [], ef_concurrency = 1, ef_path = ''p'', ef_train_path = [], ef_num_fewshot = 0,
     ef_timeout = ''30m'', ef_worker_id = 0, ef_workers = 1, ef_max_tokens = 0\<rparr>"

theorem evaluation_asks_each_question_once_witness:
  "concat (map (\<lambda>i. the (graded_by (\<lambda>_. Some (30 * minute)) (\<lambda>_ _ _. Inr two_questions) (\<lambda>n _. [0..<n]) sample_flags 2 i)) [0..<2]) =
     [''2'', ''4'']"
proof -
  have ready: "eval_ready (\<lambda>_. Some (30 * minute)) (\<lambda>_ _ _. Inr two_questions) sample_flags two_questions"
    by (simp add: eval_ready_def sample_flags_def)
  have ok: "gsm8k_ok (\<lambda>n _. [0..<n]) two_questions" by (simp add: gsm8k_ok_def two_questions_def)
  have "map (\<lambda>item. ExtractExpected (g8_answer item)) (g8_items two_questions) = [''2'', ''4'']" by code_simp
  with evaluation_asks_each_question_once [OF ready ok, of 2] show ?thesis by (simp add: two_questions_def)
qed

section \<open>The answer key of multiple choice questions\<close>

lemma shuffle_choices_eq:
  assumes "distinct ps"
  shows "shuffle_choices cs j ps (acc, c0) =
     (acc @ map ((!) cs) ps, if 0 \<in> set ps then j + length (takeWhile (\<lambda>p. p \<noteq> 0) ps) else c0)"
  using assms by (induction ps arbitrary: j acc c0) auto

lemma takeWhile_index: "x \<in> set ps \<Longrightarrow> ps ! length (takeWhile (\<lambda>p. p \<noteq> x) ps) = x \<and> length (takeWhile (\<lambda>p. p \<noteq> x) ps) < length ps"
  by (induction ps) auto

lemma choice_letter_ABCD: "i < 4 \<Longrightarrow> choice_letter i = [''ABCD'' ! i]"
proof -
  have "list_all (\<lambda>i. choice_letter i = [''ABCD'' ! i]) [0, 1, 2, 3]" by code_simp
  moreover assume "i < 4"
  then have "i \<in> set [0, 1, 2, 3]" by auto
  ultimately show ?thesis by (simp only: list_all_iff)
qed

text \<open>
  For every seeded permutation the answer key of a question built from separate fields points at the correct answer: the
  choices shown are the four answers in the order of the permutation, the key is one of the letters A to D in parentheses, which the
  grader treats as multiple choice, and the choice at that letter is the correct answer.
\<close>

theorem gpqa_answer_key:
  assumes "mset (perm4 seed) = mset [0, 1, 2, 3]"
  shows "let item = buildIdavidreinItem perm4 raw seed in
     \<exists>i < 4. gq_answer item = ''('' @ [''ABCD'' ! i] @ '')'' \<and> gq_choices item ! i = preprocess (CorrectAnswer raw) \<and>
       mset (gq_choices item) = mset (map preprocess [CorrectAnswer raw, IncorrectAnswer1 raw, IncorrectAnswer2 raw, IncorrectAnswer3 raw]) \<and>
       IsMCAnswer (gq_answer item) \<and> CheckMCCorrect (gq_answer item) [''ABCD'' ! i]"
proof -
  let ?ps = "perm4 seed" and ?cs = "map preprocess [CorrectAnswer raw, IncorrectAnswer1 raw, IncorrectAnswer2 raw, IncorrectAnswer3 raw]"
  have d: "distinct ?ps" using mset_eq_imp_distinct_iff [OF assms] by simp
  have len: "length ?ps = 4" using mset_eq_length [OF assms] by simp
  have z: "0 \<in> set ?ps" using mset_eq_setD [OF assms] by simp
  define i where "i = length (takeWhile (\<lambda>p. p \<noteq> 0) ?ps)"
  have i: "?ps ! i = 0" "i < 4" using takeWhile_index [OF z] len by (simp_all add: i_def)
  have b: "buildIdavidreinItem perm4 raw seed = \<lparr>gq_question = preprocess (QuestionCap raw), gq_choices = map ((!) ?cs) ?ps,
      gq_answer = ''('' @ choice_letter i @ '')'', gq_inline = False\<rparr>"
    using z by (simp add: buildIdavidreinItem_def shuffle_choices_eq [OF d] i_def)
  have c: "map ((!) ?cs) ?ps ! i = preprocess (CorrectAnswer raw)" using i len by simp
  have "mset (map ((!) ?cs) ?ps) = mset (map ((!) ?cs) [0, 1, 2, 3])" using assms by (metis mset_map)
  then have m: "mset (map ((!) ?cs) ?ps) = mset ?cs" by (simp add: numeral_eq_Suc)
  have "IsMCAnswer (''('' @ [''ABCD'' ! i] @ '')'') \<and> CheckMCCorrect (''('' @ [''ABCD'' ! i] @ '')'') [''ABCD'' ! i]"
  proof -
    have "list_all (\<lambda>x. IsMCAnswer (''('' @ [x] @ '')'') \<and> CheckMCCorrect (''('' @ [x] @ '')'') [x]) ''ABCD''" by code_simp
    then show ?thesis using i(2) by (simp add: list_all_length)
  qed
  with b c m i(2) show ?thesis by (auto simp: Let_def choice_letter_ABCD)
qed

theorem gpqa_answer_key_witness:
  "let item = buildIdavidreinItem (\<lambda>_. [2, 0, 3, 1])
       \<lparr>QuestionCap = ''Q'', CorrectAnswer = ''right'', IncorrectAnswer1 = ''w1'', IncorrectAnswer2 = ''w2'', IncorrectAnswer3 = ''w3'',
        QuestionLower = [], AnswerLower = []\<rparr> 0
   in gq_answer item = ''(B)'' \<and> gq_choices item = [''w2'', ''right'', ''w3'', ''w1''] \<and>
      (\<exists>i < 4. gq_answer item = ''('' @ [''ABCD'' ! i] @ '')'' \<and> gq_choices item ! i = preprocess ''right'')"
proof -
  let ?raw = "\<lparr>QuestionCap = ''Q'', CorrectAnswer = ''right'', IncorrectAnswer1 = ''w1'', IncorrectAnswer2 = ''w2'', IncorrectAnswer3 = ''w3'',
        QuestionLower = [], AnswerLower = []\<rparr>"
  have p: "mset ((\<lambda>_. [2, 0, 3, 1]) (0::nat)) = mset [0, 1, 2, 3 :: nat]" by simp
  have "gq_answer (buildIdavidreinItem (\<lambda>_. [2, 0, 3, 1]) ?raw 0) = ''(B)''"
    "gq_choices (buildIdavidreinItem (\<lambda>_. [2, 0, 3, 1]) ?raw 0) = [''w2'', ''right'', ''w3'', ''w1'']" by code_simp+
  with gpqa_answer_key [of "\<lambda>_. [2, 0, 3, 1]" 0 ?raw, OF p] show ?thesis by (auto simp: Let_def)
qed

end
