(* ===== verification/Scenario_Runner.thy ===== *)
theory Scenario_Runner
  imports Loadgen Analysis Eval_Dataset Barrier
begin

text \<open>
  \<open>runScenario\<close> of \<open>cmd/nyann-bench/common.go\<close>: building the dataset, resolving the stages of a scenario for one worker, grouping
  them into runs that share a generator, running them with the callbacks that keep the stage timestamps, and the summary. It composes
  the configuration, the datasets, the load generator, the barrier client, the recorder and the analysis.

  A scenario that reaches the runner has been validated, so its rates are finite. The metrics server and the log lines are
  not modelled.
\<close>

section \<open>Building the dataset\<close>

definition calibration_sample :: string where
  "calibration_sample = ''The quick brown fox jumps over the lazy dog. This is a sample of natural English text used to calibrate the tokenizer ratio for accurate input sequence length targeting.''"

definition calibrateTokenRatio :: "(string \<Rightarrow> int reply) \<Rightarrow> f64 \<Rightarrow> f64" where
  "calibrateTokenRatio tokenize configured =
     (if f64_lt (Fin 0) configured then configured
      else case CalibrateTokenRatio tokenize calibration_sample of Inl _ \<Rightarrow> Fin 4 | Inr r \<Rightarrow> Fin r)"

datatype built_dataset =
    BuiltSynthetic generated
  | BuiltFaker generated
  | BuiltCorpus corpus
  | BuiltGSM8K GSM8K
  | BuiltGPQA GPQA

text \<open>The constructors of the datasets that read files.\<close>

record loaders =
  ld_corpus :: "string \<Rightarrow> int \<Rightarrow> int \<Rightarrow> int \<Rightarrow> rat \<Rightarrow> token_counter option \<Rightarrow> (corpus_error, corpus) result"
  ld_gsm8k :: "string \<Rightarrow> string \<Rightarrow> int \<Rightarrow> (dataset_error, GSM8K) result"
  ld_gpqa :: "string \<Rightarrow> int \<Rightarrow> (dataset_error, GPQA) result"

datatype run_error =
    CorpusPathRequired
  | CorpusError corpus_error
  | GSM8KPathRequired
  | GSM8KTrainPathRequired
  | GPQAPathRequired
  | EvalDatasetError dataset_error
  | UnknownWorkloadType string
  | RatioNotFinite
  | EndpointNotReady query_error
  | DetectingModel query_error
  | CreatingRecorder string
  | WritingTimestamps string

text \<open>The switch of \<open>buildDataset\<close>; the second component is the workload as it leaves it (evaluations clear the output length).\<close>

definition build_kind ::
    "loaders \<Rightarrow> workload \<Rightarrow> rat \<Rightarrow> token_counter option \<Rightarrow> (run_error, built_dataset \<times> workload) result" where
  "build_kind ld w charsPerToken tokenCounter =
     (let subISL = (case wl_subsequent_isl w of None \<Rightarrow> 0 | Some n \<Rightarrow> n)
      in if wl_type w = ''synthetic''
         then Inr (BuiltSynthetic ((NewSyntheticWithTokenCounter (wl_isl w) (wl_osl w) (wl_turns w) charsPerToken tokenCounter)\<lparr>gen_subsequent := subISL\<rparr>), w)
         else if wl_type w = ''faker''
         then Inr (BuiltFaker ((NewFakerWithTokenCounter (wl_isl w) (wl_osl w) (wl_turns w) charsPerToken tokenCounter)\<lparr>gen_subsequent := subISL\<rparr>), w)
         else if wl_type w = ''corpus''
         then (if wl_corpus_path w = [] then Inl CorpusPathRequired
               else case ld_corpus ld (wl_corpus_path w) (wl_isl w) (wl_osl w) (wl_turns w) charsPerToken tokenCounter of
                 Inl e \<Rightarrow> Inl (CorpusError e)
               | Inr c \<Rightarrow> Inr (BuiltCorpus (c\<lparr>co_subsequent := subISL\<rparr>), w))
         else if wl_type w = ''gsm8k''
         then (if wl_gsm8k_path w = [] then Inl GSM8KPathRequired
               else let numFewShot = (case wl_num_fewshot w of None \<Rightarrow> 5 | Some n \<Rightarrow> n)
                    in if 0 < numFewShot \<and> wl_gsm8k_train_path w = [] then Inl GSM8KTrainPathRequired
                       else case ld_gsm8k ld (wl_gsm8k_path w) (wl_gsm8k_train_path w) numFewShot of
                         Inl e \<Rightarrow> Inl (EvalDatasetError e)
                       | Inr g \<Rightarrow> Inr (BuiltGSM8K g, w\<lparr>wl_osl := 0\<rparr>))
         else if wl_type w = ''gpqa''
         then (if wl_gpqa_path w = [] then Inl GPQAPathRequired
               else case ld_gpqa ld (wl_gpqa_path w) 0 of
                 Inl e \<Rightarrow> Inl (EvalDatasetError e)
               | Inr g \<Rightarrow> Inr (BuiltGPQA g, w\<lparr>wl_osl := 0\<rparr>))
         else Inl (UnknownWorkloadType (wl_type w)))"

text \<open>Go leaves the conversion of an infinite ratio to an integer open; the model refuses it.\<close>

definition buildDataset ::
    "loaders \<Rightarrow> workload \<Rightarrow> f64 \<Rightarrow> token_counter option \<Rightarrow> (run_error, built_dataset \<times> workload) result" where
  "buildDataset ld w charsPerToken tokenCounter =
     (case charsPerToken of Fin r \<Rightarrow> build_kind ld w r tokenCounter | _ \<Rightarrow> Inl RatioNotFinite)"

section \<open>Resolving the stages\<close>

record resolvedStage =
  rs_loadgen :: Stage
  rs_target :: string
  rs_model :: string
  rs_workload :: "workload option"
  rs_warmup :: bool
  rs_name :: string

definition barrier_load :: "bool \<Rightarrow> Stage" where
  "barrier_load drained = \<lparr>stg_concurrency = 0, stg_pool_size = 0, stg_duration = 0, stg_rampup = 0, stg_max_requests = 0,
     stg_barrier = True, stg_barrier_drain = drained\<rparr>"

text \<open>A barrier takes target, model and workload of the stage before it; the first one takes the defaults.\<close>

definition resolve_barrier :: "string \<Rightarrow> string \<Rightarrow> resolvedStage list \<Rightarrow> scenario_stage \<Rightarrow> resolvedStage" where
  "resolve_barrier target model resolved ss =
     (let (t, m, w) = (if resolved = [] then (target, model, None)
                       else (rs_target (last resolved), rs_model (last resolved), rs_workload (last resolved)))
      in \<lparr>rs_loadgen = barrier_load (ss_barrier_drain ss), rs_target = t, rs_model = m, rs_workload = w, rs_warmup = False, rs_name = []\<rparr>)"

text \<open>Concurrency and pool size of one worker.\<close>

definition effective_load :: "scenario_config \<Rightarrow> scenario_stage \<Rightarrow> int \<times> int" where
  "effective_load sc ss =
     (let pool_of = (\<lambda>pool conc. if ss_mode ss = ''conversation_pool'' \<and> pool = 0 then conc else pool)
      in if 1 < sc_workers sc
         then let conc = DivideConcurrency (ss_concurrency ss) (sc_workers sc) (sc_worker_id sc)
              in (conc, pool_of (DivideConcurrency (ss_pool_size ss) (sc_workers sc) (sc_worker_id sc)) conc)
         else (ss_concurrency ss, pool_of (ss_pool_size ss) (ss_concurrency ss)))"

definition resolve_load :: "string \<Rightarrow> string \<Rightarrow> scenario_config \<Rightarrow> scenario_stage \<Rightarrow> resolvedStage" where
  "resolve_load target model sc ss =
     (let (conc, pool) = effective_load sc ss
      in \<lparr>rs_loadgen = \<lparr>stg_concurrency = conc, stg_pool_size = pool, stg_duration = ss_duration ss, stg_rampup = ss_rampup ss,
            stg_max_requests = ss_max_requests ss, stg_barrier = False, stg_barrier_drain = False\<rparr>,
          rs_target = (if ss_target ss \<noteq> [] then ss_target ss else target),
          rs_model = (if ss_model ss \<noteq> [] then ss_model ss else model),
          rs_workload = ss_workload ss, rs_warmup = ss_warmup ss, rs_name = ss_name ss\<rparr>)"

fun resolve_stages :: "string \<Rightarrow> string \<Rightarrow> scenario_config \<Rightarrow> resolvedStage list \<Rightarrow> scenario_stage list \<Rightarrow> resolvedStage list" where
  "resolve_stages target model sc resolved [] = resolved"
| "resolve_stages target model sc resolved (ss # sss) =
     resolve_stages target model sc
       (resolved @ [if ss_barrier ss then resolve_barrier target model resolved ss else resolve_load target model sc ss]) sss"

section \<open>Grouping into runs\<close>

definition workloadEqual :: "workload option \<Rightarrow> workload option \<Rightarrow> bool" where
  "workloadEqual a b =
     (case (a, b) of
        (None, None) \<Rightarrow> True
      | (Some x, Some y) \<Rightarrow>
          wl_type x = wl_type y \<and> wl_name x = wl_name y \<and> wl_isl x = wl_isl y \<and> wl_osl x = wl_osl y \<and> wl_turns x = wl_turns y \<and>
          wl_corpus_path x = wl_corpus_path y \<and> wl_gsm8k_path x = wl_gsm8k_path y
      | _ \<Rightarrow> False)"

record stageRun =
  sr_stages :: "Stage list"
  sr_target :: string
  sr_model :: string
  sr_workload :: "workload option"
  sr_warmups :: "bool list"
  sr_names :: "string list"

definition can_extend :: "stageRun \<Rightarrow> resolvedStage \<Rightarrow> bool" where
  "can_extend run rs \<longleftrightarrow>
     sr_target run = rs_target rs \<and> sr_model run = rs_model rs \<and> workloadEqual (sr_workload run) (rs_workload rs)"

definition add_to_runs :: "resolvedStage \<Rightarrow> stageRun list \<Rightarrow> stageRun list" where
  "add_to_runs rs runs =
     (if runs \<noteq> [] \<and> can_extend (last runs) rs
      then butlast runs @ [(last runs)\<lparr>sr_stages := sr_stages (last runs) @ [rs_loadgen rs],
             sr_warmups := sr_warmups (last runs) @ [rs_warmup rs], sr_names := sr_names (last runs) @ [rs_name rs]\<rparr>]
      else runs @ [\<lparr>sr_stages = [rs_loadgen rs], sr_target = rs_target rs, sr_model = rs_model rs, sr_workload = rs_workload rs,
             sr_warmups = [rs_warmup rs], sr_names = [rs_name rs]\<rparr>])"

definition group_runs :: "resolvedStage list \<Rightarrow> stageRun list" where
  "group_runs resolved = fold add_to_runs resolved []"

definition totalMeasuredStages :: "resolvedStage list \<Rightarrow> nat" where
  "totalMeasuredStages resolved = length (filter (\<lambda>rs. \<not> rs_warmup rs \<and> \<not> stg_barrier (rs_loadgen rs)) resolved)"

section \<open>The generator of a run\<close>

definition first_stage_idx :: "scenario_stage list \<Rightarrow> nat \<Rightarrow> nat" where
  "first_stage_idx stages idx = idx + length (takeWhile ss_barrier (drop idx stages))"

definition rate_value :: "f64 \<Rightarrow> rat" where
  "rate_value x = (case x of Fin r \<Rightarrow> r | _ \<Rightarrow> 0)"

definition run_generator :: "scenario_config \<Rightarrow> bool \<Rightarrow> workload \<Rightarrow> nat \<Rightarrow> stageRun \<Rightarrow> Generator" where
  "run_generator sc streamUsage w globalStageIdx run =
     (let i = first_stage_idx (sc_stages sc) globalStageIdx;
          (mode, rate, inflight) =
            (if i < length (sc_stages sc)
             then (ss_mode (sc_stages sc ! i), rate_value (ss_rate (sc_stages sc ! i)), ss_max_inflight (sc_stages sc ! i))
             else ([], 0, 0));
          (rate', inflight') =
            (if 1 < sc_workers sc
             then (DivideRate rate (sc_workers sc), DivideConcurrency inflight (sc_workers sc) (sc_worker_id sc))
             else (rate, inflight))
      in \<lparr>g_model = sr_model run, g_mode = mode, g_concurrency = 0, g_pool_size = stg_pool_size (hd (sr_stages run)), g_rate = rate',
          g_max_inflight = inflight', g_rampup = 0, g_duration = 0,
          g_cache_salt = wl_cache_salt (case sr_workload run of None \<Rightarrow> w | Some rw \<Rightarrow> rw), g_stream_usage = streamUsage\<rparr>)"


section \<open>Running\<close>

text \<open>The variables the callbacks share. A zero \<open>time.Time\<close> is \<open>None\<close>; \<open>rn_ticks\<close> counts the readings of the clock;
  \<open>rn_warmup_recorder\<close> tells which recorder the generator writes to.\<close>

record runner =
  rn_start :: "time option"
  rn_stamps :: "StageTimestamp list"
  rn_global :: nat
  rn_measured :: nat
  rn_barrier :: nat
  rn_last_start :: "time option"
  rn_last_conc :: int
  rn_stopped :: bool
  rn_cancelled :: bool
  rn_warmup_recorder :: bool
  rn_ticks :: nat

definition initial_runner :: runner where
  "initial_runner = \<lparr>rn_start = None, rn_stamps = [], rn_global = 0, rn_measured = 0, rn_barrier = 0, rn_last_start = None,
     rn_last_conc = 0, rn_stopped = False, rn_cancelled = False, rn_warmup_recorder = False, rn_ticks = 0\<rparr>"

text \<open>What surrounds one run: how its stages end (\<open>se_continue\<close> is the answer of \<open>OnStageComplete\<close>), what
  \<open>WaitForStart\<close> returns at each of its barriers, and whether the context was done when the run was reached.\<close>

record run_env =
  re_stage :: stage_env
  re_wait :: "nat \<Rightarrow> (client_error, time) result"
  re_done :: bool

definition onStage :: "(nat \<Rightarrow> time) \<Rightarrow> stageRun \<Rightarrow> nat \<Rightarrow> int \<Rightarrow> runner \<Rightarrow> runner" where
  "onStage clock run i concurrency s =
     (if sr_warmups run ! i then s\<lparr>rn_warmup_recorder := True\<rparr>
      else let now = clock (rn_ticks s)
           in s\<lparr>rn_warmup_recorder := False, rn_ticks := rn_ticks s + 1,
                rn_start := (case rn_start s of None \<Rightarrow> Some now | Some t \<Rightarrow> Some t),
                rn_last_start := Some now, rn_last_conc := concurrency, rn_measured := rn_measured s + 1\<rparr>)"

definition sync_active :: "scenario_config \<Rightarrow> bool" where
  "sync_active sc = (case sc_sync sc of None \<Rightarrow> False | Some y \<Rightarrow> 1 < sync_workers y)"

definition onBarrier :: "scenario_config \<Rightarrow> (nat \<Rightarrow> (client_error, time) result) \<Rightarrow> nat \<Rightarrow> runner \<Rightarrow> runner" where
  "onBarrier sc wait i s =
     (if \<not> sync_active sc then s
      else case wait i of
        Inl _ \<Rightarrow> s\<lparr>rn_cancelled := True\<rparr>
      | Inr t \<Rightarrow> s\<lparr>rn_start := (case rn_start s of None \<Rightarrow> Some t | Some t' \<Rightarrow> Some t'), rn_barrier := rn_barrier s + 1\<rparr>)"

definition stage_stamp :: "runner \<Rightarrow> time \<Rightarrow> StageTimestamp" where
  "stage_stamp s now =
     \<lparr>st_stage = int (rn_measured s) - 1, st_concurrency = rn_last_conc s,
      st_start = TimeToFloat (case rn_last_start s of None \<Rightarrow> 0 | Some t \<Rightarrow> t), st_end = TimeToFloat now\<rparr>"

definition onComplete :: "(nat \<Rightarrow> time) \<Rightarrow> stageRun \<Rightarrow> (nat \<Rightarrow> bool) \<Rightarrow> nat \<Rightarrow> runner \<Rightarrow> runner" where
  "onComplete clock run answer i s =
     (if sr_warmups run ! i then s
      else s\<lparr>rn_stamps := rn_stamps s @ [stage_stamp s (clock (rn_ticks s))], rn_ticks := rn_ticks s + 1,
             rn_last_start := None, rn_stopped := (rn_stopped s \<or> \<not> answer i)\<rparr>)"

fun handle_event :: "(nat \<Rightarrow> time) \<Rightarrow> scenario_config \<Rightarrow> stageRun \<Rightarrow> run_env \<Rightarrow> run_event \<Rightarrow> runner \<Rightarrow> runner" where
  "handle_event clock sc run env (OnStage i c) s = onStage clock run i c s"
| "handle_event clock sc run env (OnBarrier i) s = onBarrier sc (re_wait env) i s"
| "handle_event clock sc run env (OnStageComplete i) s = onComplete clock run (se_continue (re_stage env)) i s"
| "handle_event clock sc run env _ s = s"

text \<open>How the stage loop sees the callbacks: completing a warmup always continues, and a failed barrier cancels the context.\<close>

definition loop_env :: "scenario_config \<Rightarrow> stageRun \<Rightarrow> run_env \<Rightarrow> stage_env" where
  "loop_env sc run env =
     (let failed = (\<lambda>j. j < length (sr_stages run) \<and> stg_barrier (sr_stages run ! j) \<and> sync_active sc \<and> \<not> is_ok (re_wait env j));
          cancelled = (\<lambda>k. list_ex failed [0..<k])
      in (re_stage env)\<lparr>se_done_before := (\<lambda>k. se_done_before (re_stage env) k \<or> cancelled k),
           se_done_after := (\<lambda>k. se_done_after (re_stage env) k \<or> cancelled k),
           se_continue := (\<lambda>k. sr_warmups run ! k \<or> se_continue (re_stage env) k)\<rparr>)"

definition run_one :: "(nat \<Rightarrow> time) \<Rightarrow> scenario_config \<Rightarrow> bool \<Rightarrow> workload \<Rightarrow> stageRun \<Rightarrow> run_env \<Rightarrow> runner \<Rightarrow> runner" where
  "run_one clock sc streamUsage w run env s =
     (let gen = run_generator sc streamUsage w (rn_global s) run;
          s' = fold (handle_event clock sc run env) (RunStagesUntil gen (loop_env sc run env) (sr_stages run)) s
      in s'\<lparr>rn_global := rn_global s + length (sr_stages run)\<rparr>)"

text \<open>\<open>prepare\<close> builds the dataset of a run that has its own workload.\<close>

fun run_all ::
    "(nat \<Rightarrow> time) \<Rightarrow> scenario_config \<Rightarrow> bool \<Rightarrow> workload \<Rightarrow> (stageRun \<Rightarrow> (run_error, unit) result) \<Rightarrow> (stageRun \<times> run_env) list \<Rightarrow> runner \<Rightarrow>
     (run_error, runner) result" where
  "run_all clock sc streamUsage w prepare [] s = Inr s"
| "run_all clock sc streamUsage w prepare ((run, env) # rest) s =
     (if re_done env \<or> rn_cancelled s then Inr s
      else res_bind (prepare run) (\<lambda>_.
        let s' = run_one clock sc streamUsage w run env s
        in if rn_stopped s' then Inr s' else run_all clock sc streamUsage w prepare rest s'))"

section \<open>The result\<close>

definition final_stamps :: "(nat \<Rightarrow> time) \<Rightarrow> runner \<Rightarrow> StageTimestamp list" where
  "final_stamps clock s =
     rn_stamps s @ (if rn_last_start s = None then [] else [stage_stamp s (clock (rn_ticks s))])"

definition final_timestamps :: "(nat \<Rightarrow> time) \<Rightarrow> runner \<Rightarrow> Timestamps" where
  "final_timestamps clock s =
     (let endTime = clock (rn_ticks s); startTime = (case rn_start s of None \<Rightarrow> endTime | Some t \<Rightarrow> t)
      in \<lparr>ts_start = TimeToFloat startTime, ts_rampup_end = TimeToFloat startTime, ts_end = TimeToFloat endTime,
          ts_rampup_seconds = 0, ts_total_seconds = Seconds (endTime - startTime), ts_stages = final_stamps clock s\<rparr>)"

text \<open>\<open>recs\<close> are the records after the recorder has been closed. \<open>None\<close> is a panic in the statistics.\<close>

definition final_summary :: "(nat \<Rightarrow> time) \<Rightarrow> runner \<Rightarrow> Record list \<Rightarrow> Summary option" where
  "final_summary clock s recs =
     (let ts = final_timestamps clock s
      in if recs = [] then Some (zero_summary\<lparr>sum_timestamps := Some ts\<rparr>)
         else case Compute recs 0 0 of
           None \<Rightarrow> None
         | Some summary \<Rightarrow>
             if ts_stages ts = [] then Some (summary\<lparr>sum_timestamps := Some ts\<rparr>)
             else map_option (\<lambda>stages. summary\<lparr>sum_timestamps := Some ts, sum_stages := stages\<rparr>) (ComputePerStage recs (ts_stages ts)))"

section \<open>The whole scenario\<close>

record scenario_opts =
  so_target :: string
  so_model :: string
  so_scenario :: scenario_config
  so_output_dir :: string
  so_stream_usage :: bool
  so_dataset :: "built_dataset option"

text \<open>The servers a scenario talks to, by target: readiness, the models and the tokenizer for a model.\<close>

record endpoint =
  ep_ready :: "(query_error, nat) result option"
  ep_models :: "string list reply"
  ep_tokenize :: "string \<Rightarrow> string \<Rightarrow> int reply"

definition token_counter_of :: "endpoint \<Rightarrow> string \<Rightarrow> token_counter" where
  "token_counter_of ep model t = (case CountTokens (ep_tokenize ep model) t of Inl _ \<Rightarrow> None | Inr n \<Rightarrow> Some n)"

text \<open>The dataset of a run that overrides the workload, from the configured, inherited or newly calibrated ratio.\<close>

definition prepare_run ::
    "loaders \<Rightarrow> (string \<Rightarrow> endpoint) \<Rightarrow> string \<Rightarrow> string \<Rightarrow> f64 \<Rightarrow> stageRun \<Rightarrow> (run_error, unit) result" where
  "prepare_run ld endpoints target model charsPerToken run =
     (case sr_workload run of
        None \<Rightarrow> Inr ()
      | Some rw \<Rightarrow>
          let (cpt, counter) =
                (if f64_lt (Fin 0) (wl_chars_per_token rw) then (wl_chars_per_token rw, token_counter_of (endpoints target) model)
                 else if sr_target run \<noteq> target
                 then (calibrateTokenRatio (ep_tokenize (endpoints (sr_target run)) (sr_model run)) (wl_chars_per_token rw),
                       token_counter_of (endpoints (sr_target run)) (sr_model run))
                 else (charsPerToken, token_counter_of (endpoints target) model))
          in res_bind (buildDataset ld rw cpt (Some counter)) (\<lambda>_. Inr ()))"

text \<open>The output directory: the errors of \<open>recorder.New\<close> and of writing the timestamps file there, if any.\<close>

record output_disk =
  od_recorder :: "string option"
  od_timestamps :: "string option"

definition disk_error :: "(string \<Rightarrow> run_error) \<Rightarrow> string option \<Rightarrow> string \<Rightarrow> (run_error, unit) result" where
  "disk_error wrap failure dir = (if dir = [] then Inr () else case failure of None \<Rightarrow> Inr () | Some e \<Rightarrow> Inl (wrap e))"

definition scenario_runs :: "string \<Rightarrow> string \<Rightarrow> scenario_config \<Rightarrow> stageRun list" where
  "scenario_runs target model sc = group_runs (resolve_stages target model sc [] (sc_stages sc))"

text \<open>\<open>envs\<close> are the surroundings of the runs in order; \<open>recs\<close> what the recorder holds when it is closed. A readiness loop that does not
  end gives \<open>None\<close>, as does a panic.\<close>

definition runScenario ::
    "(nat \<Rightarrow> time) \<Rightarrow> loaders \<Rightarrow> (string \<Rightarrow> endpoint) \<Rightarrow> output_disk \<Rightarrow> run_env list \<Rightarrow> Record list \<Rightarrow> scenario_opts \<Rightarrow>
     (run_error, Summary) result option" where
  "runScenario clock ld endpoints disk envs recs so =
     (let target = so_target so; sc = so_scenario so; w = sc_workload sc; ep = endpoints target
      in case ep_ready ep of
           None \<Rightarrow> None
         | Some (Inl e) \<Rightarrow> Some (Inl (EndpointNotReady e))
         | Some (Inr _) \<Rightarrow>
             (case (if so_model so = [] then DetectModel (ep_models ep) else Inr (so_model so)) of
                Inl e \<Rightarrow> Some (Inl (DetectingModel e))
              | Inr model \<Rightarrow>
                  let cpt = calibrateTokenRatio (ep_tokenize ep model) (wl_chars_per_token w);
                      ds = (case so_dataset so of Some d \<Rightarrow> Inr (d, w) | None \<Rightarrow> buildDataset ld w cpt (Some (token_counter_of ep model)));
                      ran = res_bind ds (\<lambda>(d, w').
                              res_bind (disk_error CreatingRecorder (od_recorder disk) (so_output_dir so)) (\<lambda>_.
                              res_bind (run_all clock sc (so_stream_usage so) w' (prepare_run ld endpoints target model cpt)
                                         (zip (scenario_runs target model sc) envs) initial_runner) (\<lambda>s.
                              res_bind (disk_error WritingTimestamps (od_timestamps disk) (so_output_dir so)) (\<lambda>_. Inr s))))
                  in case ran of
                       Inl e \<Rightarrow> Some (Inl e)
                     | Inr s \<Rightarrow> map_option Inr (final_summary clock s recs)))"


section \<open>The stages of a worker\<close>

text \<open>The stage the load generator gets for a stage of the scenario.\<close>

definition stage_load :: "scenario_config \<Rightarrow> scenario_stage \<Rightarrow> Stage" where
  "stage_load sc ss =
     (if ss_barrier ss then barrier_load (ss_barrier_drain ss)
      else rs_loadgen (resolve_load [] [] sc ss))"

lemma resolve_load_stage: "rs_loadgen (resolve_load t m sc ss) = rs_loadgen (resolve_load [] [] sc ss)"
  by (simp add: resolve_load_def split: prod.split)

lemma resolve_stages_loads:
  "map rs_loadgen (resolve_stages t m sc acc sss) = map rs_loadgen acc @ map (stage_load sc) sss"
proof (induction sss arbitrary: acc)
  case (Cons ss sss)
  have "rs_loadgen (if ss_barrier ss then resolve_barrier t m acc ss else resolve_load t m sc ss) = stage_load sc ss"
    by (simp add: stage_load_def resolve_barrier_def Let_def resolve_load_stage [of t m] split: prod.split)
  with Cons show ?case by simp
qed simp

lemma resolve_stages_warmups:
  "map rs_warmup (resolve_stages t m sc acc sss) = map rs_warmup acc @ map (\<lambda>ss. \<not> ss_barrier ss \<and> ss_warmup ss) sss"
proof (induction sss arbitrary: acc)
  case (Cons ss sss)
  have "rs_warmup (if ss_barrier ss then resolve_barrier t m acc ss else resolve_load t m sc ss) = (\<not> ss_barrier ss \<and> ss_warmup ss)"
    by (simp add: resolve_barrier_def resolve_load_def Let_def split: prod.split)
  with Cons show ?case by simp
qed simp

lemma stage_load_barrier [simp]: "stg_barrier (stage_load sc ss) = ss_barrier ss"
  by (simp add: stage_load_def barrier_load_def resolve_load_def split: prod.split)

section \<open>Runs\<close>

definition run_ok :: "stageRun \<Rightarrow> bool" where
  "run_ok run \<longleftrightarrow> sr_stages run \<noteq> [] \<and> length (sr_warmups run) = length (sr_stages run) \<and> length (sr_names run) = length (sr_stages run)"

definition run_places :: "stageRun \<Rightarrow> (string \<times> string) list" where
  "run_places run = replicate (length (sr_stages run)) (sr_target run, sr_model run)"

lemma add_to_runs_extend:
  "add_to_runs rs (init @ [run]) =
     (if can_extend run rs
      then init @ [run\<lparr>sr_stages := sr_stages run @ [rs_loadgen rs], sr_warmups := sr_warmups run @ [rs_warmup rs], sr_names := sr_names run @ [rs_name rs]\<rparr>]
      else (init @ [run]) @ [\<lparr>sr_stages = [rs_loadgen rs], sr_target = rs_target rs, sr_model = rs_model rs, sr_workload = rs_workload rs,
             sr_warmups = [rs_warmup rs], sr_names = [rs_name rs]\<rparr>])"
  by (simp add: add_to_runs_def)

lemma add_to_runs_ok:
  assumes "list_all run_ok runs"
  shows "list_all run_ok (add_to_runs rs runs) \<and>
     concat (map sr_stages (add_to_runs rs runs)) = concat (map sr_stages runs) @ [rs_loadgen rs] \<and>
     concat (map sr_warmups (add_to_runs rs runs)) = concat (map sr_warmups runs) @ [rs_warmup rs] \<and>
     concat (map sr_names (add_to_runs rs runs)) = concat (map sr_names runs) @ [rs_name rs] \<and>
     concat (map run_places (add_to_runs rs runs)) = concat (map run_places runs) @ [(rs_target rs, rs_model rs)]"
proof (cases runs rule: rev_cases)
  case Nil
  then show ?thesis by (simp add: add_to_runs_def run_ok_def run_places_def)
next
  case (snoc init run)
  have "replicate (Suc n) x = replicate n x @ [x]" for n and x :: "string \<times> string" by (simp add: replicate_append_same)
  with snoc assms show ?thesis
    by (auto simp: add_to_runs_extend run_ok_def run_places_def can_extend_def simp del: replicate_Suc)
qed

lemma group_runs_ok:
  "list_all run_ok (group_runs resolved) \<and>
   concat (map sr_stages (group_runs resolved)) = map rs_loadgen resolved \<and>
   concat (map sr_warmups (group_runs resolved)) = map rs_warmup resolved \<and>
   concat (map sr_names (group_runs resolved)) = map rs_name resolved \<and>
   concat (map run_places (group_runs resolved)) = map (\<lambda>rs. (rs_target rs, rs_model rs)) resolved"
proof -
  have "list_all run_ok (fold add_to_runs resolved runs) \<and>
      concat (map sr_stages (fold add_to_runs resolved runs)) = concat (map sr_stages runs) @ map rs_loadgen resolved \<and>
      concat (map sr_warmups (fold add_to_runs resolved runs)) = concat (map sr_warmups runs) @ map rs_warmup resolved \<and>
      concat (map sr_names (fold add_to_runs resolved runs)) = concat (map sr_names runs) @ map rs_name resolved \<and>
      concat (map run_places (fold add_to_runs resolved runs)) = concat (map run_places runs) @ map (\<lambda>rs. (rs_target rs, rs_model rs)) resolved"
    if "list_all run_ok runs" for runs
    using that by (induction resolved arbitrary: runs) (use add_to_runs_ok in auto)
  from this [of "[]"] show ?thesis by (simp add: group_runs_def)
qed

text \<open>
  Property C22. Grouping loses no stage and keeps their order: the stages of the runs, one after the other, are the stages of the scenario
  with the worker's share of the load; every run has one warmup flag per stage, so the callbacks never index outside it; and
  each stage runs against its own target and model.
\<close>

theorem runs_cover_scenario:
  "let runs = scenario_runs target model sc in
   list_all run_ok runs \<and> concat (map sr_stages runs) = map (stage_load sc) (sc_stages sc) \<and>
   concat (map sr_warmups runs) = map (\<lambda>ss. \<not> ss_barrier ss \<and> ss_warmup ss) (sc_stages sc) \<and>
   concat (map run_places runs) = map (\<lambda>rs. (rs_target rs, rs_model rs)) (resolve_stages target model sc [] (sc_stages sc))"
  using group_runs_ok [of "resolve_stages target model sc [] (sc_stages sc)"]
  by (simp add: scenario_runs_def Let_def resolve_stages_loads resolve_stages_warmups)

text \<open>Stages that differ only in mode, rate or in-flight limit share a run, whose generator takes these from the first stage.\<close>

definition two_modes :: scenario_config where
  "two_modes = zero_scenario\<lparr>sc_stages := [zero_stage\<lparr>ss_mode := ''concurrent'', ss_concurrency := 4\<rparr>,
     zero_stage\<lparr>ss_mode := ''poisson'', ss_rate := Fin 10, ss_concurrency := 4\<rparr>]\<rparr>"

lemma modes_share_a_run:
  "length (scenario_runs ''t'' ''m'' two_modes) = 1 \<and>
   g_mode (run_generator two_modes False zero_workload 0 (hd (scenario_runs ''t'' ''m'' two_modes))) = ''concurrent''"
  by code_simp


section \<open>The load of all workers\<close>

abbreviation worker_scenario :: "scenario_config \<Rightarrow> nat \<Rightarrow> nat \<Rightarrow> scenario_config" where
  "worker_scenario sc n w \<equiv> sc\<lparr>sc_workers := int n, sc_worker_id := int w\<rparr>"

text \<open>The stages worker \<open>w\<close> of \<open>n\<close> runs.\<close>

definition worker_stages :: "string \<Rightarrow> string \<Rightarrow> scenario_config \<Rightarrow> nat \<Rightarrow> nat \<Rightarrow> Stage list" where
  "worker_stages target model sc n w = concat (map sr_stages (scenario_runs target model (worker_scenario sc n w)))"

lemma worker_stages_eq: "worker_stages target model sc n w = map (stage_load (worker_scenario sc n w)) (sc_stages sc)"
  using group_runs_ok [of "resolve_stages target model (worker_scenario sc n w) [] (sc_stages sc)"]
  by (simp add: worker_stages_def scenario_runs_def resolve_stages_loads)

lemma stage_load_concurrency:
  assumes "\<not> ss_barrier ss" and "0 \<le> ss_concurrency ss" and "w < n"
  shows "stg_concurrency (stage_load (worker_scenario sc n w) ss) = DivideConcurrency (ss_concurrency ss) (int n) (int w)"
  using assms by (auto simp: stage_load_def resolve_load_def effective_load_def Let_def DivideConcurrency_def)

lemma stage_load_pool:
  assumes "\<not> ss_barrier ss" and "0 \<le> ss_concurrency ss" and "stage_ok ss" and "ss_mode ss = ''conversation_pool''" and "w < n"
  shows "stg_pool_size (stage_load (worker_scenario sc n w) ss) = DivideConcurrency (ss_pool_size ss) (int n) (int w)"
proof -
  have le: "ss_concurrency ss \<le> ss_pool_size ss" using assms(1,3,4) by (auto simp: stage_ok_def)
  have "DivideConcurrency (ss_concurrency ss) (int n) (int w) \<le> DivideConcurrency (ss_pool_size ss) (int n) (int w)"
    using le assms(2,5) by (intro dc.share_mono) auto
  moreover have "0 \<le> DivideConcurrency (ss_concurrency ss) (int n) (int w)" using assms(2,5) by (intro dc.share_nonneg) auto
  ultimately show ?thesis
    using assms le by (auto simp: stage_load_def resolve_load_def effective_load_def Let_def DivideConcurrency_def)
qed

text \<open>
  Property C8. The workers of a validated scenario run the same sequence of stages and barriers, and together they carry exactly its load: in
  every stage the concurrencies of the workers add up to the concurrency of the scenario, and in conversation-pool stages the pools add up to the
  pool of the scenario while each worker's pool is at least its concurrency.
\<close>

theorem workers_carry_the_load:
  fixes target model :: string
  assumes "Validate sc0 = Inr sc" and "0 < n" and "i < length (sc_stages sc)" and "0 \<le> ss_concurrency (sc_stages sc ! i)"
  defines "load \<equiv> \<lambda>w. worker_stages target model sc n w ! i" and "ss \<equiv> sc_stages sc ! i"
  shows "(\<forall>w. length (worker_stages target model sc n w) = length (sc_stages sc) \<and> stg_barrier (load w) = ss_barrier ss) \<and>
     (\<not> ss_barrier ss \<longrightarrow> (\<Sum>w\<leftarrow>[0..<n]. stg_concurrency (load w)) = ss_concurrency ss) \<and>
     (\<not> ss_barrier ss \<and> ss_mode ss = ''conversation_pool'' \<longrightarrow>
        (\<Sum>w\<leftarrow>[0..<n]. stg_pool_size (load w)) = ss_pool_size ss \<and>
        (\<forall>w<n. stg_concurrency (load w) \<le> stg_pool_size (load w)))"
proof -
  have l: "load w = stage_load (worker_scenario sc n w) ss" for w using assms(3) by (simp add: load_def ss_def worker_stages_eq)
  have ok: "stage_ok ss" using Validate_Inr [OF assms(1)] assms(3) by (auto simp: ss_def list_all_iff)
  have c0: "0 \<le> ss_concurrency ss" using assms(4) by (simp add: ss_def)
  have conc: "stg_concurrency (load w) = DivideConcurrency (ss_concurrency ss) (int n) (int w)" if "\<not> ss_barrier ss" "w < n" for w
    using stage_load_concurrency [OF that(1) c0 that(2)] by (simp add: l)
  have sum: "(\<Sum>w\<leftarrow>[0..<n]. DivideConcurrency t (int n) (int w)) = t" if "0 \<le> t" for t
    using dc.share_sum [of t "int n"] that assms(2) by simp
  have s1: "(\<Sum>w\<leftarrow>[0..<n]. stg_concurrency (load w)) = ss_concurrency ss" if "\<not> ss_barrier ss"
  proof -
    have "map (\<lambda>w. stg_concurrency (load w)) [0..<n] = map (\<lambda>w. DivideConcurrency (ss_concurrency ss) (int n) (int w)) [0..<n]"
      using conc [OF that] by (intro map_cong) auto
    with sum [OF c0] show ?thesis by (simp only:)
  qed
  have s2: "(\<Sum>w\<leftarrow>[0..<n]. stg_pool_size (load w)) = ss_pool_size ss \<and> (\<forall>w<n. stg_concurrency (load w) \<le> stg_pool_size (load w))"
    if b: "\<not> ss_barrier ss" "ss_mode ss = ''conversation_pool''"
  proof -
    have le: "ss_concurrency ss \<le> ss_pool_size ss" using ok b by (auto simp: stage_ok_def)
    have p: "stg_pool_size (load w) = DivideConcurrency (ss_pool_size ss) (int n) (int w)" if "w < n" for w
      using stage_load_pool [OF b(1) c0 ok b(2) that] by (simp add: l)
    have "map (\<lambda>w. stg_pool_size (load w)) [0..<n] = map (\<lambda>w. DivideConcurrency (ss_pool_size ss) (int n) (int w)) [0..<n]"
      using p by (intro map_cong) auto
    then have "(\<Sum>w\<leftarrow>[0..<n]. stg_pool_size (load w)) = ss_pool_size ss" using sum [of "ss_pool_size ss"] le c0 by (simp only:)
    moreover have "stg_concurrency (load w) \<le> stg_pool_size (load w)" if "w < n" for w
      unfolding conc [OF b(1) that] p [OF that] using le c0 that by (intro dc.share_mono) auto
    ultimately show ?thesis by blast
  qed
  from s1 s2 show ?thesis by (simp add: worker_stages_eq l)
qed

definition pool_scenario :: scenario_config where
  "pool_scenario = zero_scenario\<lparr>sc_stages := [zero_stage\<lparr>ss_barrier := True\<rparr>,
     zero_stage\<lparr>ss_mode := ''conversation_pool'', ss_concurrency := 5, ss_pool_size := 8\<rparr>]\<rparr>"

theorem workers_carry_the_load_witness:
  "map (\<lambda>w. stg_concurrency (worker_stages ''t'' ''m'' pool_scenario 3 w ! 1)) [0, 1, 2] = [2, 2, 1] \<and>
   (\<Sum>w\<leftarrow>[0..<3]. stg_pool_size (worker_stages ''t'' ''m'' pool_scenario 3 w ! 1)) = 8"
proof
  show "map (\<lambda>w. stg_concurrency (worker_stages ''t'' ''m'' pool_scenario 3 w ! 1)) [0, 1, 2] = [2, 2, 1]" by code_simp
  have v: "Validate pool_scenario = Inr pool_scenario"
    by (simp add: Validate_def validate_stage_def pool_scenario_def zero_stage_def zero_scenario_def valid_modes_def is_nan_def is_inf_def)
  from workers_carry_the_load [OF v, of 3 1 "''t''" "''m''"]
  show "(\<Sum>w\<leftarrow>[0..<3]. stg_pool_size (worker_stages ''t'' ''m'' pool_scenario 3 w ! 1)) = 8"
    by (simp add: pool_scenario_def zero_stage_def)
qed

section \<open>Conversations the generator can send\<close>

lemma run_turns_no_panic: "[] \<notin> set ts \<Longrightarrow> IndexPanic \<notin> set (run_turns g env conv t h ts)"
  by (induction g env conv t h ts rule: run_turns.induct) (auto simp: Let_def)

lemma sendable_no_panic: "sendable conv \<Longrightarrow> IndexPanic \<notin> set (runConversation g env conv)"
  by (auto simp: sendable_def runConversation_def runCompletion_def Let_def run_turns_no_panic)

text \<open>\<open>NextConversation\<close> of the dataset that was built.\<close>

definition built_next ::
    "(nat \<Rightarrow> nat \<Rightarrow> nat) \<Rightarrow> (nat \<Rightarrow> faker_draws) \<Rightarrow> (nat \<Rightarrow> int \<Rightarrow> nat list) \<Rightarrow> built_dataset \<Rightarrow> (Conversation \<times> built_dataset) option" where
  "built_next draw gofakeit perms d =
     (case d of
        BuiltSynthetic g \<Rightarrow> map_option (\<lambda>c. (c, BuiltSynthetic g)) (synthetic_next draw g)
      | BuiltFaker g \<Rightarrow> map_option (\<lambda>(c, g'). (c, BuiltFaker g')) (faker_next gofakeit g)
      | BuiltCorpus c \<Rightarrow> map_option (\<lambda>(conv, c'). (conv, BuiltCorpus c')) (corpus_next c)
      | BuiltGSM8K g \<Rightarrow> map_option (\<lambda>(c, g'). (c, BuiltGSM8K g')) (gsm8k_next perms g)
      | BuiltGPQA g \<Rightarrow> map_option (\<lambda>(c, g'). (c, BuiltGPQA g')) (gpqa_next g))"

definition built_ok :: "(nat \<Rightarrow> int \<Rightarrow> nat list) \<Rightarrow> built_dataset \<Rightarrow> bool" where
  "built_ok perms d =
     (case d of
        BuiltSynthetic g \<Rightarrow> generated_ok g
      | BuiltFaker g \<Rightarrow> generated_ok g
      | BuiltCorpus c \<Rightarrow> corpus_ok c
      | BuiltGSM8K g \<Rightarrow> gsm8k_ok perms g
      | BuiltGPQA g \<Rightarrow> gpqa_ok g)"

interpretation built: conversation_source "built_next draw gofakeit perms" "built_ok perms" for draw gofakeit perms
proof
  fix d assume d: "built_ok perms d"
  then show "\<exists>c s'. built_next draw gofakeit perms d = Some (c, s') \<and> built_ok perms s'"
    using synthetic.next_valid [of _ draw] faker.next_valid [of _ gofakeit] corpus.next_valid gsm8k.next_valid [of perms] gpqa.next_valid
    by (cases d) (fastforce simp: built_next_def built_ok_def)+
  show "\<And>c s'. built_next draw gofakeit perms d = Some (c, s') \<Longrightarrow> sendable c"
    using d synthetic.next_sendable [of _ draw] faker.next_sendable [of _ gofakeit] corpus.next_sendable gsm8k.next_sendable [of perms] gpqa.next_sendable
    by (cases d) (auto simp: built_next_def built_ok_def)
qed




section \<open>Stage timestamps\<close>

lemma TimeToFloat_mono: "s \<le> t \<Longrightarrow> TimeToFloat s \<le> TimeToFloat t"
proof -
  assume "s \<le> t"
  then have "f64_of_int s \<le> f64_of_int t" by (simp add: f64_of_int_def f64_round_mono)
  then have "f64_of_int s / f64_of_int 1000000000 \<le> f64_of_int t / f64_of_int 1000000000" by (intro divide_right_mono) simp_all
  then show ?thesis unfolding TimeToFloat_def fdiv_def by (rule f64_round_mono)
qed

text \<open>The callbacks see only the callback events.\<close>

lemma handle_other: "\<not> callback e \<Longrightarrow> handle_event clock sc run env e s = s"
  by (cases e) simp_all

lemma fold_handle_callbacks:
  "fold (handle_event clock sc run env) es s = fold (handle_event clock sc run env) (filter callback es) s"
  by (induction es arbitrary: s) (simp_all add: handle_other)

lemma run_one_contract:
  "run_one clock sc u w run env s =
     (fold (handle_event clock sc run env) (stage_contract (loop_env sc run env) 0 (sr_stages run)) s)
       \<lparr>rn_global := rn_global s + length (sr_stages run)\<rparr>"
  by (simp only: run_one_def Let_def fold_handle_callbacks [of _ _ _ _ "RunStagesUntil _ _ _"] stages.callbacks)

text \<open>The timestamps of a runner are in order, do not overlap and number the measured stages; a stage that has started and not
  completed is the last one.\<close>

definition stamp_before :: "StageTimestamp \<Rightarrow> StageTimestamp \<Rightarrow> bool" where
  "stamp_before a b \<longleftrightarrow> st_stage a < st_stage b \<and> st_end a \<le> st_start b"

definition stamps_ok :: "(nat \<Rightarrow> time) \<Rightarrow> runner \<Rightarrow> bool" where
  "stamps_ok clock s \<longleftrightarrow>
     sorted_wrt stamp_before (rn_stamps s) \<and>
     (\<forall>a\<in>set (rn_stamps s). st_start a \<le> st_end a \<and> 0 \<le> st_stage a \<and> st_end a \<le> TimeToFloat (clock (rn_ticks s)) \<and>
        st_stage a < int (rn_measured s)) \<and>
     (\<forall>t. rn_last_start s = Some t \<longrightarrow> 0 < rn_measured s \<and> t \<le> clock (rn_ticks s) \<and>
        (\<forall>a\<in>set (rn_stamps s). st_stage a < int (rn_measured s) - 1 \<and> st_end a \<le> TimeToFloat t))"

lemma stamps_ok_barrier: "stamps_ok clock s \<Longrightarrow> stamps_ok clock (onBarrier sc wait i s)"
  by (simp add: onBarrier_def stamps_ok_def split: sum.split)

lemma clock_step:
  assumes "mono clock"
  shows "clock k \<le> clock (Suc k)" and "TimeToFloat (clock k) \<le> TimeToFloat (clock (Suc k))"
  using monoD [OF assms, of k "Suc k"] TimeToFloat_mono by simp_all

lemma stamps_ok_stage:
  assumes "mono clock" and "stamps_ok clock s"
  shows "stamps_ok clock (onStage clock run i c s)"
proof (cases "sr_warmups run ! i")
  case False
  have "st_end a \<le> TimeToFloat (clock (Suc (rn_ticks s)))" if "a \<in> set (rn_stamps s)" for a
    using assms(2) that clock_step(2) [OF assms(1), of "rn_ticks s"] by (auto simp: stamps_ok_def intro: order_trans)
  with False assms clock_step(1) [OF assms(1), of "rn_ticks s"] show ?thesis
    by (fastforce simp: onStage_def stamps_ok_def Let_def)
qed (use assms in \<open>simp add: onStage_def stamps_ok_def\<close>)

lemma stamps_ok_snoc:
  assumes "stamps_ok clock s" and "rn_last_start s = Some t" and "t \<le> now"
  shows "sorted_wrt stamp_before (rn_stamps s @ [stage_stamp s now])" and "st_start (stage_stamp s now) \<le> st_end (stage_stamp s now)"
    and "0 \<le> st_stage (stage_stamp s now)" and "st_stage (stage_stamp s now) < int (rn_measured s)"
  using assms TimeToFloat_mono [OF assms(3)]
  by (auto simp: stamps_ok_def stage_stamp_def sorted_wrt_append stamp_before_def)

lemma stamps_ok_complete:
  assumes "mono clock" and "stamps_ok clock s" and "sr_warmups run ! i \<or> rn_last_start s \<noteq> None"
  shows "stamps_ok clock (onComplete clock run answer i s)"
proof (cases "sr_warmups run ! i")
  case False
  then obtain t where t: "rn_last_start s = Some t" using assms(3) by auto
  have now: "t \<le> clock (rn_ticks s)" using assms(2) t by (auto simp: stamps_ok_def)
  have "st_end a \<le> TimeToFloat (clock (Suc (rn_ticks s)))" if "a \<in> set (rn_stamps s)" for a
    using assms(2) that clock_step(2) [OF assms(1), of "rn_ticks s"] by (auto simp: stamps_ok_def intro: order_trans)
  moreover have "st_end (stage_stamp s (clock (rn_ticks s))) \<le> TimeToFloat (clock (Suc (rn_ticks s)))"
    using clock_step(2) [OF assms(1), of "rn_ticks s"] by (simp add: stage_stamp_def)
  ultimately show ?thesis
    using False stamps_ok_snoc [OF assms(2) t now] assms(2) by (auto simp: onComplete_def stamps_ok_def)
qed (use assms(2) in \<open>simp add: onComplete_def\<close>)

lemma stamps_ok_contract:
  assumes "mono clock"
  shows "stamps_ok clock s \<Longrightarrow> stamps_ok clock (fold (handle_event clock sc run env) (stage_contract lenv i stages) s)"
proof (induction stages arbitrary: i s)
  case (Cons stg stages)
  let ?rest = "stage_contract lenv (Suc i) stages"
  have st: "stamps_ok clock (onStage clock run i c s)" for c by (rule stamps_ok_stage [OF assms Cons.prems])
  have "sr_warmups run ! i \<or> rn_last_start (onStage clock run i c s) \<noteq> None" for c by (simp add: onStage_def Let_def)
  then have co: "stamps_ok clock (onComplete clock run answer i (onStage clock run i c s))" for c answer
    by (rule stamps_ok_complete [OF assms st])
  note ih = Cons.IH [OF stamps_ok_barrier [OF Cons.prems]] Cons.IH [OF co] Cons.IH [OF st]
  show ?case
    by (cases "se_done_before lenv i"; cases "stg_barrier stg"; cases "se_done_after lenv i"; cases "se_continue lenv i")
      (simp_all add: after_stage_def Cons.prems st co ih)
qed simp

lemma stamps_ok_global [simp]: "stamps_ok clock (s\<lparr>rn_global := n\<rparr>) = stamps_ok clock s"
  by (simp add: stamps_ok_def)

lemma run_all_step:
  assumes "run_all clock sc u w prepare ((run, env) # rest) s = Inr s'" and "\<not> (re_done env \<or> rn_cancelled s)"
    and "run_one clock sc u w run env s = mid"
  shows "s' = mid \<or> run_all clock sc u w prepare rest mid = Inr s'"
proof -
  from assms have "res_bind (prepare run) (\<lambda>_. if rn_stopped mid then Inr mid else run_all clock sc u w prepare rest mid) = Inr s'"
    by (simp only: run_all.simps Let_def if_False)
  then show ?thesis by (cases "prepare run"; cases "rn_stopped mid") simp_all
qed

lemma stamps_ok_run_all:
  assumes "mono clock"
  shows "run_all clock sc u w prepare runs s = Inr s' \<Longrightarrow> stamps_ok clock s \<Longrightarrow> stamps_ok clock s'"
proof (induction runs arbitrary: s)
  case (Cons re rest)
  obtain run env where re: "re = (run, env)" by (cases re)
  have one: "stamps_ok clock (run_one clock sc u w run env s)"
    unfolding run_one_contract stamps_ok_global by (rule stamps_ok_contract [OF assms Cons.prems(2)])
  show ?case
  proof (cases "re_done env \<or> rn_cancelled s")
    case True
    with Cons.prems(1) have "s' = s" by (simp only: re run_all.simps if_True sum.inject)
    with Cons.prems(2) show ?thesis by simp
  next
    case False
    from run_all_step [OF Cons.prems(1) [unfolded re] False refl] show ?thesis using one Cons.IH [OF _ one] by metis
  qed
qed simp

lemma run_all_starts:
  assumes "run_all clock sc u w prepare runs initial_runner = Inr s" and "mono clock"
  shows "stamps_ok clock s"
proof -
  have "rn_stamps initial_runner = []" "rn_last_start initial_runner = None" by (simp_all add: initial_runner_def)
  then have "stamps_ok clock initial_runner" by (simp add: stamps_ok_def)
  with stamps_ok_run_all [OF assms(2,1)] show ?thesis .
qed

text \<open>What \<open>ComputePerStage\<close> needs of the timestamps it gets: windows in order and without overlap, with increasing numbers below the number of measured stages.\<close>

definition windows_ok :: "StageTimestamp list \<Rightarrow> nat \<Rightarrow> bool" where
  "windows_ok stamps n \<longleftrightarrow>
     sorted_wrt stamp_before stamps \<and> (\<forall>a\<in>set stamps. st_start a \<le> st_end a \<and> 0 \<le> st_stage a \<and> st_stage a < int n)"

lemma final_stamps_ok:
  assumes "stamps_ok clock s"
  shows "windows_ok (final_stamps clock s) (rn_measured s)"
proof (cases "rn_last_start s")
  case (Some t)
  have t: "t \<le> clock (rn_ticks s)" using assms Some by (simp add: stamps_ok_def)
  show ?thesis using stamps_ok_snoc [OF assms Some t] Some assms by (simp add: windows_ok_def final_stamps_def stamps_ok_def)
qed (use assms in \<open>simp add: windows_ok_def final_stamps_def stamps_ok_def\<close>)

lemma runScenario_Inr:
  assumes "runScenario clock ld endpoints disk envs recs so = Some (Inr summary)"
  obtains u w prepare runs s where "run_all clock (so_scenario so) u w prepare runs initial_runner = Inr s"
    and "final_summary clock s recs = Some summary"
  using assms
  by (auto simp: runScenario_def Let_def res_bind_Inr_iff split: option.splits sum.splits prod.splits if_splits)

text \<open>
  Property C13. Under a clock that does not go back, a scenario that ends with a summary has stage timestamps whose windows are in order
  and do not overlap, each with its start not after its end, and with increasing numbers from 0 on: whichever stage was interrupted, however the
  barriers ended and whatever the callback answered, no two stages claim the same moment or the same number.
\<close>

theorem stage_windows_disjoint:
  assumes "mono clock" and "runScenario clock ld endpoints disk envs recs so = Some (Inr summary)"
  shows "\<exists>ts n. sum_timestamps summary = Some ts \<and> windows_ok (ts_stages ts) n"
proof -
  obtain u w prepare runs s where ran: "run_all clock (so_scenario so) u w prepare runs initial_runner = Inr s"
    and fs: "final_summary clock s recs = Some summary" by (rule runScenario_Inr [OF assms(2)])
  have "sum_timestamps summary = Some (final_timestamps clock s)"
    using fs by (auto simp: final_summary_def Let_def split: if_splits option.splits)
  then show ?thesis using final_stamps_ok [OF run_all_starts [OF ran assms(1)]]
    by (auto simp: final_timestamps_def Let_def)
qed

text \<open>Two measured stages, the second one interrupted, after a warmup.\<close>

definition three_stages :: scenario_config where
  "three_stages = zero_scenario\<lparr>sc_workload := (sc_workload zero_scenario)\<lparr>wl_chars_per_token := Fin 4\<rparr>,
     sc_stages := [zero_stage\<lparr>ss_warmup := True, ss_concurrency := 1\<rparr>, zero_stage\<lparr>ss_concurrency := 2\<rparr>, zero_stage\<lparr>ss_concurrency := 3\<rparr>]\<rparr>"

definition witness_opts :: scenario_opts where
  "witness_opts = \<lparr>so_target = ''t'', so_model = ''m'', so_scenario = three_stages, so_output_dir = [], so_stream_usage = False,
     so_dataset = Some (BuiltGSM8K two_questions)\<rparr>"

definition witness_endpoint :: endpoint where
  "witness_endpoint = \<lparr>ep_ready = Some (Inr 0), ep_models = NewFails, ep_tokenize = (\<lambda>_ _. NewFails)\<rparr>"

definition witness_env :: run_env where
  "witness_env = \<lparr>re_stage = \<lparr>se_done_before = (\<lambda>k. False), se_wait = (\<lambda>k. DurationOver), se_drain = (\<lambda>k. Drained),
     se_done_after = (\<lambda>k. k = 2), se_continue = (\<lambda>k. True)\<rparr>, re_wait = (\<lambda>k. Inr 0), re_done = False\<rparr>"

definition witness_run :: "(run_error, Summary) result option" where
  "witness_run = runScenario (\<lambda>k. int k * 1000000000)
     \<lparr>ld_corpus = (\<lambda>_ _ _ _ _ _. Inl (EmptyCorpus [])), ld_gsm8k = (\<lambda>_ _ _. Inr two_questions), ld_gpqa = (\<lambda>_ _. Inl (NoQuestions []))\<rparr>
     (\<lambda>_. witness_endpoint) \<lparr>od_recorder = None, od_timestamps = None\<rparr> [witness_env] [] witness_opts"

definition witness_stamps :: "StageTimestamp list option" where
  "witness_stamps = (case witness_run of Some (Inr summary) \<Rightarrow> map_option ts_stages (sum_timestamps summary) | _ \<Rightarrow> None)"

definition three_run :: stageRun where
  "three_run = \<lparr>sr_stages = map (stage_load three_stages) (sc_stages three_stages), sr_target = ''t'', sr_model = ''m'', sr_workload = None,
     sr_warmups = [True, False, False], sr_names = [[], [], []]\<rparr>"

lemma three_runs: "scenario_runs ''t'' ''m'' three_stages = [three_run]"
  by code_simp

lemma three_events:
  "stage_contract (loop_env three_stages three_run witness_env) 0 (sr_stages three_run) =
     [OnStage 0 1, OnStageComplete 0, OnStage 1 2, OnStageComplete 1, OnStage 2 3]"
  by code_simp

lemma three_ran:
  assumes "run_one clock three_stages u w three_run witness_env initial_runner = s"
  shows "\<not> rn_stopped s" and "map st_stage (final_stamps clock s) = [0, 1]"
  unfolding assms [symmetric] run_one_contract three_events
  by (simp_all add: onStage_def onComplete_def initial_runner_def three_run_def witness_env_def final_stamps_def stage_stamp_def Let_def)

theorem stage_windows_disjoint_witness:
  "\<exists>stamps n. witness_stamps = Some stamps \<and> map st_stage stamps = [0, 1] \<and> windows_ok stamps n"
proof -
  define clock where "clock = (\<lambda>k. int k * 1000000000)"
  obtain s where one: "run_one clock three_stages False (sc_workload three_stages) three_run witness_env initial_runner = s" by blast
  have t: "sr_workload three_run = None" "\<not> re_done witness_env" "\<not> rn_cancelled initial_runner"
    by (simp_all add: three_run_def witness_env_def initial_runner_def)
  have run: "witness_run = Some (Inr (zero_summary\<lparr>sum_timestamps := Some (final_timestamps clock s)\<rparr>))"
    by (simp add: witness_run_def runScenario_def witness_opts_def witness_endpoint_def Let_def three_runs t prepare_run_def
        one [unfolded clock_def] three_ran(1) [OF one] disk_error_def final_summary_def clock_def)
  have "mono (\<lambda>k. int k * 1000000000)" by (simp add: mono_def)
  from stage_windows_disjoint [OF this run [unfolded witness_run_def]]
  obtain n where ok: "windows_ok (final_stamps clock s) n" by (auto simp: final_timestamps_def Let_def)
  have "witness_stamps = Some (final_stamps clock s)" by (simp add: witness_stamps_def run final_timestamps_def Let_def)
  with ok three_ran(2) [OF one] show ?thesis by (intro exI conjI)
qed

end
