(* ===== verification/Control_Report.thy ===== *)
theory Control_Report
  imports Analysis Control_Policy "HOL-Library.Word" "HOL-Library.Char_ord" "HOL-Library.List_Lexorder"
begin

unbundle bit_operations_syntax

text \<open>
  Package \<open>controlapi\<close>, file \<open>mcp_report.go\<close>: the artifacts of a run, the directory they may be read from, the measurement window
  common to the workers, and the report that aggregates the request records of all workers in bounded memory. The directory listing, the
  decoded contents of the files, symbolic links and SHA-256 are arguments. A context that is done while a file is read is a failed read.

  \<open>report_equals_analysis\<close> shows that within its bounds the report is the analysis of package \<open>analysis\<close>.
\<close>

section \<open>Artifacts\<close>

datatype report_error =
    ResultsUnavailable
  | ResultPathEscapes
  | ResolvingResultPath
  | ResultPathResolvesOutside
  | ReadingArtifacts
  | EntryLimit
  | OpeningArtifact string
  | HashingArtifact string
  | ArtifactBytes int
  | TimestampTooLarge string
  | OpeningTimestamps string
  | ReadingTimestamps string
  | NoCommonWindow
  | OpeningRequests string
  | RecordLimit int
  | DecodingRecord string int
  | ScanningRequests string
  | ReportStatistics

datatype artifact_kind = RequestsJsonl | TimestampsFile | PrometheusFile | RunManifest

record artifactMetadata =
  am_name :: string
  am_kind :: artifact_kind
  am_worker :: "int option"
  am_size :: int
  am_sha256 :: string
  am_modified :: time

text \<open>The expression \<open>artifactPattern\<close>. A run of digits too long for an \<open>int\<close> gives the largest one, as \<open>Atoi\<close> does.\<close>

definition digits_between :: "string \<Rightarrow> string \<Rightarrow> string \<Rightarrow> string option" where
  "digits_between pre suf name =
     (let mid = trim_suffix (trim_prefix name pre) suf
      in if has_prefix name pre \<and> has_suffix (trim_prefix name pre) suf \<and> mid \<noteq> [] \<and> list_all is_digit mid then Some mid else None)"

definition worker_number :: "string \<Rightarrow> int" where
  "worker_number ds = (case atoi ds of Some n \<Rightarrow> n | None \<Rightarrow> 2 ^ 63 - 1)"

definition prometheus_char :: "char \<Rightarrow> bool" where
  "prometheus_char c \<longleftrightarrow> is_digit c \<or> is_upper c \<or> is_lower c \<or> c = CHR ''.'' \<or> c = CHR ''-''"

definition prometheus_name :: "string \<Rightarrow> bool" where
  "prometheus_name name \<longleftrightarrow>
     name = ''prometheus.json'' \<or>
     (has_prefix name ''prometheus_'' \<and> has_suffix (trim_prefix name ''prometheus_'') ''.json'' \<and>
      (let mid = trim_suffix (trim_prefix name ''prometheus_'') ''.json'' in mid \<noteq> [] \<and> list_all prometheus_char mid))"

definition artifactPattern :: "string \<Rightarrow> (artifact_kind \<times> int option) option" where
  "artifactPattern name =
     (case digits_between ''requests_'' ''.jsonl'' name of
        Some ds \<Rightarrow> Some (RequestsJsonl, Some (worker_number ds))
      | None \<Rightarrow>
          (case digits_between ''timestamps_'' ''.json'' name of
             Some ds \<Rightarrow> Some (TimestampsFile, Some (worker_number ds))
           | None \<Rightarrow> if name = ''run-manifest.json'' then Some (RunManifest, None)
                     else if prometheus_name name then Some (PrometheusFile, None) else None))"

text \<open>One entry of a directory: whether it is a regular file whose information can be read, and its bytes as far as they can be read.\<close>

record dir_entry =
  de_name :: string
  de_dir :: bool
  de_regular :: bool
  de_modified :: time
  de_bytes :: "string option"
  de_read_ok :: bool

datatype listing = NoDirectory | ListingFails | Entries "dir_entry list"

definition readBoundedDirectory :: "int \<Rightarrow> listing \<Rightarrow> (report_error, dir_entry list option) result" where
  "readBoundedDirectory limit listed =
     (case listed of
        NoDirectory \<Rightarrow> Inr None
      | ListingFails \<Rightarrow> Inl ReadingArtifacts
      | Entries es \<Rightarrow> if limit < int (length es) then Inl EntryLimit else Inr (Some es))"

fun list_artifacts :: "(string \<Rightarrow> string) \<Rightarrow> int \<Rightarrow> int \<Rightarrow> dir_entry list \<Rightarrow> (report_error, artifactMetadata list) result" where
  "list_artifacts sha256 maxBytes totalBytes [] = Inr []"
| "list_artifacts sha256 maxBytes totalBytes (e # es) =
     (case artifactPattern (de_name e) of
        None \<Rightarrow> list_artifacts sha256 maxBytes totalBytes es
      | Some (kind, worker) \<Rightarrow>
          if de_dir e \<or> \<not> de_regular e then list_artifacts sha256 maxBytes totalBytes es
          else case de_bytes e of
            None \<Rightarrow> Inl (OpeningArtifact (de_name e))
          | Some bytes \<Rightarrow>
              if \<not> de_read_ok e then Inl (HashingArtifact (de_name e))
              else let copied = int (length bytes)
                   in if maxBytes - totalBytes < copied then Inl (ArtifactBytes maxBytes)
                      else res_bind (list_artifacts sha256 maxBytes (totalBytes + copied) es) (\<lambda>rest.
                        Inr (\<lparr>am_name = de_name e, am_kind = kind, am_worker = worker, am_size = copied, am_sha256 = sha256 bytes,
                              am_modified = de_modified e\<rparr> # rest)))"

definition listArtifacts :: "(string \<Rightarrow> string) \<Rightarrow> Options \<Rightarrow> listing \<Rightarrow> (report_error, artifactMetadata list) result" where
  "listArtifacts sha256 opts listed =
     res_bind (readBoundedDirectory (MaxArtifactFiles opts) listed) (\<lambda>es.
       case es of
         None \<Rightarrow> Inr []
       | Some es \<Rightarrow> res_bind (list_artifacts sha256 (MaxArtifactBytes opts) 0 es) (\<lambda>as. Inr (sort_key am_name as)))"

section \<open>The directory of the results\<close>

text \<open>The file system: the working directory, which paths exist, and where they lead through symbolic links.\<close>

record fs_view =
  fv_cwd :: string
  fv_exists :: "string \<Rightarrow> bool"
  fv_resolve :: "string \<Rightarrow> string option"

definition filepath_abs :: "fs_view \<Rightarrow> string \<Rightarrow> string" where
  "filepath_abs fs p = (if is_abs p then path_clean p else path_join [fv_cwd fs, p])"

definition escapes :: "string option \<Rightarrow> bool" where
  "escapes rel = (case rel of None \<Rightarrow> True | Some r \<Rightarrow> r = ''.'' \<or> has_prefix r (''..'' @ [sep]) \<or> r = ''..'')"

definition safeResultDirectory :: "fs_view \<Rightarrow> Options \<Rightarrow> ResultMetadata \<Rightarrow> (report_error, string) result" where
  "safeResultDirectory fs opts results =
     (if \<not> rm_durable results \<or> rm_path results = [] \<or> ResultRoot opts = [] then Inl ResultsUnavailable
      else let root = filepath_abs fs (ResultRoot opts); dir = filepath_abs fs (rm_path results)
           in if escapes (path_rel root dir) then Inl ResultPathEscapes
              else if fv_exists fs dir
              then (case (fv_resolve fs root, fv_resolve fs dir) of
                      (Some realRoot, Some realDir) \<Rightarrow>
                        if escapes (path_rel realRoot realDir) then Inl ResultPathResolvesOutside else Inr dir
                    | _ \<Rightarrow> Inl ResolvingResultPath)
              else Inr dir)"

section \<open>The measurement window\<close>

fun load_windows :: "int \<Rightarrow> (string \<Rightarrow> Timestamps option option) \<Rightarrow> artifactMetadata list \<Rightarrow> (rat \<times> rat) option \<Rightarrow>
     (report_error, (rat \<times> rat) option) result" where
  "load_windows maxBytes read_ts [] w = Inr w"
| "load_windows maxBytes read_ts (a # as) w =
     (if am_kind a \<noteq> TimestampsFile then load_windows maxBytes read_ts as w
      else if maxBytes < am_size a then Inl (TimestampTooLarge (am_name a))
      else case read_ts (am_name a) of
        None \<Rightarrow> Inl (OpeningTimestamps (am_name a))
      | Some None \<Rightarrow> Inl (ReadingTimestamps (am_name a))
      | Some (Some ts) \<Rightarrow>
          load_windows maxBytes read_ts as (Some (case w of
              None \<Rightarrow> (ts_rampup_end ts, ts_end ts)
            | Some (s, e) \<Rightarrow> (if s < ts_rampup_end ts then ts_rampup_end ts else s, if ts_end ts < e then ts_end ts else e))))"

definition loadMeasurementWindow :: "Options \<Rightarrow> (string \<Rightarrow> Timestamps option option) \<Rightarrow> artifactMetadata list \<Rightarrow>
     (report_error, rat \<times> rat) result" where
  "loadMeasurementWindow opts read_ts as =
     res_bind (load_windows (MaxRecordBytes opts) read_ts as None) (\<lambda>w.
       case w of
         None \<Rightarrow> Inl NoCommonWindow
       | Some (s, e) \<Rightarrow> if s \<le> 0 \<or> e \<le> s then Inl NoCommonWindow else Inr (s, e))"

section \<open>Bounded samples\<close>

record boundedSample =
  bs_values :: "rat list"
  bs_seen :: "64 word"
  bs_limit :: "64 word"

definition newBoundedSample :: "int \<Rightarrow> boundedSample" where
  "newBoundedSample n = \<lparr>bs_values = [], bs_seen = 0, bs_limit = word_of_int n\<rparr>"

definition sample_hash :: "64 word \<Rightarrow> 64 word" where
  "sample_hash seen =
     (let h0 = seen + 0x9e3779b97f4a7c15;
          h1 = (h0 XOR drop_bit 30 h0) * 0xbf58476d1ce4e5b9;
          h2 = (h1 XOR drop_bit 27 h1) * 0x94d049bb133111eb
      in h2 XOR drop_bit 31 h2)"

text \<open>The counter of a sample would wrap after \<open>2 ^ 64\<close> values; the division by it would then panic.\<close>

definition sample_add :: "rat \<Rightarrow> boundedSample \<Rightarrow> boundedSample" where
  "sample_add v s =
     (let seen = bs_seen s + 1
      in if word_of_nat (length (bs_values s)) < bs_limit s then s\<lparr>bs_seen := seen, bs_values := bs_values s @ [v]\<rparr>
         else let index = sample_hash seen mod seen
              in if index < bs_limit s then s\<lparr>bs_seen := seen, bs_values := (bs_values s)[unat index := v]\<rparr>
                 else s\<lparr>bs_seen := seen\<rparr>)"

definition Sampled :: "boundedSample \<Rightarrow> bool" where
  "Sampled s \<longleftrightarrow> bs_limit s < bs_seen s"

text \<open>The statistics are computed as \<open>computeLatencyStats\<close> of package \<open>analysis\<close> does, on a sorted copy.\<close>

definition sample_stats :: "boundedSample \<Rightarrow> LatencyStats option" where
  "sample_stats s = (if bs_values s = [] then Some zero_stats else computeLatencyStats (bs_values s))"

section \<open>The report\<close>

text \<open>The variables of the loops of \<open>aggregateRequestArtifacts\<close>. Conversations are counted by digest; the pair of times is absent before
  the first record.\<close>

record 'd report_acc =
  ra_total :: int
  ra_ok :: int
  ra_err :: int
  ra_out :: int
  ra_prompt :: int
  ra_eval :: int
  ra_eval_yes :: int
  ra_eval_no :: int
  ra_ttft :: boundedSample
  ra_itl :: boundedSample
  ra_e2e :: boundedSample
  ra_convs :: "('d \<times> int) list"
  ra_overflow :: bool
  ra_span :: "(rat \<times> rat) option"

definition report_init :: "int \<Rightarrow> 'd report_acc" where
  "report_init n =
     \<lparr>ra_total = 0, ra_ok = 0, ra_err = 0, ra_out = 0, ra_prompt = 0, ra_eval = 0, ra_eval_yes = 0, ra_eval_no = 0,
      ra_ttft = newBoundedSample n, ra_itl = newBoundedSample n, ra_e2e = newBoundedSample n, ra_convs = [], ra_overflow = False, ra_span = None\<rparr>"

fun count_conv :: "'d \<Rightarrow> ('d \<times> int) list \<Rightarrow> ('d \<times> int) list" where
  "count_conv k [] = [(k, 1)]"
| "count_conv k ((k', n) # rest) = (if k = k' then (k', n + 1) # rest else (k', n) # count_conv k rest)"

definition add_outcome :: "Record \<Rightarrow> 'd report_acc \<Rightarrow> 'd report_acc" where
  "add_outcome r a =
     (if Status r = ''ok''
      then a\<lparr>ra_ok := ra_ok a + 1, ra_out := wrap64 (ra_out a + rec_OutputTokens r), ra_prompt := wrap64 (ra_prompt a + PromptTokens r),
             ra_ttft := sample_add (rec_TTFT r) (ra_ttft a), ra_e2e := sample_add (TotalLatencyMs r) (ra_e2e a),
             ra_itl := fold sample_add (rec_ITLs r) (ra_itl a)\<rparr>
      else a\<lparr>ra_err := ra_err a + 1\<rparr>)"

definition add_evaluation :: "Record \<Rightarrow> 'd report_acc \<Rightarrow> 'd report_acc" where
  "add_evaluation r a =
     (case EvalCorrect r of
        None \<Rightarrow> a
      | Some correct \<Rightarrow>
          if correct then a\<lparr>ra_eval := ra_eval a + 1, ra_eval_yes := ra_eval_yes a + 1\<rparr>
          else a\<lparr>ra_eval := ra_eval a + 1, ra_eval_no := ra_eval_no a + 1\<rparr>)"

definition add_conversation :: "int \<Rightarrow> 'd \<Rightarrow> 'd report_acc \<Rightarrow> 'd report_acc" where
  "add_conversation n k a =
     (if k \<in> fst ` set (ra_convs a) \<or> int (length (ra_convs a)) < n then a\<lparr>ra_convs := count_conv k (ra_convs a)\<rparr>
      else a\<lparr>ra_overflow := True\<rparr>)"

definition add_span :: "Record \<Rightarrow> 'd report_acc \<Rightarrow> 'd report_acc" where
  "add_span r a =
     a\<lparr>ra_span := Some (case ra_span a of
         None \<Rightarrow> (rec_StartTime r, rec_EndTime r)
       | Some (lo, hi) \<Rightarrow> (if rec_StartTime r < lo then rec_StartTime r else lo, if hi < rec_EndTime r then rec_EndTime r else hi))\<rparr>"

definition outside :: "(rat \<times> rat) option \<Rightarrow> Record \<Rightarrow> bool" where
  "outside window r = (case window of None \<Rightarrow> False | Some (s, e) \<Rightarrow> rec_StartTime r < s \<or> e < rec_EndTime r)"

definition report_record :: "(string \<Rightarrow> 'd) \<Rightarrow> int \<Rightarrow> (rat \<times> rat) option \<Rightarrow> Record \<Rightarrow> 'd report_acc \<Rightarrow> 'd report_acc" where
  "report_record digest n window r a =
     (if outside window r then a
      else add_span r (add_conversation n (digest (ConversationID r)) (add_evaluation r (add_outcome r (a\<lparr>ra_total := ra_total a + 1\<rparr>)))))"

text \<open>A requests file as the scanner sees it: its decoded lines (\<open>None\<close> is a line that is no record) and whether the scan ends without an error.\<close>

record requests_file =
  rq_lines :: "Record option list"
  rq_scan_ok :: bool

fun scan_records ::
    "(string \<Rightarrow> 'd) \<Rightarrow> Options \<Rightarrow> (rat \<times> rat) option \<Rightarrow> string \<Rightarrow> Record option list \<Rightarrow> int \<times> 'd report_acc \<Rightarrow>
     (report_error, int \<times> 'd report_acc) result" where
  "scan_records digest opts window name [] (seen, a) = Inr (seen, a)"
| "scan_records digest opts window name (line # rest) (seen, a) =
     (if MaxReportRecords opts < seen + 1 then Inl (RecordLimit (MaxReportRecords opts))
      else case line of
        None \<Rightarrow> Inl (DecodingRecord name (seen + 1))
      | Some r \<Rightarrow> scan_records digest opts window name rest (seen + 1, report_record digest (MaxLatencySamples opts) window r a))"

fun scan_artifacts ::
    "(string \<Rightarrow> 'd) \<Rightarrow> Options \<Rightarrow> (rat \<times> rat) option \<Rightarrow> (string \<Rightarrow> requests_file option) \<Rightarrow> artifactMetadata list \<Rightarrow> int \<times> 'd report_acc \<Rightarrow>
     (report_error, int \<times> 'd report_acc) result" where
  "scan_artifacts digest opts window read_requests [] sa = Inr sa"
| "scan_artifacts digest opts window read_requests (m # ms) sa =
     (if am_kind m \<noteq> RequestsJsonl then scan_artifacts digest opts window read_requests ms sa
      else case read_requests (am_name m) of
        None \<Rightarrow> Inl (OpeningRequests (am_name m))
      | Some f \<Rightarrow> res_bind (scan_records digest opts window (am_name m) (rq_lines f) sa) (\<lambda>sa'.
          if \<not> rq_scan_ok f then Inl (ScanningRequests (am_name m)) else scan_artifacts digest opts window read_requests ms sa'))"

definition report_duration :: "(rat \<times> rat) option \<Rightarrow> 'd report_acc \<Rightarrow> rat" where
  "report_duration window a =
     (case window of
        Some (s, e) \<Rightarrow> fsub e s
      | None \<Rightarrow> (case ra_span a of None \<Rightarrow> 0 | Some (lo, hi) \<Rightarrow> fsub hi lo))"

text \<open>The table of conversations is a Go map: the order in which its counts reach the sample of turns is left open, and since there are
  no more counts than the sample holds it does not matter: its statistics do not depend on the order.\<close>

definition turns_sample :: "int \<Rightarrow> 'd report_acc \<Rightarrow> boundedSample" where
  "turns_sample n a = fold sample_add (map (\<lambda>(_, c). f64_of_int c) (ra_convs a)) (newBoundedSample n)"

definition report_summary :: "int \<Rightarrow> (rat \<times> rat) option \<Rightarrow> 'd report_acc \<Rightarrow> Summary option" where
  "report_summary n window a =
     (let dur = report_duration window a
      in case (sample_stats (ra_ttft a), sample_stats (ra_itl a), sample_stats (ra_e2e a), sample_stats (turns_sample n a)) of
           (Some ttft, Some itl, Some e2e, Some turns) \<Rightarrow>
             Some (zero_summary\<lparr>TotalRequests := ra_total a, SuccessRequests := ra_ok a, ErrorRequests := ra_err a, TotalDurationS := dur,
               RequestsPerSec := per_second (ra_ok a) dur, TotalOutputTokens := ra_out a, TotalPromptTokens := ra_prompt a,
               OutputTokensPerS := per_second (ra_out a) dur, TTFTMs := ttft, ITLMs := itl, E2EMs := e2e,
               Conversations := int (length (ra_convs a)), TurnsPerConv := turns, EvalTotal := ra_eval a, EvalCorrectCount := ra_eval_yes a,
               EvalIncorrect := ra_eval_no a,
               EvalAccuracy := (if 0 < ra_eval a then fdiv (f64_of_int (ra_eval_yes a)) (f64_of_int (ra_eval a)) else 0)\<rparr>)
         | _ \<Rightarrow> None)"

datatype report_warning =
    NoExactWindow report_error
  | SampledLatencies int
  | BoundedConversations int
  | NoRequestArtifacts
  | IncompletePartitions

definition report_warnings :: "int \<Rightarrow> 'd report_acc \<Rightarrow> report_warning list" where
  "report_warnings n a =
     (if Sampled (ra_ttft a) \<or> Sampled (ra_itl a) \<or> Sampled (ra_e2e a) then [SampledLatencies n] else []) @
     (if ra_overflow a then [BoundedConversations n] else [])"

definition aggregateRequestArtifacts ::
    "(string \<Rightarrow> 'd) \<Rightarrow> Options \<Rightarrow> (string \<Rightarrow> requests_file option) \<Rightarrow> artifactMetadata list \<Rightarrow> (rat \<times> rat) option \<Rightarrow>
     (report_error, Summary \<times> report_warning list) result" where
  "aggregateRequestArtifacts digest opts read_requests ms window =
     (let n = MaxLatencySamples opts
      in res_bind (scan_artifacts digest opts window read_requests ms (0, report_init n)) (\<lambda>(_, a).
        case report_summary n window a of
          None \<Rightarrow> Inl ReportStatistics
        | Some summary \<Rightarrow> Inr (summary, report_warnings n a)))"

text \<open>The report of one run: \<open>getBenchmarkReport\<close> after the run has been found.\<close>

record benchmarkReport =
  br_artifacts :: "artifactMetadata list"
  br_complete :: "int list"
  br_missing :: "int list"
  br_worker_complete :: bool
  br_window :: "(rat \<times> rat) option"
  br_summary :: "Summary option"
  br_warnings :: "report_warning list"

definition workers_of :: "artifact_kind \<Rightarrow> artifactMetadata list \<Rightarrow> int list" where
  "workers_of kind ms = concat (map (\<lambda>m. case am_worker m of None \<Rightarrow> [] | Some w \<Rightarrow> if am_kind m = kind then [w] else []) ms)"

definition worker_has_both :: "artifactMetadata list \<Rightarrow> int \<Rightarrow> bool" where
  "worker_has_both ms w \<longleftrightarrow> w \<in> set (workers_of RequestsJsonl ms) \<and> w \<in> set (workers_of TimestampsFile ms)"

record report_files =
  rf_listing :: listing
  rf_timestamps :: "string \<Rightarrow> Timestamps option option"
  rf_requests :: "string \<Rightarrow> requests_file option"

definition build_report ::
    "(string \<Rightarrow> string) \<Rightarrow> (string \<Rightarrow> 'd) \<Rightarrow> fs_view \<Rightarrow> Options \<Rightarrow> (string \<Rightarrow> report_files) \<Rightarrow> ResultMetadata \<Rightarrow> int \<Rightarrow>
     (report_error, benchmarkReport) result" where
  "build_report sha256 digest fs opts files results workers =
     res_bind (safeResultDirectory fs opts results) (\<lambda>dir.
     res_bind (listArtifacts sha256 opts (rf_listing (files dir))) (\<lambda>ms.
       let ids = map int [0..<nat workers];
           missing = filter (\<lambda>w. \<not> worker_has_both ms w) ids;
           report = \<lparr>br_artifacts = ms, br_complete = filter (worker_has_both ms) ids, br_missing = missing,
             br_worker_complete = (missing = []), br_window = None, br_summary = None, br_warnings = []\<rparr>;
           finish = (\<lambda>r. r\<lparr>br_warnings := br_warnings r @ (if br_worker_complete r then [] else [IncompletePartitions])\<rparr>)
       in if workers_of RequestsJsonl ms = [] then Inr (finish (report\<lparr>br_warnings := [NoRequestArtifacts]\<rparr>))
          else let (window, warn) = (case loadMeasurementWindow opts (rf_timestamps (files dir)) ms of
                     Inl e \<Rightarrow> (None, [NoExactWindow e]) | Inr w \<Rightarrow> (Some w, []))
               in res_bind (aggregateRequestArtifacts digest opts (rf_requests (files dir)) ms window) (\<lambda>(summary, warns).
                    Inr (finish (report\<lparr>br_window := window, br_summary := Some summary, br_warnings := warn @ warns\<rparr>)))))"

section \<open>Bounded samples keep what they can\<close>

definition sample_inv :: "int \<Rightarrow> rat list \<Rightarrow> boundedSample \<Rightarrow> bool" where
  "sample_inv n xs s \<longleftrightarrow>
     bs_limit s = word_of_int n \<and> bs_seen s = word_of_nat (length xs) \<and>
     length (bs_values s) = min (length xs) (nat n) \<and> set (bs_values s) \<subseteq> set xs \<and> (length xs \<le> nat n \<longrightarrow> bs_values s = xs)"

lemma word_of_nat_less_limit:
  assumes "0 < n" and "n < 2 ^ 63" and "k < 2 ^ 64"
  shows "word_of_nat k < (word_of_int n :: 64 word) \<longleftrightarrow> int k < n"
  using assms by (simp add: word_less_nat_alt take_bit_nat_eq_self unsigned_of_nat unsigned_of_int take_bit_int_eq_self zless_nat_eq_int_zless)

lemma sample_inv_new: "sample_inv n [] (newBoundedSample n)"
  by (simp add: sample_inv_def newBoundedSample_def)

lemma sample_inv_add:
  assumes "0 < n" and "n < 2 ^ 63" and "length xs < 2 ^ 64" and inv: "sample_inv n xs s"
  shows "sample_inv n (xs @ [v]) (sample_add v s)"
proof -
  have len: "length (bs_values s) = min (length xs) (nat n)" and lim: "bs_limit s = word_of_int n" and seen: "bs_seen s = word_of_nat (length xs)"
    using inv by (simp_all add: sample_inv_def)
  have less: "word_of_nat (length (bs_values s)) < bs_limit s \<longleftrightarrow> length xs < nat n"
    unfolding lim using word_of_nat_less_limit [OF assms(1,2), of "length (bs_values s)"] len assms(3) by (auto simp: min_def)
  show ?thesis
  proof (cases "length xs < nat n")
    case True
    with less inv show ?thesis by (auto simp: sample_inv_def sample_add_def Let_def seen add.commute)
  next
    case False
    have "bs_values s \<noteq> []" using False len assms(1) by auto
    have "set ((bs_values s)[i := v]) \<subseteq> insert v (set xs)" for i
      using set_update_subset_insert [of "bs_values s" i v] inv by (auto simp: sample_inv_def)
    moreover have "\<not> word_of_nat (length (bs_values s)) < bs_limit s" using less False by simp
    ultimately show ?thesis using False inv assms(1)
      by (auto simp: sample_inv_def sample_add_def Let_def add.commute)
  qed
qed

lemma sample_inv_fold:
  assumes "0 < n" and "n < 2 ^ 63"
  shows "length (xs @ ys) < 2 ^ 64 \<Longrightarrow> sample_inv n xs s \<Longrightarrow> sample_inv n (xs @ ys) (fold sample_add ys s)"
proof (induction ys arbitrary: xs s)
  case (Cons y ys)
  have "sample_inv n (xs @ [y]) (sample_add y s)" using Cons.prems by (intro sample_inv_add [OF assms]) auto
  from Cons.IH [OF _ this] Cons.prems(1) show ?case by simp
qed simp

lemma Sampled_iff:
  assumes "0 < n" and "n < 2 ^ 63" and "length xs < 2 ^ 64" and "sample_inv n xs s"
  shows "Sampled s \<longleftrightarrow> nat n < length xs"
proof -
  have "Sampled s \<longleftrightarrow> word_of_int n < (word_of_nat (length xs) :: 64 word)" using assms(4) by (simp add: Sampled_def sample_inv_def)
  also have "\<dots> \<longleftrightarrow> nat n < length xs" using assms(1-3)
    by (simp add: word_less_nat_alt unsigned_of_nat unsigned_of_int take_bit_nat_eq_self take_bit_int_eq_self)
  finally show ?thesis .
qed

text \<open>
  A bounded sample never holds more values than its limit and only values it was given; it says that it has sampled exactly when it
  was given more values than its limit, and otherwise it holds all of them in order: the statistics of a report are exact unless it warns.
\<close>

theorem bounded_sample_exact_below_limit:
  assumes "0 < n" and "n < 2 ^ 63" and "length xs < 2 ^ 64"
  defines "s \<equiv> fold sample_add xs (newBoundedSample n)"
  shows "length (bs_values s) \<le> nat n \<and> set (bs_values s) \<subseteq> set xs \<and> (Sampled s \<longleftrightarrow> nat n < length xs) \<and> (Sampled s \<or> bs_values s = xs)"
proof -
  have inv: "sample_inv n xs s" using sample_inv_fold [OF assms(1,2), of "[]" xs "newBoundedSample n"] sample_inv_new assms(3) by (simp add: s_def)
  from Sampled_iff [OF assms(1-3) inv] inv show ?thesis by (auto simp: sample_inv_def not_less)
qed

theorem bounded_sample_exact_below_limit_witness:
  "bs_values (fold sample_add [5, 3, 8] (newBoundedSample 4)) = [5, 3, 8] \<and> \<not> Sampled (fold sample_add [5, 3, 8] (newBoundedSample 4)) \<and>
   Sampled (fold sample_add [5, 3, 8] (newBoundedSample 2)) \<and> length (bs_values (fold sample_add [5, 3, 8] (newBoundedSample 2))) \<le> 2"
  using bounded_sample_exact_below_limit [of 4 "[5, 3, 8]"] bounded_sample_exact_below_limit [of 2 "[5, 3, 8]"] by auto

section \<open>The report is the analysis\<close>

abbreviation successful :: "Record list \<Rightarrow> Record list" where
  "successful rs \<equiv> filter (\<lambda>r. Status r = ''ok'') rs"

lemmas report_steps = report_record_def outside_def add_span_def add_conversation_def add_evaluation_def add_outcome_def

lemma report_record_simps:
  "ra_total (report_record digest n None r a) = ra_total a + 1"
  "ra_ok (report_record digest n None r a) = ra_ok a + (if Status r = ''ok'' then 1 else 0)"
  "ra_err (report_record digest n None r a) = ra_err a + (if Status r = ''ok'' then 0 else 1)"
  "ra_out (report_record digest n None r a) = (if Status r = ''ok'' then wrap64 (ra_out a + rec_OutputTokens r) else ra_out a)"
  "ra_prompt (report_record digest n None r a) = (if Status r = ''ok'' then wrap64 (ra_prompt a + PromptTokens r) else ra_prompt a)"
  "ra_ttft (report_record digest n None r a) = (if Status r = ''ok'' then sample_add (rec_TTFT r) (ra_ttft a) else ra_ttft a)"
  "ra_e2e (report_record digest n None r a) = (if Status r = ''ok'' then sample_add (TotalLatencyMs r) (ra_e2e a) else ra_e2e a)"
  "ra_itl (report_record digest n None r a) = (if Status r = ''ok'' then fold sample_add (rec_ITLs r) (ra_itl a) else ra_itl a)"
  "ra_eval (report_record digest n None r a) = ra_eval a + (if EvalCorrect r \<noteq> None then 1 else 0)"
  "ra_eval_yes (report_record digest n None r a) = ra_eval_yes a + (if EvalCorrect r = Some True then 1 else 0)"
  "ra_eval_no (report_record digest n None r a) = ra_eval_no a + (if EvalCorrect r = Some False then 1 else 0)"
  "ra_span (report_record digest n None r a) = Some (case ra_span a of None \<Rightarrow> (rec_StartTime r, rec_EndTime r)
     | Some (lo, hi) \<Rightarrow> (min lo (rec_StartTime r), max hi (rec_EndTime r)))"
  by (cases "EvalCorrect r"; cases "ra_span a"; simp add: report_steps min_def max_def split_beta not_less; auto)+

lemma report_record_convs:
  "digest (ConversationID r) \<in> fst ` set (ra_convs a) \<or> int (length (ra_convs a)) < n \<Longrightarrow>
     ra_convs (report_record digest n None r a) = count_conv (digest (ConversationID r)) (ra_convs a) \<and>
     ra_overflow (report_record digest n None r a) = ra_overflow a"
  by (auto simp: report_steps split: option.splits)

lemma fold_report_simps:
  fixes a :: "'d report_acc"
  shows "ra_total (fold (report_record digest n None) rs a) = ra_total a + int (length rs)"
    and "ra_ok (fold (report_record digest n None) rs a) = ra_ok a + int (length (successful rs))"
    and "ra_err (fold (report_record digest n None) rs a) = ra_err a + int (length (filter (\<lambda>r. Status r \<noteq> ''ok'') rs))"
    and "ra_ttft (fold (report_record digest n None) rs a) = fold sample_add (map rec_TTFT (successful rs)) (ra_ttft a)"
    and "ra_e2e (fold (report_record digest n None) rs a) = fold sample_add (map TotalLatencyMs (successful rs)) (ra_e2e a)"
    and "ra_itl (fold (report_record digest n None) rs a) = fold sample_add (concat (map rec_ITLs (successful rs))) (ra_itl a)"
    and "ra_eval (fold (report_record digest n None) rs a) = ra_eval a + int (length (filter (\<lambda>r. EvalCorrect r \<noteq> None) rs))"
    and "ra_eval_yes (fold (report_record digest n None) rs a) = ra_eval_yes a + int (length (filter (\<lambda>r. EvalCorrect r = Some True) rs))"
    and "ra_eval_no (fold (report_record digest n None) rs a) = ra_eval_no a + int (length (filter (\<lambda>r. EvalCorrect r = Some False) rs))"
  by (induction rs arbitrary: a; simp add: report_record_simps)+

lemma fold_report_tokens:
  fixes a :: "'d report_acc"
  shows "in64 (ra_out a) \<Longrightarrow> ra_out (fold (report_record digest n None) rs a) = wrap64 (ra_out a + sum_list (map rec_OutputTokens (successful rs)))"
    and "in64 (ra_prompt a) \<Longrightarrow> ra_prompt (fold (report_record digest n None) rs a) = wrap64 (ra_prompt a + sum_list (map PromptTokens (successful rs)))"
  by (induction rs arbitrary: a; simp add: report_record_simps add.assoc)+

lemma fold_report_span:
  fixes a :: "'d report_acc"
  shows "ra_span a = Some (lo, hi) \<Longrightarrow> ra_span (fold (report_record digest n None) rs a) =
     Some (fold min (map rec_StartTime rs) lo, fold max (map rec_EndTime rs) hi)"
  by (induction rs arbitrary: a lo hi) (simp_all add: report_record_simps min.commute max.commute)

lemma fold_report_window:
  fixes a :: "'d report_acc"
  shows "fold (report_record digest n window) rs a = fold (report_record digest n None) (filter (\<lambda>r. \<not> outside window r) rs) a"
  by (induction rs arbitrary: a) (simp_all add: report_record_def outside_def split: option.splits)

lemma count_conv_keys: "set (map fst (count_conv k al)) = insert k (set (map fst al))"
  by (induction k al rule: count_conv.induct) auto

lemma count_conv_length: "length (count_conv k al) = (if k \<in> fst ` set al then length al else Suc (length al))"
  by (induction k al rule: count_conv.induct) auto

lemma count_conv_digest:
  "inj_on d (insert k (fst ` set al)) \<Longrightarrow> count_conv (d k) (map (map_prod d id) al) = map (map_prod d id) (incr_conv k al)"
proof (induction k al rule: incr_conv.induct)
  case (2 k k' m rest)
  have "d k = d k' \<longleftrightarrow> k = k'" using 2(2) by (auto simp: inj_on_def)
  moreover have "inj_on d (insert k (fst ` set rest))" by (rule inj_on_subset [OF 2(2)]) auto
  ultimately show ?case using 2(1) by auto
qed simp

lemma fold_report_convs:
  fixes a :: "'d report_acc"
  assumes "inj_on digest (fst ` set al \<union> ConversationID ` set rs)" and "distinct (map fst al)"
    and "int (card (fst ` set al \<union> ConversationID ` set rs)) \<le> n" and "ra_convs a = map (map_prod digest id) al"
  shows "ra_convs (fold (report_record digest n None) rs a) = map (map_prod digest id) (fold incr_conv (map ConversationID rs) al) \<and>
     ra_overflow (fold (report_record digest n None) rs a) = ra_overflow a"
  using assms
proof (induction rs arbitrary: a al)
  case (Cons r rs)
  let ?k = "ConversationID r" let ?K = "fst ` set al"
  have keys: "fst ` set (incr_conv ?k al) = insert ?k ?K" using incr_conv_keys [of ?k al] by simp
  have len: "length al = card ?K" using Cons.prems(2) by (metis distinct_card length_map set_map)
  have room: "?k \<in> ?K \<or> int (length al) < n"
  proof (cases "?k \<in> ?K")
    case False
    have "card (insert ?k ?K) \<le> card (?K \<union> ConversationID ` set (r # rs))" by (rule card_mono) auto
    with False Cons.prems(3) len show ?thesis by simp
  qed simp
  have "digest ?k \<in> fst ` set (ra_convs a) \<or> int (length (ra_convs a)) < n"
    using room Cons.prems(4) by (force simp: image_image)
  note step = report_record_convs [of digest r a n, OF this]
  have "inj_on digest (insert ?k ?K)" by (rule inj_on_subset [OF Cons.prems(1)]) auto
  note cc = count_conv_digest [OF this]
  have convs: "ra_convs (report_record digest n None r a) = map (map_prod digest id) (incr_conv ?k al)"
    by (simp only: step [THEN conjunct1] Cons.prems(4) cc)
  have eq: "insert ?k ?K \<union> ConversationID ` set rs = ?K \<union> ConversationID ` set (r # rs)" by auto
  from Cons.IH [of "incr_conv ?k al", unfolded keys eq, OF Cons.prems(1) incr_conv_distinct [OF Cons.prems(2)] Cons.prems(3) convs] step
  show ?case by simp
qed simp

lemma sample_stats_exact:
  assumes "0 < n" and "n < 2 ^ 63" and "int (length xs) \<le> n"
  shows "sample_stats (fold sample_add xs (newBoundedSample n)) = computeLatencyStats xs" and "\<not> Sampled (fold sample_add xs (newBoundedSample n))"
proof -
  have len: "length xs \<le> nat n" "length xs < 2 ^ 64" using assms by auto
  have inv: "sample_inv n xs (fold sample_add xs (newBoundedSample n))"
    using sample_inv_fold [OF assms(1,2), of "[]" xs "newBoundedSample n"] sample_inv_new len by simp
  then show "\<not> Sampled (fold sample_add xs (newBoundedSample n))" using Sampled_iff [OF assms(1,2) len(2) inv] len by simp
  show "sample_stats (fold sample_add xs (newBoundedSample n)) = computeLatencyStats xs"
    using inv len by (simp add: sample_stats_def sample_inv_def computeLatencyStats_def)
qed

text \<open>The records fit into the bounds of a report.\<close>

definition within_bounds :: "int \<Rightarrow> Record list \<Rightarrow> bool" where
  "within_bounds n rs \<longleftrightarrow> 0 < n \<and> n < 2 ^ 63 \<and> int (length (successful rs)) \<le> n \<and> int (length (concat (map rec_ITLs (successful rs)))) \<le> n \<and>
     int (card (ConversationID ` set rs)) \<le> n"

definition with_window :: "(rat \<times> rat) option \<Rightarrow> Summary \<Rightarrow> Summary" where
  "with_window window s =
     (case window of None \<Rightarrow> s
      | Some (lo, hi) \<Rightarrow> let dur = fsub hi lo
          in s\<lparr>TotalDurationS := dur, RequestsPerSec := per_second (SuccessRequests s) dur, OutputTokensPerS := per_second (TotalOutputTokens s) dur\<rparr>)"

definition compute_window :: "(rat \<times> rat) option \<Rightarrow> Record list \<Rightarrow> Record list" where
  "compute_window window rs = filter (\<lambda>r. \<not> outside window r) rs"

lemma report_convs:
  assumes "within_bounds n rs" and "inj_on digest (ConversationID ` set rs)"
  shows "ra_convs (fold (report_record digest n None) rs (report_init n)) = map (map_prod digest id) (fold incr_conv (map ConversationID rs) [])"
    and "\<not> ra_overflow (fold (report_record digest n None) rs (report_init n))"
  using fold_report_convs [of digest "[]" rs n "report_init n"] assms by (simp_all add: within_bounds_def report_init_def)

lemma report_turns:
  assumes "within_bounds n rs" and "inj_on digest (ConversationID ` set rs)"
  shows "sample_stats (turns_sample n (fold (report_record digest n None) rs (report_init n))) =
     computeLatencyStats (map (\<lambda>(_, c). f64_of_int c) (fold incr_conv (map ConversationID rs) []))"
proof -
  have m: "map (\<lambda>(_, c). f64_of_int c) (map (map_prod digest id) al) = map (\<lambda>(_, c). f64_of_int c) al" for al :: "(string \<times> int) list"
    by (simp add: split_beta map_prod_def)
  have "int (length (map (\<lambda>(_, c). f64_of_int c) (fold incr_conv (map ConversationID rs) []))) \<le> n"
    using assms(1) by (simp add: conv_length within_bounds_def)
  with assms(1) show ?thesis
    unfolding turns_sample_def report_convs(1) [OF assms] m by (intro sample_stats_exact) (simp_all add: within_bounds_def)
qed

lemma report_summary_exact:
  assumes "within_bounds n rs" and "inj_on digest (ConversationID ` set rs)"
  defines "a \<equiv> fold (report_record digest n None) rs (report_init n)"
  shows "report_summary n window a =
     (if rs = [] then Some (zero_summary\<lparr>TotalDurationS := report_duration window a\<rparr>)
      else map_option (\<lambda>s. s\<lparr>TotalDurationS := report_duration window a, RequestsPerSec := per_second (SuccessRequests s) (report_duration window a),
           OutputTokensPerS := per_second (TotalOutputTokens s) (report_duration window a)\<rparr>)
         (summarize (run_compute rs) (eval_counts rs (0, 0, 0))))"
proof -
  have n: "0 < n" "n < 2 ^ 63" using assms(1) by (simp_all add: within_bounds_def)
  have init: "ra_out (report_init n :: 'a report_acc) = 0" "ra_prompt (report_init n :: 'a report_acc) = 0" by (simp_all add: report_init_def)
  have tok: "ra_out a = wrap64 (sum_list (map rec_OutputTokens (successful rs)))" "ra_prompt a = wrap64 (sum_list (map PromptTokens (successful rs)))"
    unfolding a_def by (simp_all add: fold_report_tokens in64_def init)
  have stats: "sample_stats (ra_ttft a) = computeLatencyStats (map rec_TTFT (successful rs))"
    "sample_stats (ra_e2e a) = computeLatencyStats (map TotalLatencyMs (successful rs))"
    "sample_stats (ra_itl a) = computeLatencyStats (concat (map rec_ITLs (successful rs)))"
    using assms(1) by (simp_all add: a_def fold_report_simps report_init_def sample_stats_exact within_bounds_def)
  have turns: "sample_stats (turns_sample n a) = computeLatencyStats (map (\<lambda>(_, c). f64_of_int c) (fold incr_conv (map ConversationID rs) []))"
    unfolding a_def by (rule report_turns [OF assms(1,2)])
  have counts: "ra_total a = int (length rs)" "ra_ok a = int (length (successful rs))" "ra_err a = int (length (filter (\<lambda>r. Status r \<noteq> ''ok'') rs))"
    "ra_eval a = int (length (filter (\<lambda>r. EvalCorrect r \<noteq> None) rs))" "ra_eval_yes a = int (length (filter (\<lambda>r. EvalCorrect r = Some True) rs))"
    "ra_eval_no a = int (length (filter (\<lambda>r. EvalCorrect r = Some False) rs))" by (simp_all add: a_def fold_report_simps report_init_def)
  have convs: "length (ra_convs a) = length (fold incr_conv (map ConversationID rs) [])" by (simp add: a_def report_convs(1) [OF assms(1,2)])
  show ?thesis
  proof (cases "rs = []")
    case True
    have z: "wrap64 0 = 0" "f64_round 0 = 0" by (simp_all add: in64_def f64.rnd_0)
    from True show ?thesis using tok counts convs turns stats
      by (simp add: z report_summary_def Let_def computeLatencyStats_def per_second_def zero_summary_def f64_of_int_def fdiv_def)
  next
    case False
    show ?thesis unfolding report_summary_def summarize_def Let_def stats turns tok counts convs run_compute_fields eval_counts_eq
      by (simp add: False split: option.split)
  qed
qed

lemma scan_records_all:
  "seen + int (length rs) \<le> MaxReportRecords opts \<Longrightarrow>
     scan_records digest opts window name (map Some rs) (seen, a) =
       Inr (seen + int (length rs), fold (report_record digest (MaxLatencySamples opts) window) rs a)"
  by (induction rs arbitrary: seen a) simp_all

text \<open>The records in the request files of a run, in the order of the artifacts, and the bounds \<open>Compute\<close> takes for a window.\<close>

definition requests_of :: "(artifactMetadata \<Rightarrow> Record list) \<Rightarrow> artifactMetadata list \<Rightarrow> Record list" where
  "requests_of recs ms = concat (map recs (filter (\<lambda>m. am_kind m = RequestsJsonl) ms))"

definition window_bounds :: "(rat \<times> rat) option \<Rightarrow> rat \<times> rat" where
  "window_bounds window = (case window of None \<Rightarrow> (0, 0) | Some w \<Rightarrow> w)"

definition readable :: "(string \<Rightarrow> requests_file option) \<Rightarrow> (artifactMetadata \<Rightarrow> Record list) \<Rightarrow> artifactMetadata list \<Rightarrow> bool" where
  "readable read_requests recs ms \<longleftrightarrow>
     (\<forall>m\<in>set ms. am_kind m = RequestsJsonl \<longrightarrow> read_requests (am_name m) = Some \<lparr>rq_lines = map Some (recs m), rq_scan_ok = True\<rparr>)"

lemma scan_artifacts_all:
  "readable read_requests recs ms \<Longrightarrow> seen + int (length (requests_of recs ms)) \<le> MaxReportRecords opts \<Longrightarrow>
     \<exists>seen'. scan_artifacts digest opts window read_requests ms (seen, a) =
       Inr (seen', fold (report_record digest (MaxLatencySamples opts) window) (requests_of recs ms) a)"
proof (induction ms arbitrary: seen a)
  case (Cons m ms)
  have ms: "readable read_requests recs ms" using Cons.prems(1) by (simp add: readable_def)
  show ?case
  proof (cases "am_kind m = RequestsJsonl")
    case True
    have scan: "scan_records digest opts window (am_name m) (map Some (recs m)) (seen, a) =
        Inr (seen + int (length (recs m)), fold (report_record digest (MaxLatencySamples opts) window) (recs m) a)"
      using Cons.prems(2) True by (intro scan_records_all) (simp add: requests_of_def)
    have room: "seen + int (length (recs m)) + int (length (requests_of recs ms)) \<le> MaxReportRecords opts"
      using Cons.prems(2) True by (simp add: requests_of_def)
    have rd: "read_requests (am_name m) = Some \<lparr>rq_lines = map Some (recs m), rq_scan_ok = True\<rparr>"
      using Cons.prems(1) True by (simp add: readable_def)
    show ?thesis using Cons.IH [OF ms room] True by (simp add: rd scan requests_of_def)
  next
    case False
    then show ?thesis using Cons.IH [OF ms, of seen a] Cons.prems(2) by (simp add: requests_of_def)
  qed
qed (simp add: requests_of_def)

lemma run_compute_Cons:
  "a_min (run_compute (r # rs)) = fold min (map rec_StartTime rs) (rec_StartTime r)"
  "a_max (run_compute (r # rs)) = fold max (map rec_EndTime rs) (rec_EndTime r)"
  by (simp_all add: run_compute_def fold_compute_simps compute_init_def compute_step_def Let_def)

lemma report_duration_exact:
  "report_duration window (fold (report_record digest n None) rs (report_init n)) =
     (case window of Some (lo, hi) \<Rightarrow> fsub hi lo
      | None \<Rightarrow> if rs = [] then 0 else fsub (a_max (run_compute rs)) (a_min (run_compute rs)))"
proof (cases rs)
  case (Cons r rs')
  have "ra_span (fold (report_record digest n None) rs (report_init n)) =
      Some (fold min (map rec_StartTime rs') (rec_StartTime r), fold max (map rec_EndTime rs') (rec_EndTime r))"
    unfolding Cons fold_simps by (rule fold_report_span) (simp add: report_record_simps report_init_def)
  then show ?thesis by (simp add: report_duration_def Cons run_compute_Cons split: option.splits)
qed (simp add: report_duration_def report_init_def split: option.splits)

lemma zero_summary_window:
  "with_window window zero_summary = zero_summary\<lparr>TotalDurationS := (case window of Some (lo, hi) \<Rightarrow> fsub hi lo | None \<Rightarrow> 0)\<rparr>"
  by (auto simp: with_window_def zero_summary_def per_second_def f64_of_int_def fdiv_def f64.rnd_0 Let_def split: option.split)

lemma summarize_durations:
  "summarize a ev = Some s \<Longrightarrow> TotalDurationS s = fsub (a_max a) (a_min a) \<and> RequestsPerSec s = per_second (SuccessRequests s) (TotalDurationS s) \<and>
     OutputTokensPerS s = per_second (TotalOutputTokens s) (TotalDurationS s)"
  by (auto simp: summarize_def Let_def split: option.splits prod.splits)

text \<open>The summary of a report against the analysis of the records in its window.\<close>

lemma report_summary_analysis:
  assumes "within_bounds n (compute_window window rs)" and "inj_on digest (ConversationID ` set (compute_window window rs))"
    and "window = None \<or> (\<exists>lo hi. window = Some (lo, hi) \<and> 0 < lo \<and> lo < hi)"
  shows "report_summary n window (fold (report_record digest n window) rs (report_init n)) =
     map_option (with_window window) (Compute rs (fst (window_bounds window)) (snd (window_bounds window)))"
proof -
  define ms where "ms = compute_window window rs"
  have fold: "fold (report_record digest n window) rs (report_init n) = fold (report_record digest n None) ms (report_init n)"
    by (simp only: fold_report_window [of digest n window] ms_def compute_window_def)
  have meas: "measured (fst (window_bounds window)) (snd (window_bounds window)) rs = ms"
    using assms(3) by (auto simp: measured_def ms_def compute_window_def window_bounds_def outside_def in_window_def not_less intro!: filter_cong)
  note exact = report_summary_exact [OF assms(1,2), folded ms_def, of window, unfolded report_duration_exact]
  show ?thesis
  proof (cases "ms = []")
    case True
    with exact show ?thesis by (simp add: fold Compute_eq meas zero_summary_window)
  next
    case False
    show ?thesis
    proof (cases "summarize (run_compute ms) (eval_counts ms (0, 0, 0))")
      case None
      with exact False show ?thesis by (simp add: fold Compute_eq meas)
    next
      case (Some s)
      have "with_window window s = s\<lparr>TotalDurationS := d, RequestsPerSec := per_second (SuccessRequests s) d, OutputTokensPerS := per_second (TotalOutputTokens s) d\<rparr>"
        if "d = (case window of Some (lo, hi) \<Rightarrow> fsub hi lo | None \<Rightarrow> fsub (a_max (run_compute ms)) (a_min (run_compute ms)))" for d
        using summarize_durations [OF Some] that by (cases window) (auto simp: with_window_def Let_def)
      with exact False Some show ?thesis by (simp add: fold Compute_eq meas)
    qed
  qed
qed

lemma report_no_warnings:
  assumes "within_bounds n (compute_window window rs)" and "inj_on digest (ConversationID ` set (compute_window window rs))"
  shows "report_warnings n (fold (report_record digest n window) rs (report_init n)) = []"
proof -
  have b: "0 < n" "n < 2 ^ 63" "int (length (successful (compute_window window rs))) \<le> n"
    "int (length (concat (map rec_ITLs (successful (compute_window window rs))))) \<le> n" using assms(1) by (simp_all add: within_bounds_def)
  have "\<not> ra_overflow (fold (report_record digest n None) (compute_window window rs) (report_init n))"
    by (rule report_convs(2) [OF assms])
  moreover have "\<not> Sampled (fold sample_add (map f (successful (compute_window window rs))) (newBoundedSample n))" for f
    using b by (intro sample_stats_exact(2)) simp_all
  moreover have "\<not> Sampled (fold sample_add (concat (map rec_ITLs (successful (compute_window window rs)))) (newBoundedSample n))"
    using b by (intro sample_stats_exact(2)) simp_all
  ultimately show ?thesis unfolding fold_report_window [of digest n window] compute_window_def
    by (simp add: report_warnings_def fold_report_simps) (simp add: report_init_def)
qed

text \<open>
  Property C10. Within its bounds the bounded report is the exact analysis: when all request files can be read, the records do not exceed the record
  limit, and the records of the window fit the latency samples and the table of conversations, the aggregate of any number of workers' files is
  the summary that package \<open>analysis\<close> computes from all their records in that window, with the window as its duration, and it carries
  no warning. Digests of different conversations are assumed to differ.
\<close>

theorem report_equals_analysis:
  assumes "readable read_requests recs ms"
    and "int (length (requests_of recs ms)) \<le> MaxReportRecords opts"
    and "within_bounds (MaxLatencySamples opts) (compute_window window (requests_of recs ms))"
    and "inj_on digest (ConversationID ` set (compute_window window (requests_of recs ms)))"
    and "window = None \<or> (\<exists>lo hi. window = Some (lo, hi) \<and> 0 < lo \<and> lo < hi)"
  shows "aggregateRequestArtifacts digest opts read_requests ms window =
     (case Compute (requests_of recs ms) (fst (window_bounds window)) (snd (window_bounds window)) of
        None \<Rightarrow> Inl ReportStatistics
      | Some summary \<Rightarrow> Inr (with_window window summary, []))"
proof -
  obtain seen' where scan: "scan_artifacts digest opts window read_requests ms (0, report_init (MaxLatencySamples opts)) =
      Inr (seen', fold (report_record digest (MaxLatencySamples opts) window) (requests_of recs ms) (report_init (MaxLatencySamples opts)))"
    using scan_artifacts_all [OF assms(1), of 0 opts digest window "report_init (MaxLatencySamples opts)"] assms(2) by auto
  show ?thesis unfolding aggregateRequestArtifacts_def Let_def scan
    by (simp add: report_summary_analysis [OF assms(3-5)] report_no_warnings [OF assms(3,4)] split: option.split)
qed

definition two_files :: "artifactMetadata list" where
  "two_files =
     [\<lparr>am_name = ''requests_0.jsonl'', am_kind = RequestsJsonl, am_worker = Some 0, am_size = 10, am_sha256 = [], am_modified = 0\<rparr>,
      \<lparr>am_name = ''requests_1.jsonl'', am_kind = RequestsJsonl, am_worker = Some 1, am_size = 10, am_sha256 = [], am_modified = 0\<rparr>]"

definition file_records :: "string \<Rightarrow> Record list" where
  "file_records name = (if name = ''requests_0.jsonl'' then [sample_record ''a'' 1 ''ok''] else [sample_record ''b'' 2 ''error'', sample_record ''a'' 3 ''ok''])"

theorem report_equals_analysis_witness:
  "aggregateRequestArtifacts id DefaultOptions (\<lambda>name. Some \<lparr>rq_lines = map Some (file_records name), rq_scan_ok = True\<rparr>) two_files None =
     (case Compute [sample_record ''a'' 1 ''ok'', sample_record ''b'' 2 ''error'', sample_record ''a'' 3 ''ok''] 0 0 of
        None \<Rightarrow> Inl ReportStatistics | Some summary \<Rightarrow> Inr (summary, []))"
proof -
  let ?f = "\<lambda>name. Some \<lparr>rq_lines = map Some (file_records name), rq_scan_ok = True\<rparr>"
  have lims: "MaxReportRecords DefaultOptions = 50000000" "MaxLatencySamples DefaultOptions = 100000" by (simp_all add: DefaultOptions_def)
  have recs: "requests_of (file_records \<circ> am_name) two_files = [sample_record ''a'' 1 ''ok'', sample_record ''b'' 2 ''error'', sample_record ''a'' 3 ''ok'']"
    by (simp add: requests_of_def two_files_def file_records_def)
  have read: "readable ?f (file_records \<circ> am_name) two_files" by (simp add: readable_def)
  have win: "compute_window None rs = rs" for rs by (simp add: compute_window_def outside_def)
  have bounds: "within_bounds 100000 [sample_record ''a'' 1 ''ok'', sample_record ''b'' 2 ''error'', sample_record ''a'' 3 ''ok'']"
    by (simp add: within_bounds_def sample_record_def card_insert_if)
  have "int (length (requests_of (file_records \<circ> am_name) two_files)) \<le> MaxReportRecords DefaultOptions"
    "within_bounds (MaxLatencySamples DefaultOptions) (compute_window None (requests_of (file_records \<circ> am_name) two_files))"
    using bounds by (simp_all only: recs lims win) simp
  from report_equals_analysis [OF read this, of id] show ?thesis
    by (simp add: recs window_bounds_def with_window_def split: option.split)
qed

section \<open>The window and the directory\<close>

lemma load_windows_common:
  "load_windows maxBytes read_ts ms w = Inr (Some (s, e)) \<Longrightarrow>
     (\<forall>m\<in>set ms. am_kind m = TimestampsFile \<longrightarrow> (\<exists>ts. read_ts (am_name m) = Some (Some ts) \<and> ts_rampup_end ts \<le> s \<and> e \<le> ts_end ts)) \<and>
     (\<forall>s0 e0. w = Some (s0, e0) \<longrightarrow> s0 \<le> s \<and> e \<le> e0)"
proof (induction ms arbitrary: w)
  case (Cons m ms)
  show ?case
  proof (cases "am_kind m = TimestampsFile")
    case True
    with Cons.prems obtain ts where ts: "read_ts (am_name m) = Some (Some ts)" by (auto split: if_splits option.splits)
    let ?w = "case w of None \<Rightarrow> (ts_rampup_end ts, ts_end ts)
        | Some (s, e) \<Rightarrow> (if s < ts_rampup_end ts then ts_rampup_end ts else s, if ts_end ts < e then ts_end ts else e)"
    have rest: "load_windows maxBytes read_ts ms (Some ?w) = Inr (Some (s, e))" using Cons.prems True ts by (simp split: if_splits)
    have "ts_rampup_end ts \<le> fst ?w \<and> snd ?w \<le> ts_end ts \<and> (\<forall>s0 e0. w = Some (s0, e0) \<longrightarrow> s0 \<le> fst ?w \<and> snd ?w \<le> e0)"
      by (auto split: option.splits)
    moreover have "fst ?w \<le> s \<and> e \<le> snd ?w" using Cons.IH [OF rest] by (cases ?w) auto
    ultimately show ?thesis using Cons.IH [OF rest] ts by (auto intro: order_trans)
  next
    case False
    with Cons.prems Cons.IH [of w] show ?thesis by auto
  qed
qed simp

text \<open>
  The measurement window of a report is common to the workers: it is not empty, it starts after the last worker's ramp-up and ends
  before the first worker's end, for every worker whose timestamps are among the artifacts, and no worker's timestamps are left out because they
  could not be read.
\<close>

theorem window_common_to_workers:
  assumes "loadMeasurementWindow opts read_ts ms = Inr (s, e)"
  shows "0 < s \<and> s < e \<and>
     (\<forall>m\<in>set ms. am_kind m = TimestampsFile \<longrightarrow> (\<exists>ts. read_ts (am_name m) = Some (Some ts) \<and> ts_rampup_end ts \<le> s \<and> e \<le> ts_end ts))"
proof -
  from assms obtain w where lw: "load_windows (MaxRecordBytes opts) read_ts ms None = Inr w"
    and w: "(case w of None \<Rightarrow> Inl NoCommonWindow | Some (s, e) \<Rightarrow> if s \<le> 0 \<or> e \<le> s then Inl NoCommonWindow else Inr (s, e)) = Inr (s, e)"
    unfolding loadMeasurementWindow_def res_bind_Inr_iff by blast
  from w have "w = Some (s, e)" "0 < s" "s < e" by (simp_all add: not_le split: option.splits prod.splits if_splits)
  with load_windows_common lw show ?thesis by blast
qed

lemma is_abs_filepath_abs: "is_abs (fv_cwd fs) \<Longrightarrow> is_abs (filepath_abs fs p)"
proof -
  assume cwd: "is_abs (fv_cwd fs)"
  then obtain rest where rest: "fv_cwd fs = sep # rest" by (auto simp: is_abs_def has_prefix_iff prefix_def sep_def)
  show ?thesis
  proof (cases "is_abs p")
    case False
    have "path_join [fv_cwd fs, p] = path_clean (if p = [] then fv_cwd fs else fv_cwd fs @ sep # p)" by (simp add: path_join_def rest)
    moreover have "is_abs (fv_cwd fs @ sep # p)" by (simp add: rest is_abs_def has_prefix_iff sep_def)
    ultimately show ?thesis using False cwd by (simp add: filepath_abs_def path_clean_abs)
  qed (simp add: filepath_abs_def path_clean_abs)
qed

lemma not_escapes:
  assumes "\<not> escapes (path_rel rootdir dir)" and "is_abs rootdir" and "is_abs dir"
  shows "\<exists>ts. ts \<noteq> [] \<and> path_elems dir = path_elems rootdir @ ts"
proof -
  from assms(1) obtain r where "path_rel rootdir dir = Some r" "r \<noteq> ''.''" "r \<noteq> ''..''" "\<not> has_prefix r (''..'' @ [sep])"
    by (auto simp: escapes_def split: option.splits)
  from path_rel_below [OF assms(2,3) this] show ?thesis .
qed

text \<open>
  Reports read only below the operator's result root: whatever path the metadata of a run names, an accepted directory properly extends
  the root by plain path elements, and when it exists the same holds after all symbolic links have been followed.
\<close>

theorem report_directory_confined:
  assumes "safeResultDirectory fs opts results = Inr dir" and "is_abs (fv_cwd fs)"
    and "\<forall>p q. fv_resolve fs p = Some q \<longrightarrow> is_abs q"
  shows "(\<exists>ts. ts \<noteq> [] \<and> path_elems dir = path_elems (filepath_abs fs (ResultRoot opts)) @ ts \<and> (\<forall>e\<in>set ts. plain_elem e)) \<and>
     (fv_exists fs dir \<longrightarrow> (\<exists>realRoot realDir ts. fv_resolve fs (filepath_abs fs (ResultRoot opts)) = Some realRoot \<and>
        fv_resolve fs dir = Some realDir \<and> ts \<noteq> [] \<and> path_elems realDir = path_elems realRoot @ ts))"
proof -
  let ?root = "filepath_abs fs (ResultRoot opts)"
  have dir: "dir = filepath_abs fs (rm_path results)" and ne: "\<not> escapes (path_rel ?root dir)"
    using assms(1) by (auto simp: safeResultDirectory_def Let_def split: if_splits option.splits)
  have abs: "is_abs ?root" "is_abs dir" using is_abs_filepath_abs [OF assms(2)] by (simp_all add: dir)
  obtain ts where ts: "ts \<noteq> []" "path_elems dir = path_elems ?root @ ts" using not_escapes [OF ne abs] by blast
  have plain: "\<forall>e\<in>set ts. plain_elem e" using path_elems_abs_plain [OF abs(2)] ts(2) by simp
  have real: "\<exists>realRoot realDir ts. fv_resolve fs ?root = Some realRoot \<and> fv_resolve fs dir = Some realDir \<and> ts \<noteq> [] \<and>
      path_elems realDir = path_elems realRoot @ ts" if "fv_exists fs dir"
  proof -
    from assms(1) that obtain realRoot realDir where r: "fv_resolve fs ?root = Some realRoot" "fv_resolve fs dir = Some realDir"
      and ne': "\<not> escapes (path_rel realRoot realDir)"
      by (auto simp: safeResultDirectory_def Let_def split: if_splits option.splits)
    from not_escapes [OF ne'] assms(3) r show ?thesis by blast
  qed
  from ts plain real show ?thesis by blast
qed

definition plain_fs :: fs_view where
  "plain_fs = \<lparr>fv_cwd = ''/'', fv_exists = (\<lambda>_. True), fv_resolve = (\<lambda>p. Some (path_clean (sep # p)))\<rparr>"

definition durable_at :: "string \<Rightarrow> ResultMetadata" where
  "durable_at p = no_results\<lparr>rm_durable := True, rm_path := p\<rparr>"

theorem report_directory_confined_witness:
  "safeResultDirectory plain_fs (DefaultOptions\<lparr>ResultRoot := ''/results''\<rparr>) (durable_at ''/results/mcp/../run'') = Inr ''/results/run'' \<and>
   (\<exists>ts. path_elems ''/results/run'' = ''results'' # ts) \<and>
   safeResultDirectory plain_fs (DefaultOptions\<lparr>ResultRoot := ''/results''\<rparr>) (durable_at ''/results/../etc'') = Inl ResultPathEscapes"
proof -
  let ?o = "DefaultOptions\<lparr>ResultRoot := ''/results''\<rparr>"
  have ok: "safeResultDirectory plain_fs ?o (durable_at ''/results/mcp/../run'') = Inr ''/results/run''"
    and bad: "safeResultDirectory plain_fs ?o (durable_at ''/results/../etc'') = Inl ResultPathEscapes"
    by code_simp+
  have cwd: "is_abs (fv_cwd plain_fs)" by (simp add: plain_fs_def is_abs_def has_prefix_def)
  have "is_abs (sep # p)" for p by (simp add: is_abs_def has_prefix_def sep_def)
  then have res: "\<forall>p q. fv_resolve plain_fs p = Some q \<longrightarrow> is_abs q" by (auto simp: plain_fs_def path_clean_abs)
  have "path_elems (filepath_abs plain_fs (ResultRoot ?o)) = [''results'']" by code_simp
  with report_directory_confined [OF ok cwd res] have "\<exists>ts. path_elems ''/results/run'' = ''results'' # ts" by auto
  with ok bad show ?thesis by blast
qed

definition sample_window :: "rat \<Rightarrow> rat \<Rightarrow> Timestamps" where
  "sample_window s e = \<lparr>ts_start = 0, ts_rampup_end = s, ts_end = e, ts_rampup_seconds = 0, ts_total_seconds = 0, ts_stages = []\<rparr>"

definition two_windows :: "artifactMetadata list" where
  "two_windows =
     [\<lparr>am_name = ''timestamps_0.json'', am_kind = TimestampsFile, am_worker = Some 0, am_size = 10, am_sha256 = [], am_modified = 0\<rparr>,
      \<lparr>am_name = ''timestamps_1.json'', am_kind = TimestampsFile, am_worker = Some 1, am_size = 10, am_sha256 = [], am_modified = 0\<rparr>]"

definition read_window :: "string \<Rightarrow> Timestamps option option" where
  "read_window name = Some (Some (if name = ''timestamps_0.json'' then sample_window 5 20 else sample_window 7 30))"

theorem window_common_to_workers_witness:
  "loadMeasurementWindow DefaultOptions read_window two_windows = Inr (7, 20) \<and>
   (\<exists>ts. read_window ''timestamps_1.json'' = Some (Some ts) \<and> ts_rampup_end ts \<le> 7 \<and> 20 \<le> ts_end ts)"
proof -
  have w: "loadMeasurementWindow DefaultOptions read_window two_windows = Inr (7, 20)"
    by (simp add: loadMeasurementWindow_def two_windows_def read_window_def sample_window_def DefaultOptions_def)
  from window_common_to_workers [OF w] w show ?thesis by (auto simp: two_windows_def)
qed

section \<open>Workers\<close>

lemma report_partitions_workers:
  assumes "build_report sha256 digest fs opts files results workers = Inr r"
  shows "set (br_complete r) \<union> set (br_missing r) = {0..<workers} \<and> set (br_complete r) \<inter> set (br_missing r) = {} \<and>
     (br_worker_complete r \<longleftrightarrow> br_missing r = [])"
proof -
  have ids: "set (map int [0..<nat workers]) = {0..<workers}"
    by (auto simp: image_iff) (metis atLeastLessThan_iff int_nat_eq nat_less_iff zero_le zless_nat_eq_int_zless)
  from assms obtain dir ms where "safeResultDirectory fs opts results = Inr dir" and "listArtifacts sha256 opts (rf_listing (files dir)) = Inr ms"
    unfolding build_report_def res_bind_Inr_iff by blast
  note found = this
  let ?missing = "filter (\<lambda>w. \<not> worker_has_both ms w) (map int [0..<nat workers])"
  have r: "br_complete r = filter (worker_has_both ms) (map int [0..<nat workers])" "br_missing r = ?missing" "br_worker_complete r \<longleftrightarrow> ?missing = []"
  proof -
    have "\<exists>w s ws. r = \<lparr>br_artifacts = ms, br_complete = filter (worker_has_both ms) (map int [0..<nat workers]), br_missing = ?missing,
        br_worker_complete = (?missing = []), br_window = w, br_summary = s, br_warnings = ws\<rparr>"
    proof (cases "workers_of RequestsJsonl ms = []")
      case True
      with assms found show ?thesis by (simp add: build_report_def Let_def) metis
    next
      case False
      with assms found show ?thesis
        by (cases "loadMeasurementWindow opts (rf_timestamps (files dir)) ms") (simp_all add: build_report_def Let_def res_bind_Inr_iff split_beta, metis+)
    qed
    then show "br_complete r = filter (worker_has_both ms) (map int [0..<nat workers])" "br_missing r = ?missing" "br_worker_complete r \<longleftrightarrow> ?missing = []"
      by (elim exE; hypsubst; simp)+
  qed
  show ?thesis unfolding r using ids by auto
qed

end
