(* ===== verification/Run_Submission.thy ===== *)
theory Run_Submission
  imports Control_Report
begin

text \<open>
  Package \<open>controlapi\<close>: how runs are submitted and canceled, from \<open>mcp_runs.go\<close> and the Kubernetes calls of \<open>server.go\<close>. Several clients
  may submit and cancel the same run id at once, through several servers that share the cluster and the result storage: each call of the
  Kubernetes API and each atomic file operation is one step of one client, in any order, and any of them may fail with or without effect.

  The store holds what concerns one run id: the index file, the manifests in the result directories, the Job and the Service. Encodings of times
  and results, the identifiers and versions that the API server assigns, and whether directories and files can be read are arguments.
\<close>

section \<open>Objects\<close>

type_synonym entries = "(string \<times> string) list"

definition entry :: "entries \<Rightarrow> string \<Rightarrow> string" where
  "entry al k = (case map_of al k of None \<Rightarrow> [] | Some v \<Rightarrow> v)"

definition set_entry :: "string \<Rightarrow> string \<Rightarrow> entries \<Rightarrow> entries" where
  "set_entry k v al = (k, v) # filter (\<lambda>kv. fst kv \<noteq> k) al"

definition managedLabel :: string where "managedLabel = ''nyann-bench.neuralmagic.com/managed''"
definition resultsAnnotation :: string where "resultsAnnotation = ''nyann-bench.neuralmagic.com/results''"
definition createdAnnotation :: string where "createdAnnotation = ''nyann-bench.neuralmagic.com/created-at''"
definition requestAnnotation :: string where "requestAnnotation = ''nyann-bench.neuralmagic.com/request-sha256''"
definition scenarioAnnotation :: string where "scenarioAnnotation = ''nyann-bench.neuralmagic.com/effective-scenario''"
definition targetAnnotation :: string where "targetAnnotation = ''nyann-bench.neuralmagic.com/target''"
definition resultLabelAnnotation :: string where "resultLabelAnnotation = ''nyann-bench.neuralmagic.com/result-label''"
definition platformAnnotation :: string where "platformAnnotation = ''nyann-bench.neuralmagic.com/platform''"
definition workstreamAnnotation :: string where "workstreamAnnotation = ''vdp.neuralmagic.com/workstream''"
definition mcpManagedAnnotation :: string where "mcpManagedAnnotation = ''nyann-bench.neuralmagic.com/mcp-managed''"

lemmas annotation_names = managedLabel_def resultsAnnotation_def createdAnnotation_def requestAnnotation_def scenarioAnnotation_def
  targetAnnotation_def resultLabelAnnotation_def platformAnnotation_def workstreamAnnotation_def mcpManagedAnnotation_def

record object_meta =
  om_labels :: entries
  om_annotations :: entries

record service_obj =
  so_meta :: object_meta
  so_owners :: "string list"
  so_version :: nat

record job_obj =
  jo_name :: string
  jo_meta :: object_meta
  jo_uid :: string
  jo_completions :: "int option"
  jo_status :: job_status
  jo_succeeded :: int
  jo_failed :: int
  jo_deadline :: "int option"
  jo_ttl :: "int option"
  jo_creation :: time
  jo_started :: "time option"
  jo_ended :: "time option"

definition managed :: "object_meta \<Rightarrow> bool" where
  "managed m \<longleftrightarrow> entry (om_labels m) managedLabel = ''true''"

definition request_of :: "object_meta \<Rightarrow> string" where
  "request_of m = entry (om_annotations m) requestAnnotation"

definition decorate :: "string \<Rightarrow> entries \<Rightarrow> object_meta \<Rightarrow> object_meta" where
  "decorate name annotations m =
     \<lparr>om_labels = set_entry ''app.kubernetes.io/instance'' name
        (set_entry ''app.kubernetes.io/name'' ''nyann-bench'' (set_entry managedLabel ''true'' (om_labels m))),
      om_annotations = fold (\<lambda>(k, v). set_entry k v) annotations (om_annotations m)\<rparr>"

record Run =
  ru_id :: string
  ru_status :: string
  ru_workers :: int
  ru_succeeded :: int
  ru_failed :: int
  ru_active :: int
  ru_created :: time
  ru_started :: "time option"
  ru_ended :: "time option"
  ru_results :: ResultMetadata
  ru_deadline :: int
  ru_ttl :: int

text \<open>Encodings in annotations; decoding something else gives the zero value.\<close>

record codec =
  cd_time :: "time \<Rightarrow> string"
  cd_parse_time :: "string \<Rightarrow> time"
  cd_results :: "ResultMetadata \<Rightarrow> string"
  cd_parse_results :: "string \<Rightarrow> ResultMetadata"

definition runFromJob :: "codec \<Rightarrow> job_obj \<Rightarrow> Run" where
  "runFromJob cd j =
     (let an = entry (om_annotations (jo_meta j))
      in \<lparr>ru_id = jo_name j, ru_status = jobStatus (jo_status j), ru_workers = (case jo_completions j of None \<Rightarrow> 1 | Some n \<Rightarrow> n),
          ru_succeeded = jo_succeeded j, ru_failed = jo_failed j, ru_active = js_active (jo_status j),
          ru_created = (if an createdAnnotation \<noteq> [] then cd_parse_time cd (an createdAnnotation) else jo_creation j),
          ru_started = jo_started j, ru_ended = jo_ended j, ru_results = cd_parse_results cd (an resultsAnnotation),
          ru_deadline = (case jo_deadline j of None \<Rightarrow> 0 | Some d \<Rightarrow> d), ru_ttl = (case jo_ttl j of None \<Rightarrow> 0 | Some t \<Rightarrow> t)\<rparr>)"

record durableRunManifest =
  mf_run :: string
  mf_fingerprint :: string
  mf_created :: time
  mf_target :: string
  mf_model :: string
  mf_label :: string
  mf_workstream :: string
  mf_scenario :: string
  mf_platform :: string
  mf_results :: ResultMetadata
  mf_workers :: int
  mf_deadline :: int
  mf_retention :: int
  mf_image :: string

definition runFromManifest :: "durableRunManifest \<Rightarrow> string \<Rightarrow> Run" where
  "runFromManifest m status =
     \<lparr>ru_id = mf_run m, ru_status = status, ru_workers = mf_workers m, ru_succeeded = 0, ru_failed = 0, ru_active = 0,
      ru_created = mf_created m, ru_started = None, ru_ended = None, ru_results = mf_results m, ru_deadline = mf_deadline m,
      ru_ttl = mf_retention m\<rparr>"

text \<open>A validated plan, as far as submitting it goes.\<close>

record plannedBenchmark =
  pb_run :: string
  pb_fingerprint :: string
  pb_target :: string
  pb_model :: string
  pb_label :: string
  pb_workstream :: string
  pb_scenario :: string
  pb_platform :: string
  pb_workers :: int
  pb_image :: string
  pb_results :: ResultMetadata
  pb_deadline :: int
  pb_retention :: int
  pb_service :: service_obj
  pb_job :: job_obj

definition desired_manifest :: "plannedBenchmark \<Rightarrow> time \<Rightarrow> durableRunManifest" where
  "desired_manifest p now =
     \<lparr>mf_run = pb_run p, mf_fingerprint = pb_fingerprint p, mf_created = now, mf_target = pb_target p, mf_model = pb_model p,
      mf_label = pb_label p, mf_workstream = pb_workstream p, mf_scenario = pb_scenario p, mf_platform = pb_platform p,
      mf_results = pb_results p, mf_workers = pb_workers p, mf_deadline = pb_deadline p, mf_retention = pb_retention p, mf_image = pb_image p\<rparr>"

definition run_metadata :: "codec \<Rightarrow> plannedBenchmark \<Rightarrow> time \<Rightarrow> entries" where
  "run_metadata cd p now =
     [(createdAnnotation, cd_time cd now), (resultsAnnotation, cd_results cd (pb_results p)), (requestAnnotation, pb_fingerprint p),
      (scenarioAnnotation, pb_scenario p), (targetAnnotation, pb_target p), (resultLabelAnnotation, pb_label p),
      (platformAnnotation, pb_platform p), (mcpManagedAnnotation, ''true'')] @
     (if pb_workstream p \<noteq> [] then [(workstreamAnnotation, pb_workstream p)] else [])"

definition run_service :: "codec \<Rightarrow> plannedBenchmark \<Rightarrow> time \<Rightarrow> service_obj" where
  "run_service cd p now = (pb_service p)\<lparr>so_meta := decorate (pb_run p) (run_metadata cd p now) (so_meta (pb_service p))\<rparr>"

definition run_job :: "codec \<Rightarrow> plannedBenchmark \<Rightarrow> time \<Rightarrow> job_obj" where
  "run_job cd p now = (pb_job p)\<lparr>jo_meta := decorate (pb_run p) (run_metadata cd p now) (jo_meta (pb_job p))\<rparr>"

section \<open>The store and the calls\<close>

text \<open>How a call of the API server or of the file system ends for its caller: it works, it fails without effect, or it takes effect but the caller sees
  an error.\<close>

datatype api = Works | Lost | Unacked

record run_store =
  rs_index :: "durableRunManifest option"
  rs_manifest :: "string \<Rightarrow> durableRunManifest option"
  rs_job :: "job_obj option"
  rs_service :: "service_obj option"

datatype submit_error =
    IndexDirectory
  | LinkingManifest
  | ReadingManifest
  | DifferentProvenance
  | ResultDirectory
  | DifferentRun
  | ServiceAlreadyExists
  | OwnershipChanged
  | KubernetesError
  | ReadingRunArtifacts

text \<open>\<open>createOrValidateManifest\<close>: linking a complete file creates the manifest unless there is one, which must then agree.\<close>

definition same_provenance :: "durableRunManifest \<Rightarrow> durableRunManifest \<Rightarrow> bool" where
  "same_provenance existing desired \<longleftrightarrow>
     mf_run existing = mf_run desired \<and> mf_fingerprint existing = mf_fingerprint desired \<and>
     rm_path (mf_results existing) = rm_path (mf_results desired)"

definition createOrValidateManifest ::
    "api \<Rightarrow> bool \<Rightarrow> durableRunManifest \<Rightarrow> durableRunManifest option \<Rightarrow>
     durableRunManifest option \<times> (submit_error, durableRunManifest \<times> bool) result" where
  "createOrValidateManifest api legible desired current =
     (case current of
        None \<Rightarrow> (case api of
            Works \<Rightarrow> (Some desired, Inr (desired, True))
          | Lost \<Rightarrow> (None, Inl LinkingManifest)
          | Unacked \<Rightarrow> (Some desired, Inl LinkingManifest))
      | Some existing \<Rightarrow>
          (current,
           if api \<noteq> Works then Inl LinkingManifest
           else if \<not> legible then Inl ReadingManifest
           else if same_provenance existing desired then Inr (existing, False) else Inl DifferentProvenance))"

section \<open>Submitting\<close>

text \<open>Where a submission is. \<open>PGetService\<close>, \<open>PCreateService\<close> and \<open>PRegetService\<close> are the calls of \<open>upsertManagedService\<close>, which is called for an
  existing Job or before a new one; \<open>PGetOwner\<close> and \<open>PSetOwner\<close> are one attempt of \<open>attachServiceOwner\<close>, with the number of attempts before
  it. A submission that was created first undoes its index file when the result directory cannot be prepared.\<close>

datatype submit_pc =
    PIndex
  | PRunManifest durableRunManifest bool
  | PRollback submit_error
  | PGetJob durableRunManifest bool
  | PGetService "job_obj option"
  | PCreateService "job_obj option"
  | PRegetService "job_obj option"
  | PCreateJob
  | PRegetJob
  | PGetOwner nat job_obj bool
  | PSetOwner nat job_obj bool nat
  | PDone "(submit_error, Run \<times> bool) result"

text \<open>What the environment decides about one step.\<close>

record choice =
  ch_api :: api
  ch_ok :: bool
  ch_legible :: bool
  ch_artifacts :: "bool option"
  ch_uid :: string
  ch_now :: time

definition after_service :: "job_obj option \<Rightarrow> codec \<Rightarrow> submit_pc" where
  "after_service existing cd =
     (case existing of
        None \<Rightarrow> PCreateJob
      | Some j \<Rightarrow> if jo_uid j = [] then PDone (Inr (runFromJob cd j, False)) else PGetOwner 0 j False)"

definition check_service :: "plannedBenchmark \<Rightarrow> codec \<Rightarrow> job_obj option \<Rightarrow> service_obj \<Rightarrow> submit_pc" where
  "check_service p cd existing svc =
     (if managed (so_meta svc) \<and> request_of (so_meta svc) = pb_fingerprint p then after_service existing cd
      else PDone (Inl ServiceAlreadyExists))"

text \<open>A failed or lost call of the API server ends the submission; an attempt to set the owner that meets a conflict is repeated, five times in all.\<close>

definition retry_owner :: "nat \<Rightarrow> job_obj \<Rightarrow> bool \<Rightarrow> submit_error \<Rightarrow> submit_pc" where
  "retry_owner n j created e = (if n + 1 < 5 then PGetOwner (n + 1) j created else PDone (Inl e))"

definition persist_index :: "plannedBenchmark \<Rightarrow> choice \<Rightarrow> run_store \<Rightarrow> run_store \<times> submit_pc" where
  "persist_index p ch s =
     (if \<not> ch_ok ch then (s, PDone (Inl IndexDirectory))
      else let (idx, r) = createOrValidateManifest (ch_api ch) (ch_legible ch) (desired_manifest p (ch_now ch)) (rs_index s)
           in (s\<lparr>rs_index := idx\<rparr>, case r of Inl e \<Rightarrow> PDone (Inl e) | Inr (m, created) \<Rightarrow> PRunManifest m created))"

definition persist_results :: "durableRunManifest \<Rightarrow> bool \<Rightarrow> choice \<Rightarrow> run_store \<Rightarrow> run_store \<times> submit_pc" where
  "persist_results m created ch s =
     (let undo = (\<lambda>e. if created then PRollback e else PDone (Inl e)); path = rm_path (mf_results m)
      in if \<not> ch_ok ch then (s, undo ResultDirectory)
         else let (man, r) = createOrValidateManifest (ch_api ch) (ch_legible ch) m (rs_manifest s path)
              in (s\<lparr>rs_manifest := (rs_manifest s)(path := man)\<rparr>,
                  case r of Inl e \<Rightarrow> undo e | Inr _ \<Rightarrow> PGetJob m (\<not> created)))"

definition get_job :: "codec \<Rightarrow> plannedBenchmark \<Rightarrow> durableRunManifest \<Rightarrow> bool \<Rightarrow> choice \<Rightarrow> run_store \<Rightarrow> submit_pc" where
  "get_job cd p m existed ch s =
     (if ch_api ch \<noteq> Works then PDone (Inl KubernetesError)
      else case rs_job s of
        Some j \<Rightarrow> if managed (jo_meta j) \<and> request_of (jo_meta j) = pb_fingerprint p then PGetService (Some j) else PDone (Inl DifferentRun)
      | None \<Rightarrow>
          if existed
          then (case ch_artifacts ch of
                  None \<Rightarrow> PDone (Inl ReadingRunArtifacts)
                | Some True \<Rightarrow> PDone (Inr (runFromManifest m ''archived'', False))
                | Some False \<Rightarrow> PGetService None)
          else PGetService None)"

definition create_service :: "codec \<Rightarrow> plannedBenchmark \<Rightarrow> job_obj option \<Rightarrow> choice \<Rightarrow> run_store \<Rightarrow> run_store \<times> submit_pc" where
  "create_service cd p existing ch s =
     (case rs_service s of
        Some _ \<Rightarrow> (s, if ch_api ch = Works then PRegetService existing else PDone (Inl KubernetesError))
      | None \<Rightarrow>
          (let made = s\<lparr>rs_service := Some ((run_service cd p (ch_now ch))\<lparr>so_version := 0\<rparr>)\<rparr>
           in case ch_api ch of
                Works \<Rightarrow> (made, after_service existing cd)
              | Lost \<Rightarrow> (s, PDone (Inl KubernetesError))
              | Unacked \<Rightarrow> (made, PDone (Inl KubernetesError))))"

definition create_job :: "codec \<Rightarrow> plannedBenchmark \<Rightarrow> choice \<Rightarrow> run_store \<Rightarrow> run_store \<times> submit_pc" where
  "create_job cd p ch s =
     (case rs_job s of
        Some _ \<Rightarrow> (s, if ch_api ch = Works then PRegetJob else PDone (Inl KubernetesError))
      | None \<Rightarrow>
          (let j = (run_job cd p (ch_now ch))\<lparr>jo_uid := ch_uid ch\<rparr>; made = s\<lparr>rs_job := Some j\<rparr>
           in case ch_api ch of
                Works \<Rightarrow> (made, if jo_uid j = [] then PDone (Inr (runFromJob cd j, True)) else PGetOwner 0 j True)
              | Lost \<Rightarrow> (s, PDone (Inl KubernetesError))
              | Unacked \<Rightarrow> (made, PDone (Inl KubernetesError))))"

definition reget_job :: "codec \<Rightarrow> plannedBenchmark \<Rightarrow> choice \<Rightarrow> run_store \<Rightarrow> submit_pc" where
  "reget_job cd p ch s =
     (case rs_job s of
        Some j \<Rightarrow>
          if ch_api ch = Works \<and> managed (jo_meta j) \<and> request_of (jo_meta j) = pb_fingerprint p
          then (if jo_uid j = [] then PDone (Inr (runFromJob cd j, False)) else PGetOwner 0 j False)
          else PDone (Inl KubernetesError)
      | None \<Rightarrow> PDone (Inl KubernetesError))"

definition get_owner :: "codec \<Rightarrow> plannedBenchmark \<Rightarrow> nat \<Rightarrow> job_obj \<Rightarrow> bool \<Rightarrow> choice \<Rightarrow> run_store \<Rightarrow> submit_pc" where
  "get_owner cd p n j created ch s =
     (if ch_api ch \<noteq> Works then PDone (Inl KubernetesError)
      else case rs_service s of
        None \<Rightarrow> PDone (Inl KubernetesError)
      | Some svc \<Rightarrow>
          if \<not> managed (so_meta svc) \<or> request_of (so_meta svc) \<noteq> pb_fingerprint p then retry_owner n j created OwnershipChanged
          else if so_owners svc = [jo_uid j] then PDone (Inr (runFromJob cd j, created))
          else PSetOwner n j created (so_version svc))"

definition set_owner :: "codec \<Rightarrow> nat \<Rightarrow> job_obj \<Rightarrow> bool \<Rightarrow> nat \<Rightarrow> choice \<Rightarrow> run_store \<Rightarrow> run_store \<times> submit_pc" where
  "set_owner cd n j created seen ch s =
     (case rs_service s of
        None \<Rightarrow> (s, PDone (Inl KubernetesError))
      | Some svc \<Rightarrow>
          if so_version svc \<noteq> seen then (s, if ch_api ch = Works then retry_owner n j created KubernetesError else PDone (Inl KubernetesError))
          else let owned = s\<lparr>rs_service := Some (svc\<lparr>so_owners := [jo_uid j], so_version := so_version svc + 1\<rparr>)\<rparr>
               in case ch_api ch of
                    Works \<Rightarrow> (owned, PDone (Inr (runFromJob cd j, created)))
                  | Lost \<Rightarrow> (s, PDone (Inl KubernetesError))
                  | Unacked \<Rightarrow> (owned, PDone (Inl KubernetesError)))"

fun submit_step :: "codec \<Rightarrow> plannedBenchmark \<Rightarrow> choice \<Rightarrow> submit_pc \<Rightarrow> run_store \<Rightarrow> (run_store \<times> submit_pc) option" where
  "submit_step cd p ch PIndex s = Some (persist_index p ch s)"
| "submit_step cd p ch (PRunManifest m created) s = Some (persist_results m created ch s)"
| "submit_step cd p ch (PRollback e) s = Some (if ch_api ch = Lost then s else s\<lparr>rs_index := None\<rparr>, PDone (Inl e))"
| "submit_step cd p ch (PGetJob m existed) s = Some (s, get_job cd p m existed ch s)"
| "submit_step cd p ch (PGetService existing) s =
     Some (s, if ch_api ch \<noteq> Works then PDone (Inl KubernetesError)
              else case rs_service s of None \<Rightarrow> PCreateService existing | Some svc \<Rightarrow> check_service p cd existing svc)"
| "submit_step cd p ch (PCreateService existing) s = Some (create_service cd p existing ch s)"
| "submit_step cd p ch (PRegetService existing) s =
     Some (s, case rs_service s of
                None \<Rightarrow> PDone (Inl KubernetesError)
              | Some svc \<Rightarrow> if ch_api ch \<noteq> Works then PDone (Inl KubernetesError) else check_service p cd existing svc)"
| "submit_step cd p ch PCreateJob s = Some (create_job cd p ch s)"
| "submit_step cd p ch PRegetJob s = Some (s, reget_job cd p ch s)"
| "submit_step cd p ch (PGetOwner n j created) s = Some (s, get_owner cd p n j created ch s)"
| "submit_step cd p ch (PSetOwner n j created seen) s = Some (set_owner cd n j created seen ch s)"
| "submit_step cd p ch (PDone r) s = None"

section \<open>Canceling\<close>

datatype cancel_outcome = AlreadyAbsent | Canceled | TerminalRun | CancelError

datatype cancel_pc =
    CGetJob
  | CDeleteJob string
  | CGetService string
  | CDeleteService
  | CDone cancel_outcome

text \<open>\<open>getManagedJob\<close> for a valid run id, then the check of the Job's status.\<close>

definition cancel_get_job :: "api \<Rightarrow> run_store \<Rightarrow> cancel_pc" where
  "cancel_get_job api s =
     (if api \<noteq> Works then CDone CancelError
      else case rs_job s of
        None \<Rightarrow> CDone AlreadyAbsent
      | Some j \<Rightarrow>
          if \<not> managed (jo_meta j) then CDone AlreadyAbsent
          else if jobStatus (jo_status j) = ''succeeded'' \<or> jobStatus (jo_status j) = ''failed'' then CDone TerminalRun
          else CDeleteJob (request_of (jo_meta j)))"

definition deleteServiceIfFingerprint :: "api \<Rightarrow> string \<Rightarrow> run_store \<Rightarrow> cancel_pc" where
  "deleteServiceIfFingerprint api f s =
     (if api \<noteq> Works then CDone CancelError
      else case rs_service s of
        None \<Rightarrow> CDone Canceled
      | Some svc \<Rightarrow> if \<not> managed (so_meta svc) \<or> request_of (so_meta svc) \<noteq> f then CDone Canceled else CDeleteService)"

fun cancel_step :: "choice \<Rightarrow> cancel_pc \<Rightarrow> run_store \<Rightarrow> (run_store \<times> cancel_pc) option" where
  "cancel_step ch CGetJob s = Some (s, cancel_get_job (ch_api ch) s)"
| "cancel_step ch (CDeleteJob f) s =
     Some (if ch_api ch = Lost then s else s\<lparr>rs_job := None\<rparr>, if ch_api ch = Works then CGetService f else CDone CancelError)"
| "cancel_step ch (CGetService f) s = Some (s, deleteServiceIfFingerprint (ch_api ch) f s)"
| "cancel_step ch CDeleteService s =
     Some (if ch_api ch = Lost then s else s\<lparr>rs_service := None\<rparr>, CDone (if ch_api ch = Works then Canceled else CancelError))"
| "cancel_step ch (CDone r) s = None"

lemmas submit_defs = persist_index_def persist_results_def get_job_def create_service_def create_job_def reget_job_def get_owner_def
  set_owner_def after_service_def check_service_def retry_owner_def createOrValidateManifest_def Let_def

section \<open>All clients together\<close>

text \<open>The clients are numbered. Beside their steps the cluster may change the status of the Job, delete a finished Job when its time to live is
  over, and collect a Service; \<open>undone\<close> says whether submissions may reach their rollback.\<close>

record run_system =
  sy_store :: run_store
  sy_submits :: "nat \<Rightarrow> plannedBenchmark \<times> submit_pc"
  sy_cancels :: "nat \<Rightarrow> cancel_pc"

definition is_rollback :: "submit_pc \<Rightarrow> bool" where
  "is_rollback pc = (case pc of PRollback _ \<Rightarrow> True | _ \<Rightarrow> False)"

inductive sys_step :: "codec \<Rightarrow> bool \<Rightarrow> run_system \<Rightarrow> run_system \<Rightarrow> bool" for cd undone where
  submits: "\<lbrakk>sy_submits y i = (p, pc); undone \<or> \<not> is_rollback pc; submit_step cd p ch pc (sy_store y) = Some (s, pc')\<rbrakk>
    \<Longrightarrow> sys_step cd undone y (y\<lparr>sy_store := s, sy_submits := (sy_submits y)(i := (p, pc'))\<rparr>)"
| cancels: "cancel_step ch (sy_cancels y i) (sy_store y) = Some (s, pc')
    \<Longrightarrow> sys_step cd undone y (y\<lparr>sy_store := s, sy_cancels := (sy_cancels y)(i := pc')\<rparr>)"
| reports: "\<lbrakk>rs_job (sy_store y) = Some j; jo_meta j' = jo_meta j\<rbrakk>
    \<Longrightarrow> sys_step cd undone y (y\<lparr>sy_store := (sy_store y)\<lparr>rs_job := Some j'\<rparr>\<rparr>)"
| expires: "sys_step cd undone y (y\<lparr>sy_store := (sy_store y)\<lparr>rs_job := None\<rparr>\<rparr>)"
| collects: "sys_step cd undone y (y\<lparr>sy_store := (sy_store y)\<lparr>rs_service := None\<rparr>\<rparr>)"

text \<open>At first nobody has begun and nothing of the run is there, except that the names of its Job and Service may be taken by foreign objects.\<close>

definition sys_initial :: "run_system \<Rightarrow> bool" where
  "sys_initial y \<longleftrightarrow> rs_index (sy_store y) = None \<and>
     (\<forall>j. rs_job (sy_store y) = Some j \<longrightarrow> \<not> managed (jo_meta j)) \<and> (\<forall>v. rs_service (sy_store y) = Some v \<longrightarrow> \<not> managed (so_meta v)) \<and>
     (\<forall>i. snd (sy_submits y i) = PIndex)"

inductive sys_reachable :: "codec \<Rightarrow> bool \<Rightarrow> run_system \<Rightarrow> bool" for cd undone where
  start: "sys_initial y \<Longrightarrow> sys_reachable cd undone y"
| later: "\<lbrakk>sys_reachable cd undone y; sys_step cd undone y z\<rbrakk> \<Longrightarrow> sys_reachable cd undone z"

text \<open>What a submission has established: past the index, its plan agrees with the index file.\<close>

definition agreed :: "plannedBenchmark \<Rightarrow> run_store \<Rightarrow> bool" where
  "agreed p s \<longleftrightarrow> (\<exists>m. rs_index s = Some m \<and> mf_fingerprint m = pb_fingerprint p \<and> rm_path (mf_results m) = rm_path (pb_results p))"

definition has_fingerprint :: "durableRunManifest option \<Rightarrow> object_meta \<Rightarrow> bool" where
  "has_fingerprint idx om \<longleftrightarrow> (managed om \<longrightarrow> (\<exists>m. idx = Some m \<and> mf_fingerprint m = request_of om))"

definition past_index :: "submit_pc \<Rightarrow> bool" where
  "past_index pc = (case pc of PIndex \<Rightarrow> False | PDone (Inl e) \<Rightarrow> False | _ \<Rightarrow> True)"

definition store_ok :: "run_store \<Rightarrow> bool" where
  "store_ok s \<longleftrightarrow> (\<forall>j. rs_job s = Some j \<longrightarrow> has_fingerprint (rs_index s) (jo_meta j)) \<and>
     (\<forall>v. rs_service s = Some v \<longrightarrow> has_fingerprint (rs_index s) (so_meta v))"

definition sys_ok :: "run_system \<Rightarrow> bool" where
  "sys_ok y \<longleftrightarrow> store_ok (sy_store y) \<and> (\<forall>i p pc. sy_submits y i = (p, pc) \<longrightarrow> past_index pc \<longrightarrow> agreed p (sy_store y))"

lemma past_index_simps [simp]:
  "\<not> past_index PIndex" "past_index (PRunManifest m b)" "past_index (PRollback e)" "past_index (PGetJob m b)" "past_index (PGetService e')"
  "past_index (PCreateService e')" "past_index (PRegetService e')" "past_index PCreateJob" "past_index PRegetJob" "past_index (PGetOwner n j b)"
  "past_index (PSetOwner n j b k)" "\<not> past_index (PDone (Inl e))" "past_index (PDone (Inr r))"
  by (simp_all add: past_index_def)

lemma entry_set_entry [simp]: "entry (set_entry k v al) k' = (if k = k' then v else entry al k')"
proof -
  have "map_of (filter (\<lambda>kv. fst kv \<noteq> k) al) k' = (if k = k' then None else map_of al k')"
    by (induction al) auto
  then show ?thesis by (simp add: entry_def set_entry_def)
qed

lemma entry_run_metadata:
  "request_of (decorate n (run_metadata cd p now) om) = pb_fingerprint p" "managed (decorate n (run_metadata cd p now) om)"
  by (simp_all add: request_of_def managed_def decorate_def run_metadata_def annotation_names)

text \<open>A submission leaves the index alone once it is there, and every managed object it makes carries its fingerprint.\<close>

lemma createOrValidateManifest_agrees:
  assumes "createOrValidateManifest a b d cur = (idx, r)"
  shows "cur \<noteq> None \<Longrightarrow> idx = cur"
    and "r = Inr (m, created) \<Longrightarrow> idx = Some m \<and> same_provenance m d"
  using assms by (auto simp: createOrValidateManifest_def same_provenance_def split: option.splits api.splits if_splits)

lemma submit_step_index:
  assumes "submit_step cd p ch pc s = Some (s', pc')" "\<not> is_rollback pc" "rs_index s \<noteq> None"
  shows "rs_index s' = rs_index s"
  using assms by (cases "(cd, p, ch, pc, s)" rule: submit_step.cases)
    (auto simp: submit_defs is_rollback_def split: option.splits api.splits if_splits prod.splits)

lemma has_fingerprint_none [simp]: "has_fingerprint None om \<longleftrightarrow> \<not> managed om"
  by (simp add: has_fingerprint_def)

lemma run_objects_fingerprint:
  assumes "agreed p s"
  shows "has_fingerprint (rs_index s) (jo_meta (run_job cd p now))" "has_fingerprint (rs_index s) (so_meta (run_service cd p now))"
  using assms by (auto simp: agreed_def has_fingerprint_def run_job_def run_service_def entry_run_metadata)

lemma persist_index_ok:
  assumes step: "persist_index p ch s = (s', pc')" and ok: "store_ok s"
  shows "store_ok s' \<and> (past_index pc' \<longrightarrow> agreed p s')"
proof (cases "ch_ok ch")
  case True
  obtain idx r where c: "createOrValidateManifest (ch_api ch) (ch_legible ch) (desired_manifest p (ch_now ch)) (rs_index s) = (idx, r)" by fastforce
  note step' = step [unfolded persist_index_def, simplified True c, simplified]
  have "store_ok s'"
    using ok step' createOrValidateManifest_agrees(1) [OF c] by (cases "rs_index s") (auto simp: store_ok_def has_fingerprint_def)
  moreover have "past_index pc' \<longrightarrow> agreed p s'"
    using step' createOrValidateManifest_agrees(2) [OF c]
    by (auto simp: agreed_def same_provenance_def desired_manifest_def split: sum.splits)
  ultimately show ?thesis ..
qed (use assms in \<open>auto simp: persist_index_def\<close>)

lemma persist_results_store:
  "fst (persist_results m created ch s) = s \<or> (\<exists>f. fst (persist_results m created ch s) = s\<lparr>rs_manifest := f\<rparr>)"
  by (auto simp: persist_results_def Let_def split: prod.splits)

lemma submit_step_job:
  assumes "submit_step cd p ch pc s = Some (s', pc')" "rs_job s' = Some j"
  shows "rs_job s = Some j \<or> (past_index pc \<and> jo_meta j = jo_meta (run_job cd p (ch_now ch)))"
  using assms by (cases "(cd, p, ch, pc, s)" rule: submit_step.cases)
    (auto simp: submit_defs split: option.splits api.splits if_splits prod.splits)

lemma submit_step_service:
  assumes "submit_step cd p ch pc s = Some (s', pc')" "rs_service s' = Some v"
  shows "(\<exists>v'. rs_service s = Some v' \<and> so_meta v = so_meta v') \<or> (past_index pc \<and> so_meta v = so_meta (run_service cd p (ch_now ch)))"
  using assms by (cases "(cd, p, ch, pc, s)" rule: submit_step.cases)
    (auto simp: submit_defs split: option.splits api.splits if_splits prod.splits)

lemma submit_step_past:
  assumes "submit_step cd p ch pc s = Some (s', pc')" "pc \<noteq> PIndex" "past_index pc'"
  shows "past_index pc"
  using assms by (cases "(cd, p, ch, pc, s)" rule: submit_step.cases) auto

lemma submit_step_ok:
  assumes step: "submit_step cd p ch pc s = Some (s', pc')" and nr: "\<not> is_rollback pc"
    and ok: "store_ok s" and past: "past_index pc \<longrightarrow> agreed p s"
  shows "store_ok s' \<and> (past_index pc' \<longrightarrow> agreed p s')"
proof (cases "pc = PIndex")
  case True
  with step have "persist_index p ch s = (s', pc')" by simp
  then show ?thesis using ok by (rule persist_index_ok)
next
  case False
  show ?thesis
  proof (cases "past_index pc")
    case True
    with past have a: "agreed p s" by simp
    then have i: "rs_index s' = rs_index s" using submit_step_index [OF step nr] by (auto simp: agreed_def)
    have "store_ok s'"
      using submit_step_job [OF step] submit_step_service [OF step] run_objects_fingerprint [OF a] ok
      unfolding store_ok_def i by metis
    then show ?thesis using a i by (simp add: agreed_def)
  next
    case no: False
    then obtain r where "pc = PDone r" using False by (cases pc) auto
    then show ?thesis using step by simp
  qed
qed

lemma submit_step_keeps_agreed:
  assumes "submit_step cd p ch pc s = Some (s', pc')" "\<not> is_rollback pc" "agreed q s"
  shows "agreed q s'"
  using submit_step_index [OF assms(1,2)] assms(3) by (auto simp: agreed_def)

lemma cancel_step_store:
  assumes "cancel_step ch pc s = Some (s', pc')"
  shows "rs_index s' = rs_index s" "rs_job s' = rs_job s \<or> rs_job s' = None" "rs_service s' = rs_service s \<or> rs_service s' = None"
  using assms by (induction ch pc s rule: cancel_step.induct) (auto split: if_splits)

lemma sys_step_ok:
  assumes "sys_step cd False y z" "sys_ok y"
  shows "sys_ok z"
  using assms
proof (cases rule: sys_step.cases)
  case (submits i p pc ch s pc')
  then have nr: "\<not> is_rollback pc" by simp
  have "store_ok s \<and> (past_index pc' \<longrightarrow> agreed p s)"
    using submit_step_ok [OF submits(4) nr] assms(2) submits(2) by (auto simp: sys_ok_def)
  then show ?thesis using submits(1,2) assms(2) submit_step_keeps_agreed [OF submits(4) nr] by (auto simp: sys_ok_def)
next
  case (cancels ch i s pc')
  note c = cancel_step_store [OF cancels(2)]
  have "store_ok s" using assms(2) c by (auto simp: sys_ok_def store_ok_def)
  then show ?thesis using assms(2) cancels(1) c(1) by (auto simp: sys_ok_def agreed_def)
qed (auto simp: sys_ok_def store_ok_def agreed_def)

lemma sys_reachable_ok: "sys_reachable cd False y \<Longrightarrow> sys_ok y"
proof (induction rule: sys_reachable.induct)
  case (start y)
  then show ?case by (auto simp: sys_initial_def sys_ok_def store_ok_def) (metis past_index_simps(1) snd_conv)
qed (rule sys_step_ok)

section \<open>What is promised\<close>

text \<open>The order in which the calls of one submission can come bounds their number: each attempt to set the owner has two.\<close>

fun calls_left :: "submit_pc \<Rightarrow> nat" where
  "calls_left PIndex = 18"
| "calls_left (PRunManifest _ _) = 17"
| "calls_left (PRollback _) = 1"
| "calls_left (PGetJob _ _) = 16"
| "calls_left (PGetService _) = 15"
| "calls_left (PCreateService _) = 14"
| "calls_left (PRegetService _) = 13"
| "calls_left PCreateJob = 12"
| "calls_left PRegetJob = 11"
| "calls_left (PGetOwner n _ _) = 2 * (5 - n)"
| "calls_left (PSetOwner n _ _ _) = 2 * (5 - n) - 1"
| "calls_left (PDone _) = 0"

text \<open>One submission on its own, with one choice for each of its calls and, before each, what the others have made of the store.\<close>

fun submit_run :: "codec \<Rightarrow> plannedBenchmark \<Rightarrow> choice list \<Rightarrow> submit_pc \<Rightarrow> run_store \<Rightarrow> run_store \<times> submit_pc" where
  "submit_run cd p [] pc s = (s, pc)"
| "submit_run cd p (ch # chs) pc s =
     (case submit_step cd p ch pc s of None \<Rightarrow> (s, pc) | Some (s', pc') \<Rightarrow> submit_run cd p chs pc' s')"

definition attempts_ok :: "submit_pc \<Rightarrow> bool" where
  "attempts_ok pc = (case pc of PGetOwner n _ _ \<Rightarrow> n < 5 | PSetOwner n _ _ _ \<Rightarrow> n < 5 | _ \<Rightarrow> True)"

lemma submit_step_decreases:
  assumes "submit_step cd p ch pc s = Some (s', pc')" "attempts_ok pc"
  shows "attempts_ok pc' \<and> calls_left pc' < calls_left pc"
  using assms by (cases "(cd, p, ch, pc, s)" rule: submit_step.cases)
    (auto simp: submit_defs attempts_ok_def split: option.splits bool.splits api.splits if_splits prod.splits sum.splits)

lemma submit_step_none: "submit_step cd p ch pc s = None \<longleftrightarrow> (\<exists>r. pc = PDone r)"
  by (cases "(cd, p, ch, pc, s)" rule: submit_step.cases) auto

text \<open>Other clients act between the calls: any function of the store and of the position.\<close>

fun contended_run ::
    "codec \<Rightarrow> plannedBenchmark \<Rightarrow> (nat \<Rightarrow> run_store \<Rightarrow> run_store) \<Rightarrow> (nat \<Rightarrow> choice) \<Rightarrow> nat \<Rightarrow> nat \<Rightarrow> submit_pc \<Rightarrow> run_store \<Rightarrow>
     run_store \<times> submit_pc" where
  "contended_run cd p others ch 0 k pc s = (s, pc)"
| "contended_run cd p others ch (Suc n) k pc s =
     (case submit_step cd p (ch k) pc (others k s) of
        None \<Rightarrow> (others k s, pc)
      | Some (s', pc') \<Rightarrow> contended_run cd p others ch n (k + 1) pc' s')"

lemma contended_run_done:
  assumes "calls_left pc \<le> n" "attempts_ok pc"
  shows "\<exists>r. snd (contended_run cd p others ch n k pc s) = PDone r"
  using assms
proof (induction n arbitrary: k pc s)
  case 0
  then show ?case by (cases pc) (auto simp: attempts_ok_def)
next
  case (Suc n)
  show ?case
  proof (cases "submit_step cd p (ch k) pc (others k s)")
    case None
    then have "\<exists>r. pc = PDone r" by (simp only: submit_step_none)
    then show ?thesis by auto
  next
    case (Some r)
    obtain s' pc' where r: "r = (s', pc')" by fastforce
    have "attempts_ok pc' \<and> calls_left pc' < calls_left pc" using submit_step_decreases Some Suc.prems(2) unfolding r by blast
    then show ?thesis using Suc.IH [of pc' "k + 1" s'] Suc.prems(1) Some r by simp
  qed
qed


text \<open>
  Property C4. As long as no submission takes back its index file, a run id stands for one specification: whatever submissions and
  cancellations of the run are made at once, from however many servers, and however their calls fail and interleave with the cluster's, two
  submissions that are both told that they succeeded have the same request fingerprint and the same result directory, and every managed Job and Service
  of the run carries the fingerprint of the run's index file.
\<close>
theorem one_specification_per_run:
  assumes "sys_reachable cd False y"
  shows "(sy_submits y i = (p, PDone (Inr a)) \<longrightarrow> sy_submits y k = (q, PDone (Inr b)) \<longrightarrow>
      pb_fingerprint p = pb_fingerprint q \<and> rm_path (pb_results p) = rm_path (pb_results q)) \<and>
    (rs_job (sy_store y) = Some j \<longrightarrow> managed (jo_meta j) \<longrightarrow>
      (\<exists>m. rs_index (sy_store y) = Some m \<and> mf_fingerprint m = request_of (jo_meta j))) \<and>
    (rs_service (sy_store y) = Some v \<longrightarrow> managed (so_meta v) \<longrightarrow>
      (\<exists>m. rs_index (sy_store y) = Some m \<and> mf_fingerprint m = request_of (so_meta v)))"
proof (intro conjI)
  note ok = sys_reachable_ok [OF assms, unfolded sys_ok_def store_ok_def has_fingerprint_def]
  show "sy_submits y i = (p, PDone (Inr a)) \<longrightarrow> sy_submits y k = (q, PDone (Inr b)) \<longrightarrow>
      pb_fingerprint p = pb_fingerprint q \<and> rm_path (pb_results p) = rm_path (pb_results q)"
    using ok by (metis agreed_def option.inject past_index_simps(13))
qed (use sys_reachable_ok [OF assms, unfolded sys_ok_def store_ok_def has_fingerprint_def] in blast)+

text \<open>Whether a submission on its own comes to its rollback.\<close>

fun rolls_back :: "codec \<Rightarrow> plannedBenchmark \<Rightarrow> choice list \<Rightarrow> submit_pc \<Rightarrow> run_store \<Rightarrow> bool" where
  "rolls_back cd p [] pc s = is_rollback pc"
| "rolls_back cd p (ch # chs) pc s =
     (is_rollback pc \<or> (case submit_step cd p ch pc s of None \<Rightarrow> False | Some (s', pc') \<Rightarrow> rolls_back cd p chs pc' s'))"

definition run_alone :: "codec \<Rightarrow> choice list \<Rightarrow> nat \<Rightarrow> run_system \<Rightarrow> run_system" where
  "run_alone cd chs i y =
     (let (p, pc) = sy_submits y i; (s, pc') = submit_run cd p chs pc (sy_store y)
      in y\<lparr>sy_store := s, sy_submits := (sy_submits y)(i := (p, pc'))\<rparr>)"

lemma run_alone_reachable:
  assumes "sys_reachable cd undone y" "undone \<or> \<not> rolls_back cd (fst (sy_submits y i)) chs (snd (sy_submits y i)) (sy_store y)"
  shows "sys_reachable cd undone (run_alone cd chs i y)"
  using assms
proof (induction chs arbitrary: y)
  case Nil
  then show ?case by (simp add: run_alone_def fun_upd_idem split: prod.split)
next
  case (Cons ch chs)
  obtain p pc where y: "sy_submits y i = (p, pc)" by fastforce
  show ?case
  proof (cases "submit_step cd p ch pc (sy_store y)")
    case None
    then have "run_alone cd (ch # chs) i y = y" using y by (simp add: run_alone_def fun_upd_idem)
    then show ?thesis using Cons.prems(1) by simp
  next
    case (Some r)
    obtain s1 pc1 where r: "r = (s1, pc1)" by fastforce
    have nr: "undone \<or> \<not> is_rollback pc" using Cons.prems(2) y by auto
    let ?z = "y\<lparr>sy_store := s1, sy_submits := (sy_submits y)(i := (p, pc1))\<rparr>"
    have "sys_reachable cd undone ?z"
      using sys_reachable.later [OF Cons.prems(1) sys_step.submits [OF y nr]] Some r by simp
    then have "sys_reachable cd undone (run_alone cd chs i ?z)"
      using Cons.prems(2) Some r y by (intro Cons.IH) auto
    moreover have "run_alone cd chs i ?z = run_alone cd (ch # chs) i y"
      using y Some r by (auto simp: run_alone_def split: prod.split)
    ultimately show ?thesis by simp
  qed
qed

section \<open>A run submitted twice\<close>

definition works :: "choice \<Rightarrow> bool" where
  "works ch \<longleftrightarrow> ch_api ch = Works \<and> ch_ok ch \<and> ch_legible ch"

text \<open>
  Property C29. Submitting a plan again while its run exists is idempotent: when the calls work, the second submission changes neither the
  index file nor the Job, makes the Job the only owner of the Service, and answers with the state of the existing Job and that it was not created.
\<close>
theorem resubmission_adopts_run:
  assumes "rs_index s = Some m" "same_provenance m (desired_manifest p t)" "rs_manifest s (rm_path (mf_results m)) = Some m'" "same_provenance m' m"
    and "rs_job s = Some j" "managed (jo_meta j)" "request_of (jo_meta j) = pb_fingerprint p" "jo_uid j \<noteq> []"
    and "rs_service s = Some v" "managed (so_meta v)" "request_of (so_meta v) = pb_fingerprint p"
    and "length chs = 6" "list_all works chs"
  shows "\<exists>s'. submit_run cd p chs PIndex s = (s', PDone (Inr (runFromJob cd j, False))) \<and> rs_index s' = rs_index s \<and> rs_job s' = rs_job s \<and>
    map_option so_owners (rs_service s') = Some [jo_uid j] \<and> map_option so_meta (rs_service s') = Some (so_meta v)"
proof -
  obtain c1 c2 c3 c4 c5 c6 where c: "chs = [c1, c2, c3, c4, c5, c6]" using assms(12) by (auto simp: length_Suc_conv eval_nat_numeral)
  have d: "same_provenance m (desired_manifest p now)" for now
    using assms(2) by (simp add: same_provenance_def desired_manifest_def)
  show ?thesis
    using assms(1,3-11,13) d by (auto simp: c works_def submit_defs)
qed

definition example_meta :: object_meta where
  "example_meta = \<lparr>om_labels = [], om_annotations = []\<rparr>"

definition example_plan :: plannedBenchmark where
  "example_plan =
     \<lparr>pb_run = ''run'', pb_fingerprint = ''f'', pb_target = ''llm'', pb_model = ''m'', pb_label = ''nightly'', pb_workstream = [],
      pb_scenario = ''{}'', pb_platform = ''kubernetes'', pb_workers = 1, pb_image = ''image'',
      pb_results = \<lparr>rm_durable = True, rm_pvc = ''results'', rm_path = ''/r/mcp/nightly'', rm_uri = ''pvc://results'', rm_format = ''jsonl''\<rparr>,
      pb_deadline = 60, pb_retention = 600,
      pb_service = \<lparr>so_meta = example_meta, so_owners = [], so_version = 0\<rparr>,
      pb_job = \<lparr>jo_name = ''run'', jo_meta = example_meta, jo_uid = [], jo_completions = Some 1,
        jo_status = \<lparr>js_conditions = [], js_active = 0\<rparr>, jo_succeeded = 0, jo_failed = 0, jo_deadline = Some 60, jo_ttl = Some 600,
        jo_creation = 0, jo_started = None, jo_ended = None\<rparr>\<rparr>"

definition example_choice :: choice where
  "example_choice = \<lparr>ch_api = Works, ch_ok = True, ch_legible = True, ch_artifacts = Some False, ch_uid = ''u'', ch_now = 7\<rparr>"

definition example_codec :: codec where
  "example_codec = \<lparr>cd_time = (\<lambda>_. ''t''), cd_parse_time = (\<lambda>_. 7), cd_results = (\<lambda>r. rm_path r),
     cd_parse_results = (\<lambda>_. pb_results example_plan)\<rparr>"

definition example_store :: run_store where
  "example_store = \<lparr>rs_index = None, rs_manifest = Map.empty, rs_job = None, rs_service = None\<rparr>"

definition example_system :: run_system where
  "example_system = \<lparr>sy_store = example_store, sy_submits = (\<lambda>_. (example_plan, PIndex)), sy_cancels = (\<lambda>_. CDone AlreadyAbsent)\<rparr>"

lemmas example_defs = example_meta_def example_plan_def example_choice_def example_codec_def example_store_def example_system_def

definition example_first :: run_system where
  "example_first = run_alone example_codec (replicate 8 example_choice) 0 example_system"

definition example_second :: run_system where
  "example_second = run_alone example_codec (replicate 6 example_choice) 1 example_first"

lemma example_reachable:
  "sys_reachable example_codec undone example_system" "sys_reachable example_codec False example_first" "sys_reachable example_codec False example_second"
proof -
  show s: "sys_reachable example_codec undone example_system" for undone
    by (rule sys_reachable.start) (simp add: sys_initial_def example_system_def example_store_def)
  have n1: "\<not> rolls_back example_codec (fst (sy_submits example_system 0)) (replicate 8 example_choice) (snd (sy_submits example_system 0)) (sy_store example_system)"
    by code_simp
  show f: "sys_reachable example_codec False example_first"
    unfolding example_first_def by (rule run_alone_reachable [OF s]) (use n1 in blast)
  have n2: "\<not> rolls_back example_codec (fst (sy_submits example_first 1)) (replicate 6 example_choice) (snd (sy_submits example_first 1)) (sy_store example_first)"
    by code_simp
  show "sys_reachable example_codec False example_second"
    unfolding example_second_def by (rule run_alone_reachable [OF f]) (use n2 in blast)
qed

definition succeeded_with :: "string \<Rightarrow> bool \<Rightarrow> submit_pc \<Rightarrow> bool" where
  "succeeded_with run created pc = (case pc of PDone (Inr (r, c)) \<Rightarrow> ru_id r = run \<and> c = created | _ \<Rightarrow> False)"

lemma example_outcomes:
  "succeeded_with ''run'' True (snd (sy_submits example_second 0))" "succeeded_with ''run'' False (snd (sy_submits example_second 1))"
  "map_option (\<lambda>j. (managed (jo_meta j), request_of (jo_meta j))) (rs_job (sy_store example_second)) = Some (True, ''f'')"
  "map_option (\<lambda>v. (managed (so_meta v), request_of (so_meta v))) (rs_service (sy_store example_second)) = Some (True, ''f'')"
  by code_simp+

lemma one_specification_per_run_witness:
  "sys_reachable example_codec False example_second \<and>
   (\<exists>p a q b. sy_submits example_second 0 = (p, PDone (Inr a)) \<and> sy_submits example_second 1 = (q, PDone (Inr b)) \<and>
      pb_fingerprint p = pb_fingerprint q) \<and>
   (\<exists>j m. rs_job (sy_store example_second) = Some j \<and> managed (jo_meta j) \<and>
      rs_index (sy_store example_second) = Some m \<and> mf_fingerprint m = request_of (jo_meta j))"
proof (intro conjI example_reachable)
  note spec = one_specification_per_run [OF example_reachable(3)]
  obtain p a q b where "sy_submits example_second 0 = (p, PDone (Inr a))" "sy_submits example_second 1 = (q, PDone (Inr b))"
    using example_outcomes(1,2) by (auto simp: succeeded_with_def prod_eq_iff split: submit_pc.splits sum.splits)
  then show "\<exists>p a q b. sy_submits example_second 0 = (p, PDone (Inr a)) \<and> sy_submits example_second 1 = (q, PDone (Inr b)) \<and>
      pb_fingerprint p = pb_fingerprint q"
    using spec [of 0 p a 1 q b] by blast
  obtain j where "rs_job (sy_store example_second) = Some j" "managed (jo_meta j)" using example_outcomes(3) by auto
  then show "\<exists>j m. rs_job (sy_store example_second) = Some j \<and> managed (jo_meta j) \<and>
      rs_index (sy_store example_second) = Some m \<and> mf_fingerprint m = request_of (jo_meta j)"
    using spec by blast
qed

lemma resubmission_adopts_run_witness:
  "\<exists>m m' j v s'. rs_index (sy_store example_first) = Some m \<and> rs_manifest (sy_store example_first) (rm_path (mf_results m)) = Some m' \<and>
     rs_job (sy_store example_first) = Some j \<and> rs_service (sy_store example_first) = Some v \<and>
     submit_run example_codec example_plan (replicate 6 example_choice) PIndex (sy_store example_first) =
       (s', PDone (Inr (runFromJob example_codec j, False))) \<and> map_option so_owners (rs_service s') = Some [''u'']"
proof -
  let ?s = "sy_store example_first"
  have "map_option (\<lambda>m. same_provenance m (desired_manifest example_plan 7) \<and>
      (case rs_manifest ?s (rm_path (mf_results m)) of None \<Rightarrow> False | Some m' \<Rightarrow> same_provenance m' m)) (rs_index ?s) = Some True"
    by code_simp
  then obtain m m' where m: "rs_index ?s = Some m" "same_provenance m (desired_manifest example_plan 7)"
    "rs_manifest ?s (rm_path (mf_results m)) = Some m'" "same_provenance m' m" by (auto split: option.splits)
  have "map_option (\<lambda>j. managed (jo_meta j) \<and> request_of (jo_meta j) = pb_fingerprint example_plan \<and> jo_uid j = ''u'') (rs_job ?s) = Some True"
    by code_simp
  then obtain j where j: "rs_job ?s = Some j" "managed (jo_meta j)" "request_of (jo_meta j) = pb_fingerprint example_plan" "jo_uid j = ''u''" by auto
  have "map_option (\<lambda>v. managed (so_meta v) \<and> request_of (so_meta v) = pb_fingerprint example_plan) (rs_service ?s) = Some True"
    by code_simp
  then obtain v where v: "rs_service ?s = Some v" "managed (so_meta v)" "request_of (so_meta v) = pb_fingerprint example_plan" by auto
  have w: "list_all works (replicate 6 example_choice)" by (simp add: list_all_iff works_def example_choice_def)
  show ?thesis
    using resubmission_adopts_run [OF m j(1-3) _ v _ w, of example_codec] m(1,3) j v(1) by auto
qed

text \<open>A rollback can take away the index file of a run that another client has submitted meanwhile: the first client creates the index file, the
  second one finds it and submits the run, and then the first one fails to prepare the result directory and removes the index file. A third client then
  claims the run id for another specification, while the Job of the second one is running.\<close>

definition rollback_history :: run_system where
  "rollback_history =
     (let other = example_plan\<lparr>pb_fingerprint := ''g''\<rparr>;
          y = example_system\<lparr>sy_submits := (\<lambda>i. (if i = 2 then other else example_plan, PIndex))\<rparr>
      in run_alone example_codec [example_choice] 2
           (run_alone example_codec [example_choice\<lparr>ch_ok := False\<rparr>, example_choice] 0
             (run_alone example_codec (replicate 8 example_choice) 1
               (run_alone example_codec [example_choice] 0 y))))"

lemma rollback_forgets_run:
  "sys_reachable example_codec True rollback_history"
  "map_option mf_fingerprint (rs_index (sy_store rollback_history)) = Some ''g''"
  "map_option (\<lambda>j. (managed (jo_meta j), request_of (jo_meta j))) (rs_job (sy_store rollback_history)) = Some (True, ''f'')"
  "succeeded_with ''run'' True (snd (sy_submits rollback_history 1))"
proof -
  show "sys_reachable example_codec True rollback_history"
    unfolding rollback_history_def Let_def
    by (intro run_alone_reachable sys_reachable.start disjI1 TrueI) (simp add: sys_initial_def example_system_def example_store_def)
qed (code_simp)+

end
