(* ===== verification/Run_Planning.thy ===== *)
theory Run_Planning
  imports Run_Submission
begin

text \<open>
  Package \<open>controlapi\<close>: from a request to a validated plan (\<open>planBenchmark\<close> and its dry run in \<open>mcp_runs.go\<close>, \<open>parseBenchmarkScenario\<close> in
  \<open>mcp_scenario.go\<close>, the isolated compiler in \<open>starlark.go\<close>) and the list of runs (\<open>listBenchmarksMCP\<close>). Digests, JSON encodings, the rendered
  Kubernetes objects, the answers of the API server and the compiler process are arguments.
\<close>

section \<open>The compiler process\<close>

record cappedBuffer =
  cb_bytes :: string
  cb_limit :: int
  cb_overflow :: bool

definition capped_write :: "string \<Rightarrow> cappedBuffer \<Rightarrow> cappedBuffer" where
  "capped_write value b =
     (let remaining = cb_limit b - int (length (cb_bytes b));
          b' = (if 0 < remaining
                then b\<lparr>cb_bytes := cb_bytes b @ (if remaining < int (length value) then take (nat remaining) value else value)\<rparr> else b)
      in if remaining < int (length value) then b'\<lparr>cb_overflow := True\<rparr> else b')"

definition starlarkCompilerOutput :: int where "starlarkCompilerOutput = MaxScenarioInputBytes"

definition starlarkCompilerError :: int where "starlarkCompilerError = 8192"

definition new_buffer :: "int \<Rightarrow> cappedBuffer" where
  "new_buffer limit = \<lparr>cb_bytes = [], cb_limit = limit, cb_overflow = False\<rparr>"

definition env_name :: "string \<Rightarrow> string" where
  "env_name value = takeWhile (\<lambda>c. c \<noteq> CHR ''='') value"

definition filteredEnvironment :: "string list \<Rightarrow> string list \<Rightarrow> string list" where
  "filteredEnvironment names environ = filter (\<lambda>value. env_name value \<notin> set names) environ"

definition compiler_environment :: "string list \<Rightarrow> string list" where
  "compiler_environment environ = filteredEnvironment [''GOMEMLIMIT'', ''GOGC''] environ @ [''GOMEMLIMIT=64MiB'', ''GOGC=20'']"

text \<open>What the process did: the writes to its two outputs, and its error and whether its time was over, if it failed.\<close>

record compiler_process =
  cp_stdout :: "string list"
  cp_stderr :: "string list"
  cp_failed :: "(string \<times> bool) option"

datatype compile_error =
    NoCapacity
  | CompileTimeout
  | CompileFailed string
  | CompiledTooLarge
  | DecodingCompiled

definition compileStarlark ::
    "(string \<Rightarrow> scenario_config option) \<Rightarrow> bool \<Rightarrow> compiler_process \<Rightarrow> (compile_error, scenario_config) result" where
  "compileStarlark decode slot p =
     (if \<not> slot then Inl NoCapacity
      else let out = fold capped_write (cp_stdout p) (new_buffer starlarkCompilerOutput);
               err = fold capped_write (cp_stderr p) (new_buffer starlarkCompilerError)
           in case cp_failed p of
                Some (message, timed_out) \<Rightarrow>
                  if timed_out then Inl CompileTimeout
                  else Inl (CompileFailed (if trim_space (cb_bytes err) = [] then message else trim_space (cb_bytes err)))
              | None \<Rightarrow>
                  if cb_overflow out then Inl CompiledTooLarge
                  else case decode (cb_bytes out) of None \<Rightarrow> Inl DecodingCompiled | Some sc \<Rightarrow> Inr sc)"

section \<open>The scenario of a request\<close>

record benchmarkInput =
  bi_run_id :: string
  bi_target :: string
  bi_scenario :: string
  bi_starlark :: string
  bi_workers :: int
  bi_cpu :: string
  bi_memory :: string
  bi_platform :: string
  bi_architecture :: string
  bi_deadline :: int
  bi_result_label :: string
  bi_workstream :: string

datatype plan_error =
    OneScenario
  | StarlarkSource
  | InvalidStarlark compile_error
  | ScenarioObject
  | InvalidTyped
  | InvalidTypedConfig config_error
  | Policy policy_error
  | UnknownTarget
  | LabelInvalid
  | WorkstreamInvalid
  | PlatformNotAllowed string
  | NoResultStorage
  | EncodingScenario
  | RunnerTooLarge
  | RunIdInvalid
  | NoDatasetStorage
  | Rendering
  | EncodingEffective
  | EffectiveTooLarge
  | DryRunRejected

text \<open>\<open>valid\<close> tells whether a text is one JSON value.\<close>

definition jsonObject :: "(string \<Rightarrow> bool) \<Rightarrow> string \<Rightarrow> bool" where
  "jsonObject valid raw =
     (let t = trim_space raw in 2 \<le> length t \<and> hd t = CHR 0x7B \<and> last t = CHR 0x7D \<and> valid t)"

definition parseBenchmarkScenario ::
    "(string \<Rightarrow> (compile_error, scenario_config) result) \<Rightarrow> (string \<Rightarrow> bool) \<Rightarrow> (string \<Rightarrow> bool) \<Rightarrow>
     (string \<Rightarrow> (config_error, scenario_config) result) \<Rightarrow> benchmarkInput \<Rightarrow> (plan_error, scenario_config) result" where
  "parseBenchmarkScenario compile valid decode_strict parse input =
     (let hasJSON = (bi_scenario input \<noteq> []); hasStarlark = (bi_starlark input \<noteq> [])
      in if hasJSON = hasStarlark then Inl OneScenario
         else if hasStarlark
         then (if MaxScenarioInputBytes < int (length (bi_starlark input)) \<or> has_nul (bi_starlark input) then Inl StarlarkSource
               else case compile (bi_starlark input) of Inl e \<Rightarrow> Inl (InvalidStarlark e) | Inr sc \<Rightarrow> Inr sc)
         else if MaxScenarioInputBytes < int (length (bi_scenario input)) \<or> \<not> jsonObject valid (bi_scenario input) then Inl ScenarioObject
         else if \<not> decode_strict (bi_scenario input) then Inl InvalidTyped
         else case parse (bi_scenario input) of Inl e \<Rightarrow> Inl (InvalidTypedConfig e) | Inr sc \<Rightarrow> Inr sc)"

section \<open>Names\<close>

definition label_end :: "char \<Rightarrow> bool" where "label_end c \<longleftrightarrow> is_lower c \<or> is_digit c"

definition label_char :: "char \<Rightarrow> bool" where
  "label_char c \<longleftrightarrow> label_end c \<or> c = CHR ''.'' \<or> c = CHR ''_'' \<or> c = CHR ''-''"

definition resultLabelPattern :: "string \<Rightarrow> bool" where
  "resultLabelPattern s \<longleftrightarrow> s \<noteq> [] \<and> length s \<le> 63 \<and> label_end (hd s) \<and> label_end (last s) \<and> list_all label_char s"

definition attachment_start :: "char \<Rightarrow> bool" where "attachment_start c \<longleftrightarrow> is_lower c \<or> is_upper c \<or> is_digit c"

definition attachmentPattern :: "string \<Rightarrow> bool" where
  "attachmentPattern s \<longleftrightarrow> s \<noteq> [] \<and> length s \<le> 128 \<and> attachment_start (hd s) \<and>
     list_all (\<lambda>c. attachment_start c \<or> c \<in> set ''._:/-'') (tl s)"

definition generated_run_id :: "string \<Rightarrow> string \<Rightarrow> string" where
  "generated_run_id digest label =
     (let p = map (\<lambda>c. if c = CHR ''.'' \<or> c = CHR ''_'' then CHR ''-'' else c) label
      in ''nyann-'' @ trim_cutset ''-'' (if 40 < length p then take 40 p else p) @ ''-'' @ digest)"

definition plan_run_id :: "string \<Rightarrow> benchmarkInput \<Rightarrow> string" where
  "plan_run_id digest input = (if bi_run_id input = [] then generated_run_id digest (bi_result_label input) else bi_run_id input)"

definition dry_run_name :: "string \<Rightarrow> string \<Rightarrow> string" where
  "dry_run_name fingerprint runID =
     (let suf = ''-dry-'' @ take 8 fingerprint; pre = trim_suffix runID ''-'';
          pre' = (if 63 < length pre + length suf then trim_suffix (take (63 - length suf) pre) ''-'' else pre)
      in pre' @ suf)"

definition commandDefaultName :: "string list \<Rightarrow> string" where
  "commandDefaultName cmd = (if cmd ! 0 = ''eval'' then ''eval-'' @ cmd ! 1 else cmd ! 0)"

section \<open>Planning\<close>

text \<open>What planning asks of others: the digest of a request, the encodings of scenarios with their failures, the fingerprint of what would run, the rendered objects, and the
  API server's answers to a dry run of a Service and a Job.\<close>

record planner =
  pn_external :: external
  pn_options :: Options
  pn_namespace :: string
  pn_scenario :: "benchmarkInput \<Rightarrow> (plan_error, scenario_config) result"
  pn_digest :: "benchmarkInput \<Rightarrow> string"
  pn_runner_ir :: "scenario_config \<Rightarrow> string option"
  pn_effective :: "scenario_config \<Rightarrow> string option"
  pn_fingerprint :: "string list \<Rightarrow> KubeConfig \<Rightarrow> int \<Rightarrow> int \<Rightarrow> string \<Rightarrow> string \<Rightarrow> string"
  pn_render :: "KubeConfig \<Rightarrow> string \<Rightarrow> string list \<Rightarrow> (service_obj \<times> job_obj) option"
  pn_accepts_service :: "string \<Rightarrow> service_obj \<Rightarrow> bool"
  pn_accepts_job :: "string \<Rightarrow> job_obj \<Rightarrow> bool"

definition dry_run_metadata :: "plannedBenchmark \<Rightarrow> entries" where
  "dry_run_metadata p =
     [(requestAnnotation, pb_fingerprint p), (targetAnnotation, pb_target p), (resultLabelAnnotation, pb_label p), (mcpManagedAnnotation, ''true'')]"

definition serverDryRun :: "planner \<Rightarrow> KubeConfig \<Rightarrow> string list \<Rightarrow> plannedBenchmark \<Rightarrow> (plan_error, unit) result" where
  "serverDryRun pn cfg cmd p =
     (let name = dry_run_name (pb_fingerprint p) (pb_run p)
      in case pn_render pn (cfg\<lparr>kc_name := name\<rparr>) (commandDefaultName cmd) cmd of
           None \<Rightarrow> Inl Rendering
         | Some (svc, job) \<Rightarrow>
             let svc' = svc\<lparr>so_meta := decorate name (dry_run_metadata p) (so_meta svc)\<rparr>;
                 job' = job\<lparr>jo_deadline := Some (pb_deadline p), jo_ttl := Some (pb_retention p),
                   jo_meta := decorate name (dry_run_metadata p) (jo_meta job)\<rparr>
             in if \<not> pn_accepts_service pn name svc' then Inl DryRunRejected
                else if \<not> pn_accepts_job pn name job' then Inl DryRunRejected
                else Inr ())"

definition benchmark_command :: "InferenceTarget \<Rightarrow> string \<Rightarrow> string list" where
  "benchmark_command target ir =
     [''generate'', ''--target'', it_url target, ''--scenario-ir'', ir] @ (if it_model target \<noteq> [] then [''--model'', it_model target] else [])"

definition dataset_mounts :: "Options \<Rightarrow> scenario_config \<Rightarrow> (plan_error, mountSpec list) result" where
  "dataset_mounts opts sc =
     (if scenarioUsesDataset sc
      then (if DatasetPVC opts = [] \<or> DatasetRoot opts = [] then Inl NoDatasetStorage
            else Inr [\<lparr>mnt_pvc = DatasetPVC opts, mnt_path = DatasetRoot opts\<rparr>])
      else Inr [])"

definition as_policy :: "(policy_error, 'a) result \<Rightarrow> (plan_error, 'a) result" where
  "as_policy r = (case r of Inl e \<Rightarrow> Inl (Policy e) | Inr x \<Rightarrow> Inr x)"

text \<open>The checks of the request against the operator's options, in order; the result is the target, the number of workers and the platform.\<close>

definition request_checks :: "Options \<Rightarrow> benchmarkInput \<Rightarrow> scenario_config \<Rightarrow> (plan_error, InferenceTarget \<times> int \<times> string) result" where
  "request_checks opts input sc =
     res_bind (as_policy (validateScenarioBounds sc)) (\<lambda>_.
       case (if bi_target input = [] then None else map_of (InferenceTargets opts) (bi_target input)) of
         None \<Rightarrow> Inl UnknownTarget
       | Some target \<Rightarrow>
           let platform = (if bi_platform input = [] then ''kubernetes'' else bi_platform input)
           in if bi_result_label input = [] \<or> \<not> resultLabelPattern (bi_result_label input) then Inl LabelInvalid
              else if bi_workstream input \<noteq> [] \<and> \<not> attachmentPattern (bi_workstream input) then Inl WorkstreamInvalid
              else if platform \<notin> set (allowedPlatforms opts) then Inl (PlatformNotAllowed platform)
              else if ResultPVC opts = [] \<or> ResultRoot opts = [] then Inl NoResultStorage
              else res_bind (as_policy (validateScenarioDatasetPaths sc (DatasetRoot opts))) (\<lambda>_.
                Inr (target, if bi_workers input = 0 then 1 else bi_workers input, platform)))"

definition encode_bounded :: "(scenario_config \<Rightarrow> string option) \<Rightarrow> plan_error \<Rightarrow> plan_error \<Rightarrow> scenario_config \<Rightarrow> (plan_error, string) result" where
  "encode_bounded encode failed large sc =
     (case encode sc of None \<Rightarrow> Inl failed | Some t \<Rightarrow> if MaxScenarioInputBytes < int (length t) then Inl large else Inr t)"

definition run_spec :: "Options \<Rightarrow> benchmarkInput \<Rightarrow> string \<Rightarrow> string list \<Rightarrow> int \<Rightarrow> mountSpec list \<Rightarrow> runSpec" where
  "run_spec opts input runID cmd workers mounts =
     \<lparr>run_name = runID, run_command = cmd, run_workers = workers, run_arch = bi_architecture input, run_cpu = bi_cpu input, run_memory = bi_memory input,
      run_active_deadline = bi_deadline input, run_mounts = mounts,
      run_results = Some \<lparr>rs_pvc = ResultPVC opts, rs_mount_path = ResultRoot opts, rs_subdir = path_join [''mcp'', bi_result_label input]\<rparr>\<rparr>"

definition planBenchmark :: "planner \<Rightarrow> benchmarkInput \<Rightarrow> (plan_error, plannedBenchmark) result" where
  "planBenchmark pn input =
     (let x = pn_external pn; opts = pn_options pn
      in res_bind (pn_scenario pn input) (\<lambda>sc.
         res_bind (request_checks opts input sc) (\<lambda>(target, workers, platform).
         res_bind (encode_bounded (pn_runner_ir pn) EncodingScenario RunnerTooLarge sc) (\<lambda>ir.
         let runID = plan_run_id (pn_digest pn input) input
         in if \<not> x_dns_subdomain x runID \<or> 63 < length runID then Inl RunIdInvalid
            else res_bind (dataset_mounts opts sc) (\<lambda>mounts.
              let req = run_spec opts input runID (benchmark_command target ir) workers mounts
              in res_bind (as_policy (prepareRun x opts (pn_namespace pn) [] req)) (\<lambda>(name, cfg0, cmd, results).
                 let cfg = cfg0\<lparr>kc_platform := platform\<rparr>
                 in case pn_render pn cfg (commandDefaultName cmd) cmd of
                      None \<Rightarrow> Inl Rendering
                    | Some (svc, job) \<Rightarrow>
                        res_bind (as_policy (resolveRuntimeLimits opts req)) (\<lambda>(deadline, retention).
                        res_bind (encode_bounded (pn_effective pn) EncodingEffective EffectiveTooLarge sc) (\<lambda>effective.
                        let p = \<lparr>pb_run = name, pb_fingerprint = pn_fingerprint pn cmd cfg deadline retention (bi_target input) effective,
                              pb_target = bi_target input, pb_model = it_model target, pb_label = bi_result_label input, pb_workstream = bi_workstream input,
                              pb_scenario = effective, pb_platform = platform, pb_workers = workers, pb_image = RunnerImage opts, pb_results = results,
                              pb_deadline = deadline, pb_retention = retention, pb_service = svc,
                              pb_job = job\<lparr>jo_deadline := Some deadline, jo_ttl := Some retention\<rparr>\<rparr>
                        in res_bind (serverDryRun pn cfg cmd p) (\<lambda>_. Inr p)))))))))"

section \<open>Listing runs\<close>

record index_entry =
  ie_name :: string
  ie_dir :: bool

datatype index_listing = NoIndex | IndexFails | IndexEntries "index_entry list"

datatype list_error =
    LimitRange
  | StatusInvalid
  | ListingJobs
  | ReadingIndex
  | IndexLimit
  | LoadingManifest string

definition run_statuses :: "string list" where
  "run_statuses = [''pending'', ''running'', ''succeeded'', ''failed'', ''archived'']"

record benchmarkListInput =
  li_status :: string
  li_label :: string
  li_limit :: int

definition listed_job :: "codec \<Rightarrow> benchmarkListInput \<Rightarrow> job_obj \<Rightarrow> bool" where
  "listed_job cd input j \<longleftrightarrow> (li_status input = [] \<or> ru_status (runFromJob cd j) = li_status input) \<and>
     (li_label input = [] \<or> entry (om_annotations (jo_meta j)) resultLabelAnnotation = li_label input)"

definition index_ids :: "job_obj list \<Rightarrow> index_entry list \<Rightarrow> string list" where
  "index_ids jobs es =
     map (\<lambda>e. trim_suffix (ie_name e) ''.json'')
       (filter (\<lambda>e. \<not> ie_dir e \<and> path_ext (ie_name e) = ''.json'' \<and> trim_suffix (ie_name e) ''.json'' \<notin> jo_name ` set jobs) es)"

definition listed_manifest :: "benchmarkListInput \<Rightarrow> durableRunManifest \<Rightarrow> bool" where
  "listed_manifest input m \<longleftrightarrow> (li_status input = [] \<or> li_status input = ''archived'') \<and> (li_label input = [] \<or> mf_label m = li_label input)"

text \<open>A manifest of the index that cannot be read fails the list, whether or not it would be listed.\<close>

fun archived_runs :: "(string \<Rightarrow> durableRunManifest option) \<Rightarrow> benchmarkListInput \<Rightarrow> string list \<Rightarrow> (list_error, Run list) result" where
  "archived_runs load input [] = Inr []"
| "archived_runs load input (i # is) =
     (case load i of
        None \<Rightarrow> Inl (LoadingManifest i)
      | Some m \<Rightarrow> res_bind (archived_runs load input is) (\<lambda>rs.
          Inr (if listed_manifest input m then runFromManifest m ''archived'' # rs else rs)))"

definition loadRunManifest :: "external \<Rightarrow> (string \<Rightarrow> durableRunManifest option) \<Rightarrow> string \<Rightarrow> durableRunManifest option" where
  "loadRunManifest x read i = (if \<not> x_dns_subdomain x i \<or> 63 < length i then None else read i)"

text \<open>\<open>arrange\<close> is \<open>sort.Slice\<close> by creation time, latest first, which leaves the order of equal times open; the result is the runs returned and their total.\<close>

definition listBenchmarksMCP ::
    "codec \<Rightarrow> Options \<Rightarrow> (Run list \<Rightarrow> Run list) \<Rightarrow> (string \<Rightarrow> durableRunManifest option) \<Rightarrow> job_obj list option \<Rightarrow> index_listing \<Rightarrow>
     benchmarkListInput \<Rightarrow> (list_error, Run list \<times> nat) result" where
  "listBenchmarksMCP cd opts arrange load jobs index input0 =
     (let input = (if li_limit input0 = 0 then input0\<lparr>li_limit := 50\<rparr> else input0)
      in if li_limit input < 1 \<or> 100 < li_limit input then Inl LimitRange
         else if li_status input \<noteq> [] \<and> li_status input \<notin> set run_statuses then Inl StatusInvalid
         else case jobs of
           None \<Rightarrow> Inl ListingJobs
         | Some js \<Rightarrow>
             (case index of
                IndexFails \<Rightarrow> Inl ReadingIndex
              | _ \<Rightarrow>
                  let es = (case index of IndexEntries es \<Rightarrow> es | _ \<Rightarrow> [])
                  in if MaxIndexedRuns opts < int (length es) then Inl IndexLimit
                     else res_bind (archived_runs load input (index_ids js es)) (\<lambda>old.
                       let runs = arrange (map (runFromJob cd) (filter (listed_job cd input) js) @ old)
                       in Inr (take (nat (li_limit input)) runs, length runs))))"

section \<open>What is promised\<close>

lemma capped_write_fold:
  assumes "0 \<le> limit" "cb_limit b = limit" "cb_bytes b = take (nat limit) t" "cb_overflow b \<longleftrightarrow> limit < int (length t)"
  shows "cb_bytes (fold capped_write ws b) = take (nat limit) (t @ concat ws) \<and> (cb_overflow (fold capped_write ws b) \<longleftrightarrow> limit < int (length (t @ concat ws)))"
  using assms
proof (induction ws arbitrary: b t)
  case (Cons w ws)
  let ?b = "capped_write w b"
  have l: "cb_limit ?b = limit" using Cons.prems(2) by (simp add: capped_write_def Let_def)
  have n: "int (length (cb_bytes b)) = min limit (int (length t))" using Cons.prems(1,3) by simp
  have b: "cb_bytes ?b = take (nat limit) (t @ w)"
  proof (cases "int (length t) < limit")
    case True
    then have t: "cb_bytes b = t" using Cons.prems(3) by simp
    show ?thesis
    proof (cases "limit - int (length t) < int (length w)")
      case lt: True
      have "nat limit - length t = nat (limit - int (length t))" by (simp add: nat_diff_distrib Cons.prems(1))
      then show ?thesis using True lt t Cons.prems(2) by (simp add: capped_write_def Let_def)
    next
      case False
      then show ?thesis using True t Cons.prems(2) by (simp add: capped_write_def Let_def)
    qed
  next
    case False
    then show ?thesis using Cons.prems(2,3) n by (simp add: capped_write_def Let_def)
  qed
  have o: "cb_overflow ?b \<longleftrightarrow> limit < int (length (t @ w))"
    using Cons.prems(2,4) n by (auto simp: capped_write_def Let_def)
  show ?case using Cons.IH [OF Cons.prems(1) l b o] by simp
qed simp

lemma capped_output:
  assumes "0 \<le> limit"
  shows "cb_bytes (fold capped_write ws (new_buffer limit)) = take (nat limit) (concat ws)"
    and "cb_overflow (fold capped_write ws (new_buffer limit)) \<longleftrightarrow> limit < int (length (concat ws))"
  using capped_write_fold [of limit "new_buffer limit" "[]" ws] assms by (simp_all add: new_buffer_def)

text \<open>
  The scenario compiled from a client's Starlark is decoded from the whole output of the compiler, never from a truncated part of it, and only when
  that output is at most 64 KiB and the compiler succeeded; the error that is passed on is at most 8 KiB of the compiler's own text.
\<close>
theorem compiled_from_whole_output:
  shows "(\<forall>sc. compileStarlark decode slot p = Inr sc \<longrightarrow>
      slot \<and> cp_failed p = None \<and> decode (concat (cp_stdout p)) = Some sc \<and> length (concat (cp_stdout p)) \<le> 65536) \<and>
    (\<forall>m. compileStarlark decode slot p = Inl (CompileFailed m) \<longrightarrow> length m \<le> 8192 \<or> (\<exists>late. cp_failed p = Some (m, late)))"
proof -
  have c: "0 \<le> starlarkCompilerOutput" "0 \<le> starlarkCompilerError" by (simp_all add: starlarkCompilerOutput_def MaxScenarioInputBytes_def starlarkCompilerError_def)
  have trim: "length (trim_space s) \<le> length s" for s
    using length_dropWhile_le [of is_space "rev (dropWhile is_space s)"] length_dropWhile_le [of is_space s]
    by (simp add: trim_space_def trim_right_def trim_left_def)
  show ?thesis
  proof (intro conjI allI impI)
    fix m assume r: "compileStarlark decode slot p = Inl (CompileFailed m)"
    let ?e = "trim_space (cb_bytes (fold capped_write (cp_stderr p) (new_buffer starlarkCompilerError)))"
    have slot using r by (simp add: compileStarlark_def split: if_splits)
    show "length m \<le> 8192 \<or> (\<exists>late. cp_failed p = Some (m, late))"
    proof (cases "cp_failed p")
      case None
      then show ?thesis using r \<open>slot\<close> by (simp add: compileStarlark_def Let_def split: if_splits option.splits)
    next
      case (Some f)
      have "length ?e \<le> 8192" by (rule le_trans [OF trim]) (unfold capped_output [OF c(2)], simp add: starlarkCompilerError_def min.coboundedI2)
      moreover have "m = ?e \<or> m = fst f"
        using r \<open>slot\<close> Some by (cases f) (simp add: compileStarlark_def Let_def split: if_splits)
      ultimately show ?thesis using Some by (cases f) auto
    qed
  next
    fix sc assume "compileStarlark decode slot p = Inr sc"
    then have r: "slot" "cp_failed p = None" "\<not> cb_overflow (fold capped_write (cp_stdout p) (new_buffer starlarkCompilerOutput))"
      "decode (cb_bytes (fold capped_write (cp_stdout p) (new_buffer starlarkCompilerOutput))) = Some sc"
      by (auto simp: compileStarlark_def Let_def split: if_splits option.splits)
    then have l: "int (length (concat (cp_stdout p))) \<le> starlarkCompilerOutput" by (simp add: capped_output [OF c(1)])
    then have "take (nat starlarkCompilerOutput) (concat (cp_stdout p)) = concat (cp_stdout p)" by simp
    then show "slot" "cp_failed p = None" "decode (concat (cp_stdout p)) = Some sc" using r unfolding capped_output [OF c(1)] by simp_all
    show "length (concat (cp_stdout p)) \<le> 65536" using l by (simp add: starlarkCompilerOutput_def MaxScenarioInputBytes_def)
  qed
qed

definition example_process :: compiler_process where
  "example_process = \<lparr>cp_stdout = [''{'', ''}''], cp_stderr = [], cp_failed = None\<rparr>"

lemma compiled_from_whole_output_witness:
  "compileStarlark (\<lambda>t. if t = ''{}'' then Some zero_scenario else None) True example_process = Inr zero_scenario \<and> length (concat (cp_stdout example_process)) \<le> 65536"
proof -
  have r: "compileStarlark (\<lambda>t. if t = ''{}'' then Some zero_scenario else None) True example_process = Inr zero_scenario"
    by (simp add: compileStarlark_def example_process_def capped_write_def new_buffer_def starlarkCompilerOutput_def MaxScenarioInputBytes_def Let_def)
  then show ?thesis
    using compiled_from_whole_output [of "\<lambda>t. if t = ''{}'' then Some zero_scenario else None" True example_process] by blast
qed

lemma join_suffix: "suffix y (join_with sepr (xs @ [y]))"
  by (induction xs) (auto simp: join_with_Cons suffix_def)

lemma last_split_suffix: "suffix (last (split_on c t)) t"
  using join_suffix [of "last (split_on c t)" "[c]" "butlast (split_on c t)"] by (simp add: join_split_on)

lemma path_ext_suffix: "suffix (path_ext t) t"
proof -
  have "suffix (path_ext t) (last (split_on sep t))" by (auto simp: path_ext_def Let_def suffix_drop split: option.splits)
  then show ?thesis using last_split_suffix [of sep t] by (rule suffix_order.trans)
qed

lemma json_object_is_inline:
  assumes "jsonObject valid raw"
  shows "Parse read_file yaml json star raw = Parse read_file' yaml json star' raw"
proof -
  let ?t = "trim_space raw"
  from assms have h: "?t \<noteq> []" "hd ?t = CHR 0x7B" "last ?t = CHR 0x7D" by (auto simp: jsonObject_def Let_def)
  have e: "last (path_ext t) = last t" if "path_ext t \<noteq> []" for t
    using path_ext_suffix [of t] that by (metis last_appendR suffix_def)
  have "\<not> equal_fold (path_ext ?t) ''.star''"
  proof
    assume a: "equal_fold (path_ext ?t) ''.star''"
    then have "path_ext ?t \<noteq> []" "to_lower (path_ext ?t) = to_lower ''.star''" by (auto simp: equal_fold_def to_lower_def)
    then have "lower_char (last (path_ext ?t)) = last (to_lower ''.star'')" by (metis last_map to_lower_def)
    then show False using e [of ?t] \<open>path_ext ?t \<noteq> []\<close> h(3) by (simp add: to_lower_def lower_char_def is_upper_def char_code_def)
  qed
  moreover have "looks_like_json ?t" using h(1,2) by (cases ?t) (auto simp: looks_like_json_def has_prefix_def)
  ultimately show ?thesis by (simp add: Parse_def Let_def parseDataConfig_def loadConfigData_def)
qed

text \<open>
  Property C5. A client's scenario is never read from the server's file system: what a request's scenario is parsed to does not depend on any file
  or on the Starlark loader of \<open>config.Parse\<close>, whatever text the client sends.
\<close>
theorem scenario_text_never_reads_files:
  "parseBenchmarkScenario compile valid decode_strict (Parse read_file yaml json star) input =
   parseBenchmarkScenario compile valid decode_strict (Parse read_file' yaml json star') input"
proof (cases "jsonObject valid (bi_scenario input)")
  case True
  show ?thesis unfolding parseBenchmarkScenario_def Let_def json_object_is_inline [OF True, of read_file yaml json star read_file' star'] ..
qed (simp add: parseBenchmarkScenario_def Let_def)

text \<open>A lowercase RFC 1123 subdomain, as \<open>IsDNS1123Subdomain\<close> documents it.\<close>

definition dns_label :: "string \<Rightarrow> bool" where
  "dns_label s \<longleftrightarrow> s \<noteq> [] \<and> label_end (hd s) \<and> label_end (last s) \<and> list_all (\<lambda>c. label_end c \<or> c = CHR ''-'') s"

definition dns_subdomain :: "string \<Rightarrow> bool" where
  "dns_subdomain s \<longleftrightarrow> length s \<le> 253 \<and> list_all dns_label (split_on CHR ''.'' s)"

definition hex_text :: "string \<Rightarrow> bool" where
  "hex_text s \<longleftrightarrow> list_all (\<lambda>c. is_digit c \<or> c \<in> set ''abcdef'') s"

lemma hex_label_end: "is_digit c \<or> c \<in> set ''abcdef'' \<Longrightarrow> label_end c"
  by (auto simp: label_end_def is_lower_def char_code_def)

lemma hex_label_all: "hex_text s \<Longrightarrow> list_all label_end s"
  using hex_label_end unfolding hex_text_def list_all_iff by blast

lemma name_chars_word: "list_all (\<lambda>c. label_end c \<or> c = CHR ''-'') s \<Longrightarrow> split_on CHR ''.'' s = [s]"
  by (rule split_on_word) (auto simp: list_all_iff label_end_def is_lower_def is_digit_def char_code_def)

lemma dns_subdomain_word:
  assumes "list_all (\<lambda>c. label_end c \<or> c = CHR ''-'') s" "s \<noteq> []" "label_end (hd s)" "label_end (last s)" "length s \<le> 253"
  shows "dns_subdomain s"
  using assms by (simp add: dns_subdomain_def name_chars_word dns_label_def)

lemma set_trim_right: "set (trim_right p s) \<subseteq> set s"
  by (simp add: trim_right_def) (metis set_dropWhileD set_rev subsetI)

lemma trim_cutset_subset: "set (trim_cutset cs s) \<subseteq> set s"
  using set_trim_right [of "\<lambda>c. c \<in> set cs" "trim_left (\<lambda>c. c \<in> set cs) s"]
  by (auto simp: trim_cutset_def trim_left_def dest: set_dropWhileD)

lemma trim_cutset_length: "length (trim_cutset cs s) \<le> length s"
  using length_dropWhile_le [of "\<lambda>c. c \<in> set cs" "rev (dropWhile (\<lambda>c. c \<in> set cs) s)"] length_dropWhile_le [of "\<lambda>c. c \<in> set cs" s]
  by (simp add: trim_cutset_def trim_right_def trim_left_def)

lemma list_all_take: "list_all P xs \<Longrightarrow> list_all P (take n xs)"
  unfolding list_all_iff by (blast dest: in_set_takeD)

lemma list_all_butlast: "list_all P xs \<Longrightarrow> list_all P (butlast xs)"
  unfolding list_all_iff by (blast dest: in_set_butlastD)

lemma generated_run_id_shape:
  assumes "resultLabelPattern label" "hex_text digest" "length digest = 12"
  shows "list_all (\<lambda>c. label_end c \<or> c = CHR ''-'') (generated_run_id digest label) \<and> length (generated_run_id digest label) \<le> 59 \<and>
    hd (generated_run_id digest label) = CHR ''n'' \<and> label_end (last (generated_run_id digest label))"
proof -
  let ?p = "map (\<lambda>c. if c = CHR ''.'' \<or> c = CHR ''_'' then CHR ''-'' else c) label"
  let ?q = "if 40 < length ?p then take 40 ?p else ?p"
  have p: "list_all (\<lambda>c. label_end c \<or> c = CHR ''-'') ?p"
    using assms(1) by (auto simp: resultLabelPattern_def list_all_iff label_char_def)
  then have "list_all (\<lambda>c. label_end c \<or> c = CHR ''-'') ?q" using list_all_take [OF p, of 40] by simp
  then have t: "list_all (\<lambda>c. label_end c \<or> c = CHR ''-'') (trim_cutset ''-'' ?q)"
    using trim_cutset_subset [of "''-''" ?q] unfolding list_all_iff by blast
  have l: "length (trim_cutset ''-'' ?q) \<le> 40" using trim_cutset_length [of "''-''" ?q] by (simp split: if_splits)
  obtain tq where tq: "generated_run_id digest label = ''nyann-'' @ tq @ ''-'' @ digest"
    "list_all (\<lambda>c. label_end c \<or> c = CHR ''-'') tq" "length tq \<le> 40"
    by (rule that [of "trim_cutset ''-'' ?q", OF _ t l]) (simp only: generated_run_id_def Let_def)
  have d: "list_all label_end digest" "digest \<noteq> []"
    using hex_label_all [OF assms(2)] assms(3) by auto
  have n: "list_all (\<lambda>c. label_end c \<or> c = CHR ''-'') ''nyann-''" by (simp add: label_end_def is_lower_def char_code_def)
  have "label_end (last digest)" using d last_in_set [of digest] unfolding list_all_iff by blast
  moreover have "list_all (\<lambda>c. label_end c \<or> c = CHR ''-'') digest" using d(1) by (simp add: list_all_iff)
  moreover have "length (''nyann-'' @ tq @ ''-'' @ digest) = 7 + length tq + 12" using assms(3) by simp
  moreover have "last (''nyann-'' @ tq @ ''-'' @ digest) = last digest" "hd (''nyann-'' @ tq @ ''-'' @ digest) = CHR ''n''" using d(2) by simp_all
  moreover have "list_all (\<lambda>c. label_end c \<or> c = CHR ''-'') ''-''" by simp
  ultimately show ?thesis unfolding tq(1) list_all_append using tq(2,3) n by presburger
qed

lemma dry_run_name_shape:
  assumes "list_all (\<lambda>c. label_end c \<or> c = CHR ''-'') s" "s \<noteq> []" "hd s = CHR ''n''" "hex_text f" "8 \<le> length f" "length s \<le> 63"
  shows "dns_subdomain (dry_run_name f s) \<and> length (dry_run_name f s) \<le> 63"
proof -
  have c: "label_end CHR ''n''" by (simp add: label_end_def is_lower_def char_code_def)
  let ?suf = "''-dry-'' @ take 8 f"
  have suf: "length ?suf = 13" using assms(5) by simp
  have tr: "trim_suffix t ''-'' = t \<or> (t \<noteq> [] \<and> last t = CHR ''-'' \<and> trim_suffix t ''-'' = butlast t)" for t
    by (cases t rule: rev_cases) (auto simp: trim_suffix_def has_suffix_def)
  define ok where "ok t \<longleftrightarrow> list_all (\<lambda>c. label_end c \<or> c = CHR ''-'') t \<and> t \<noteq> [] \<and> hd t = CHR ''n''" for t
  have keep: "ok (trim_suffix t ''-'')" if t: "ok t" for t
  proof (cases "trim_suffix t ''-'' = t")
    case False
    then have b: "last t = CHR ''-''" "trim_suffix t ''-'' = butlast t" using tr [of t] by simp_all
    moreover obtain x r where "t = x # r" "r \<noteq> []" using t b(1) c by (cases t) (auto simp: ok_def split: if_splits)
    ultimately show ?thesis using t list_all_butlast [of _ r] c by (simp add: ok_def)
  qed (use t in simp)
  have tk: "ok (take (63 - 13) t)" if "ok t" for t using that list_all_take [of _ t "63 - 13"] by (cases t) (simp_all add: ok_def)
  have len: "length (trim_suffix t ''-'') \<le> length t" for t using tr [of t] by auto
  let ?pre = "trim_suffix s ''-''"
  let ?pre' = "if 63 < length ?pre + 13 then trim_suffix (take (63 - 13) ?pre) ''-'' else ?pre"
  have o: "ok ?pre'" using keep tk assms(1-3) by (auto simp: ok_def)
  have "length ?pre' \<le> 50" using len [of "take 50 ?pre"] by (simp split: if_splits)
  moreover have n: "dry_run_name f s = ?pre' @ ?suf" unfolding dry_run_name_def Let_def suf ..
  ultimately have l: "length (dry_run_name f s) \<le> 63" using suf by simp
  have h: "list_all label_end (take 8 f)" by (rule list_all_take [OF hex_label_all [OF assms(4)]])
  have t8: "take 8 f \<noteq> []" using assms(5) by auto
  have "list_all (\<lambda>c. label_end c \<or> c = CHR ''-'') (''-dry-'' @ take 8 f)"
    using h by (auto simp: list_all_iff label_end_def is_lower_def char_code_def)
  then have "dns_subdomain (?pre' @ ?suf)"
    using o c h t8 l [unfolded n] unfolding ok_def by (intro dns_subdomain_word) (auto simp: list_all_iff simp del: append_Cons)
  then show ?thesis using l n by simp
qed

text \<open>
  A run id that the server chooses is always usable: for every accepted result label it is a DNS-safe name of at most 59 characters, and so
  is the name of the dry run, so that planning never fails on a name that the client did not give.
\<close>
theorem generated_run_ids_valid:
  assumes "resultLabelPattern label" "hex_text digest" "length digest = 12" "hex_text fingerprint" "length fingerprint = 64"
  shows "dns_subdomain (generated_run_id digest label) \<and> length (generated_run_id digest label) \<le> 59 \<and>
    dns_subdomain (dry_run_name fingerprint (generated_run_id digest label)) \<and>
    length (dry_run_name fingerprint (generated_run_id digest label)) \<le> 63"
proof -
  note s = generated_run_id_shape [OF assms(1-3)]
  have n: "label_end CHR ''n''" by (simp add: label_end_def is_lower_def char_code_def)
  have ne: "generated_run_id digest label \<noteq> []" by (simp add: generated_run_id_def Let_def)
  have "dns_subdomain (generated_run_id digest label)" using s n ne by (intro dns_subdomain_word) auto
  then show ?thesis using s dry_run_name_shape [of "generated_run_id digest label" fingerprint] ne assms(4,5) by simp
qed

lemma generated_run_ids_valid_witness:
  "generated_run_id ''0123456789ab'' ''llama.70b_nightly'' = ''nyann-llama-70b-nightly-0123456789ab'' \<and>
   dns_subdomain (generated_run_id ''0123456789ab'' ''llama.70b_nightly'')"
proof -
  have "resultLabelPattern ''llama.70b_nightly''" "hex_text ''0123456789ab''" "hex_text (replicate 64 CHR ''0'')"
    "generated_run_id ''0123456789ab'' ''llama.70b_nightly'' = ''nyann-llama-70b-nightly-0123456789ab''"
    by code_simp+
  then show ?thesis using generated_run_ids_valid [of "''llama.70b_nightly''" "''0123456789ab''" "replicate 64 CHR ''0''"] by simp
qed

text \<open>A run id of the client with a point at the place where the name of the dry run is cut gives an invalid name, although it is valid itself.\<close>

lemma dry_run_name_can_be_invalid:
  "dns_subdomain (replicate 49 CHR ''a'' @ ''.bbbbbbbb'') \<and> length (replicate 49 CHR ''a'' @ ''.bbbbbbbb'') \<le> 63 \<and>
   \<not> dns_subdomain (dry_run_name ''01234567'' (replicate 49 CHR ''a'' @ ''.bbbbbbbb''))"
  by code_simp

lemma archived_runs_Inr:
  assumes "archived_runs load input is = Inr rs" "\<forall>i m. load i = Some m \<longrightarrow> mf_run m = i"
  shows "subseq (map ru_id rs) is \<and> (\<forall>r\<in>set rs. \<exists>m. load (mf_run m) = Some m \<and> listed_manifest input m \<and> r = runFromManifest m ''archived'')"
  using assms(1)
proof (induction "is" arbitrary: rs)
  case (Cons i "is")
  then obtain m rs' where m: "load i = Some m" "archived_runs load input is = Inr rs'"
    "rs = (if listed_manifest input m then runFromManifest m ''archived'' # rs' else rs')"
    by (auto simp: res_bind_Inr_iff split: option.splits)
  have i: "mf_run m = i" using assms(2) m(1) by blast
  then have "ru_id (runFromManifest m ''archived'') = i" by (simp add: runFromManifest_def)
  then show ?case using Cons.IH [OF m(2)] m i by (auto split: if_splits)
qed simp

lemma index_ids_distinct:
  assumes "distinct (map ie_name es)"
  shows "distinct (index_ids js es)"
proof -
  let ?es = "filter (\<lambda>e. \<not> ie_dir e \<and> path_ext (ie_name e) = ''.json'' \<and> trim_suffix (ie_name e) ''.json'' \<notin> jo_name ` set js) es"
  have inj: "inj_on (\<lambda>n. trim_suffix n ''.json'') {n. suffix ''.json'' n}"
    by (rule inj_onI) (auto simp: trim_suffix_def has_suffix_iff suffix_def)
  have s: "set (map ie_name ?es) \<subseteq> {n. suffix ''.json'' n}" using path_ext_suffix by auto (metis path_ext_suffix)
  have "distinct (map ie_name ?es)" using assms by (simp add: distinct_map_filter)
  then have "distinct (map (\<lambda>n. trim_suffix n ''.json'') (map ie_name ?es))"
    using inj_on_subset [OF inj s] by (simp only: distinct_map)
  then show ?thesis by (simp add: index_ids_def o_def)
qed

lemma index_ids_not_jobs: "i \<in> set (index_ids js es) \<Longrightarrow> i \<notin> jo_name ` set js"
  by (auto simp: index_ids_def)

text \<open>
  Property C30. A list of runs is bounded, ordered and without duplicates: it has at most the requested number of runs and at most 100, the latest first, no
  run id twice, and an archived manifest never stands beside the Job of the same run; when fewer runs are returned than there are, the limit is reached.
\<close>
theorem listed_runs_once:
  assumes "listBenchmarksMCP cd opts arrange load (Some js) (IndexEntries es) input = Inr (rs, n)"
    and "\<forall>xs. mset (arrange xs) = mset xs \<and> sorted_wrt (\<lambda>a b. ru_created b \<le> ru_created a) (arrange xs)"
    and "distinct (map jo_name js)" "distinct (map ie_name es)"
    and "\<forall>i m. load i = Some m \<longrightarrow> mf_run m = i"
  shows "length rs \<le> 100 \<and> (li_limit input \<noteq> 0 \<longrightarrow> length rs \<le> nat (li_limit input)) \<and> sorted_wrt (\<lambda>a b. ru_created b \<le> ru_created a) rs \<and>
    distinct (map ru_id rs) \<and>
    (\<forall>r\<in>set rs. (\<exists>j\<in>set js. r = runFromJob cd j) \<or> (\<exists>m. r = runFromManifest m ''archived'' \<and> mf_run m \<notin> jo_name ` set js)) \<and>
    (length rs < n \<longrightarrow> int (length rs) = (if li_limit input = 0 then 50 else li_limit input))"
proof -
  let ?in = "if li_limit input = 0 then input\<lparr>li_limit := 50\<rparr> else input"
  obtain old where l: "1 \<le> li_limit ?in" "li_limit ?in \<le> 100" and old: "archived_runs load ?in (index_ids js es) = Inr old"
    and r: "rs = take (nat (li_limit ?in)) (arrange (map (runFromJob cd) (filter (listed_job cd ?in) js) @ old))"
    "n = length (arrange (map (runFromJob cd) (filter (listed_job cd ?in) js) @ old))"
    using assms(1) by (auto simp: listBenchmarksMCP_def Let_def res_bind_Inr_iff split: if_splits)
  let ?all = "map (runFromJob cd) (filter (listed_job cd ?in) js) @ old"
  have m: "mset (arrange ?all) = mset ?all" and s: "sorted_wrt (\<lambda>a b. ru_created b \<le> ru_created a) (arrange ?all)" using assms(2) by blast+
  note a = archived_runs_Inr [OF old assms(5)]
  have ids: "map (ru_id \<circ> runFromJob cd) xs = map jo_name xs" for xs by (simp add: runFromJob_def Let_def)
  have sub: "subseq (map ru_id old) (index_ids js es)" using a by blast
  then have do: "distinct (map ru_id old)" using index_ids_distinct [OF assms(4)] by (metis distinct_nthsI subseq_conv_nths)
  have os: "i \<notin> jo_name ` set js" if "i \<in> set (map ru_id old)" for i
    using index_ids_not_jobs list_emb_set [OF sub that] by metis
  have "distinct (map jo_name (filter (listed_job cd ?in) js))" using assms(3) by (simp add: distinct_map_filter)
  moreover have "set (map jo_name (filter (listed_job cd ?in) js)) \<inter> set (map ru_id old) = {}" using os by fastforce
  ultimately have "distinct (map ru_id ?all)" using do by (simp only: map_append map_map ids distinct_append)
  then have d: "distinct (map ru_id (arrange ?all))" using m by (metis mset_eq_imp_distinct_iff mset_map)
  have "\<forall>x\<in>set (arrange ?all). (\<exists>j\<in>set js. x = runFromJob cd j) \<or> (\<exists>m. x = runFromManifest m ''archived'' \<and> mf_run m \<notin> jo_name ` set js)"
  proof
    fix x assume "x \<in> set (arrange ?all)"
    then have "x \<in> set ?all" using m by (metis set_mset_mset)
    then consider "\<exists>j\<in>set js. x = runFromJob cd j" | "x \<in> set old" by auto
    then show "(\<exists>j\<in>set js. x = runFromJob cd j) \<or> (\<exists>m. x = runFromManifest m ''archived'' \<and> mf_run m \<notin> jo_name ` set js)"
    proof cases
      case 2
      then obtain m where "x = runFromManifest m ''archived''" using a by blast
      moreover have "ru_id x \<notin> jo_name ` set js" using os 2 by auto
      ultimately show ?thesis by (auto simp: runFromManifest_def)
    qed simp
  qed
  then have k: "\<forall>x\<in>set rs. (\<exists>j\<in>set js. x = runFromJob cd j) \<or> (\<exists>m. x = runFromManifest m ''archived'' \<and> mf_run m \<notin> jo_name ` set js)"
    unfolding r(1) by (blast dest: in_set_takeD)
  have "length rs \<le> nat (li_limit ?in)" "distinct (map ru_id rs)" "sorted_wrt (\<lambda>a b. ru_created b \<le> ru_created a) rs"
    unfolding r(1) using d s by (simp_all add: take_map [symmetric] sorted_wrt_take)
  moreover have "length rs < n \<longrightarrow> int (length rs) = li_limit ?in" unfolding r using l(1) by auto
  ultimately show ?thesis using l k by (auto split: if_splits)
qed

definition no_filter :: benchmarkListInput where
  "no_filter = \<lparr>li_status = [], li_label = [], li_limit = 1\<rparr>"

definition listed_example :: "(list_error, Run list \<times> nat) result" where
  "listed_example = listBenchmarksMCP example_codec DefaultOptions (\<lambda>rs. rev (sort_key ru_created rs))
     (\<lambda>i. Some ((desired_manifest example_plan 3)\<lparr>mf_run := i\<rparr>)) (Some [pb_job example_plan])
     (IndexEntries [\<lparr>ie_name = ''old.json'', ie_dir = False\<rparr>, \<lparr>ie_name = ''run.json'', ie_dir = False\<rparr>]) no_filter"

lemma latest_first: "mset (rev (sort_key f xs)) = mset xs \<and> sorted_wrt (\<lambda>a b. f b \<le> f a) (rev (sort_key f xs))" for f :: "Run \<Rightarrow> int"
  using sorted_sort_key [of f xs] by (simp add: sorted_wrt_rev sorted_map)

lemma listed_runs_once_witness:
  "\<exists>rs n. listed_example = Inr (rs, n) \<and> n = 2 \<and> length rs = 1 \<and> distinct (map ru_id rs)"
proof -
  have "case listed_example of Inr (rs, n) \<Rightarrow> n = 2 \<and> length rs = 1 | _ \<Rightarrow> False" by code_simp
  then obtain rs n where r: "listed_example = Inr (rs, n)" "n = 2" "length rs = 1" by (auto split: sum.splits)
  show ?thesis
    using listed_runs_once [OF r(1) [unfolded listed_example_def]] r latest_first [of ru_created] by (auto simp: desired_manifest_def)
qed

section \<open>Plans\<close>

lemma prepareRun_results:
  assumes "prepareRun x opts ns fresh req = Inr (name, c, cmd, meta)" "run_results req = Some r"
  shows "name = (if run_name req = [] then fresh else run_name req)" "x_dns_subdomain x name" "length name \<le> 63"
    and "validateResults x r name = Inr (rm_path meta)" "1 \<le> run_workers req \<or> run_workers req = 0" "run_workers req \<le> MaxWorkers opts \<or> run_workers req = 0"
  using assms by (auto simp: prepareRun_def Let_def res_bind_Inr_iff prepare_results_def split: if_splits)

lemma as_policy_Inr [simp]: "as_policy r = Inr x \<longleftrightarrow> r = Inr x"
  by (auto simp: as_policy_def split: sum.splits)

lemma plan_facts:
  assumes "planBenchmark pn input = Inr p"
  obtains req where "resultLabelPattern (bi_result_label input)" "bi_target input \<in> fst ` set (InferenceTargets (pn_options pn))"
    "x_dns_subdomain (pn_external pn) (plan_run_id (pn_digest pn input) input)"
    "pb_run p = plan_run_id (pn_digest pn input) input" "pb_label p = bi_result_label input"
    "pb_target p = bi_target input" "pb_platform p \<in> set (allowedPlatforms (pn_options pn))"
    "length (pb_run p) \<le> 63" "1 \<le> pb_workers p" "pb_workers p \<le> MaxWorkers (pn_options pn)"
    "validateResults (pn_external pn) \<lparr>rs_pvc = ResultPVC (pn_options pn), rs_mount_path = ResultRoot (pn_options pn),
       rs_subdir = path_join [''mcp'', bi_result_label input]\<rparr> (pb_run p) = Inr (rm_path (pb_results p))"
    "resolveRuntimeLimits (pn_options pn) req = Inr (pb_deadline p, pb_retention p)"
proof -
  obtain sc target workers platform ir name cfg cmd results deadline retention mounts where
    rc: "request_checks (pn_options pn) input sc = Inr (target, workers, platform)"
    and d: "x_dns_subdomain (pn_external pn) (plan_run_id (pn_digest pn input) input)"
    and pr: "prepareRun (pn_external pn) (pn_options pn) (pn_namespace pn) []
        (run_spec (pn_options pn) input (plan_run_id (pn_digest pn input) input) (benchmark_command target ir) workers mounts) = Inr (name, cfg, cmd, results)"
    and rl: "resolveRuntimeLimits (pn_options pn)
        (run_spec (pn_options pn) input (plan_run_id (pn_digest pn input) input) (benchmark_command target ir) workers mounts) = Inr (deadline, retention)"
    and p: "pb_run p = name" "pb_label p = bi_result_label input" "pb_target p = bi_target input" "pb_platform p = platform" "pb_workers p = workers"
      "pb_results p = results" "pb_deadline p = deadline" "pb_retention p = retention"
    using assms by (auto simp: planBenchmark_def Let_def res_bind_Inr_iff split: if_splits option.splits)
  have c: "resultLabelPattern (bi_result_label input)" "bi_target input \<in> fst ` set (InferenceTargets (pn_options pn))" "platform \<in> set (allowedPlatforms (pn_options pn))"
    "workers \<noteq> 0"
    using rc by (auto simp: request_checks_def Let_def res_bind_Inr_iff split: if_splits option.splits dest!: map_of_SomeD intro: rev_image_eqI)
  note q = prepareRun_results [OF pr, unfolded run_spec_def, simplified]
  show ?thesis
    by (rule that [of "run_spec (pn_options pn) input (plan_run_id (pn_digest pn input) input) (benchmark_command target ir) workers mounts"])
      (use c d q p rl in \<open>auto simp: Let_def\<close>)
qed

lemma plain_elem_name:
  assumes "s \<noteq> []" "hd s \<noteq> CHR ''.''" "sep \<notin> set s"
  shows "plain_elem s"
  using assms by (auto simp: plain_elem_def)

lemma label_plain: "resultLabelPattern s \<Longrightarrow> plain_elem s"
proof (rule plain_elem_name)
  assume r: "resultLabelPattern s"
  then show "s \<noteq> []" by (simp add: resultLabelPattern_def)
  show "hd s \<noteq> CHR ''.''" using r by (auto simp: resultLabelPattern_def label_end_def is_lower_def is_digit_def char_code_def)
  show "sep \<notin> set s" using r by (auto simp: resultLabelPattern_def list_all_iff label_char_def label_end_def is_lower_def is_digit_def char_code_def sep_def)
qed

lemma split_on_chars:
  assumes "x \<in> set s" "x \<noteq> c"
  shows "\<exists>p\<in>set (split_on c s). x \<in> set p"
  using assms by (induction s) (auto split: list.splits)

lemma dns_plain: "dns_subdomain s \<Longrightarrow> plain_elem s"
proof -
  assume d: "dns_subdomain s"
  then have l: "\<forall>p\<in>set (split_on CHR ''.'' s). dns_label p" by (simp add: dns_subdomain_def list_all_iff)
  have ne: "s \<noteq> []" using l by (auto simp: dns_label_def)
  have "hd s \<noteq> CHR ''.''"
  proof
    assume "hd s = CHR ''.''"
    then have "[] \<in> set (split_on CHR ''.'' s)" using ne by (cases s) simp_all
    then show False using l by (auto simp: dns_label_def)
  qed
  moreover have "sep \<notin> set s"
  proof
    assume "sep \<in> set s"
    then obtain p where "p \<in> set (split_on CHR ''.'' s)" "sep \<in> set p" using split_on_chars [of sep s "CHR ''.''"] by (auto simp: sep_def)
    then have "label_end sep \<or> sep = CHR ''-''" using l by (simp add: dns_label_def list_all_iff)
    then show False by (simp add: label_end_def is_lower_def is_digit_def char_code_def sep_def)
  qed
  ultimately show "plain_elem s" using ne by (intro plain_elem_name)
qed

lemma run_directory_of_plan:
  assumes "planBenchmark pn input = Inr p" "\<forall>s. x_dns_subdomain (pn_external pn) s \<longrightarrow> dns_subdomain s"
  shows "path_elems (rm_path (pb_results p)) = path_elems (ResultRoot (pn_options pn)) @ [''mcp'', pb_label p, pb_run p]"
proof (rule plan_facts [OF assms(1)])
  let ?spec = "\<lparr>rs_pvc = ResultPVC (pn_options pn), rs_mount_path = ResultRoot (pn_options pn), rs_subdir = path_join [''mcp'', bi_result_label input]\<rparr>"
  assume f: "resultLabelPattern (bi_result_label input)" "pb_label p = bi_result_label input"
    "x_dns_subdomain (pn_external pn) (plan_run_id (pn_digest pn input) input)" "pb_run p = plan_run_id (pn_digest pn input) input"
    and v: "validateResults (pn_external pn) ?spec (pb_run p) = Inr (rm_path (pb_results p))"
  have l: "plain_elem (bi_result_label input)" by (rule label_plain [OF f(1)])
  have r: "plain_elem (pb_run p)" using f(3,4) assms(2) dns_plain by simp
  have sl: "bi_result_label input \<noteq> []" "sep \<notin> set (bi_result_label input)" using l by (simp_all add: plain_elem_def)
  have m: "plain_elem ''mcp''" "split_on sep ''mcp'' = [''mcp'']" "\<not> is_abs (''mcp'' @ t)" for t
    by (simp_all add: plain_elem_def sep_def is_abs_def has_prefix_def)
  have s: "split_on sep (''mcp'' @ sep # bi_result_label input) = [''mcp'', bi_result_label input]"
    unfolding split_on_append_sep split_on_word [OF sl(2)] m(2) by simp
  have e: "path_elems (''mcp'' @ sep # bi_result_label input) = [''mcp'', bi_result_label input]"
    unfolding path_elems_def s using clean_elems_plain_id [of "[''mcp'', bi_result_label input]" _ "[]"] l m(1) by simp
  have "path_join [''mcp'', bi_result_label input] = path_clean (''mcp'' @ sep # bi_result_label input)"
    using sl by (simp add: path_join_def)
  also have "\<dots> = join_with [sep] [''mcp'', bi_result_label input]" unfolding path_clean_def e if_not_P [OF m(3)] by simp
  also have "\<dots> = ''mcp'' @ sep # bi_result_label input" by simp
  finally have j: "path_join [''mcp'', bi_result_label input] = ''mcp'' @ sep # bi_result_label input" .
  have d: "rs_subdir ?spec \<noteq> []" "split_on sep (rs_subdir ?spec) = [''mcp'', bi_result_label input]"
    unfolding resultSpec.select_convs j s by simp_all
  have "path_elems (rm_path (pb_results p)) = path_elems (rs_mount_path ?spec) @ split_on sep (rs_subdir ?spec) @ [pb_run p]"
    by (rule conjunct1 [OF results_directory [OF v r d(1)]]) (unfold d(2), simp add: m(1) l)
  then show ?thesis unfolding d(2) by (simp add: f(2))
qed

text \<open>
  Property C23. Every planned run has a directory of its own: its results lie at \<open>mcp/label/run\<close> below the operator's result root, and the
  directory of one plan is never the same as, or inside, that of a plan with another run id or label.
\<close>
theorem runs_have_own_directories:
  assumes "planBenchmark pn i = Inr p" "planBenchmark pn j = Inr q" "\<forall>s. x_dns_subdomain (pn_external pn) s \<longrightarrow> dns_subdomain s"
  shows "path_elems (rm_path (pb_results p)) = path_elems (ResultRoot (pn_options pn)) @ [''mcp'', pb_label p, pb_run p] \<and>
    (prefix (path_elems (rm_path (pb_results p))) (path_elems (rm_path (pb_results q))) \<longrightarrow> pb_label p = pb_label q \<and> pb_run p = pb_run q)"
  using run_directory_of_plan [OF assms(1,3)] run_directory_of_plan [OF assms(2,3)] by simp

definition example_request :: "string \<Rightarrow> benchmarkInput" where
  "example_request run = \<lparr>bi_run_id = run, bi_target = ''llm'', bi_scenario = [], bi_starlark = ''x'', bi_workers = 0, bi_cpu = [], bi_memory = [],
     bi_platform = [], bi_architecture = [], bi_deadline = 0, bi_result_label = ''nightly'', bi_workstream = []\<rparr>"

definition planned_stage :: scenario_stage where
  "planned_stage = zero_stage\<lparr>ss_duration := 60000000000, ss_concurrency := 1\<rparr>"

definition planned_scenario :: scenario_config where
  "planned_scenario = zero_scenario\<lparr>sc_workload := zero_workload\<lparr>wl_type := ''faker'', wl_isl := 128, wl_osl := 64, wl_turns := 1\<rparr>, sc_stages := [planned_stage]\<rparr>"

definition example_planner :: planner where
  "example_planner = \<lparr>pn_external = demo_external\<lparr>x_dns_subdomain := dns_subdomain, x_parse_ir := (\<lambda>_. Some planned_scenario)\<rparr>,
     pn_options = demo_options\<lparr>InferenceTargets := [(''llm'', \<lparr>it_url = ''http://vllm.bench.svc'', it_model = []\<rparr>)], ResultPVC := ''data'', ResultRoot := ''/results''\<rparr>,
     pn_namespace = ''ns'', pn_scenario = (\<lambda>_. Inr planned_scenario), pn_digest = (\<lambda>_. ''0123456789ab''),
     pn_runner_ir = (\<lambda>_. Some ''{}''), pn_effective = (\<lambda>_. Some ''{}''), pn_fingerprint = (\<lambda>_ _ _ _ _ _. ''0123456789''),
     pn_render = (\<lambda>_ _ _. Some (pb_service example_plan, pb_job example_plan)), pn_accepts_service = (\<lambda>_ _. True), pn_accepts_job = (\<lambda>_ _. True)\<rparr>"

lemmas example_planner_defs = example_planner_def example_request_def

lemma example_command:
  defines "c \<equiv> [''generate'', ''--target'', ''http://vllm.bench.svc'', ''--scenario-ir'', ''{}'']"
  shows "validateCommand (pn_external example_planner) (pn_options example_planner) c = Inr (c, ''http://vllm.bench.svc'')"
proof -
  have "res_bind (parse_command c empty_command) (command_checks (pn_external example_planner) (pn_options example_planner) c) = Inr (c, ''http://vllm.bench.svc'')"
    unfolding c_def by code_simp
  moreover have "list_all argument_ok c" "valid_prefix c"
    by (simp_all add: c_def argument_ok_def has_nul_def char_code_def valid_prefix_def)
  ultimately show ?thesis by (simp add: validateCommand_def c_def)
qed

lemma example_planned:
  "\<exists>p. planBenchmark example_planner (example_request []) = Inr p \<and> pb_run p = ''nyann-nightly-0123456789ab'' \<and> pb_label p = ''nightly'' \<and>
    rm_path (pb_results p) = ''/results/mcp/nightly/nyann-nightly-0123456789ab''"
proof -
  let ?pn = example_planner and ?in = "example_request []" and ?sc = planned_scenario and ?n = "''nyann-nightly-0123456789ab''"
  have rc: "request_checks (pn_options ?pn) ?in ?sc = Inr (\<lparr>it_url = ''http://vllm.bench.svc'', it_model = []\<rparr>, 1, ''kubernetes'')"
    and ds: "dataset_mounts (pn_options ?pn) ?sc = Inr []" and id: "plan_run_id (pn_digest ?pn ?in) ?in = ?n" and dns: "dns_subdomain ?n"
    and vr: "validateResults (pn_external ?pn) \<lparr>rs_pvc = ''data'', rs_mount_path = ''/results'', rs_subdir = ''mcp/nightly''\<rparr> ?n =
      Inr ''/results/mcp/nightly/nyann-nightly-0123456789ab''"
    and rl: "resolveRuntimeLimits (pn_options ?pn) (run_spec (pn_options ?pn) ?in c1 c2 1 []) = Inr (3600, 86400)"
    and pj: "path_join [''mcp'', ''nightly''] = ''mcp/nightly''" and pvc: "pvcAllowed (pn_options ?pn) ''data''" for c1 c2
    by code_simp+
  have lims: "MaxWorkers (pn_options ?pn) = 16" "MaxCPU (pn_options ?pn) = 16" "MaxMemory (pn_options ?pn) = 68719476736"
    by (simp_all add: example_planner_def demo_options_def DefaultOptions_def)
  have im: "RunnerImage (pn_options ?pn) = RunnerImage demo_options" by (simp add: example_planner_def)
  have x: "x_dns_subdomain (pn_external ?pn) = dns_subdomain" "x_parse_quantity (pn_external ?pn) v = Some 1" for v
    by (simp_all add: example_planner_def demo_external_def)
  have bc: "benchmark_command \<lparr>it_url = ''http://vllm.bench.svc'', it_model = []\<rparr> ''{}'' = [''generate'', ''--target'', ''http://vllm.bench.svc'', ''--scenario-ir'', ''{}'']"
    by (simp add: benchmark_command_def)
  have spec: "run_spec (pn_options ?pn) ?in ?n c 1 [] = \<lparr>run_name = ?n, run_command = c, run_workers = 1, run_arch = [], run_cpu = [], run_memory = [],
      run_active_deadline = 0, run_mounts = [], run_results = Some \<lparr>rs_pvc = ''data'', rs_mount_path = ''/results'', rs_subdir = ''mcp/nightly''\<rparr>\<rparr>" for c
    using pj by (simp add: run_spec_def example_planner_defs)
  have "\<exists>cfg cmd meta. prepareRun (pn_external ?pn) (pn_options ?pn) (pn_namespace ?pn) []
      (run_spec (pn_options ?pn) ?in ?n [''generate'', ''--target'', ''http://vllm.bench.svc'', ''--scenario-ir'', ''{}''] 1 []) = Inr (?n, cfg, cmd, meta) \<and>
    rm_path meta = ''/results/mcp/nightly/nyann-nightly-0123456789ab''"
    using demo_image(1) unfolding prepareRun_def Let_def spec prepare_results_def im
    by (simp add: example_command x dns lims quantity_ok_def exceeds_def validateMounts_def pvc vr result_volumes_def)
  then obtain cfg cmd meta where pr: "prepareRun (pn_external ?pn) (pn_options ?pn) (pn_namespace ?pn) []
      (run_spec (pn_options ?pn) ?in ?n [''generate'', ''--target'', ''http://vllm.bench.svc'', ''--scenario-ir'', ''{}''] 1 []) = Inr (?n, cfg, cmd, meta)"
    "rm_path meta = ''/results/mcp/nightly/nyann-nightly-0123456789ab''" by blast
  have e: "encode_bounded (pn_runner_ir ?pn) a b ?sc = Inr ''{}''" "encode_bounded (pn_effective ?pn) a b ?sc = Inr ''{}''"
    "pn_scenario ?pn ?in = Inr ?sc" "length ?n \<le> 63" for a b
    by (simp_all add: encode_bounded_def example_planner_def MaxScenarioInputBytes_def)
  have o: "pn_render ?pn = (\<lambda>_ _ _. Some (pb_service example_plan, pb_job example_plan))" "pn_accepts_service ?pn = (\<lambda>_ _. True)" "pn_accepts_job ?pn = (\<lambda>_ _. True)"
    "bi_target ?in = ''llm''" "bi_result_label ?in = ''nightly''"
    by (simp_all add: example_planner_defs)
  show ?thesis
    unfolding planBenchmark_def Let_def by (simp add: e rc id x dns ds bc pr(1) rl o serverDryRun_def Let_def pr(2) as_policy_def)
qed

theorem runs_have_own_directories_witness:
  "\<exists>p. planBenchmark example_planner (example_request []) = Inr p \<and>
     path_elems (rm_path (pb_results p)) = path_elems ''/results'' @ [''mcp'', ''nightly'', ''nyann-nightly-0123456789ab'']"
proof -
  have x: "\<forall>s. x_dns_subdomain (pn_external example_planner) s \<longrightarrow> dns_subdomain s" "ResultRoot (pn_options example_planner) = ''/results''"
    by (simp_all add: example_planner_def)
  then show ?thesis using example_planned runs_have_own_directories [of example_planner "example_request []" _ "example_request []", OF _ _ x(1)] by metis
qed

end
