(* ===== verification/MCP_Handler.thy ===== *)
theory MCP_Handler
  imports Run_Planning Control_Report "HOL-Library.AList"
begin

text \<open>
  Package \<open>controlapi\<close>: the Model Context Protocol front of the control API (\<open>mcp.go\<close>, \<open>mcp_protocol.go\<close>, \<open>mcp_legacy.go\<close>): authentication,
  routing, the checks of a request, the tools and their effect on the runs, and the bounded answers. Decoding JSON text into the request structures,
  base64, the text of a floating-point number and the SDK that serves the older protocol are arguments. Strings are bytes in valid UTF-8, as
  decoded JSON always is.
\<close>

section \<open>Requests and answers\<close>

record mcpClientInfo =
  ci_name :: string
  ci_version :: string

record mcpMetadata =
  md_version :: string
  md_client :: "mcpClientInfo option"
  md_capabilities :: string

record mcpParams =
  pm_meta :: mcpMetadata
  pm_name :: string
  pm_arguments :: string
  pm_cursor :: "string option"

record mcpEnvelope =
  en_jsonrpc :: string
  en_id :: string
  en_method :: string
  en_params :: string

text \<open>A request; a body that cannot be read is \<open>None\<close>.\<close>

record http_request =
  rq_method :: string
  rq_path :: string
  rq_header :: "string \<Rightarrow> string"
  rq_body :: "string option"

datatype response = NoBody int | PlainText int string | McpJson int json

text \<open>Decoding: each function is the strict decoder of one type on a complete text.\<close>

record decoders =
  dc_envelope :: "string \<Rightarrow> mcpEnvelope option"
  dc_params :: "string \<Rightarrow> (string, mcpParams) result"
  dc_any :: "string \<Rightarrow> json option"
  dc_method :: "string \<Rightarrow> string option"
  dc_valid :: "string \<Rightarrow> bool"
  dc_base64 :: "string \<Rightarrow> string option"
  dc_input :: "string \<Rightarrow> benchmarkInput option"
  dc_list :: "string \<Rightarrow> benchmarkListInput option"
  dc_ref :: "string \<Rightarrow> string option"
  dc_number :: "rat \<Rightarrow> string"
  dc_convert :: "rat \<Rightarrow> int"

definition decodeStrict :: "(string \<Rightarrow> 'a option) \<Rightarrow> string \<Rightarrow> 'a option" where
  "decodeStrict decode raw = (if raw = [] then None else decode raw)"

definition mcpProtocolVersion :: string where "mcpProtocolVersion = ''2026-07-28''"
definition legacyMCPProtocolVersion :: string where "legacyMCPProtocolVersion = ''2025-11-25''"
definition mcpMaximumRequestBytes :: int where "mcpMaximumRequestBytes = 1048576"
definition mcpMaximumResultBytes :: int where "mcpMaximumResultBytes = 1048576"
definition mcpServerName :: string where "mcpServerName = ''nyann-bench''"
definition mcpServerVersion :: string where "mcpServerVersion = ''0.2.0''"

text \<open>A number outside \<open>int64\<close> is converted as the processor does.\<close>

definition validMCPID :: "decoders \<Rightarrow> string \<Rightarrow> bool" where
  "validMCPID dc v =
     (if v = [] then False
      else case dc_any dc v of
        Some (JStr _) \<Rightarrow> True
      | Some (JNum x) \<Rightarrow> x = f64_of_int (if in64 (int_of_f64 x) then int_of_f64 x else dc_convert dc x)
      | _ \<Rightarrow> False)"

definition rawID :: "decoders \<Rightarrow> string \<Rightarrow> json" where
  "rawID dc v = (if v = [] then JNull else case dc_any dc v of None \<Rightarrow> JNull | Some j \<Rightarrow> j)"

definition decodeMCPName :: "decoders \<Rightarrow> string \<Rightarrow> string option" where
  "decodeMCPName dc v =
     (if has_prefix v ''=?base64?'' \<and> has_suffix v ''?='' then dc_base64 dc (trim_suffix (trim_prefix v ''=?base64?'') ''?='') else Some v)"

definition completeMCPResult :: "(string \<times> json) list \<Rightarrow> json" where
  "completeMCPResult fs =
     go_map (fold (\<lambda>(k, v). AList.update k v) fs
       [(''resultType'', JStr ''complete''),
        (''_meta'', go_map [(''io.modelcontextprotocol/serverInfo'', go_map [(''name'', JStr mcpServerName), (''version'', JStr mcpServerVersion)])])])"

definition mcp_envelope :: "json \<Rightarrow> string \<Rightarrow> json \<Rightarrow> json" where
  "mcp_envelope i key payload = go_map [(''jsonrpc'', JStr ''2.0''), (''id'', i), (key, payload)]"

definition mcpResult :: "decoders \<Rightarrow> string \<Rightarrow> (string \<times> json) list \<Rightarrow> response" where
  "mcpResult dc i fs = McpJson 200 (mcp_envelope (rawID dc i) ''result'' (completeMCPResult fs))"

definition mcpError :: "decoders \<Rightarrow> string \<Rightarrow> int \<Rightarrow> int \<Rightarrow> string \<Rightarrow> json option \<Rightarrow> response" where
  "mcpError dc i status code message data =
     McpJson status (mcp_envelope (rawID dc i) ''error''
       (go_map ([(''code'', JNum (of_int code)), (''message'', JStr message)] @ (case data of None \<Rightarrow> [] | Some d \<Rightarrow> [(''data'', d)]))))"

definition too_large :: json where
  "too_large = go_map [(''error'', JStr ''MCP result exceeds the 1 MiB bounded response limit''), (''maximum_bytes'', JNum (of_int mcpMaximumResultBytes))]"

definition tool_content :: "decoders \<Rightarrow> json \<Rightarrow> bool \<Rightarrow> (string \<times> json) list" where
  "tool_content dc v isError =
     [(''content'', JArr [go_map [(''type'', JStr ''text''), (''text'', JStr (json_text (dc_number dc) v))]]), (''structuredContent'', v), (''isError'', JBool isError)]"

text \<open>A value that cannot be encoded is \<open>None\<close>.\<close>

definition mcpToolResult :: "decoders \<Rightarrow> string \<Rightarrow> json option \<Rightarrow> bool \<Rightarrow> response" where
  "mcpToolResult dc i value isError =
     (let (v, e) = (case value of None \<Rightarrow> (too_large, True) | Some v \<Rightarrow> (v, isError));
          envelope = mcp_envelope (rawID dc i) ''result'' (completeMCPResult (tool_content dc v e))
      in McpJson 200
           (if mcpMaximumResultBytes < int (length (json_text (dc_number dc) envelope))
            then mcp_envelope (rawID dc i) ''result'' (completeMCPResult (tool_content dc too_large True)) else envelope))"

definition body_text :: "decoders \<Rightarrow> response \<Rightarrow> string" where
  "body_text dc r = (case r of NoBody _ \<Rightarrow> [] | PlainText _ t \<Rightarrow> t @ [newline] | McpJson _ j \<Rightarrow> json_text (dc_number dc) j @ [newline])"

section \<open>The list of tools\<close>

definition nat_json :: "int \<Rightarrow> json" where "nat_json n = JNum (of_int n)"

definition string_enum :: "string list \<Rightarrow> json" where
  "string_enum vs = go_map [(''type'', JStr ''string''), (''enum'', JArr (map JStr vs))]"

definition integer_between :: "int \<Rightarrow> int \<Rightarrow> json" where
  "integer_between lo hi = go_map [(''type'', JStr ''integer''), (''minimum'', nat_json lo), (''maximum'', nat_json hi)]"

definition number_between :: "int \<Rightarrow> int \<Rightarrow> json" where
  "number_between lo hi = go_map [(''type'', JStr ''number''), (''minimum'', nat_json lo), (''maximum'', nat_json hi)]"

definition boundedString :: "string \<Rightarrow> int \<Rightarrow> json" where
  "boundedString pattern mx =
     go_map [(''type'', JStr ''string''), (''minLength'', nat_json 1), (''maxLength'', nat_json mx), (''pattern'', JStr pattern)]"

definition closed_object :: "string list \<Rightarrow> (string \<times> json) list \<Rightarrow> json" where
  "closed_object required props =
     go_map ([(''type'', JStr ''object''), (''additionalProperties'', JBool False)] @
       (if required = [] then [] else [(''required'', JArr (map JStr required))]) @ [(''properties'', go_map props)])"

definition no_nul :: string where "no_nul = ''[^'' @ [json_backslash] @ ''x00]''"

definition path_schema :: json where "path_schema = boundedString (''^/'' @ no_nul @ ''*$'') 4096"

definition text_schema :: "int \<Rightarrow> json" where "text_schema n = boundedString (''^'' @ no_nul @ ''+$'') n"

definition duration_schema :: json where
  "duration_schema = go_map [(''oneOf'', JArr
     [go_map [(''type'', JStr ''string''), (''minLength'', nat_json 1), (''maxLength'', nat_json 32)],
      go_map [(''type'', JStr ''number''), (''exclusiveMinimum'', nat_json 0), (''maximum'', nat_json 86400)]])]"

definition scenarioProperties :: "(string \<times> json) list" where
  "scenarioProperties =
     [(''load'', closed_object []
        [(''mode'', string_enum [''concurrent'', ''conversation_pool'', ''constant'', ''poisson'']), (''concurrency'', integer_between 0 65536),
         (''conversation_pool_size'', integer_between 0 1000000), (''rate'', number_between 0 1000000), (''max_inflight'', integer_between 0 65536),
         (''rampup'', duration_schema), (''duration'', duration_schema)]),
      (''stages'', go_map [(''type'', JStr ''array''), (''maxItems'', nat_json MaxScenarioStages), (''items'', closed_object [''concurrency'', ''duration'']
        [(''concurrency'', integer_between 0 65536), (''conversation_pool_size'', integer_between 0 1000000), (''duration'', duration_schema),
         (''max_requests'', integer_between 0 1000000000)])]),
      (''sweep'', closed_object [''min'', ''max'', ''steps'', ''step_duration'']
        [(''min'', integer_between 1 65536), (''max'', integer_between 1 65536), (''steps'', integer_between 1 MaxScenarioStages),
         (''step_duration'', duration_schema)]),
      (''warmup'', closed_object [''duration''] [(''duration'', duration_schema), (''stagger'', go_map [(''type'', JStr ''boolean'')])]),
      (''workload'', closed_object []
        [(''type'', string_enum [''synthetic'', ''faker'', ''corpus'', ''gsm8k'', ''gpqa'']), (''name'', text_schema 128),
         (''isl'', integer_between 0 1048576), (''subsequent_isl'', integer_between 0 1048576), (''osl'', integer_between 0 1048576),
         (''turns'', integer_between 1 1024), (''corpus_path'', path_schema), (''gsm8k_path'', path_schema), (''gsm8k_train_path'', path_schema),
         (''num_fewshot'', integer_between 0 128), (''gpqa_path'', path_schema), (''chars_per_token'', number_between 0 100),
         (''cache_salt'', closed_object [''mode''] [(''mode'', string_enum [''random'', ''fixed'']), (''value'', text_schema 4096)])])]"

definition targetNames :: "Options \<Rightarrow> string list" where
  "targetNames opts = sort (remdups (map fst (InferenceTargets opts)))"

definition run_id_schema :: json where "run_id_schema = boundedString ''^[a-z0-9]([-a-z0-9.]*[a-z0-9])?$'' 63"

definition label_schema :: json where "label_schema = boundedString ''^[a-z0-9](?:[a-z0-9._-]*[a-z0-9])?$'' 63"

definition benchmarkInputSchema :: "Options \<Rightarrow> json" where
  "benchmarkInputSchema opts =
     go_map [(''type'', JStr ''object''), (''additionalProperties'', JBool False), (''required'', JArr [JStr ''target'', JStr ''result_label'']),
       (''oneOf'', JArr [go_map [(''required'', JArr [JStr ''scenario'']), (''not'', go_map [(''required'', JArr [JStr ''starlark''])])],
                       go_map [(''required'', JArr [JStr ''starlark'']), (''not'', go_map [(''required'', JArr [JStr ''scenario''])])]]),
       (''properties'', go_map
         [(''run_id'', run_id_schema), (''target'', string_enum (targetNames opts)),
          (''scenario'', go_map [(''type'', JStr ''object''), (''additionalProperties'', JBool False), (''maxProperties'', nat_json 5),
             (''properties'', go_map scenarioProperties)]),
          (''starlark'', go_map [(''type'', JStr ''string''), (''minLength'', nat_json 1), (''maxLength'', nat_json MaxScenarioInputBytes),
             (''description'', JStr ''Inline nyann-bench Starlark source. load() is disabled and operator-owned target/model settings cannot be overridden.'')]),
          (''workers'', integer_between 1 (MaxWorkers opts)), (''cpu'', boundedString (''^[0-9]+(?:m|(?:'' @ [json_backslash] @ ''.[0-9]+)?)?$'') 16),
          (''memory'', boundedString ''^[0-9]+(?:Ki|Mi|Gi|Ti)?$'' 16), (''platform'', string_enum (allowedPlatforms opts)),
          (''architecture'', string_enum [''amd64'', ''arm64'']), (''deadline_seconds'', integer_between 1 (tdiv (MaxActiveDeadline opts) second)),
          (''result_label'', label_schema), (''vdp_workstream'', boundedString ''^[A-Za-z0-9][A-Za-z0-9._:/-]*$'' 128)])]"

text \<open>What a tool says of itself.\<close>

record tool_definition =
  td_name :: string
  td_description :: string
  td_schema :: json
  td_read_only :: bool
  td_destructive :: bool
  td_idempotent :: bool
  td_open_world :: bool

definition toolDefinition :: "tool_definition \<Rightarrow> json" where
  "toolDefinition t =
     go_map [(''name'', JStr (td_name t)), (''description'', JStr (td_description t)), (''inputSchema'', td_schema t),
       (''annotations'', go_map [(''readOnlyHint'', JBool (td_read_only t)), (''destructiveHint'', JBool (td_destructive t)),
          (''idempotentHint'', JBool (td_idempotent t)), (''openWorldHint'', JBool (td_open_world t))])]"

definition read_only_tool :: "string \<Rightarrow> string \<Rightarrow> json \<Rightarrow> tool_definition" where
  "read_only_tool name description schema =
     \<lparr>td_name = name, td_description = description, td_schema = schema, td_read_only = True, td_destructive = False, td_idempotent = True, td_open_world = False\<rparr>"

definition tool_definitions :: "Options \<Rightarrow> tool_definition list" where
  "tool_definitions opts =
     (let benchmark = benchmarkInputSchema opts; ref = closed_object [''run_id''] [(''run_id'', run_id_schema)];
          list = closed_object [] [(''status'', string_enum run_statuses), (''result_label'', label_schema), (''limit'', integer_between 1 100)]
      in [read_only_tool ''plan_benchmark'' ''Validate and render a JSON or programmable Starlark benchmark without cluster mutation.'' benchmark,
          (read_only_tool ''submit_benchmark'' ''Submit a previously plannable JSON or programmable Starlark CPU Indexed Job using an operator-owned logical target.''
             benchmark)\<lparr>td_read_only := False\<rparr>,
          read_only_tool ''list_benchmarks'' ''List a bounded set of benchmark runs.'' list,
          read_only_tool ''get_benchmark'' (''Get one benchmark'' @ [CHR 0x27] @ ''s status and durable result metadata.'') ref,
          (read_only_tool ''cancel_benchmark'' ''Cancel and clean up one non-terminal benchmark.'' ref)\<lparr>td_read_only := False, td_destructive := True\<rparr>,
          read_only_tool ''list_benchmark_artifacts'' ''List artifact metadata and hashes without returning raw payloads.'' ref,
          read_only_tool ''get_benchmark_report'' ''Aggregate all available worker partitions into a bounded report.'' ref])"

definition mcpTools :: "Options \<Rightarrow> tool_definition list" where
  "mcpTools opts = sort_key td_name (tool_definitions opts)"

definition isMCPTool :: "string \<Rightarrow> bool" where
  "isMCPTool name \<longleftrightarrow> name \<in> set [''plan_benchmark'', ''submit_benchmark'', ''list_benchmarks'', ''get_benchmark'', ''cancel_benchmark'',
     ''list_benchmark_artifacts'', ''get_benchmark_report'']"

section \<open>The tools\<close>

text \<open>The runs: what is stored under each run id.\<close>

type_synonym world = "(string \<times> run_store) list"

definition empty_store :: run_store where
  "empty_store = \<lparr>rs_index = None, rs_manifest = Map.empty, rs_job = None, rs_service = None\<rparr>"

definition store_of :: "world \<Rightarrow> string \<Rightarrow> run_store" where
  "store_of w i = (case map_of w i of None \<Rightarrow> empty_store | Some s \<Rightarrow> s)"

definition put_store :: "string \<Rightarrow> run_store \<Rightarrow> world \<Rightarrow> world" where
  "put_store i s w = AList.update i s w"

text \<open>The server: \<open>ts_choices\<close> decides how the calls of a submission or cancellation end, \<open>ts_api\<close> whether the reading calls of the API
  server work and \<open>ts_legible\<close> whether the manifests can be read.\<close>

record tool_server =
  ts_planner :: planner
  ts_codec :: codec
  ts_arrange :: "Run list \<Rightarrow> Run list"
  ts_choices :: "nat \<Rightarrow> choice"
  ts_api :: bool
  ts_legible :: bool
  ts_sha256 :: "string \<Rightarrow> string"
  ts_digest :: "string \<Rightarrow> string"
  ts_fs :: fs_view
  ts_files :: "string \<Rightarrow> report_files"

datatype tool_error =
    InvalidBenchmarkRequest
  | InvalidToolArguments
  | RunIdIsInvalid
  | PlanningFailed plan_error
  | SubmissionFailed submit_error
  | ListingFailed list_error
  | BenchmarkNotFound
  | KubernetesUnavailable
  | ManifestInvalid
  | TerminalCannotBeCanceled
  | ReportFailed report_error
  | ToolUnknown

record benchmark_details =
  bd_run :: Run
  bd_target :: string
  bd_label :: string
  bd_platform :: string
  bd_scenario :: "string option"
  bd_workstream :: string

datatype tool_value =
    PlanValue plannedBenchmark
  | SubmitValue Run bool plannedBenchmark
  | ListValue "Run list" nat
  | DetailsValue benchmark_details
  | CancelValue string bool
  | ArtifactsValue string "artifactMetadata list"
  | ReportValue Run benchmarkReport

datatype lookup = Found job_obj | Missing | LookupFails

definition getManagedJob :: "external \<Rightarrow> bool \<Rightarrow> string \<Rightarrow> run_store \<Rightarrow> lookup" where
  "getManagedJob x api i s =
     (if \<not> x_dns_subdomain x i \<or> 63 < length i then Missing
      else if \<not> api then LookupFails
      else case rs_job s of None \<Rightarrow> Missing | Some j \<Rightarrow> if managed (jo_meta j) then Found j else Missing)"

definition benchmarkDetails :: "(string \<Rightarrow> bool) \<Rightarrow> codec \<Rightarrow> job_obj \<Rightarrow> benchmark_details" where
  "benchmarkDetails valid cd j =
     (let an = entry (om_annotations (jo_meta j))
      in \<lparr>bd_run = runFromJob cd j, bd_target = an targetAnnotation, bd_label = an resultLabelAnnotation, bd_platform = an platformAnnotation,
          bd_scenario = (if valid (an scenarioAnnotation) then Some (an scenarioAnnotation) else None), bd_workstream = an workstreamAnnotation\<rparr>)"

definition benchmarkDetailsFromManifest :: "durableRunManifest \<Rightarrow> benchmark_details" where
  "benchmarkDetailsFromManifest m =
     \<lparr>bd_run = runFromManifest m ''archived'', bd_target = mf_target m, bd_label = mf_label m, bd_platform = mf_platform m,
      bd_scenario = Some (mf_scenario m), bd_workstream = mf_workstream m\<rparr>"

definition decodeBenchmarkRef :: "external \<Rightarrow> decoders \<Rightarrow> string \<Rightarrow> (tool_error, string) result" where
  "decodeBenchmarkRef x dc raw =
     (case decodeStrict (dc_ref dc) raw of
        None \<Rightarrow> Inl InvalidToolArguments
      | Some i \<Rightarrow> if \<not> x_dns_subdomain x i \<or> 63 < length i then Inl RunIdIsInvalid else Inr i)"

text \<open>A run is looked up among the Jobs and then in the index; a missing index file means that the run is not known.\<close>

definition find_run :: "tool_server \<Rightarrow> string \<Rightarrow> world \<Rightarrow> (tool_error, job_obj + durableRunManifest) result" where
  "find_run ts i w =
     (case getManagedJob (pn_external (ts_planner ts)) (ts_api ts) i (store_of w i) of
        Found j \<Rightarrow> Inr (Inl j)
      | LookupFails \<Rightarrow> Inl KubernetesUnavailable
      | Missing \<Rightarrow> (case loadRunManifest (pn_external (ts_planner ts)) (\<lambda>i. rs_index (store_of w i)) i of
            None \<Rightarrow> Inl BenchmarkNotFound
          | Some m \<Rightarrow> if ts_legible ts then Inr (Inr m) else Inl ManifestInvalid))"

definition run_of :: "codec \<Rightarrow> job_obj + durableRunManifest \<Rightarrow> Run" where
  "run_of cd r = (case r of Inl j \<Rightarrow> runFromJob cd j | Inr m \<Rightarrow> runFromManifest m ''archived'')"

text \<open>A cancellation on its own makes at most four calls.\<close>

fun cancel_calls :: "(nat \<Rightarrow> choice) \<Rightarrow> nat \<Rightarrow> nat \<Rightarrow> cancel_pc \<Rightarrow> run_store \<Rightarrow> run_store \<times> cancel_pc" where
  "cancel_calls ch 0 k pc s = (s, pc)"
| "cancel_calls ch (Suc n) k pc s =
     (case cancel_step (ch k) pc s of None \<Rightarrow> (s, pc) | Some (s', pc') \<Rightarrow> cancel_calls ch n (k + 1) pc' s')"

definition cancel_result :: "string \<Rightarrow> cancel_pc \<Rightarrow> (tool_error, tool_value) result" where
  "cancel_result i pc =
     (case pc of
        CDone AlreadyAbsent \<Rightarrow> Inr (CancelValue i True)
      | CDone Canceled \<Rightarrow> Inr (CancelValue i False)
      | CDone TerminalRun \<Rightarrow> Inl TerminalCannotBeCanceled
      | _ \<Rightarrow> Inl KubernetesUnavailable)"

definition lift_error :: "('e \<Rightarrow> tool_error) \<Rightarrow> ('e, 'a) result \<Rightarrow> (tool_error, 'a) result" where
  "lift_error f r = (case r of Inl e \<Rightarrow> Inl (f e) | Inr a \<Rightarrow> Inr a)"

definition submit_plan :: "tool_server \<Rightarrow> plannedBenchmark \<Rightarrow> world \<Rightarrow> (tool_error, tool_value) result \<times> world" where
  "submit_plan ts p w =
     (let (s, pc) = contended_run (ts_codec ts) p (\<lambda>_ s. s) (ts_choices ts) 18 0 PIndex (store_of w (pb_run p))
      in (case pc of PDone (Inr (run, created)) \<Rightarrow> Inr (SubmitValue run created p) | PDone (Inl e) \<Rightarrow> Inl (SubmissionFailed e)
            | _ \<Rightarrow> Inl KubernetesUnavailable,
          put_store (pb_run p) s w))"

definition list_world :: "tool_server \<Rightarrow> benchmarkListInput \<Rightarrow> world \<Rightarrow> (tool_error, tool_value) result" where
  "list_world ts input w =
     lift_error ListingFailed
       (map_sum id (\<lambda>(runs, n). ListValue runs n)
         (listBenchmarksMCP (ts_codec ts) (pn_options (ts_planner ts)) (ts_arrange ts)
            (loadRunManifest (pn_external (ts_planner ts)) (\<lambda>i. if ts_legible ts then rs_index (store_of w i) else None))
            (if ts_api ts then Some (filter (\<lambda>j. managed (jo_meta j)) (List.map_filter (\<lambda>(i, s). rs_job s) w)) else None)
            (IndexEntries (map (\<lambda>(i, s). \<lparr>ie_name = i @ ''.json'', ie_dir = False\<rparr>) (filter (\<lambda>(i, s). rs_index s \<noteq> None) w))) input))"

definition list_run_artifacts :: "tool_server \<Rightarrow> Run \<Rightarrow> (tool_error, artifactMetadata list) result" where
  "list_run_artifacts ts run =
     lift_error ReportFailed
       (res_bind (safeResultDirectory (ts_fs ts) (pn_options (ts_planner ts)) (ru_results run)) (\<lambda>dir.
         listArtifacts (ts_sha256 ts) (pn_options (ts_planner ts)) (rf_listing (ts_files ts dir))))"

definition report_run :: "tool_server \<Rightarrow> Run \<Rightarrow> (tool_error, tool_value) result" where
  "report_run ts run =
     lift_error ReportFailed
       (map_sum id (ReportValue run)
         (build_report (ts_sha256 ts) (ts_digest ts) (ts_fs ts) (pn_options (ts_planner ts)) (ts_files ts) (ru_results run) (ru_workers run)))"

definition callMCPTool :: "decoders \<Rightarrow> tool_server \<Rightarrow> string \<Rightarrow> string \<Rightarrow> world \<Rightarrow> (tool_error, tool_value) result \<times> world" where
  "callMCPTool dc ts name raw w =
     (let x = pn_external (ts_planner ts); cd = ts_codec ts
      in if name = ''plan_benchmark'' \<or> name = ''submit_benchmark''
         then (case decodeStrict (dc_input dc) raw of
                 None \<Rightarrow> (Inl InvalidBenchmarkRequest, w)
               | Some input \<Rightarrow>
                   (case planBenchmark (ts_planner ts) input of
                      Inl e \<Rightarrow> (Inl (PlanningFailed e), w)
                    | Inr p \<Rightarrow> if name = ''plan_benchmark'' then (Inr (PlanValue p), w) else submit_plan ts p w))
         else if name = ''list_benchmarks''
         then (case decodeStrict (dc_list dc) raw of None \<Rightarrow> Inl InvalidToolArguments | Some input \<Rightarrow> list_world ts input w, w)
         else if name = ''get_benchmark''
         then (res_bind (decodeBenchmarkRef x dc raw) (\<lambda>i. res_bind (find_run ts i w) (\<lambda>r.
                 Inr (DetailsValue (case r of Inl j \<Rightarrow> benchmarkDetails (dc_valid dc) cd j | Inr m \<Rightarrow> benchmarkDetailsFromManifest m)))), w)
         else if name = ''cancel_benchmark''
         then (case decodeBenchmarkRef x dc raw of
                 Inl e \<Rightarrow> (Inl e, w)
               | Inr i \<Rightarrow> (let (s, pc) = cancel_calls (ts_choices ts) 4 0 CGetJob (store_of w i) in (cancel_result i pc, put_store i s w)))
         else if name = ''list_benchmark_artifacts''
         then (res_bind (decodeBenchmarkRef x dc raw) (\<lambda>i. res_bind (find_run ts i w) (\<lambda>r.
                 res_bind (list_run_artifacts ts (run_of cd r)) (\<lambda>as. Inr (ArtifactsValue i as)))), w)
         else if name = ''get_benchmark_report''
         then (res_bind (decodeBenchmarkRef x dc raw) (\<lambda>i. res_bind (find_run ts i w) (\<lambda>r. report_run ts (run_of cd r))), w)
         else (Inl ToolUnknown, w))"

section \<open>Requests\<close>

definition media_type :: "string \<Rightarrow> string" where
  "media_type v = trim_space (takeWhile (\<lambda>c. c \<noteq> CHR 0x3B) v)"

definition json_content :: "http_request \<Rightarrow> bool" where
  "json_content r \<longleftrightarrow> equal_fold (media_type (rq_header r ''Content-Type'')) ''application/json''"

text \<open>The body as the decoder of a bounded reader sees it: too large a body never decodes completely.\<close>

definition bounded_body :: "http_request \<Rightarrow> string option" where
  "bounded_body r = (case rq_body r of None \<Rightarrow> None | Some b \<Rightarrow> if mcpMaximumRequestBytes < int (length b) then None else Some b)"

definition metadata_complete :: "decoders \<Rightarrow> mcpMetadata \<Rightarrow> bool" where
  "metadata_complete dc m \<longleftrightarrow> md_version m \<noteq> [] \<and> md_capabilities m \<noteq> [] \<and> jsonObject (dc_valid dc) (md_capabilities m) \<and>
     (case md_client m of None \<Rightarrow> True | Some c \<Rightarrow> ci_name c \<noteq> [] \<and> ci_version c \<noteq> [])"

definition headers_match :: "decoders \<Rightarrow> http_request \<Rightarrow> mcpEnvelope \<Rightarrow> mcpParams \<Rightarrow> bool" where
  "headers_match dc r en p \<longleftrightarrow>
     (case decodeMCPName dc (rq_header r ''Mcp-Name'') of
        None \<Rightarrow> False
      | Some name \<Rightarrow> rq_header r ''Mcp-Protocol-Version'' = md_version (pm_meta p) \<and> rq_header r ''Mcp-Method'' = en_method en \<and>
          (en_method en = ''tools/call'' \<longrightarrow> name = pm_name p))"

definition supported_versions :: json where
  "supported_versions = JArr [JStr mcpProtocolVersion, JStr legacyMCPProtocolVersion]"

definition discovery :: "(string \<times> json) list" where
  "discovery = [(''supportedVersions'', supported_versions), (''capabilities'', go_map [(''tools'', go_map [])]),
     (''instructions'', JStr ''Plan before submitting. Use logical targets and bounded reports; raw JSONL and Prometheus payloads are intentionally unavailable through MCP.''),
     (''ttlMs'', nat_json 300000), (''cacheScope'', JStr ''private'')]"

datatype mcp_action = Answer response | CallTool string string string

text \<open>What a request of the current protocol comes to: an answer, or the call of a tool.\<close>

definition mcp_method :: "decoders \<Rightarrow> Options \<Rightarrow> mcpEnvelope \<Rightarrow> mcpParams \<Rightarrow> mcp_action" where
  "mcp_method dc opts en p =
     (let fail = (\<lambda>status code message. Answer (mcpError dc (en_id en) status code message None))
      in if en_method en = ''server/discover''
         then (if pm_name p \<noteq> [] \<or> pm_cursor p \<noteq> None \<or> pm_arguments p \<noteq> [] then fail 400 (- 32602) ''Invalid discovery params''
               else Answer (mcpResult dc (en_id en) discovery))
         else if en_method en = ''tools/list''
         then (if pm_cursor p \<noteq> None \<or> pm_name p \<noteq> [] \<or> pm_arguments p \<noteq> [] then fail 400 (- 32602) ''Invalid params: this tool list is not paginated''
               else Answer (mcpResult dc (en_id en)
                 [(''tools'', JArr (map toolDefinition (mcpTools opts))), (''ttlMs'', nat_json 300000), (''cacheScope'', JStr ''private'')]))
         else if en_method en = ''tools/call''
         then (if pm_cursor p \<noteq> None \<or> pm_name p = [] \<or> pm_arguments p = [] \<or> \<not> jsonObject (dc_valid dc) (pm_arguments p)
               then fail 400 (- 32602) ''Invalid tool call''
               else if \<not> isMCPTool (pm_name p) then fail 400 (- 32602) (''Unknown tool: '' @ pm_name p)
               else CallTool (en_id en) (pm_name p) (pm_arguments p))
         else fail 404 (- 32601) (''Method not found: '' @ en_method en))"

definition mcp_dispatch :: "decoders \<Rightarrow> Options \<Rightarrow> http_request \<Rightarrow> mcp_action" where
  "mcp_dispatch dc opts r =
     (let fail = (\<lambda>i status code message. Answer (mcpError dc i status code message None))
      in if rq_header r ''Origin'' \<noteq> [] then fail [] 403 (- 32600) ''Origin is not allowed''
         else if \<not> json_content r then fail [] 415 (- 32600) ''Content-Type must be application/json''
         else case Option.bind (bounded_body r) (dc_envelope dc) of
           None \<Rightarrow> fail [] 400 (- 32700) ''Parse error''
         | Some en \<Rightarrow>
             if en_jsonrpc en \<noteq> ''2.0'' \<or> \<not> validMCPID dc (en_id en) \<or> en_method en = [] then fail [] 400 (- 32600) ''Invalid Request''
             else case (if en_params en = [] then Inl ''missing JSON object'' else dc_params dc (en_params en)) of
               Inl message \<Rightarrow> fail (en_id en) 400 (- 32602) (''Invalid params: '' @ message)
             | Inr p \<Rightarrow>
                 if \<not> metadata_complete dc (pm_meta p)
                 then fail (en_id en) 400 (- 32602) ''Invalid params: required per-request MCP metadata is missing''
                 else if \<not> headers_match dc r en p
                 then fail (en_id en) 400 (- 32020) ''Header mismatch: MCP request headers do not match the body''
                 else if md_version (pm_meta p) \<noteq> mcpProtocolVersion
                 then Answer (mcpError dc (en_id en) 400 (- 32022) ''Unsupported protocol version''
                        (Some (go_map [(''supported'', supported_versions), (''requested'', JStr (md_version (pm_meta p)))])))
                 else mcp_method dc opts en p)"

text \<open>The text of an error and the encoding of a value are arguments.\<close>

record encoders =
  ec_error :: "tool_error \<Rightarrow> string"
  ec_value :: "tool_value \<Rightarrow> json option"

definition handleMCP :: "decoders \<Rightarrow> encoders \<Rightarrow> tool_server \<Rightarrow> http_request \<Rightarrow> world \<Rightarrow> response \<times> world" where
  "handleMCP dc ec ts r w =
     (case mcp_dispatch dc (pn_options (ts_planner ts)) r of
        Answer a \<Rightarrow> (a, w)
      | CallTool i name args \<Rightarrow>
          (case callMCPTool dc ts name args w of
             (Inl e, w') \<Rightarrow> (mcpToolResult dc i (Some (go_map [(''error'', JStr (ec_error ec e))])) True, w')
           | (Inr v, w') \<Rightarrow> (mcpToolResult dc i (ec_value ec v) False, w')))"

section \<open>The older protocol\<close>

definition legacyMCPEnvelopeAllowance :: int where "legacyMCPEnvelopeAllowance = 4096"

definition routeLegacyMCP :: "decoders \<Rightarrow> http_request \<Rightarrow> bool" where
  "routeLegacyMCP dc r =
     (if rq_method r = ''GET'' \<or> rq_method r = ''DELETE'' \<or> rq_header r ''Mcp-Session-Id'' \<noteq> [] then True
      else if rq_method r \<noteq> ''POST'' then False
      else case Option.bind (bounded_body r) (dc_method dc) of
        None \<Rightarrow> False
      | Some m \<Rightarrow> m = ''initialize'' \<or> m = ''notifications/initialized'')"

text \<open>An object with a key set anew.\<close>

definition object_field :: "json \<Rightarrow> string \<Rightarrow> json option" where
  "object_field j k = (case j of JObj kvs \<Rightarrow> map_of kvs k | _ \<Rightarrow> None)"

definition set_json_field :: "string \<Rightarrow> json \<Rightarrow> json \<Rightarrow> json" where
  "set_json_field k v j = (case j of JObj kvs \<Rightarrow> go_map (AList.update k v kvs) | _ \<Rightarrow> j)"

text \<open>The body that the SDK sees of an initialization: the proposed version is replaced by the one supported.\<close>

definition pin_version :: "decoders \<Rightarrow> string \<Rightarrow> string" where
  "pin_version dc body =
     (case dc_any dc body of
        Some env \<Rightarrow>
          if object_field env ''method'' = Some (JStr ''initialize'')
          then (case object_field env ''params'' of
                  Some ps \<Rightarrow>
                    (case object_field ps ''protocolVersion'' of
                       Some (JStr proposed) \<Rightarrow>
                         if proposed \<noteq> legacyMCPProtocolVersion
                         then json_text (dc_number dc) (set_json_field ''params'' (set_json_field ''protocolVersion'' (JStr legacyMCPProtocolVersion) ps) env)
                         else body
                     | _ \<Rightarrow> body)
                | None \<Rightarrow> body)
          else body
      | None \<Rightarrow> body)"

text \<open>The request the SDK is given, or the answer that it is spared.\<close>

definition exactLegacyMCPVersion :: "decoders \<Rightarrow> http_request \<Rightarrow> (response, http_request) result" where
  "exactLegacyMCPVersion dc r =
     (if rq_header r ''Origin'' \<noteq> [] then Inl (PlainText 403 ''Origin is not allowed'')
      else if rq_method r = ''POST'' \<and> \<not> json_content r then Inl (PlainText 415 ''Content-Type must be application/json'')
      else if rq_header r ''Mcp-Session-Id'' \<noteq> [] \<and> rq_header r ''Mcp-Protocol-Version'' \<noteq> legacyMCPProtocolVersion
      then Inl (PlainText 400 ''Bad Request: unsupported MCP protocol version'')
      else if rq_method r = ''POST'' \<and> rq_header r ''Mcp-Session-Id'' = []
      then (case bounded_body r of
              None \<Rightarrow> Inl (PlainText 400 ''Bad Request'')
            | Some b \<Rightarrow> Inr (r\<lparr>rq_body := Some (pin_version dc b)\<rparr>))
      else Inr r)"

text \<open>A result for the SDK; \<open>sdk_text\<close> is its encoding of a result with its content.\<close>

definition boundedLegacyToolResult :: "decoders \<Rightarrow> (json \<Rightarrow> bool \<Rightarrow> string option) \<Rightarrow> json option \<Rightarrow> bool \<Rightarrow> json \<times> bool" where
  "boundedLegacyToolResult dc sdk_text value isError =
     (case value of
        None \<Rightarrow> (too_large, True)
      | Some v \<Rightarrow> (case sdk_text v isError of
            Some t \<Rightarrow> if int (length t) \<le> mcpMaximumResultBytes - legacyMCPEnvelopeAllowance then (v, isError) else (too_large, True)
          | None \<Rightarrow> (too_large, True)))"

text \<open>The SDK, for a request that passes, may call one tool and answers from its result: \<open>sdk_call\<close> decides which and \<open>sdk_answer\<close> how.\<close>

record legacy_sdk =
  sdk_call :: "http_request \<Rightarrow> (string \<times> string) option"
  sdk_text :: "json \<Rightarrow> bool \<Rightarrow> string option"
  sdk_answer :: "http_request \<Rightarrow> (json \<times> bool) option \<Rightarrow> response"

definition legacyMCPHandler :: "decoders \<Rightarrow> encoders \<Rightarrow> legacy_sdk \<Rightarrow> tool_server \<Rightarrow> http_request \<Rightarrow> world \<Rightarrow> response \<times> world" where
  "legacyMCPHandler dc ec sdk ts r w =
     (case exactLegacyMCPVersion dc r of
        Inl a \<Rightarrow> (a, w)
      | Inr r' \<Rightarrow>
          (case sdk_call sdk r' of
             None \<Rightarrow> (sdk_answer sdk r' None, w)
           | Some (name, args) \<Rightarrow>
               if name \<notin> td_name ` set (mcpTools (pn_options (ts_planner ts))) then (sdk_answer sdk r' None, w)
               else (case callMCPTool dc ts name args w of
                  (Inl e, w') \<Rightarrow>
                    (sdk_answer sdk r' (Some (boundedLegacyToolResult dc (sdk_text sdk) (Some (go_map [(''error'', JStr (ec_error ec e))])) True)), w')
                | (Inr v, w') \<Rightarrow> (sdk_answer sdk r' (Some (boundedLegacyToolResult dc (sdk_text sdk) (ec_value ec v) False)), w'))))"

definition MCPHandler :: "decoders \<Rightarrow> encoders \<Rightarrow> legacy_sdk \<Rightarrow> tool_server \<Rightarrow> http_request \<Rightarrow> world \<Rightarrow> response \<times> world" where
  "MCPHandler dc ec sdk ts r w =
     (if rq_method r \<noteq> ''POST'' \<and> rq_header r ''Mcp-Session-Id'' = [] then (NoBody 405, w)
      else if routeLegacyMCP dc r then legacyMCPHandler dc ec sdk ts r w
      else handleMCP dc ec ts r w)"

section \<open>The server\<close>

definition error_body :: "string \<Rightarrow> json" where "error_body message = go_map [(''error'', JStr message)]"

definition ready :: "tool_server \<Rightarrow> response" where
  "ready ts = (if ts_api ts then NoBody 204 else McpJson 503 (error_body ''Kubernetes API is not ready''))"

text \<open>The handler behind authentication; \<open>http.ServeMux\<close> answers what it does not know.\<close>

definition serve :: "decoders \<Rightarrow> encoders \<Rightarrow> legacy_sdk \<Rightarrow> tool_server \<Rightarrow> http_request \<Rightarrow> world \<Rightarrow> response \<times> world" where
  "serve dc ec sdk ts r w =
     (case authenticate (pn_options (ts_planner ts)) (rq_path r) (rq_header r ''Authorization'') of
        AuthNotConfigured \<Rightarrow> (McpJson 503 (error_body ''API authentication is not configured''), w)
      | Unauthorized \<Rightarrow> (McpJson 401 (error_body ''unauthorized''), w)
      | Pass \<Rightarrow>
          if rq_path r = ''/healthz'' \<or> rq_path r = ''/readyz''
          then (if rq_method r \<noteq> ''GET'' \<and> rq_method r \<noteq> ''HEAD'' then (PlainText 405 ''Method Not Allowed'', w)
                else if rq_path r = ''/healthz'' then (NoBody 204, w) else (ready ts, w))
          else if rq_path r = ''/mcp'' then MCPHandler dc ec sdk ts r w
          else (PlainText 404 ''404 page not found'', w))"

section \<open>What the tools promise\<close>

lemma store_of_put: "store_of (put_store k s w) i = (if i = k then s else store_of w i)"
  by (simp add: store_of_def put_store_def update_conv')

text \<open>What a submission on its own leaves of a run.\<close>

definition keeps_run :: "run_store \<Rightarrow> run_store \<Rightarrow> bool" where
  "keeps_run s s' \<longleftrightarrow> (\<forall>m. rs_index s = Some m \<longrightarrow> rs_index s' = Some m) \<and> (\<forall>j. rs_job s = Some j \<longrightarrow> rs_job s' = Some j) \<and>
     (\<forall>v. rs_service s = Some v \<longrightarrow> (\<exists>v'. rs_service s' = Some v' \<and> so_meta v' = so_meta v))"

lemma keeps_run_refl [simp]: "keeps_run s s" by (simp add: keeps_run_def)

lemma keeps_run_trans: "keeps_run s s' \<Longrightarrow> keeps_run s' s'' \<Longrightarrow> keeps_run s s''"
  unfolding keeps_run_def by metis

text \<open>Only a submission that created the index file takes it back.\<close>

definition undoes :: "submit_pc \<Rightarrow> bool" where
  "undoes pc = (case pc of PRollback _ \<Rightarrow> True | PRunManifest _ created \<Rightarrow> created | _ \<Rightarrow> False)"

lemma undoes_simps [simp]:
  "\<not> undoes PIndex" "undoes (PRunManifest m b) = b" "undoes (PRollback e)" "\<not> undoes (PGetJob m b)" "\<not> undoes (PGetService e')"
  "\<not> undoes (PCreateService e')" "\<not> undoes (PRegetService e')" "\<not> undoes PCreateJob" "\<not> undoes PRegetJob" "\<not> undoes (PGetOwner n j b)"
  "\<not> undoes (PSetOwner n j b k)" "\<not> undoes (PDone r)"
  by (simp_all add: undoes_def)

lemma submit_step_keeps:
  assumes "submit_step cd p ch pc s = Some (s', pc')"
  shows "(\<not> undoes pc \<longrightarrow> keeps_run s s') \<and> (undoes pc' \<longrightarrow> rs_index s = None \<or> undoes pc) \<and>
    (\<forall>j. rs_job s = Some j \<longrightarrow> rs_job s' = Some j) \<and> (\<forall>v. rs_service s = Some v \<longrightarrow> (\<exists>v'. rs_service s' = Some v' \<and> so_meta v' = so_meta v))"
  using assms by (cases "(cd, p, ch, pc, s)" rule: submit_step.cases)
    (auto simp: submit_defs keeps_run_def split: option.splits bool.splits api.splits if_splits prod.splits sum.splits)

lemma contended_run_keeps:
  assumes "contended_run cd p (\<lambda>_ s. s) ch n k pc s = (s', pc')" "undoes pc \<longrightarrow> rs_index s0 = None" "keeps_run s0 s"
  shows "keeps_run s0 s'"
  using assms
proof (induction n arbitrary: k pc s)
  case (Suc n)
  show ?case
  proof (cases "submit_step cd p (ch k) pc s")
    case None
    then show ?thesis using Suc.prems by simp
  next
    case (Some r)
    obtain s1 pc1 where r: "r = (s1, pc1)" by fastforce
    note st = submit_step_keeps [OF Some [unfolded r]]
    have "keeps_run s0 s1"
    proof (cases "undoes pc")
      case True
      then show ?thesis using st Suc.prems(2,3) unfolding keeps_run_def by (metis option.distinct(1))
    qed (use st Suc.prems(3) keeps_run_trans in blast)
    moreover have "undoes pc1 \<longrightarrow> rs_index s0 = None" using st Suc.prems(2,3) unfolding keeps_run_def by (metis not_None_eq)
    ultimately show ?thesis using Suc.IH Suc.prems(1) Some r by simp
  qed
qed simp

lemma cancel_calls_keeps: "cancel_calls ch n k pc s = (s', pc') \<Longrightarrow> rs_index s' = rs_index s \<and> rs_manifest s' = rs_manifest s"
proof (induction n arbitrary: k pc s)
  case (Suc n)
  show ?case
  proof (cases "cancel_step (ch k) pc s")
    case (Some r)
    obtain s1 pc1 where r: "r = (s1, pc1)" by fastforce
    then have "rs_index s1 = rs_index s \<and> rs_manifest s1 = rs_manifest s"
      using Some by (cases "(ch k, pc, s)" rule: cancel_step.cases) auto
    then show ?thesis using Suc.IH Suc.prems Some r by auto
  qed (use Suc.prems in simp)
qed simp

lemma callMCPTool_world:
  assumes "callMCPTool dc ts name raw w = (r, w')"
  obtains "w' = w"
  | p where "name = ''submit_benchmark''"
      "w' = put_store (pb_run p) (fst (contended_run (ts_codec ts) p (\<lambda>_ s. s) (ts_choices ts) 18 0 PIndex (store_of w (pb_run p)))) w"
  | i where "name = ''cancel_benchmark''" "w' = put_store i (fst (cancel_calls (ts_choices ts) 4 0 CGetJob (store_of w i))) w"
  using assms unfolding callMCPTool_def submit_plan_def Let_def
  by (auto split: if_splits option.splits sum.splits prod.splits) (metis fst_conv)+

lemma mcpTools_set: "set (mcpTools opts) = set (tool_definitions opts)"
  by (simp add: mcpTools_def)

lemma tool_hints:
  assumes "t \<in> set (mcpTools opts)"
  shows "td_read_only t \<longleftrightarrow> td_name t \<noteq> ''submit_benchmark'' \<and> td_name t \<noteq> ''cancel_benchmark''"
    and "td_destructive t \<longleftrightarrow> td_name t = ''cancel_benchmark''"
  using assms unfolding mcpTools_set by (auto simp: tool_definitions_def read_only_tool_def Let_def)


lemma isMCPTool_listed: "isMCPTool name \<longleftrightarrow> name \<in> td_name ` set (mcpTools opts)"
  unfolding mcpTools_set by (auto simp: tool_definitions_def read_only_tool_def isMCPTool_def Let_def)

lemma dispatch_calls:
  assumes "mcp_dispatch dc opts r = CallTool i name args"
  shows "rq_header r ''Origin'' = [] \<and> json_content r \<and> isMCPTool name \<and> jsonObject (dc_valid dc) args \<and>
    rq_header r ''Mcp-Method'' = ''tools/call'' \<and> decodeMCPName dc (rq_header r ''Mcp-Name'') = Some name \<and>
    rq_header r ''Mcp-Protocol-Version'' = mcpProtocolVersion \<and> validMCPID dc i \<and> (\<exists>b. rq_body r = Some b \<and> length b \<le> 1048576)"
  using assms
  by (auto simp: mcp_dispatch_def mcp_method_def headers_match_def Let_def bounded_body_def mcpMaximumRequestBytes_def
      split: if_splits option.splits sum.splits)

text \<open>Who may call a tool, and how.\<close>

definition calls_tool :: "decoders \<Rightarrow> legacy_sdk \<Rightarrow> http_request \<Rightarrow> string \<Rightarrow> bool" where
  "calls_tool dc sdk r name \<longleftrightarrow>
     (if routeLegacyMCP dc r then \<exists>r' args. exactLegacyMCPVersion dc r = Inr r' \<and> sdk_call sdk r' = Some (name, args)
      else rq_method r = ''POST'' \<and> json_content r \<and> rq_header r ''Mcp-Protocol-Version'' = mcpProtocolVersion \<and>
        rq_header r ''Mcp-Method'' = ''tools/call'' \<and> decodeMCPName dc (rq_header r ''Mcp-Name'') = Some name \<and>
        (\<exists>b. rq_body r = Some b \<and> length b \<le> 1048576))"

lemma serve_world:
  assumes "serve dc ec sdk ts r w = (a, w')" "w' \<noteq> w"
  obtains name raw where "rq_path r = ''/mcp''" "authenticate (pn_options (ts_planner ts)) (rq_path r) (rq_header r ''Authorization'') = Pass"
    "rq_header r ''Origin'' = []" "calls_tool dc sdk r name" "snd (callMCPTool dc ts name raw w) = w'"
proof -
  let ?auth = "authenticate (pn_options (ts_planner ts)) (rq_path r) (rq_header r ''Authorization'')"
  have p: "?auth = Pass" "rq_path r = ''/mcp''" and m: "MCPHandler dc ec sdk ts r w = (a, w')"
    using assms by (auto simp: serve_def split: auth_result.splits if_splits)
  show ?thesis
  proof (cases "routeLegacyMCP dc r")
    case True
    then have l: "legacyMCPHandler dc ec sdk ts r w = (a, w')" using m assms(2) by (auto simp: MCPHandler_def split: if_splits)
    then obtain r' name args where x: "exactLegacyMCPVersion dc r = Inr r'" "sdk_call sdk r' = Some (name, args)" "snd (callMCPTool dc ts name args w) = w'"
      using assms(2) by (auto simp: legacyMCPHandler_def split: sum.splits option.splits if_splits prod.splits)
    moreover have "rq_header r ''Origin'' = []" using x(1) by (auto simp: exactLegacyMCPVersion_def split: if_splits)
    ultimately show ?thesis using that p True by (auto simp: calls_tool_def)
  next
    case False
    then have post: "rq_method r = ''POST''" and h: "handleMCP dc ec ts r w = (a, w')"
      using m assms(2) by (auto simp: MCPHandler_def routeLegacyMCP_def split: if_splits)
    then obtain i name args where d: "mcp_dispatch dc (pn_options (ts_planner ts)) r = CallTool i name args" "snd (callMCPTool dc ts name args w) = w'"
      using assms(2) by (auto simp: handleMCP_def split: mcp_action.splits sum.splits prod.splits)
    show ?thesis using dispatch_calls [OF d(1)] by (intro that [OF p(2) p(1) _ _ d(2)]) (simp_all add: calls_tool_def False post)
  qed
qed

text \<open>
  Property C3. Runs change only by authorised calls: whatever request the server gets, if any run is changed then the request carried the
  configured token, was sent to \<open>/mcp\<close> without an \<open>Origin\<close> (so by no web page), and called \<open>submit_benchmark\<close> or \<open>cancel_benchmark\<close>: either
  through the SDK of the older protocol or as a POST of the current one whose headers name the method, the version and that very tool and whose
  body is at most 1 MiB.
\<close>
theorem runs_change_only_by_authorised_calls:
  assumes "serve dc ec sdk ts r w = (a, w')" "w' \<noteq> w"
  shows "Token (pn_options (ts_planner ts)) \<noteq> [] \<and> rq_header r ''Authorization'' = ''Bearer '' @ Token (pn_options (ts_planner ts)) \<and>
    rq_path r = ''/mcp'' \<and> rq_header r ''Origin'' = [] \<and> (calls_tool dc sdk r ''submit_benchmark'' \<or> calls_tool dc sdk r ''cancel_benchmark'')"
proof -
  obtain name raw where s: "rq_path r = ''/mcp''" "authenticate (pn_options (ts_planner ts)) (rq_path r) (rq_header r ''Authorization'') = Pass"
    "rq_header r ''Origin'' = []" "calls_tool dc sdk r name" "snd (callMCPTool dc ts name raw w) = w'"
    using serve_world [OF assms] .
  obtain v where c: "callMCPTool dc ts name raw w = (v, w')" using s(5) by (cases "callMCPTool dc ts name raw w") simp
  have "name = ''submit_benchmark'' \<or> name = ''cancel_benchmark''" using assms(2) by (cases rule: callMCPTool_world [OF c]) simp_all
  then show ?thesis using s authentication_exact [of "rq_path r"] by auto
qed

section \<open>What the answers promise\<close>

lemma mcp_envelope_fields:
  assumes "key = ''result'' \<or> key = ''error''"
  shows "object_field (mcp_envelope i key v) ''id'' = Some i" "object_field (mcp_envelope i key v) ''jsonrpc'' = Some (JStr ''2.0'')"
    "object_field (mcp_envelope i key v) key = Some v"
proof -
  have d: "distinct (map fst [(''jsonrpc'', JStr ''2.0''), (''id'', i), (key, v)])" using assms by auto
  show "object_field (mcp_envelope i key v) ''id'' = Some i" "object_field (mcp_envelope i key v) ''jsonrpc'' = Some (JStr ''2.0'')"
    "object_field (mcp_envelope i key v) key = Some v"
    using assms unfolding object_field_def mcp_envelope_def go_map_def json.case map_of_sort_key [OF d] by auto
qed

text \<open>
  Property C31. Every well-formed request gets one answer that can be told to be its answer: an \<open>id\<close> that is a string or an integer of at most 53 bits is
  accepted and comes back unchanged in a JSON-RPC message with either a result and status 200 or an error and status 400 or 404.
\<close>
theorem answers_carry_request_id:
  assumes "rq_header r ''Origin'' = []" "json_content r" "bounded_body r = Some b" "dc_envelope dc b = Some en" "en_jsonrpc en = ''2.0''" "en_method en \<noteq> []"
    and "en_id en \<noteq> []" "dc_any dc (en_id en) = Some j" "(\<exists>s. j = JStr s) \<or> (\<exists>n. j = JNum (of_int n) \<and> \<bar>n\<bar> \<le> 2 ^ 53)"
  shows "\<exists>status body. fst (handleMCP dc ec ts r w) = McpJson status body \<and> object_field body ''id'' = Some j \<and>
    object_field body ''jsonrpc'' = Some (JStr ''2.0'') \<and>
    (status = 200 \<and> object_field body ''result'' \<noteq> None \<or> (status = 400 \<or> status = 404) \<and> object_field body ''error'' \<noteq> None)"
proof -
  have raw: "rawID dc (en_id en) = j" using assms(7,8) by (simp add: rawID_def)
  have valid: "validMCPID dc (en_id en)"
  proof (cases "\<exists>s. j = JStr s")
    case False
    then obtain n where n: "j = JNum (of_int n)" "\<bar>n\<bar> \<le> 2 ^ 53" using assms(9) by blast
    have "int_of_f64 (of_int n) = n" "in64 n" using n(2) by (simp_all add: int_of_f64_def in64_def abs_le_iff)
    then show ?thesis using n assms(7,8) f64_round_exact_lemma [OF n(2)] by (simp add: validMCPID_def f64_of_int_def)
  qed (use assms(7,8) in \<open>auto simp: validMCPID_def\<close>)
  define good where "good a \<longleftrightarrow> (\<exists>status body. a = McpJson status body \<and> object_field body ''id'' = Some j \<and>
    object_field body ''jsonrpc'' = Some (JStr ''2.0'') \<and>
    (status = 200 \<and> object_field body ''result'' \<noteq> None \<or> (status = 400 \<or> status = 404) \<and> object_field body ''error'' \<noteq> None))" for a
  have g: "good (mcpError dc (en_id en) 400 c m d)" "good (mcpError dc (en_id en) 404 c m d)" "good (mcpResult dc (en_id en) fs)"
    "good (mcpToolResult dc (en_id en) v e)" for c m d fs v e
    by (simp_all add: good_def mcpError_def mcpResult_def mcpToolResult_def raw mcp_envelope_fields Let_def split: prod.split)
  have "good (case mcp_dispatch dc opts r of Answer a \<Rightarrow> a | CallTool i name args \<Rightarrow> mcpToolResult dc i v e)" for opts v e
    using assms(1-6) valid g unfolding mcp_dispatch_def mcp_method_def by (simp add: Let_def split: sum.split)
  moreover have "\<exists>v e. fst (handleMCP dc ec ts r w) =
      (case mcp_dispatch dc (pn_options (ts_planner ts)) r of Answer a \<Rightarrow> a | CallTool i name args \<Rightarrow> mcpToolResult dc i v e)"
    unfolding handleMCP_def by (auto split: mcp_action.splits prod.splits sum.splits)
  ultimately have "good (fst (handleMCP dc ec ts r w))" by metis
  then show ?thesis by (simp add: good_def)
qed

text \<open>A larger integer is rounded to a double and comes back as another number.\<close>

lemma large_request_id_changed: "f64_round 9007199254740993 = 9007199254740992"
proof -
  let ?x = "9007199254740993 :: rat"
  have b: "2 powi f64_exp ?x \<le> ?x" "?x < 2 powi (f64_exp ?x + 1)" using f64_exp_bounds [of ?x] by simp_all
  have "f64_exp ?x < 54"
  proof (rule ccontr)
    assume "\<not> f64_exp ?x < 54"
    then have "(2 :: rat) powi 54 \<le> 2 powi f64_exp ?x" by (intro power_int_increasing) simp_all
    then show False using b by simp
  qed
  moreover have "52 < f64_exp ?x"
  proof (rule ccontr)
    assume "\<not> 52 < f64_exp ?x"
    then have "(2 :: rat) powi (f64_exp ?x + 1) \<le> 2 powi 53" by (intro power_int_increasing) simp_all
    then show False using b by simp
  qed
  ultimately have "f64_unit_exp ?x = 1" by (simp add: f64_unit_exp_def)
  moreover have "\<lfloor>?x / 2\<rfloor> = 4503599627370496" by (rule floor_unique) simp_all
  ultimately show ?thesis by (simp add: f64_round_def f64_round_pos_def round_even_def Let_def)
qed

lemma large_request_id_accepted:
  assumes "dc_any dc raw = Some (JNum (f64_round 9007199254740993))" "raw \<noteq> []"
  shows "validMCPID dc raw \<and> rawID dc raw = JNum 9007199254740992"
proof -
  have "f64_round (of_int 9007199254740992) = 9007199254740992" using f64_round_exact_lemma [of 9007199254740992] by simp
  moreover have "int_of_f64 9007199254740992 = 9007199254740992" "in64 9007199254740992" by (simp_all add: int_of_f64_def in64_def)
  ultimately show ?thesis using assms unfolding large_request_id_changed by (simp add: validMCPID_def rawID_def f64_of_int_def)
qed

lemma tool_result_cases:
  "mcpToolResult dc i value isError = McpJson 200 env \<Longrightarrow>
   length (json_text (dc_number dc) env) \<le> 1048576 \<or> env = mcp_envelope (rawID dc i) ''result'' (completeMCPResult (tool_content dc too_large True))"
  by (auto simp: mcpToolResult_def Let_def mcpMaximumResultBytes_def split: option.splits prod.splits if_splits)

lemma result_envelope: "mcp_envelope i ''result'' v = JObj [(''id'', i), (''jsonrpc'', JStr ''2.0''), (''result'', v)]"
  by (simp add: mcp_envelope_def go_map_def char_order)

lemma tool_result_object: "completeMCPResult (tool_content dc v e) =
  JObj [(''_meta'', JObj [(''io.modelcontextprotocol/serverInfo'', JObj [(''name'', JStr ''nyann-bench''), (''version'', JStr ''0.2.0'')])]),
    (''content'', JArr [JObj [(''text'', JStr (json_text (dc_number dc) v)), (''type'', JStr ''text'')]]),
    (''isError'', JBool e), (''resultType'', JStr ''complete''), (''structuredContent'', v)]"
  by (simp add: completeMCPResult_def tool_content_def go_map_def char_order mcpServerName_def mcpServerVersion_def)

lemma too_large_object: "too_large = JObj [(''error'', JStr ''MCP result exceeds the 1 MiB bounded response limit''), (''maximum_bytes'', JNum 1048576)]"
  by (simp add: too_large_def go_map_def char_order mcpMaximumResultBytes_def)

lemma tool_result_shape: "\<exists>v'. mcpToolResult dc i v e = McpJson 200 (mcp_envelope (rawID dc i) ''result'' v')"
  by (cases v) (auto simp: mcpToolResult_def Let_def)

lemma too_large_text: "length (json_text number too_large) \<le> 430 + length (number 1048576)"
  using length_quote_json [of "''error''"] length_quote_json [of "''maximum_bytes''"]
    length_quote_json [of "''MCP result exceeds the 1 MiB bounded response limit''"]
  by (simp add: too_large_object)

lemma bounded_answer_length:
  "length (json_text (dc_number dc) (mcp_envelope i ''result'' (completeMCPResult (tool_content dc too_large True)))) \<le>
   5000 + length (json_text (dc_number dc) i) + 7 * length (dc_number dc 1048576)"
proof -
  let ?t = "json_text (dc_number dc) too_large"
  have q: "length (quote_json ?t) \<le> 6 * length ?t + 2" by (rule length_quote_json)
  have k: "length (quote_json s) \<le> 6 * length s + 2" for s by (rule length_quote_json)
  show ?thesis
    using q too_large_text [of "dc_number dc"] k [of "''id''"] k [of "''jsonrpc''"] k [of "''2.0''"] k [of "''result''"] k [of "''_meta''"]
      k [of "''io.modelcontextprotocol/serverInfo''"] k [of "''name''"] k [of "''nyann-bench''"] k [of "''version''"] k [of "''0.2.0''"]
      k [of "''content''"] k [of "''text''"] k [of "''type''"] k [of "''isError''"] k [of "''resultType''"] k [of "''complete''"] k [of "''structuredContent''"]
    unfolding result_envelope tool_result_object by simp
qed

text \<open>
  Property C39. The answer to a tool call is bounded whatever the tool returns: it has at most 1 MiB and a newline, unless the request's own \<open>id\<close> takes up
  almost all of that.
\<close>
theorem tool_answers_bounded:
  assumes "length (dc_number dc 1048576) \<le> 24"
  shows "length (body_text dc (mcpToolResult dc i v e)) \<le> max 1048577 (5200 + length (json_text (dc_number dc) (rawID dc i)))"
proof -
  obtain env where env: "mcpToolResult dc i v e = McpJson 200 env" using tool_result_shape by blast
  show ?thesis
    using tool_result_cases [OF env] bounded_answer_length [of dc "rawID dc i"] assms unfolding env body_text_def response.case
    by (auto simp: max_def)
qed

lemma id_part: "length (json_text number i) \<le> length (json_text number (mcp_envelope i ''result'' v))"
  by (simp add: result_envelope)

lemma long_id_breaks_bound:
  assumes "dc_any dc raw = Some (JStr (replicate n CHR ''<''))" "raw \<noteq> []"
  shows "6 * n \<le> length (body_text dc (mcpToolResult dc raw v e))"
proof -
  have "escape_json_char CHR ''<'' = json_backslash # ''u003c''" by code_simp
  then have "length (escape_json (replicate n CHR ''<'')) = 6 * n" by (induction n) auto
  then have i: "6 * n \<le> length (json_text (dc_number dc) (rawID dc raw))" using assms by (simp add: rawID_def quote_json_def)
  obtain v' where "mcpToolResult dc raw v e = McpJson 200 (mcp_envelope (rawID dc raw) ''result'' v')" using tool_result_shape by blast
  then show ?thesis using i id_part [of "dc_number dc" "rawID dc raw" v'] by (simp add: body_text_def)
qed

section \<open>A concrete server\<close>

definition example_metadata :: mcpMetadata where
  "example_metadata = \<lparr>md_version = mcpProtocolVersion, md_client = None, md_capabilities = ''{}''\<rparr>"

definition example_params :: mcpParams where
  "example_params = \<lparr>pm_meta = example_metadata, pm_name = ''cancel_benchmark'', pm_arguments = ''{}'', pm_cursor = None\<rparr>"

definition example_envelope :: mcpEnvelope where
  "example_envelope = \<lparr>en_jsonrpc = ''2.0'', en_id = ''7'', en_method = ''tools/call'', en_params = ''{}''\<rparr>"

definition example_decoders :: decoders where
  "example_decoders = \<lparr>dc_envelope = (\<lambda>_. Some example_envelope), dc_params = (\<lambda>_. Inr example_params), dc_any = (\<lambda>_. Some (JNum 7)),
     dc_method = (\<lambda>_. Some ''tools/call''), dc_valid = (\<lambda>_. True), dc_base64 = (\<lambda>_. None), dc_input = (\<lambda>_. Some (example_request [])),
     dc_list = (\<lambda>_. None), dc_ref = (\<lambda>_. Some ''run''), dc_number = (\<lambda>_. ''1''), dc_convert = (\<lambda>_. 0)\<rparr>"

definition example_server :: tool_server where
  "example_server = \<lparr>ts_planner = example_planner, ts_codec = example_codec, ts_arrange = (\<lambda>rs. rs), ts_choices = (\<lambda>_. example_choice), ts_api = True,
     ts_legible = True, ts_sha256 = (\<lambda>s. s), ts_digest = (\<lambda>s. s), ts_fs = plain_fs,
     ts_files = (\<lambda>_. \<lparr>rf_listing = NoDirectory, rf_timestamps = (\<lambda>_. None), rf_requests = (\<lambda>_. None)\<rparr>)\<rparr>"

definition running_job :: job_obj where
  "running_job = run_job example_codec example_plan 7"

definition example_world :: world where
  "example_world = [(''run'', empty_store\<lparr>rs_index := Some (desired_manifest example_plan 7), rs_job := Some running_job\<rparr>)]"

definition example_encoders :: encoders where
  "example_encoders = \<lparr>ec_error = (\<lambda>_. ''error''), ec_value = (\<lambda>_. Some JNull)\<rparr>"

definition example_sdk :: legacy_sdk where
  "example_sdk = \<lparr>sdk_call = (\<lambda>_. None), sdk_text = (\<lambda>_ _. None), sdk_answer = (\<lambda>_ _. NoBody 202)\<rparr>"

definition cancel_request :: http_request where
  "cancel_request = \<lparr>rq_method = ''POST'', rq_path = ''/mcp'',
     rq_header = (\<lambda>k. if k = ''Authorization'' then ''Bearer t'' else if k = ''Content-Type'' then ''application/json; charset=utf-8''
       else if k = ''Mcp-Method'' then ''tools/call'' else if k = ''Mcp-Name'' then ''cancel_benchmark''
       else if k = ''Mcp-Protocol-Version'' then ''2026-07-28'' else []),
     rq_body = Some ''{}''\<rparr>"

lemma example_cancel:
  "\<exists>w'. callMCPTool example_decoders example_server ''cancel_benchmark'' ''{}'' example_world = (Inr (CancelValue ''run'' False), w') \<and>
     rs_job (store_of w' ''run'') = None"
proof -
  have "case callMCPTool example_decoders example_server ''cancel_benchmark'' ''{}'' example_world of
      (r, w') \<Rightarrow> (case r of Inr (CancelValue i b) \<Rightarrow> i = ''run'' \<and> \<not> b | _ \<Rightarrow> False) \<and> rs_job (store_of w' ''run'') = None"
    by code_simp
  then show ?thesis by (auto split: prod.splits sum.splits tool_value.splits)
qed

lemma example_dispatch: "mcp_dispatch example_decoders opts cancel_request = CallTool ''7'' ''cancel_benchmark'' ''{}''"
proof -
  have "json_content cancel_request" "validMCPID example_decoders ''7''" "metadata_complete example_decoders example_metadata"
    "headers_match example_decoders cancel_request example_envelope example_params" "isMCPTool ''cancel_benchmark''" "jsonObject (\<lambda>_. True) ''{}''"
    by code_simp+
  then show ?thesis
    by (simp add: mcp_dispatch_def mcp_method_def bounded_body_def mcpMaximumRequestBytes_def Let_def example_decoders_def example_envelope_def
        example_params_def example_metadata_def cancel_request_def)
qed

lemma example_served:
  "\<exists>a w'. serve example_decoders example_encoders example_sdk example_server cancel_request example_world = (a, w') \<and> rs_job (store_of w' ''run'') = None"
proof -
  obtain w' where w: "callMCPTool example_decoders example_server ''cancel_benchmark'' ''{}'' example_world = (Inr (CancelValue ''run'' False), w')"
    "rs_job (store_of w' ''run'') = None" using example_cancel by blast
  have p: "authenticate (pn_options (ts_planner example_server)) ''/mcp'' ''Bearer t'' = Pass" "\<not> routeLegacyMCP example_decoders cancel_request"
    by code_simp+
  have r: "rq_path cancel_request = ''/mcp''" "rq_method cancel_request = ''POST''" "rq_header cancel_request ''Authorization'' = ''Bearer t''"
    by (simp_all add: cancel_request_def)
  show ?thesis using w p unfolding serve_def r MCPHandler_def handleMCP_def example_dispatch by simp
qed

lemma example_running: "rs_job (store_of example_world ''run'') = Some running_job"
  by (simp add: example_world_def store_of_def)


theorem runs_change_only_by_authorised_calls_witness:
  "\<exists>a w'. serve example_decoders example_encoders example_sdk example_server cancel_request example_world = (a, w') \<and> w' \<noteq> example_world \<and>
     rq_header cancel_request ''Authorization'' = ''Bearer '' @ Token (pn_options (ts_planner example_server))"
proof -
  obtain a w' where s: "serve example_decoders example_encoders example_sdk example_server cancel_request example_world = (a, w')"
    "rs_job (store_of w' ''run'') = None" using example_served by blast
  then have "w' \<noteq> example_world" using example_running by auto
  then show ?thesis using s runs_change_only_by_authorised_calls [OF s(1)] by blast
qed

theorem answers_carry_request_id_witness:
  "\<exists>status body. fst (handleMCP example_decoders example_encoders example_server cancel_request example_world) = McpJson status body \<and>
     object_field body ''id'' = Some (JNum 7)"
proof -
  have "json_content cancel_request" by code_simp
  moreover have "bounded_body cancel_request = Some ''{}''" by (simp add: bounded_body_def cancel_request_def mcpMaximumRequestBytes_def)
  moreover have "\<exists>n. JNum 7 = JNum (of_int n) \<and> \<bar>n\<bar> \<le> 2 ^ 53" by (rule exI [of _ 7]) simp
  ultimately show ?thesis
    using answers_carry_request_id [of cancel_request "''{}''" example_decoders example_envelope "JNum 7"]
    by (simp add: cancel_request_def example_decoders_def example_envelope_def) blast
qed

theorem tool_answers_bounded_witness:
  "length (body_text example_decoders (mcpToolResult example_decoders ''7'' None False)) \<le> 1048577"
  using tool_answers_bounded [of example_decoders "''7''" None False] by (simp add: example_decoders_def rawID_def)

end
