(* ===== verification/Go_Runes.thy ===== *)
theory Go_Runes
  imports Go_Strings
begin

text \<open>
  The runes of a Go string: the decoding of UTF-8 by \<open>unicode/utf8\<close>.
\<close>

text \<open>How many bytes the first rune of a text takes; 0 when the text does not begin with a valid encoding.\<close>

definition is_cont :: "nat \<Rightarrow> nat \<Rightarrow> char \<Rightarrow> bool" where
  "is_cont lo hi c \<longleftrightarrow> lo \<le> char_code c \<and> char_code c \<le> hi"

definition rune_len :: "string \<Rightarrow> nat" where
  "rune_len s =
     (case s of
        [] \<Rightarrow> 0
      | a # t \<Rightarrow>
          let k = char_code a;
              lo = (if k = 224 then 160 else if k = 240 then 144 else 128);
              hi = (if k = 237 then 159 else if k = 244 then 143 else 191);
              n = (if k < 128 then 1 else if 194 \<le> k \<and> k \<le> 223 then 2 else if 224 \<le> k \<and> k \<le> 239 then 3
                      else if 240 \<le> k \<and> k \<le> 244 then 4 else 0)
          in if n \<le> 1 then n
             else case t of
               [] \<Rightarrow> 0
             | b # u \<Rightarrow> if is_cont lo hi b \<and> n \<le> length s \<and> list_all (is_cont 128 191) (take (n - 2) u) then n else 0)"

lemma rune_len_le: "rune_len s \<le> length s"
  by (auto simp: rune_len_def Let_def split: list.splits)

text \<open>The runes of a text, each as its encoding; an invalid byte counts as the replacement character.\<close>

function runes :: "string \<Rightarrow> string list" where
  "runes s = (if s = [] then []
     else if rune_len s = 0 then [CHR 0xEF, CHR 0xBF, CHR 0xBD] # runes (tl s)
     else take (rune_len s) s # runes (drop (rune_len s) s))"
  by auto
termination
  by (relation "measure length") (auto simp: neq_Nil_conv)

declare runes.simps [simp del]

end
