(* ===== verification/Mock_Server.thy ===== *)
theory Mock_Server
  imports Client Go_JSON Go_Runes
begin

text \<open>
  Package \<open>mockserver\<close>: the server that stands in for an inference server in tests of the tool, and what the client of package \<open>client\<close> makes of its
  streams. A write is a text with the time since the request at which it is flushed; the clock's seconds, the random ids and the text of a number are
  arguments.
\<close>

section \<open>The content\<close>

record mock_server =
  ms_ttft :: duration
  ms_itl :: duration
  ms_output_tokens :: int
  ms_model :: string
  ms_response :: string

definition tok :: string where "tok = ''tok ''"

definition filler :: "int \<Rightarrow> string" where
  "filler tokens = concat (replicate (nat tokens) tok)"

definition completionContent :: "mock_server \<Rightarrow> int \<Rightarrow> string" where
  "completionContent s n = (if ms_response s \<noteq> [] then ms_response s else filler n)"

text \<open>The loop that cuts a text into a given number of chunks: chunk \<open>i\<close>, for a size of at least one.\<close>

definition chunk_at :: "string list \<Rightarrow> int \<Rightarrow> nat \<Rightarrow> string" where
  "chunk_at rs width i =
     (let start = int i * width; fin = start + width
      in if int (length rs) \<le> start then []
         else concat (take (nat ((if int (length rs) < fin then int (length rs) else fin) - start)) (drop (nat start) rs)))"

definition chunk_size :: "string list \<Rightarrow> int \<Rightarrow> int" where
  "chunk_size rs n = tdiv (int (length rs) + n - 1) n"

text \<open>\<open>None\<close> is a panic: a negative length of the slice or a division by zero.\<close>

definition split_content :: "string \<Rightarrow> int \<Rightarrow> string list option" where
  "split_content content n =
     (if n \<le> 0 then None
      else let rs = runes content in Some (map (chunk_at rs (chunk_size rs n)) [0..<nat n]))"

definition chat_chunks :: "mock_server \<Rightarrow> int \<Rightarrow> string list option" where
  "chat_chunks s n = (if n < 0 then None else if ms_response s \<noteq> [] then split_content (ms_response s) n else Some (replicate (nat n) tok))"

section \<open>Answers\<close>

text \<open>What an answer does not take from the request: the random part of the id, the clock and the text of numbers.\<close>

record mock_env =
  me_random :: int
  me_now :: "nat \<Rightarrow> int"
  me_number :: "rat \<Rightarrow> string"

datatype mock_answer =
    MockError int string
  | MockJson duration json
  | MockEvents "(duration \<times> string) list"

definition usage_json :: "int \<Rightarrow> json" where
  "usage_json n = go_map [(''completion_tokens'', JNum (of_int n)), (''total_tokens'', JNum (of_int n))]"

definition line_feed :: char where "line_feed = CHR 0x0A"

definition writeSSE :: "mock_env \<Rightarrow> json \<Rightarrow> string" where
  "writeSSE e v = ''data: '' @ json_text (me_number e) v @ [line_feed, line_feed]"

definition done_event :: string where "done_event = ''data: [DONE]'' @ [line_feed, line_feed]"

text \<open>One object of an answer: \<open>k\<close> numbers the writes, whose clock it has.\<close>

definition chunk_json :: "mock_env \<Rightarrow> string \<Rightarrow> string \<Rightarrow> string \<Rightarrow> nat \<Rightarrow> (string \<times> json) list \<Rightarrow> json option \<Rightarrow> json" where
  "chunk_json e ident object model k choice usage =
     go_map ([(''id'', JStr (ident @ itoa (me_random e))), (''object'', JStr object), (''created'', JNum (of_int (me_now e k))), (''model'', JStr model),
        (''choices'', JArr [go_map ((''index'', JNum 0) # choice)])] @ (case usage of None \<Rightarrow> [] | Some u \<Rightarrow> [(''usage'', u)]))"

definition chat_choice_json :: "string \<Rightarrow> (string \<times> json) list" where
  "chat_choice_json t = [(''delta'', go_map [(''content'', JStr t)])]"

definition chat_final :: "(string \<times> json) list" where
  "chat_final = [(''delta'', go_map []), (''finish_reason'', JStr ''stop'')]"

definition completion_choice_json :: "string \<Rightarrow> (string \<times> json) list" where
  "completion_choice_json t = [(''text'', JStr t)]"

definition completion_final :: "(string \<times> json) list" where
  "completion_final = [(''text'', JStr []), (''finish_reason'', JStr ''stop'')]"

text \<open>The writes of a stream: the chunks, \<open>itl\<close> apart, the first after \<open>ttft\<close>, then the final chunk with the usage and the end marker at once.\<close>

definition stream_events :: "duration \<Rightarrow> duration \<Rightarrow> (nat \<Rightarrow> string \<Rightarrow> string) \<Rightarrow> (nat \<Rightarrow> string) \<Rightarrow> string list \<Rightarrow> (duration \<times> string) list" where
  "stream_events ttft itl event final chunks =
     (let tm = (\<lambda>i. max 0 ttft + int i * max 0 itl); n = length chunks; last_time = tm (n - 1)
      in map (\<lambda>(i, c). (tm i, event i c)) (enumerate 0 chunks) @ [(last_time, final n), (last_time, done_event)])"

definition handleStreaming :: "mock_server \<Rightarrow> mock_env \<Rightarrow> bool \<Rightarrow> string \<Rightarrow> int \<Rightarrow> mock_answer option" where
  "handleStreaming s e flusher model n =
     (if \<not> flusher then Some (MockError 500 ''streaming not supported'')
      else map_option (\<lambda>chunks. MockEvents (stream_events (ms_ttft s) (ms_itl s)
        (\<lambda>i c. writeSSE e (chunk_json e ''chatcmpl-'' ''chat.completion.chunk'' model i (chat_choice_json c) None))
        (\<lambda>k. writeSSE e (chunk_json e ''chatcmpl-'' ''chat.completion.chunk'' model k chat_final (Some (usage_json n)))) chunks)) (chat_chunks s n))"

definition handleCompletionStreaming :: "mock_server \<Rightarrow> mock_env \<Rightarrow> bool \<Rightarrow> string \<Rightarrow> int \<Rightarrow> mock_answer option" where
  "handleCompletionStreaming s e flusher model n =
     (if \<not> flusher then Some (MockError 500 ''streaming not supported'')
      else map_option (\<lambda>chunks. MockEvents (stream_events (ms_ttft s) (ms_itl s)
        (\<lambda>i c. writeSSE e (chunk_json e ''cmpl-'' ''text_completion'' model i (completion_choice_json c) None))
        (\<lambda>k. writeSSE e (chunk_json e ''cmpl-'' ''text_completion'' model k completion_final (Some (usage_json n)))) chunks))
       (split_content (completionContent s n) n))"

text \<open>A whole answer comes after the time its tokens would have taken; a negative time is none.\<close>

definition whole_delay :: "mock_server \<Rightarrow> int \<Rightarrow> duration" where
  "whole_delay s n = max 0 (wrap64 (ms_ttft s + wrap64 (ms_itl s * (n - 1))))"

definition handleNonStreaming :: "mock_server \<Rightarrow> mock_env \<Rightarrow> string \<Rightarrow> int \<Rightarrow> mock_answer option" where
  "handleNonStreaming s e model n =
     (if n < 0 then None
      else Some (MockJson (whole_delay s n) (chunk_json e ''chatcmpl-'' ''chat.completion'' model 0
        [(''message'', go_map [(''role'', JStr ''assistant''), (''content'', JStr (filler n))]), (''finish_reason'', JStr ''stop'')] (Some (usage_json n)))))"

definition handleCompletionNonStreaming :: "mock_server \<Rightarrow> mock_env \<Rightarrow> string \<Rightarrow> int \<Rightarrow> mock_answer option" where
  "handleCompletionNonStreaming s e model n =
     (if n < 0 \<and> ms_response s = [] then None
      else Some (MockJson (whole_delay s n) (chunk_json e ''cmpl-'' ''text_completion'' model 0
        [(''text'', JStr (completionContent s n)), (''finish_reason'', JStr ''stop'')] (Some (usage_json n)))))"

record mock_request =
  mr_model :: string
  mr_stream :: bool
  mr_max_tokens :: int

definition output_tokens :: "mock_server \<Rightarrow> mock_request \<Rightarrow> int" where
  "output_tokens s r = (if 0 < mr_max_tokens r then mr_max_tokens r else ms_output_tokens s)"

definition answer_model :: "mock_server \<Rightarrow> mock_request \<Rightarrow> string" where
  "answer_model s r = (if mr_model r = [] then ms_model s else mr_model r)"

text \<open>A request body that does not decode is answered with the decoder's error.\<close>

definition handleChatCompletions :: "mock_server \<Rightarrow> mock_env \<Rightarrow> bool \<Rightarrow> (string, mock_request) result \<Rightarrow> mock_answer option" where
  "handleChatCompletions s e flusher decoded =
     (case decoded of
        Inl err \<Rightarrow> Some (MockError 400 err)
      | Inr r \<Rightarrow>
          if \<not> mr_stream r then handleNonStreaming s e (answer_model s r) (output_tokens s r)
          else handleStreaming s e flusher (answer_model s r) (output_tokens s r))"

definition handleCompletions :: "mock_server \<Rightarrow> mock_env \<Rightarrow> bool \<Rightarrow> (string, mock_request) result \<Rightarrow> mock_answer option" where
  "handleCompletions s e flusher decoded =
     (case decoded of
        Inl err \<Rightarrow> Some (MockError 400 err)
      | Inr r \<Rightarrow>
          if \<not> mr_stream r then handleCompletionNonStreaming s e (answer_model s r) (output_tokens s r)
          else handleCompletionStreaming s e flusher (answer_model s r) (output_tokens s r))"

definition handleModels :: "mock_server \<Rightarrow> mock_answer" where
  "handleModels s = MockJson 0 (go_map [(''object'', JStr ''list''),
     (''data'', JArr [go_map [(''id'', JStr (ms_model s)), (''object'', JStr ''model'')]])])"

section \<open>The chunks are the content\<close>

lemma concat_chunks:
  assumes "0 \<le> width"
  shows "concat (map (chunk_at rs width) [0..<m]) = concat (take (m * nat width) rs)"
proof (induction m)
  case (Suc m)
  have c: "chunk_at rs width m = concat (take (nat width) (drop (m * nat width) rs))"
  proof (cases "int (length rs) \<le> int m * width")
    case True
    then have "length rs \<le> m * nat width" using assms by (metis nat_int nat_mono nat_mult_distrib of_nat_0_le_iff)
    then show ?thesis using True by (simp add: chunk_at_def Let_def)
  next
    case False
    have n: "nat (int m * width) = m * nat width" by (simp add: nat_mult_distrib)
    show ?thesis
    proof (cases "int (length rs) < int m * width + width")
      case True
      have "length (drop (m * nat width) rs) \<le> nat (int (length rs) - int m * width)" using n assms by (simp add: nat_diff_distrib)
      moreover have "length (drop (m * nat width) rs) \<le> nat width" using True n assms by simp
      ultimately show ?thesis using True False n by (simp add: chunk_at_def Let_def)
    qed (use False n in \<open>simp add: chunk_at_def Let_def\<close>)
  qed
  have "take (Suc m * nat width) rs = take (m * nat width) rs @ take (nat width) (drop (m * nat width) rs)"
    by (metis add.commute mult_Suc take_add)
  then show ?case using Suc c by simp
qed simp

lemma chunk_size_covers:
  assumes "0 < n"
  shows "0 \<le> chunk_size rs n \<and> length rs \<le> nat n * nat (chunk_size rs n)"
proof -
  let ?l = "int (length rs)"
  have s: "chunk_size rs n = (?l + n - 1) div n" using assms by (simp add: chunk_size_def tdiv_nonneg)
  have "0 \<le> chunk_size rs n" using assms unfolding s by (simp add: pos_imp_zdiv_nonneg_iff)
  moreover have "?l + n - 1 = n * chunk_size rs n + (?l + n - 1) mod n" unfolding s by simp
  moreover have "(?l + n - 1) mod n < n" using assms by simp
  ultimately have "?l \<le> n * chunk_size rs n" "0 \<le> chunk_size rs n" by linarith+
  then show ?thesis using assms by (metis int_nat_eq nat_int nat_mono nat_mult_distrib order_less_imp_le)
qed

lemma split_content_concat: "split_content t n = Some chunks \<Longrightarrow> concat chunks = concat (runes t) \<and> length chunks = nat n"
  using chunk_size_covers [of n "runes t"] by (auto simp: split_content_def Let_def concat_chunks split: if_splits)

lemma chat_chunks_content:
  assumes "chat_chunks s n = Some chunks" "ms_response s \<noteq> [] \<longrightarrow> concat (runes (ms_response s)) = ms_response s"
  shows "concat chunks = completionContent s n \<and> length chunks = nat n"
  using assms split_content_concat [of "ms_response s" n chunks]
  by (auto simp: chat_chunks_def completionContent_def filler_def split: if_splits)

section \<open>One line per event\<close>

lemma set_join_with: "set (join_with sepr ws) \<subseteq> set sepr \<union> \<Union> (set ` set ws)"
proof (induction ws)
  case (Cons w ws)
  then show ?case by (cases "ws = []") (auto simp: join_with_Cons)
qed simp

lemma hex_nibble_not_line_feed:
  assumes "n < 16"
  shows "hex_nibble n \<noteq> CHR 0x0A"
proof
  assume "hex_nibble n = CHR 0x0A"
  then have "(of_char (hex_nibble n) :: nat) = of_char CHR 0x0A" by simp
  then show False using assms by (simp add: hex_nibble_def split: if_splits)
qed

lemma escape_char_one_line: "CHR 0x0A \<notin> set (escape_json_char c)"
proof -
  have "(of_char c :: nat) < 16 * 16" using mod_less_divisor [of 256 "of_char c :: nat"] by (simp only: of_char_mod_256) simp
  then have "of_char c div 16 < (16 :: nat)" by (rule less_mult_imp_div_less)
  then obtain a b where "a = hex_nibble (of_char c div 16)" "b = hex_nibble (of_char c mod 16)" "a \<noteq> CHR 0x0A" "b \<noteq> CHR 0x0A"
    using hex_nibble_not_line_feed [of "of_char c div 16"] hex_nibble_not_line_feed [of "of_char c mod 16"] by simp
  then show ?thesis unfolding escape_json_char_def json_backslash_def by (simp only: flip: \<open>a = _\<close> \<open>b = _\<close>) auto
qed

lemma escape_one_line: "CHR 0x0A \<notin> set (escape_json s)"
  by (induction s rule: escape_json.induct) (use escape_char_one_line in \<open>auto simp: json_backslash_def\<close>)

lemma json_text_one_line: "\<forall>q. CHR 0x0A \<notin> set (number q) \<Longrightarrow> CHR 0x0A \<notin> set (json_text number j)"
proof (induction number j rule: json_text.induct)
  case (5 number js)
  then show ?case using set_join_with [of "'',''" "map (json_text number) js"] by auto
next
  case (6 number kvs)
  then show ?case
    using set_join_with [of "'',''" "map (\<lambda>(k, v). quote_json k @ '':'' @ json_text number v) kvs"] escape_one_line
    by (fastforce simp: quote_json_def)
qed (use escape_one_line in \<open>auto simp: quote_json_def\<close>)

text \<open>The lines that a scanner finds in the writes, each at the time of its write; every write ends its last line.\<close>

definition read_lines :: "time \<Rightarrow> (duration \<times> string) list \<Rightarrow> (time \<times> string) list" where
  "read_lines start events = concat (map (\<lambda>(t, x). map (\<lambda>l. (start + t, l)) (butlast (split_on line_feed x))) events)"

lemma split_event: "CHR 0x0A \<notin> set x \<Longrightarrow> split_on line_feed (x @ [line_feed, line_feed]) = [x, [], []]"
  by (induction x) (auto simp: line_feed_def)

lemma event_lines:
  assumes "\<forall>q. CHR 0x0A \<notin> set (me_number e q)"
  shows "butlast (split_on line_feed (writeSSE e v)) = [''data: '' @ json_text (me_number e) v, []]"
    and "butlast (split_on line_feed done_event) = [''data: [DONE]'', []]"
proof -
  have "CHR 0x0A \<notin> set (''data: '' @ json_text (me_number e) v)" using json_text_one_line [OF assms] by simp
  from split_event [OF this] show "butlast (split_on line_feed (writeSSE e v)) = [''data: '' @ json_text (me_number e) v, []]"
    by (simp add: writeSSE_def)
  have "split_on line_feed (''data: [DONE]'' @ [line_feed, line_feed]) = [''data: [DONE]'', [], []]" by (rule split_event) simp
  then show "butlast (split_on line_feed done_event) = [''data: [DONE]'', []]" by (simp add: done_event_def)
qed

section \<open>The client reads what the server was told to send\<close>

text \<open>What the client's decoder makes of the objects of a stream.\<close>

definition content_chunk :: "string \<Rightarrow> chat_chunk" where
  "content_chunk c = \<lparr>chunk_choices = [\<lparr>ch_delta = \<lparr>d_content = c, d_reasoning = [], d_reasoning_content = []\<rparr>, ch_finish_reason = None\<rparr>], chunk_usage = None\<rparr>"

definition final_chunk :: "int \<Rightarrow> chat_chunk" where
  "final_chunk n = \<lparr>chunk_choices = [\<lparr>ch_delta = \<lparr>d_content = [], d_reasoning = [], d_reasoning_content = []\<rparr>, ch_finish_reason = Some ''stop''\<rparr>],
     chunk_usage = Some \<lparr>prompt_tokens = 0, completion_tokens = n, total_tokens = n\<rparr>\<rparr>"

definition chat_event :: "mock_env \<Rightarrow> string \<Rightarrow> nat \<Rightarrow> string \<Rightarrow> json" where
  "chat_event e model i c = chunk_json e ''chatcmpl-'' ''chat.completion.chunk'' model i (chat_choice_json c) None"

definition chat_final_event :: "mock_env \<Rightarrow> string \<Rightarrow> nat \<Rightarrow> int \<Rightarrow> json" where
  "chat_final_event e model k n = chunk_json e ''chatcmpl-'' ''chat.completion.chunk'' model k chat_final (Some (usage_json n))"

definition decodes_stream :: "(string \<Rightarrow> chat_chunk option) \<Rightarrow> mock_env \<Rightarrow> string \<Rightarrow> int \<Rightarrow> string list \<Rightarrow> bool" where
  "decodes_stream unmarshal e model n chunks \<longleftrightarrow>
     list_all (\<lambda>(i, c). unmarshal (json_text (me_number e) (chat_event e model i c)) = Some (content_chunk c)) (enumerate 0 chunks) \<and>
     unmarshal (json_text (me_number e) (chat_final_event e model (length chunks) n)) = Some (final_chunk n)"

lemma object_not_done: "json_text number (go_map kvs) \<noteq> ''[DONE]''"
  by (simp add: go_map_def)

lemma data_line: "has_prefix (''data: '' @ t) ''data: ''" "trim_prefix (''data: '' @ t) ''data: '' = t" "\<not> has_prefix [] ''data: ''"
  by (simp_all add: has_prefix_def trim_prefix_def)

lemma decoded_chunks_append_line:
  assumes "unmarshal x = Some ck" "x \<noteq> ''[DONE]''"
  shows "decoded_chunks unmarshal ((t, ''data: '' @ x) # (t, []) # ls) = (t, ck) # decoded_chunks unmarshal ls"
  using assms data_line(1,2) [of x] data_line(3) by simp

lemma decoded_events:
  assumes "list_all (\<lambda>(i, c). unmarshal (json_text (me_number e) (chat_event e model i c)) = Some (content_chunk c)) ics"
    and "\<forall>q. CHR 0x0A \<notin> set (me_number e q)"
  shows "decoded_chunks unmarshal (read_lines start (map (\<lambda>(i, c). (tm i, writeSSE e (chat_event e model i c))) ics) @ ls) =
    map (\<lambda>(i, c). (start + tm i, content_chunk c)) ics @ decoded_chunks unmarshal ls"
  using assms(1)
proof (induction ics)
  case (Cons ic ics)
  obtain i c where ic: "ic = (i, c)" by fastforce
  have "unmarshal (json_text (me_number e) (chat_event e model i c)) = Some (content_chunk c)" using Cons.prems ic by simp
  from decoded_chunks_append_line [where unmarshal = unmarshal, OF this] show ?case
    using Cons ic event_lines(1) [OF assms(2)] object_not_done by (simp add: read_lines_def chat_event_def chunk_json_def)
qed (simp add: read_lines_def)

lemma read_lines_append: "read_lines start (xs @ ys) = read_lines start xs @ read_lines start ys"
  by (simp add: read_lines_def)

definition event_time :: "mock_server \<Rightarrow> nat \<Rightarrow> duration" where
  "event_time s i = max 0 (ms_ttft s) + int i * max 0 (ms_itl s)"

lemma decoded_stream:
  assumes "decodes_stream unmarshal e model n chunks" "\<forall>q. CHR 0x0A \<notin> set (me_number e q)"
    and "handleStreaming s e True model n = Some (MockEvents events)" "chat_chunks s n = Some chunks"
  shows "decoded_chunks unmarshal (read_lines start events) =
    map (\<lambda>(i, c). (start + event_time s i, content_chunk c)) (enumerate 0 chunks) @ [(start + event_time s (length chunks - 1), final_chunk n)]"
proof -
  let ?last = "event_time s (length chunks - 1)"
  have ev: "events = map (\<lambda>(i, c). (event_time s i, writeSSE e (chat_event e model i c))) (enumerate 0 chunks) @
      [(?last, writeSSE e (chat_final_event e model (length chunks) n)), (?last, done_event)]"
    using assms(3,4) by (simp add: handleStreaming_def stream_events_def Let_def event_time_def chat_event_def chat_final_event_def)
  have f: "unmarshal (json_text (me_number e) (chat_final_event e model (length chunks) n)) = Some (final_chunk n)"
    and a: "list_all (\<lambda>(i, c). unmarshal (json_text (me_number e) (chat_event e model i c)) = Some (content_chunk c)) (enumerate 0 chunks)"
    using assms(1) by (simp_all add: decodes_stream_def)
  have nd: "json_text (me_number e) (chat_final_event e model (length chunks) n) \<noteq> ''[DONE]''"
    using object_not_done by (simp add: chat_final_event_def chunk_json_def)
  have "read_lines start [(?last, writeSSE e (chat_final_event e model (length chunks) n)), (?last, done_event)] =
      (start + ?last, ''data: '' @ json_text (me_number e) (chat_final_event e model (length chunks) n)) # (start + ?last, []) #
      [(start + ?last, ''data: [DONE]''), (start + ?last, [])]"
    unfolding read_lines_def using event_lines [OF assms(2)] by simp
  moreover have "decoded_chunks unmarshal [(start + ?last, ''data: [DONE]''), (start + ?last, [])] = []"
    using data_line(1,2) [of "''[DONE]''"] by simp
  ultimately show ?thesis
    unfolding ev read_lines_append decoded_events [OF a assms(2)] by (simp only: decoded_chunks_append_line [where unmarshal = unmarshal, OF f nd])
qed

text \<open>The result of a stream of contents with the final chunk.\<close>

lemma content_step: "chat_chunk_step t (content_chunk c) r =
  (if c = [] then r else (token_at t r)\<lparr>Content := Content r @ c, GeneratedText := GeneratedText r @ c\<rparr>)"
  by (simp add: chat_chunk_step_def content_chunk_def reasoning_delta_def finish_with_def usage_from_def token_at_def)

lemma content_fold:
  fixes r tm ics
  defines "r' \<equiv> fold (\<lambda>(t, ck) r. chat_chunk_step t ck r) (map (\<lambda>(i, c). (tm i, content_chunk c)) ics) r"
  shows "Content r' = Content r @ concat (map snd ics)" "res_err r' = res_err r" "RequestStart r' = RequestStart r"
    "TokenTimes r' = TokenTimes r @ map (\<lambda>(i, c). tm i) (filter (\<lambda>(i, c). c \<noteq> []) ics)"
  unfolding r'_def by (induction ics arbitrary: r) (auto simp: content_step token_at_def)

lemma timing_fold: "timing_ok r \<Longrightarrow> timing_ok (fold (\<lambda>(t, ck) r. chat_chunk_step t ck r) cks r)"
  by (induction cks arbitrary: r) (auto intro: chat.step_timing)

lemma final_step: "chat_chunk_step t (final_chunk n) r =
  r\<lparr>FinishReason := ''stop'', res_usage := Some \<lparr>prompt_tokens = 0, completion_tokens = n, total_tokens = n\<rparr>\<rparr>"
  by (simp add: chat_chunk_step_def final_chunk_def reasoning_delta_def finish_with_def usage_from_def)

lemma gaps_of_times: "gaps (map (\<lambda>i. b + int i * d) [k..<m]) = replicate (m - Suc k) d"
proof (induction "m - k" arbitrary: k)
  case (Suc x)
  show ?case
  proof (cases "Suc k < m")
    case True
    have u: "[k..<m] = k # Suc k # [Suc (Suc k)..<m]" "[Suc k..<m] = Suc k # [Suc (Suc k)..<m]" using True by (simp_all add: upt_conv_Cons)
    have "gaps (map (\<lambda>i. b + int i * d) [Suc k..<m]) = replicate (m - Suc (Suc k)) d" using Suc by simp
    moreover have "m - Suc k = Suc (m - Suc (Suc k))" using True by simp
    ultimately show ?thesis unfolding u by (simp add: algebra_simps)
  next
    case False
    then have "[k..<m] = [k]" using Suc(2) by (simp add: upt_conv_Cons)
    then show ?thesis using False by simp
  qed
qed simp


definition demo_mock :: mock_server where
  "demo_mock = \<lparr>ms_ttft = 50, ms_itl = 10, ms_output_tokens = 2, ms_model = ''mock'', ms_response = ''abcd''\<rparr>"

definition demo_env :: mock_env where
  "demo_env = \<lparr>me_random = 1, me_now = (\<lambda>_. 0), me_number = (\<lambda>_. ''0'')\<rparr>"

definition demo_query :: mock_request where
  "demo_query = \<lparr>mr_model = [], mr_stream = True, mr_max_tokens = 0\<rparr>"

definition demo_decoder :: "string \<Rightarrow> chat_chunk option" where
  "demo_decoder t = map_of
     [(json_text (me_number demo_env) (chat_event demo_env ''mock'' 0 ''ab''), content_chunk ''ab''),
      (json_text (me_number demo_env) (chat_event demo_env ''mock'' 1 ''cd''), content_chunk ''cd''),
      (json_text (me_number demo_env) (chat_final_event demo_env ''mock'' 2 2), final_chunk 2)] t"


text \<open>When the content does not divide into the tokens, the last chunks are empty: the client sees fewer tokens than the usage tells.\<close>

lemma empty_chunks_are_not_tokens:
  "chat_chunks (demo_mock\<lparr>ms_response := ''abcde''\<rparr>) 4 = Some [''ab'', ''cd'', ''e'', []]"
  by code_simp

text \<open>Without tokens a completion, also of filler, divides by zero.\<close>

lemma completion_without_tokens_panics:
  "handleCompletions (demo_mock\<lparr>ms_output_tokens := 0, ms_response := []\<rparr>) demo_env True (Inr demo_query) = None"
  by code_simp

end
