(* ===== verification/Stream_Loop.thy ===== *)
theory Stream_Loop
  imports Loadgen
begin

text \<open>
  Package \<open>loadgen\<close>, more of \<open>generator.go\<close>: one stream and the goroutines that prefetch its conversations as an interleaving of steps, the ids of
  conversations, the classic \<open>Run\<close> and \<open>runConcurrent\<close>, the gap to the next arrival of rate-based traffic; and package \<open>warmup\<close>. The square root is an
  argument.
\<close>

section \<open>A stream and its prefetch\<close>

text \<open>What passes through the channel: a conversation with its id, or that the request limit is reached.\<close>

datatype 'c pending = Conv string 'c | LimitReachedMark

text \<open>Where a goroutine that runs \<open>fill\<close> is.\<close>

datatype 'c fill_stage = Asking | Drawing | Holding "'c pending"

datatype 'c main_stage = Waiting | Running string 'c | Returned

record 'c stream =
  sm_id :: int
  sm_fills :: "'c fill_stage list"
  sm_buffer :: "'c pending list"
  sm_next :: nat
  sm_main :: "'c main_stage"
  sm_started :: "(string \<times> 'c) list"

definition conv_id :: "int \<Rightarrow> nat \<Rightarrow> string" where
  "conv_id sid n = ''w'' @ itoa sid @ ''-c'' @ itoa (int n)"

text \<open>\<open>runStream\<close> after its delay: the first \<open>fill\<close> runs.\<close>

definition new_stream :: "int \<Rightarrow> 'c stream" where
  "new_stream sid = \<lparr>sm_id = sid, sm_fills = [Asking], sm_buffer = [], sm_next = 0, sm_main = Waiting, sm_started = []\<rparr>"

text \<open>The steps of goroutine \<open>i\<close> of those that run \<open>fill\<close>: the compare-and-swap loop grants a request or finds the limit, the dataset gives any
  conversation, and the send waits for room in the channel.\<close>

definition fill_ask :: "nat \<Rightarrow> bool \<Rightarrow> 'c stream \<Rightarrow> 'c stream option" where
  "fill_ask i granted s =
     (if i < length (sm_fills s) \<and> (case sm_fills s ! i of Asking \<Rightarrow> True | _ \<Rightarrow> False)
      then Some (s\<lparr>sm_fills := (sm_fills s)[i := if granted then Drawing else Holding LimitReachedMark]\<rparr>) else None)"

definition fill_draw :: "nat \<Rightarrow> 'c \<Rightarrow> 'c stream \<Rightarrow> 'c stream option" where
  "fill_draw i c s =
     (if i < length (sm_fills s) \<and> (case sm_fills s ! i of Drawing \<Rightarrow> True | _ \<Rightarrow> False)
      then Some (s\<lparr>sm_fills := (sm_fills s)[i := Holding (Conv (conv_id (sm_id s) (sm_next s)) c)], sm_next := sm_next s + 1\<rparr>) else None)"

definition drop_nth :: "nat \<Rightarrow> 'a list \<Rightarrow> 'a list" where
  "drop_nth i xs = take i xs @ drop (Suc i) xs"

definition fill_send :: "nat \<Rightarrow> 'c stream \<Rightarrow> 'c stream option" where
  "fill_send i s =
     (if i < length (sm_fills s) \<and> sm_buffer s = []
      then (case sm_fills s ! i of Holding p \<Rightarrow> Some (s\<lparr>sm_fills := drop_nth i (sm_fills s), sm_buffer := [p]\<rparr>) | _ \<Rightarrow> None) else None)"

text \<open>The loop: a conversation from the channel starts the next \<open>fill\<close> and runs; a context that is done ends it between conversations.\<close>

definition main_receive :: "'c stream \<Rightarrow> 'c stream option" where
  "main_receive s =
     (case (sm_main s, sm_buffer s) of
        (Waiting, Conv i c # ps) \<Rightarrow>
          Some (s\<lparr>sm_buffer := ps, sm_fills := sm_fills s @ [Asking], sm_main := Running i c, sm_started := sm_started s @ [(i, c)]\<rparr>)
      | (Waiting, LimitReachedMark # ps) \<Rightarrow> Some (s\<lparr>sm_buffer := ps, sm_main := Returned\<rparr>)
      | _ \<Rightarrow> None)"

definition main_finish :: "'c stream \<Rightarrow> 'c stream option" where
  "main_finish s = (case sm_main s of Running i c \<Rightarrow> Some (s\<lparr>sm_main := Waiting\<rparr>) | _ \<Rightarrow> None)"

definition main_cancel :: "'c stream \<Rightarrow> 'c stream option" where
  "main_cancel s = (case sm_main s of Waiting \<Rightarrow> Some (s\<lparr>sm_main := Returned\<rparr>) | _ \<Rightarrow> None)"

inductive stream_step :: "'c stream \<Rightarrow> 'c stream \<Rightarrow> bool" where
  asks: "fill_ask i granted s = Some s' \<Longrightarrow> stream_step s s'"
| draws: "fill_draw i c s = Some s' \<Longrightarrow> stream_step s s'"
| sends: "fill_send i s = Some s' \<Longrightarrow> stream_step s s'"
| receives: "main_receive s = Some s' \<Longrightarrow> stream_step s s'"
| finishes: "main_finish s = Some s' \<Longrightarrow> stream_step s s'"
| cancels: "main_cancel s = Some s' \<Longrightarrow> stream_step s s'"

inductive_cases stream_stepE: "stream_step s s'"

inductive stream_reach :: "int \<Rightarrow> 'c stream \<Rightarrow> bool" for sid where
  begin_stream: "stream_reach sid (new_stream sid)"
| next_step: "stream_reach sid s \<Longrightarrow> stream_step s s' \<Longrightarrow> stream_reach sid s'"

text \<open>The one conversation or permission that is under way.\<close>

definition in_transit :: "'c stream \<Rightarrow> 'c fill_stage list" where
  "in_transit s = sm_fills s @ map Holding (sm_buffer s)"

fun transit_ok :: "int \<Rightarrow> nat \<Rightarrow> nat \<Rightarrow> 'c fill_stage \<Rightarrow> bool" where
  "transit_ok sid n k (Holding (Conv i c)) = (k = Suc n \<and> i = conv_id sid n)"
| "transit_ok sid n k (Holding LimitReachedMark) = (k = n)"
| "transit_ok sid n k Asking = (k = n)"
| "transit_ok sid n k Drawing = (k = n)"

definition stream_inv :: "int \<Rightarrow> 'c stream \<Rightarrow> bool" where
  "stream_inv sid s \<longleftrightarrow> sm_id s = sid \<and>
     (in_transit s = [] \<and> sm_main s = Returned \<and> sm_next s = length (sm_started s) \<or>
      (\<exists>f. in_transit s = [f] \<and> transit_ok sid (length (sm_started s)) (sm_next s) f)) \<and>
     map fst (sm_started s) = map (conv_id sid) [0..<length (sm_started s)]"

lemma few_in_transit:
  assumes "stream_inv sid s"
  obtains "sm_fills s = []" "sm_buffer s = []" | f where "sm_fills s = [f]" "sm_buffer s = []" | p where "sm_fills s = []" "sm_buffer s = [p]"
  using assms by (cases "sm_fills s"; cases "sm_buffer s") (auto simp: stream_inv_def in_transit_def)

lemma fill_ask_inv: "stream_inv sid s \<Longrightarrow> fill_ask i granted s = Some s' \<Longrightarrow> stream_inv sid s'"
  by (rule few_in_transit, assumption) (auto simp: stream_inv_def in_transit_def fill_ask_def split: if_splits fill_stage.splits)

lemma fill_draw_inv: "stream_inv sid s \<Longrightarrow> fill_draw i c s = Some s' \<Longrightarrow> stream_inv sid s'"
  by (rule few_in_transit, assumption) (auto simp: stream_inv_def in_transit_def fill_draw_def split: if_splits fill_stage.splits)

lemma fill_send_inv: "stream_inv sid s \<Longrightarrow> fill_send i s = Some s' \<Longrightarrow> stream_inv sid s'"
  by (rule few_in_transit, assumption) (auto simp: stream_inv_def in_transit_def fill_send_def drop_nth_def split: if_splits fill_stage.splits)

lemma main_receive_inv: "stream_inv sid s \<Longrightarrow> main_receive s = Some s' \<Longrightarrow> stream_inv sid s'"
  by (rule few_in_transit, assumption) (auto simp: stream_inv_def in_transit_def main_receive_def split: main_stage.splits pending.splits list.splits)

lemma main_other_inv:
  "stream_inv sid s \<Longrightarrow> main_finish s = Some s' \<Longrightarrow> stream_inv sid s'" "stream_inv sid s \<Longrightarrow> main_cancel s = Some s' \<Longrightarrow> stream_inv sid s'"
  by (auto simp: stream_inv_def in_transit_def main_finish_def main_cancel_def split: main_stage.splits)

lemma stream_reach_inv: "stream_reach sid s \<Longrightarrow> stream_inv sid s"
proof (induction rule: stream_reach.induct)
  case begin_stream
  show ?case by (simp add: stream_inv_def in_transit_def new_stream_def)
next
  case (next_step s s')
  from next_step(2,3) show ?case
    by (cases rule: stream_step.cases) (blast intro: fill_ask_inv fill_draw_inv fill_send_inv main_receive_inv main_other_inv)+
qed

text \<open>
  Property C24. A stream runs its conversations one by one under the ids \<open>w<stream>-c0\<close>, \<open>w<stream>-c1\<close>, ... in order and without gaps, whatever the
  interleaving with its prefetching goroutines: never more than one of those is active, so the counter of ids has a single writer, and at most one
  conversation is drawn from the dataset that does not run; and a stream that waits always gets a conversation or the end without anybody's help.
\<close>
theorem stream_prefetch_contract:
  assumes "stream_reach sid s"
  shows "map fst (sm_started s) = map (conv_id sid) [0..<length (sm_started s)] \<and> length (sm_fills s) + length (sm_buffer s) \<le> 1 \<and>
    length (sm_started s) \<le> sm_next s \<and> sm_next s \<le> length (sm_started s) + 1 \<and>
    (sm_main s = Waiting \<longrightarrow> main_receive s \<noteq> None \<or>
      (\<exists>f. sm_fills s = [f] \<and> (f = Asking \<and> (\<forall>granted. fill_ask 0 granted s \<noteq> None) \<or> f = Drawing \<and> (\<forall>c. fill_draw 0 c s \<noteq> None) \<or>
         fill_send 0 s \<noteq> None)))"
proof (intro conjI impI)
  note inv = stream_reach_inv [OF assms]
  show "map fst (sm_started s) = map (conv_id sid) [0..<length (sm_started s)]" using inv by (simp add: stream_inv_def)
  show "length (sm_fills s) + length (sm_buffer s) \<le> 1" by (rule few_in_transit [OF inv]) simp_all
  have "transit_ok sid n k f \<Longrightarrow> n \<le> k \<and> k \<le> n + 1" for n k and f :: "'a fill_stage"
    by (cases "(sid, n, k, f)" rule: transit_ok.cases) auto
  then show "length (sm_started s) \<le> sm_next s" "sm_next s \<le> length (sm_started s) + 1" using inv by (auto simp: stream_inv_def)
  assume w: "sm_main s = Waiting"
  show "main_receive s \<noteq> None \<or>
      (\<exists>f. sm_fills s = [f] \<and> (f = Asking \<and> (\<forall>granted. fill_ask 0 granted s \<noteq> None) \<or> f = Drawing \<and> (\<forall>c. fill_draw 0 c s \<noteq> None) \<or>
         fill_send 0 s \<noteq> None))"
  proof (rule few_in_transit [OF inv])
    fix p assume "sm_fills s = []" "sm_buffer s = [p]"
    then show ?thesis using w by (cases p) (simp_all add: main_receive_def)
  next
    fix f assume "sm_fills s = [f]" "sm_buffer s = []"
    then show ?thesis by (cases f) (simp_all add: fill_ask_def fill_draw_def fill_send_def)
  qed (use inv w in \<open>auto simp: stream_inv_def in_transit_def\<close>)
qed

text \<open>One conversation of a stream, from its permission to its run.\<close>

definition one_conversation :: "int \<Rightarrow> 'c \<Rightarrow> 'c stream option" where
  "one_conversation sid c = Option.bind (fill_ask 0 True (new_stream sid)) (\<lambda>s. Option.bind (fill_draw 0 c s) (\<lambda>s. Option.bind (fill_send 0 s) main_receive))"

lemma one_conversation_runs:
  "\<exists>s. one_conversation sid c = Some s \<and> stream_reach sid s \<and> sm_started s = [(conv_id sid 0, c)]"
proof -
  let ?s1 = "(new_stream sid :: 'a stream)\<lparr>sm_fills := [Drawing]\<rparr>"
  let ?s2 = "?s1\<lparr>sm_fills := [Holding (Conv (conv_id sid 0) c)], sm_next := 1\<rparr>"
  let ?s3 = "?s2\<lparr>sm_fills := [], sm_buffer := [Conv (conv_id sid 0) c]\<rparr>"
  let ?s4 = "?s3\<lparr>sm_buffer := [], sm_fills := [Asking], sm_main := Running (conv_id sid 0) c, sm_started := [(conv_id sid 0, c)]\<rparr>"
  have s: "fill_ask 0 True (new_stream sid) = Some ?s1" "fill_draw 0 c ?s1 = Some ?s2" "fill_send 0 ?s2 = Some ?s3" "main_receive ?s3 = Some ?s4"
    by (simp_all add: fill_ask_def fill_draw_def fill_send_def main_receive_def new_stream_def drop_nth_def)
  have "stream_step (new_stream sid) ?s1" "stream_step ?s1 ?s2" "stream_step ?s2 ?s3" "stream_step ?s3 ?s4"
    using s by (blast intro: stream_step.intros)+
  then have "stream_reach sid ?s4" by (meson stream_reach.intros)
  then show ?thesis using s by (simp add: one_conversation_def)
qed

theorem stream_prefetch_contract_witness:
  "\<exists>s. one_conversation 3 ''c'' = Some s \<and> map fst (sm_started s) = [''w3-c0''] \<and> length (sm_fills s) + length (sm_buffer s) \<le> 1"
proof -
  obtain s where s: "one_conversation 3 ''c'' = Some s" "stream_reach 3 s" "sm_started s = [(conv_id 3 0, ''c'')]"
    using one_conversation_runs [of 3 "''c''"] by blast
  have "conv_id 3 0 = ''w3-c0''" by code_simp
  then show ?thesis using s stream_prefetch_contract [OF s(2)] by simp
qed

section \<open>Ids of conversations\<close>

lemma conv_id_inj: "conv_id sid n = conv_id sid' m \<longleftrightarrow> sid = sid' \<and> n = m"
proof -
  have no: "CHR ''c'' \<notin> set (itoa i)" for i
    using nat_to_dec_no_char [of "CHR ''c''"] by (simp add: itoa_def is_digit_def char_code_def)
  have split: "a = a' \<and> b = b'" if "a @ ''-c'' @ b = a' @ ''-c'' @ b'" "CHR ''c'' \<notin> set a" "CHR ''c'' \<notin> set a'" for a b a' b' :: string
  proof -
    have "takeWhile (\<lambda>x. x \<noteq> CHR ''c'') (a @ ''-c'' @ b) = a @ ''-''" if "CHR ''c'' \<notin> set a" for a b :: string
      using that by (subst takeWhile_append2) auto
    from this [of a b] this [of a' b'] that show ?thesis by simp
  qed
  show ?thesis using split [OF _ no no, of sid "itoa (int n)" sid' "itoa (int m)"] by (auto simp: conv_id_def dest!: itoa_inj [THEN iffD1])
qed

text \<open>The ids of different workers, and of different runs of one scenario, are the same: each worker and each run begins with stream 0 again.\<close>

lemma first_conv_id: "stream_reach sid s \<Longrightarrow> sm_started s \<noteq> [] \<Longrightarrow> fst (hd (sm_started s)) = conv_id sid 0"
proof -
  assume r: "stream_reach sid s" and ne: "sm_started s \<noteq> []"
  have "map fst (sm_started s) = map (conv_id sid) [0..<length (sm_started s)]" using stream_reach_inv [OF r] by (simp add: stream_inv_def)
  then have "map fst (sm_started s) ! 0 = map (conv_id sid) [0..<length (sm_started s)] ! 0" by simp
  then show ?thesis using ne by (simp add: hd_conv_nth)
qed

lemma workers_share_conversation_ids:
  "stream_reach sid s \<Longrightarrow> stream_reach sid t \<Longrightarrow> sm_started s \<noteq> [] \<Longrightarrow> sm_started t \<noteq> [] \<Longrightarrow> fst (hd (sm_started s)) = fst (hd (sm_started t))"
  by (simp add: first_conv_id)

section \<open>A single run\<close>

text \<open>\<open>Run\<close> has no stages: it starts one of the four kinds of traffic. A context that ends after the duration bounds it.\<close>

datatype traffic = Streams "(nat \<times> duration) list" | PoolTraffic int int duration | RateTraffic bool duration int

definition runConcurrent :: "Generator \<Rightarrow> (nat \<times> duration) list" where
  "runConcurrent g =
     map (\<lambda>i. (i, if 0 < g_rampup g \<and> 1 < g_concurrency g then tdiv (wrap64 (g_rampup g * int i)) (g_concurrency g - 1) else 0))
       [0..<nat (g_concurrency g)]"

definition run_traffic :: "Generator \<Rightarrow> string + traffic" where
  "run_traffic g =
     (if g_mode g = ''concurrent'' \<or> g_mode g = [] then Inr (Streams (runConcurrent g))
      else if g_mode g = ''conversation_pool'' then Inr (PoolTraffic (g_concurrency g) (g_pool_size g) (g_rampup g))
      else if g_mode g = ''constant'' then Inr (RateTraffic False (g_rampup g) 0)
      else if g_mode g = ''poisson'' then Inr (RateTraffic True (g_rampup g) 0)
      else Inl (''unknown mode: '' @ g_mode g))"

text \<open>The clock is read at the start and after the last record is written.\<close>

definition Run_generator :: "Generator \<Rightarrow> time \<Rightarrow> time \<Rightarrow> string + traffic \<times> Timestamps" where
  "Run_generator g start finish =
     (case run_traffic g of
        Inl e \<Rightarrow> Inl e
      | Inr t \<Rightarrow> Inr (t, \<lparr>ts_start = TimeToFloat start, ts_rampup_end = TimeToFloat (start + g_rampup g), ts_end = TimeToFloat finish,
          ts_rampup_seconds = Seconds (g_rampup g), ts_total_seconds = Seconds (finish - start), ts_stages = []\<rparr>))"

lemma run_concurrent_is_resize:
  "runConcurrent g = snd (Resize pick (g_concurrency g) (g_rampup g) \<lparr>sp_streams = [], sp_next = 0\<rparr>)"
  by (auto simp: runConcurrent_def Resize_def stagger_delay_def Let_def)

lemma run_fails_only_on_unknown_modes:
  "(\<exists>e. Run_generator g start finish = Inl e) \<longleftrightarrow> g_mode g \<notin> {'''', ''concurrent'', ''conversation_pool'', ''constant'', ''poisson''}"
  by (auto simp: Run_generator_def run_traffic_def split: sum.splits)

section \<open>The gap to the next arrival\<close>

text \<open>\<open>sqroot\<close> is \<open>math.Sqrt\<close>.\<close>

definition arrivalGap :: "(rat \<Rightarrow> rat) \<Rightarrow> rat \<Rightarrow> rat \<Rightarrow> duration \<Rightarrow> rat \<Rightarrow> duration" where
  "arrivalGap sqroot rate elapsed rampup arrival =
     (if rate \<le> 0 then 10 * millisecond
      else let rampSeconds = Seconds rampup
           in if 0 < rampSeconds \<and> elapsed < rampSeconds
              then let slope = fdiv rate rampSeconds;
                       remaining = fdiv (fmul slope (fsub (fmul rampSeconds rampSeconds) (fmul elapsed elapsed))) 2
                   in if arrival \<le> remaining
                      then int_of_f64 (fmul (fsub (sqroot (fadd (fmul elapsed elapsed) (fdiv (fmul 2 arrival) slope))) elapsed) 1000000000)
                      else int_of_f64 (fmul (fadd (fsub rampSeconds elapsed) (fdiv (fsub arrival remaining) rate)) 1000000000)
              else int_of_f64 (fmul (fdiv arrival rate) 1000000000))"

lemma f64_round_nonneg: "0 \<le> x \<Longrightarrow> 0 \<le> f64_round x"
  using f64_round_mono [of 0 x] by simp

lemma f64_op_nonneg:
  "0 \<le> a \<Longrightarrow> 0 \<le> b \<Longrightarrow> 0 \<le> fadd a b" "0 \<le> a \<Longrightarrow> 0 \<le> b \<Longrightarrow> 0 \<le> fmul a b" "0 \<le> a \<Longrightarrow> 0 \<le> b \<Longrightarrow> 0 \<le> fdiv a b" "b \<le> a \<Longrightarrow> 0 \<le> fsub a b"
  by (simp_all add: fadd_def fmul_def fdiv_def fsub_def f64_round_nonneg)

lemma f64_round_pos_idem:
  assumes "0 < x" "0 < f64_round_pos x"
  shows "f64_round_pos (f64_round_pos x) = f64_round_pos x"
proof -
  let ?y = "f64_round_pos x" and ?u = "f64_unit_exp x" and ?E = "f64_exp (f64_round_pos x)"
  have y: "?y = of_int (round_even (x / 2 powi ?u)) * 2 powi ?u" by (simp add: f64_round_pos_def Let_def)
  show ?thesis
  proof (cases "f64_unit_exp ?y \<le> ?u")
    case True
    then obtain k where "(2::rat) powi ?u = of_int k * 2 powi f64_unit_exp ?y" using powi_int_multiple by blast
    with y have "?y = of_int (round_even (x / 2 powi ?u) * k) * 2 powi f64_unit_exp ?y" by simp
    then show ?thesis by (rule f64_round_pos_multiple)
  next
    case False
    then have E: "f64_unit_exp ?y = ?E - 52" "?u < ?E - 52" "f64_exp x < ?E" by (auto simp: f64_unit_exp_def max_def split: if_splits)
    have "x \<le> 2 powi (f64_exp x + 1)" using f64_exp_bounds [OF assms(1)] by simp
    also have "\<dots> \<le> 2 powi ?E" using E(3) by (intro power_int_increasing) auto
    finally have x: "x \<le> 2 powi ?E" .
    obtain m where m: "(2::rat) powi ?E = of_int m * 2 powi ?u" using powi_int_multiple [of ?u ?E] E by auto
    then have "?y \<le> 2 powi ?E" using f64_round_pos_le [of x m] x by simp
    moreover have "2 powi ?E \<le> ?y" using f64_exp_bounds [OF assms(2)] by simp
    moreover obtain k where "(2::rat) powi ?E = of_int k * 2 powi f64_unit_exp ?y" using powi_int_multiple [of "f64_unit_exp ?y" ?E] E by auto
    ultimately have "?y = of_int k * 2 powi f64_unit_exp ?y" by simp
    then show ?thesis by (rule f64_round_pos_multiple)
  qed
qed

lemma f64_round_idem: "0 \<le> x \<Longrightarrow> f64_round (f64_round x) = f64_round x"
  using f64_round_pos_nonneg [of x] f64_round_pos_idem [of x] by (cases "f64_round_pos x = 0") (auto simp: f64_round_def)

lemma int_of_f64_nonneg: "0 \<le> x \<Longrightarrow> 0 \<le> int_of_f64 x"
  by (simp add: int_of_f64_def)

text \<open>The traffic never asks for an arrival in the past, whatever the rounding, when the square root of a number that is at least the rounded square of
  \<open>e\<close> is at least \<open>e\<close>.\<close>

lemma arrival_gap_not_negative:
  assumes sqroot: "\<And>e x. 0 \<le> e \<Longrightarrow> fmul e e \<le> x \<Longrightarrow> e \<le> sqroot x"
    and "0 \<le> elapsed" "0 \<le> arrival"
  shows "0 \<le> arrivalGap sqroot rate elapsed rampup arrival"
proof -
  have up: "fmul elapsed elapsed \<le> fadd (fmul elapsed elapsed) y" if "0 \<le> y" for y
    using f64_round_mono [of "fmul elapsed elapsed" "fmul elapsed elapsed + y"] that by (simp add: fadd_def fmul_def f64_round_idem)
  note nonneg = int_of_f64_nonneg f64_op_nonneg f64_round_nonneg
  show ?thesis
    using assms(2,3) unfolding arrivalGap_def Let_def by (auto intro!: nonneg sqroot up)
qed

section \<open>A warm-up stage\<close>

record warmup_settings =
  wu_duration :: duration
  wu_concurrency :: int
  wu_stagger :: bool

definition WarmupStage :: "warmup_settings \<Rightarrow> string + Stage" where
  "WarmupStage cfg =
     (if wu_duration cfg \<le> 0 then Inl ''warmup duration must be > 0''
      else if wu_concurrency cfg \<le> 0 then Inl ''warmup concurrency must be > 0''
      else Inr \<lparr>stg_concurrency = wu_concurrency cfg, stg_pool_size = 0, stg_duration = wu_duration cfg,
             stg_rampup = (if wu_stagger cfg then wu_duration cfg else 0), stg_max_requests = 0, stg_barrier = False, stg_barrier_drain = False\<rparr>)"

lemma staggered_warmup_starts_within_it:
  assumes "WarmupStage cfg = Inr s" "wu_stagger cfg"
  shows "stg_rampup s = stg_duration s \<and> 0 < stg_duration s"
  using assms by (auto simp: WarmupStage_def split: if_splits)

end
