(* ===== verification/Metrics.thy ===== *)
theory Metrics
  imports Stream_Loop
begin

text \<open>
  Package \<open>metrics\<close> and what the load generator feeds it. The metrics are registered with the Prometheus client, which is not part of the repository: a
  metric is described by what it is created with, and its value by what was added to it. Contents: the metrics that \<open>New\<close> registers, what
  \<open>recordResult\<close> adds for one request, the gauge of requests in flight and the progress of the evaluation as steps of interleaved goroutines.
\<close>

section \<open>The registered metrics\<close>

text \<open>Exponential buckets are given by their start, factor and count.\<close>

datatype metric_kind =
    CounterKind "string list"
  | GaugeKind
  | HistogramKind rat rat nat
  | SummaryKind "(rat \<times> rat) list" duration nat

record metric =
  me_name :: string
  me_help :: string
  me_const_labels :: "(string \<times> string) list"
  me_kind :: metric_kind

definition base_metrics :: "(string \<times> string) list \<Rightarrow> metric list" where
  "base_metrics l =
    [\<lparr>me_name = ''nyann_requests_total'', me_help = ''Total requests by status'', me_const_labels = l, me_kind = CounterKind [''status'']\<rparr>,
     \<lparr>me_name = ''nyann_finish_reason_total'', me_help = ''Requests by finish reason'', me_const_labels = l, me_kind = CounterKind [''reason'']\<rparr>,
     \<lparr>me_name = ''nyann_concurrency'', me_help = ''Current concurrency level'', me_const_labels = l, me_kind = GaugeKind\<rparr>,
     \<lparr>me_name = ''nyann_stage'', me_help = ''Current stage index (0-based)'', me_const_labels = l, me_kind = GaugeKind\<rparr>,
     \<lparr>me_name = ''nyann_ttft_seconds'', me_help = ''Time to first token'', me_const_labels = l, me_kind = HistogramKind (f64_round (1 / 100)) 2 15\<rparr>,
     \<lparr>me_name = ''nyann_itl_seconds'', me_help = ''Inter-token latency'', me_const_labels = l, me_kind = HistogramKind (f64_round (1 / 1000)) 2 15\<rparr>,
     \<lparr>me_name = ''nyann_itl_summary_seconds'', me_help = ''Inter-token latency (exact quantiles)'', me_const_labels = l,
       me_kind = SummaryKind [(f64_round (1 / 10), f64_round (1 / 100)), (1 / 2, f64_round (1 / 100)), (f64_round (95 / 100), f64_round (1 / 100)),
         (f64_round (99 / 100), f64_round (1 / 1000))] second 5\<rparr>,
     \<lparr>me_name = ''nyann_e2e_seconds'', me_help = ''End-to-end request latency'', me_const_labels = l, me_kind = HistogramKind (f64_round (1 / 10)) 2 15\<rparr>,
     \<lparr>me_name = ''nyann_output_tokens'', me_help = ''Output tokens per request'', me_const_labels = l, me_kind = HistogramKind 1 2 14\<rparr>,
     \<lparr>me_name = ''nyann_prompt_tokens'', me_help = ''Prompt tokens per request'', me_const_labels = l, me_kind = HistogramKind 1 2 16\<rparr>]"

definition eval_metrics :: "(string \<times> string) list \<Rightarrow> metric list" where
  "eval_metrics l =
    [\<lparr>me_name = ''nyann_eval_total'', me_help = ''Total evaluated responses'', me_const_labels = l, me_kind = CounterKind []\<rparr>,
     \<lparr>me_name = ''nyann_eval_correct'', me_help = ''Correctly answered responses'', me_const_labels = l, me_kind = CounterKind []\<rparr>,
     \<lparr>me_name = ''nyann_eval_incorrect'', me_help = ''Incorrectly answered responses'', me_const_labels = l, me_kind = CounterKind []\<rparr>]"

text \<open>The values: counters by label, the counters of the evaluation when they exist, the gauges, and what was observed, oldest first.\<close>

record metric_values =
  mv_requests :: "string \<Rightarrow> nat"
  mv_reasons :: "string \<Rightarrow> nat"
  mv_eval :: "(nat \<times> nat \<times> nat) option"
  mv_ttft :: "rat list"
  mv_itl :: "rat list"
  mv_itl_summary :: "rat list"
  mv_e2e :: "rat list"
  mv_output :: "rat list"
  mv_prompt :: "rat list"

definition no_values :: "bool \<Rightarrow> metric_values" where
  "no_values eval =
     \<lparr>mv_requests = (\<lambda>_. 0), mv_reasons = (\<lambda>_. 0), mv_eval = (if eval then Some (0, 0, 0) else None), mv_ttft = [], mv_itl = [], mv_itl_summary = [],
      mv_e2e = [], mv_output = [], mv_prompt = []\<rparr>"

definition NewMetrics :: "string \<Rightarrow> bool \<Rightarrow> metric list \<times> metric_values" where
  "NewMetrics workload enableEval =
     (let l = (if workload = [] then [] else [(''workload'', workload)])
      in (base_metrics l @ (if enableEval then eval_metrics l else []), no_values enableEval))"

text \<open>\<open>MustRegister\<close> panics on a second metric of one name: it cannot here.\<close>

lemma registered_names_distinct: "distinct (map me_name (fst (NewMetrics workload enableEval)))"
proof -
  have "distinct (map me_name (base_metrics l @ eval_metrics l))" for l
    by (simp only: base_metrics_def eval_metrics_def append_Cons append_Nil list.map metric.select_convs) code_simp
  then show ?thesis by (simp add: NewMetrics_def Let_def)
qed

definition RecordEval :: "bool \<Rightarrow> metric_values \<Rightarrow> metric_values" where
  "RecordEval correct m =
     (case mv_eval m of
        None \<Rightarrow> m
      | Some (t, c, i) \<Rightarrow> m\<lparr>mv_eval := Some (t + 1, if correct then c + 1 else c, if correct then i else i + 1)\<rparr>)"

section \<open>The metrics of one request\<close>

definition count_label :: "string \<Rightarrow> (string \<Rightarrow> nat) \<Rightarrow> string \<Rightarrow> nat" where
  "count_label l f = f(l := f l + 1)"

text \<open>\<open>rec\<close> is the record that \<open>recordResult\<close> has filled in.\<close>

definition emit_metrics :: "Result \<Rightarrow> Conversation \<Rightarrow> Record \<Rightarrow> metric_values \<Rightarrow> metric_values" where
  "emit_metrics result conv rec m =
     (case res_err result of
        Some e \<Rightarrow> m\<lparr>mv_requests := count_label ''error'' (mv_requests m)\<rparr>
      | None \<Rightarrow>
          let m1 = (if ExpectedAnswer conv = [] then m else RecordEval (EvalCorrect rec = Some True) m);
              m2 = m1\<lparr>mv_requests := count_label ''ok'' (mv_requests m1)\<rparr>;
              m3 = (if rec_FinishReason rec = [] then m2 else m2\<lparr>mv_reasons := count_label (rec_FinishReason rec) (mv_reasons m2)\<rparr>);
              m4 = (if 0 < rec_TTFT rec then m3\<lparr>mv_ttft := mv_ttft m3 @ [fdiv (rec_TTFT rec) 1000]\<rparr> else m3);
              itls = map (\<lambda>itl. fdiv itl 1000) (rec_ITLs rec)
          in m4\<lparr>mv_itl := mv_itl m4 @ itls, mv_itl_summary := mv_itl_summary m4 @ itls, mv_e2e := mv_e2e m4 @ [fdiv (TotalLatencyMs rec) 1000],
                mv_output := mv_output m4 @ [f64_of_int (rec_OutputTokens rec)], mv_prompt := mv_prompt m4 @ [f64_of_int (PromptTokens rec)]\<rparr>)"

record finished_request =
  fr_result :: Result
  fr_stream :: int
  fr_conv_id :: string
  fr_turn :: int
  fr_conv :: Conversation

definition record_of :: "submatch list \<Rightarrow> (request_error \<Rightarrow> string) \<Rightarrow> finished_request \<Rightarrow> Record" where
  "record_of mcPatterns err_text q = recordResult mcPatterns err_text (fr_result q) (fr_stream q) (fr_conv_id q) (fr_turn q) (fr_conv q)"

text \<open>The requests of a run in the order in which their goroutines come to record them.\<close>

fun record_all :: "submatch list \<Rightarrow> (request_error \<Rightarrow> string) \<Rightarrow> finished_request list \<Rightarrow> Record list \<times> metric_values \<Rightarrow> Record list \<times> metric_values" where
  "record_all mcPatterns err_text [] s = s"
| "record_all mcPatterns err_text (q # qs) (rs, m) =
     (let rec = record_of mcPatterns err_text q
      in record_all mcPatterns err_text qs (rs @ [rec], emit_metrics (fr_result q) (fr_conv q) rec m))"

definition count_if :: "('a \<Rightarrow> bool) \<Rightarrow> 'a list \<Rightarrow> nat" where
  "count_if P xs = length (filter P xs)"

lemma count_if_simps [simp]: "count_if P [] = 0" "count_if P (x # xs) = (if P x then 1 else 0) + count_if P xs" "count_if P (xs @ ys) = count_if P xs + count_if P ys"
  by (simp_all add: count_if_def)

text \<open>What the values of the metrics are in terms of the records alone.\<close>

definition values_of_records :: "bool \<Rightarrow> Record list \<Rightarrow> metric_values" where
  "values_of_records eval rs =
     (let oks = filter (\<lambda>r. Status r = ''ok'') rs
      in \<lparr>mv_requests = (\<lambda>s. count_if (\<lambda>r. Status r = s) rs),
          mv_reasons = (\<lambda>x. if x = [] then 0 else count_if (\<lambda>r. rec_FinishReason r = x) oks),
          mv_eval = (if eval then Some (count_if (\<lambda>r. EvalCorrect r \<noteq> None) rs, count_if (\<lambda>r. EvalCorrect r = Some True) rs,
             count_if (\<lambda>r. EvalCorrect r = Some False) rs) else None),
          mv_ttft = map (\<lambda>r. fdiv (rec_TTFT r) 1000) (filter (\<lambda>r. 0 < rec_TTFT r) oks),
          mv_itl = concat (map (\<lambda>r. map (\<lambda>itl. fdiv itl 1000) (rec_ITLs r)) oks),
          mv_itl_summary = concat (map (\<lambda>r. map (\<lambda>itl. fdiv itl 1000) (rec_ITLs r)) oks),
          mv_e2e = map (\<lambda>r. fdiv (TotalLatencyMs r) 1000) oks,
          mv_output = map (\<lambda>r. f64_of_int (rec_OutputTokens r)) oks,
          mv_prompt = map (\<lambda>r. f64_of_int (PromptTokens r)) oks\<rparr>)"

lemma record_of_status:
  "res_err (fr_result q) = None \<Longrightarrow> Status (record_of p t q) = ''ok''"
  "res_err (fr_result q) = Some e \<Longrightarrow> Status (record_of p t q) = ''error'' \<and> EvalCorrect (record_of p t q) = None"
  "res_err (fr_result q) = None \<Longrightarrow> (EvalCorrect (record_of p t q) = None) = (ExpectedAnswer (fr_conv q) = [])"
  by (auto simp: record_of_def recordResult_def Let_def split: option.split prod.split)

lemma count_if_label: "(\<lambda>s. count_if (\<lambda>r. f r = s) (rs @ [r])) = count_label (f r) (\<lambda>s. count_if (\<lambda>r. f r = s) rs)"
  by (auto simp: count_label_def)

lemma values_snoc_error:
  assumes "Status r = ''error''" "EvalCorrect r = None"
  shows "values_of_records eval (rs @ [r]) = (let m = values_of_records eval rs in m\<lparr>mv_requests := count_label ''error'' (mv_requests m)\<rparr>)"
  using assms by (simp add: values_of_records_def Let_def count_if_label del: count_if_simps(3)) (simp add: assms)

lemma values_snoc_ok:
  assumes "Status r = ''ok''"
  shows "values_of_records eval (rs @ [r]) =
    (let m = values_of_records eval rs; itls = map (\<lambda>itl. fdiv itl 1000) (rec_ITLs r)
     in m\<lparr>mv_requests := count_label ''ok'' (mv_requests m),
          mv_reasons := (if rec_FinishReason r = [] then mv_reasons m else count_label (rec_FinishReason r) (mv_reasons m)),
          mv_eval := (case EvalCorrect r of None \<Rightarrow> mv_eval m | Some b \<Rightarrow> mv_eval (RecordEval b m)),
          mv_ttft := mv_ttft m @ (if 0 < rec_TTFT r then [fdiv (rec_TTFT r) 1000] else []),
          mv_itl := mv_itl m @ itls, mv_itl_summary := mv_itl_summary m @ itls, mv_e2e := mv_e2e m @ [fdiv (TotalLatencyMs r) 1000],
          mv_output := mv_output m @ [f64_of_int (rec_OutputTokens r)], mv_prompt := mv_prompt m @ [f64_of_int (PromptTokens r)]\<rparr>)"
  by (rule metric_values.equality)
    (use assms in \<open>auto simp: values_of_records_def Let_def RecordEval_def count_label_def fun_eq_iff split: option.split\<close>)

lemma RecordEval_fields:
  "mv_requests (RecordEval b m) = mv_requests m" "mv_reasons (RecordEval b m) = mv_reasons m" "mv_ttft (RecordEval b m) = mv_ttft m"
  "mv_itl (RecordEval b m) = mv_itl m" "mv_itl_summary (RecordEval b m) = mv_itl_summary m" "mv_e2e (RecordEval b m) = mv_e2e m"
  "mv_output (RecordEval b m) = mv_output m" "mv_prompt (RecordEval b m) = mv_prompt m"
  by (auto simp: RecordEval_def split: option.split)

lemma emit_follows_record:
  "emit_metrics (fr_result q) (fr_conv q) (record_of p t q) (values_of_records eval rs) = values_of_records eval (rs @ [record_of p t q])"
proof (cases "res_err (fr_result q)")
  case (Some e)
  then show ?thesis using record_of_status(2) [OF Some, of p t] by (simp add: emit_metrics_def values_snoc_error Let_def)
next
  case None
  show ?thesis
  proof (cases "EvalCorrect (record_of p t q)")
    case no_grade: None
    then have "ExpectedAnswer (fr_conv q) = []" using record_of_status(3) [OF None] by simp
    then show ?thesis by (simp add: emit_metrics_def values_snoc_ok record_of_status(1) Let_def None no_grade)
  next
    case (Some b)
    then have "ExpectedAnswer (fr_conv q) \<noteq> []" using record_of_status(3) [OF None, of p t] by simp
    then show ?thesis
      by (simp add: emit_metrics_def values_snoc_ok record_of_status(1) Let_def None Some RecordEval_fields)
  qed
qed

lemma record_all_follows_records:
  "record_all p t qs (rs, values_of_records eval rs) = (rs @ map (record_of p t) qs, values_of_records eval (rs @ map (record_of p t) qs))"
  by (induction qs arbitrary: rs) (simp_all add: Let_def emit_follows_record)

lemma values_of_no_records: "values_of_records eval [] = no_values eval"
  by (simp add: values_of_records_def no_values_def fun_eq_iff)

lemma eval_counts_add_up:
  "count_if (\<lambda>r. EvalCorrect r \<noteq> None) rs = count_if (\<lambda>r. EvalCorrect r = Some True) rs + count_if (\<lambda>r. EvalCorrect r = Some False) rs"
proof (induction rs)
  case (Cons r rs)
  have "EvalCorrect r = None \<or> EvalCorrect r = Some True \<or> EvalCorrect r = Some False" by (metis (full_types) option.exhaust)
  with Cons show ?case by auto
qed simp

text \<open>
  Property C40. Whatever the order in which the requests of a run are recorded, the metrics say exactly what the records say: the requests by status and by
  finish reason, the observed times and tokens, and, when the workload is an evaluation, totals that are the number of graded records and the sum of the
  correct and the incorrect ones; a workload that is no evaluation has no such counters.
\<close>
theorem metrics_follow_records:
  "record_all p t qs ([], snd (NewMetrics workload eval)) =
     (map (record_of p t) qs, values_of_records eval (map (record_of p t) qs)) \<and>
   (case mv_eval (snd (record_all p t qs ([], snd (NewMetrics workload eval)))) of
      None \<Rightarrow> \<not> eval | Some (n, c, i) \<Rightarrow> eval \<and> n = c + i \<and> n = count_if (\<lambda>r. EvalCorrect r \<noteq> None) (map (record_of p t) qs)) \<and>
   mv_requests (snd (record_all p t qs ([], snd (NewMetrics workload eval)))) ''ok'' +
     mv_requests (snd (record_all p t qs ([], snd (NewMetrics workload eval)))) ''error'' = length qs"
proof -
  have all: "record_all p t qs ([], snd (NewMetrics workload eval)) = (map (record_of p t) qs, values_of_records eval (map (record_of p t) qs))"
    using record_all_follows_records [of p t qs "[]" eval] by (simp add: NewMetrics_def Let_def values_of_no_records)
  have "count_if (\<lambda>r. Status r = ''ok'') (map (record_of p t) qs) + count_if (\<lambda>r. Status r = ''error'') (map (record_of p t) qs) = length qs"
  proof (induction qs)
    case (Cons q qs)
    then show ?case by (cases "res_err (fr_result q)") (auto simp: record_of_status)
  qed simp
  then show ?thesis using eval_counts_add_up [of "map (record_of p t) qs"] by (simp add: all values_of_records_def Let_def)
qed

section \<open>The gauge of requests in flight\<close>

text \<open>\<open>trackInFlight\<close> adds to an atomic counter and then sets the gauge to what it read: between the two, other goroutines may do the same. Goroutines that
  have counted their request but not yet set the gauge are listed with what they read; \<open>gs_sending\<close> requests are under way.\<close>

record gauge_state =
  gs_in_flight :: int
  gs_gauge :: int
  gs_starting :: "int list"
  gs_sending :: nat
  gs_ending :: "int list"

definition gauge_init :: gauge_state where
  "gauge_init = \<lparr>gs_in_flight = 0, gs_gauge = 0, gs_starting = [], gs_sending = 0, gs_ending = []\<rparr>"

definition begin_request :: "gauge_state \<Rightarrow> gauge_state option" where
  "begin_request s = (let n = gs_in_flight s + 1 in Some (s\<lparr>gs_in_flight := n, gs_starting := gs_starting s @ [n]\<rparr>))"

definition set_start :: "nat \<Rightarrow> gauge_state \<Rightarrow> gauge_state option" where
  "set_start i s =
     (if i < length (gs_starting s)
      then Some (s\<lparr>gs_gauge := gs_starting s ! i, gs_starting := drop_nth i (gs_starting s), gs_sending := gs_sending s + 1\<rparr>) else None)"

definition end_request :: "gauge_state \<Rightarrow> gauge_state option" where
  "end_request s =
     (if 0 < gs_sending s
      then let n = gs_in_flight s + (-1) in Some (s\<lparr>gs_in_flight := n, gs_sending := gs_sending s - 1, gs_ending := gs_ending s @ [n]\<rparr>) else None)"

definition set_end :: "nat \<Rightarrow> gauge_state \<Rightarrow> gauge_state option" where
  "set_end i s =
     (if i < length (gs_ending s) then Some (s\<lparr>gs_gauge := gs_ending s ! i, gs_ending := drop_nth i (gs_ending s)\<rparr>) else None)"

inductive gauge_reach :: "gauge_state \<Rightarrow> bool" where
  "gauge_reach gauge_init"
| "gauge_reach s \<Longrightarrow> begin_request s = Some s' \<Longrightarrow> gauge_reach s'"
| "gauge_reach s \<Longrightarrow> set_start i s = Some s' \<Longrightarrow> gauge_reach s'"
| "gauge_reach s \<Longrightarrow> end_request s = Some s' \<Longrightarrow> gauge_reach s'"
| "gauge_reach s \<Longrightarrow> set_end i s = Some s' \<Longrightarrow> gauge_reach s'"

lemma length_drop_nth [simp]: "i < length xs \<Longrightarrow> length (drop_nth i xs) = length xs - 1"
  by (simp add: drop_nth_def)

lemma set_drop_nth: "set (drop_nth i xs) \<subseteq> set xs"
  unfolding drop_nth_def using set_take_subset [of i xs] set_drop_subset [of "Suc i" xs] by auto

text \<open>The counter is exact; the gauge is never negative.\<close>

lemma in_flight_exact:
  "gauge_reach s \<Longrightarrow> gs_in_flight s = int (length (gs_starting s) + gs_sending s) \<and> 0 \<le> gs_gauge s \<and> (\<forall>n\<in>set (gs_starting s) \<union> set (gs_ending s). 0 \<le> n)"
proof (induction rule: gauge_reach.induct)
  case (3 s i s')
  then show ?case using set_drop_nth [of i "gs_starting s"] by (auto simp: set_start_def split: if_splits)
next
  case (5 s i s')
  then show ?case using set_drop_nth [of i "gs_ending s"] by (auto simp: set_end_def split: if_splits)
qed (auto simp: gauge_init_def begin_request_def end_request_def Let_def split: if_splits)

text \<open>Two requests that end together can leave the gauge at 1 with nothing in flight: the later of the two counts first sets the gauge last.\<close>

lemma gauge_may_stay_behind: "\<exists>s. gauge_reach s \<and> gs_starting s = [] \<and> gs_sending s = 0 \<and> gs_ending s = [] \<and> gs_in_flight s = 0 \<and> gs_gauge s = 1"
proof -
  define s where "s g i b n e = \<lparr>gs_in_flight = i, gs_gauge = g, gs_starting = b, gs_sending = n, gs_ending = e\<rparr>" for g i b n e
  note step = gauge_reach.intros(2-)
  have "gauge_reach (s 0 0 [] 0 [])" using gauge_reach.intros(1) by (simp add: gauge_init_def s_def)
  then have "gauge_reach (s 0 1 [1] 0 [])" by (rule step(1)) (simp add: begin_request_def s_def)
  then have "gauge_reach (s 1 1 [] 1 [])" by (rule step(2) [where i = 0]) (simp add: set_start_def s_def drop_nth_def)
  then have "gauge_reach (s 1 2 [2] 1 [])" by (rule step(1)) (simp add: begin_request_def s_def)
  then have "gauge_reach (s 2 2 [] 2 [])" by (rule step(2) [where i = 0]) (simp add: set_start_def s_def drop_nth_def)
  then have "gauge_reach (s 2 1 [] 1 [1])" by (rule step(3)) (simp add: end_request_def s_def)
  then have "gauge_reach (s 2 0 [] 0 [1, 0])" by (rule step(3)) (simp add: end_request_def s_def)
  then have "gauge_reach (s 0 0 [] 0 [1])" by (rule step(4) [where i = 1]) (simp add: set_end_def s_def drop_nth_def)
  then have "gauge_reach (s 1 0 [] 0 [])" by (rule step(4) [where i = 0]) (simp add: set_end_def s_def drop_nth_def)
  then show ?thesis by (intro exI [of _ "s 1 0 [] 0 []"]) (simp add: s_def)
qed

section \<open>The progress of an evaluation\<close>

text \<open>A goroutine that has graded a response counts it, credits it when it is correct, and every hundredth reports the two counters. \<open>(total, correct,
  credited)\<close> describes one between its first and its last step.\<close>

record eval_progress =
  ep_total :: nat
  ep_correct :: nat
  ep_open :: "(nat \<times> bool \<times> bool) list"
  ep_reports :: "(nat \<times> nat) list"

definition count_graded :: "bool \<Rightarrow> eval_progress \<Rightarrow> eval_progress option" where
  "count_graded correct s = Some (s\<lparr>ep_total := ep_total s + 1, ep_open := ep_open s @ [(ep_total s + 1, correct, False)]\<rparr>)"

definition credit :: "nat \<Rightarrow> eval_progress \<Rightarrow> eval_progress option" where
  "credit i s =
     (if i < length (ep_open s)
      then (case ep_open s ! i of
              (t, True, False) \<Rightarrow> Some (s\<lparr>ep_correct := ep_correct s + 1, ep_open := (ep_open s)[i := (t, True, True)]\<rparr>) | _ \<Rightarrow> None)
      else None)"

definition report :: "nat \<Rightarrow> eval_progress \<Rightarrow> eval_progress option" where
  "report i s =
     (if i < length (ep_open s)
      then (case ep_open s ! i of
              (t, correct, credited) \<Rightarrow>
                if correct = credited
                then Some (s\<lparr>ep_open := drop_nth i (ep_open s), ep_reports := ep_reports s @ (if t mod 100 = 0 then [(t, ep_correct s)] else [])\<rparr>)
                else None)
      else None)"

inductive progress_reach :: "eval_progress \<Rightarrow> bool" where
  "progress_reach \<lparr>ep_total = 0, ep_correct = 0, ep_open = [], ep_reports = []\<rparr>"
| "progress_reach s \<Longrightarrow> count_graded c s = Some s' \<Longrightarrow> progress_reach s'"
| "progress_reach s \<Longrightarrow> credit i s = Some s' \<Longrightarrow> progress_reach s'"
| "progress_reach s \<Longrightarrow> report i s = Some s' \<Longrightarrow> progress_reach s'"

definition uncredited :: "eval_progress \<Rightarrow> nat" where
  "uncredited s = count_if (\<lambda>(t, correct, credited). correct \<and> \<not> credited) (ep_open s)"

lemma count_if_drop_nth: "i < length xs \<Longrightarrow> count_if P xs = count_if P (drop_nth i xs) + (if P (xs ! i) then 1 else 0)"
  using id_take_nth_drop [of i xs] by (metis (no_types, lifting) add.assoc add.commute count_if_simps(2,3) drop_nth_def)

lemma count_if_update: "i < length xs \<Longrightarrow> count_if P (xs[i := x]) + (if P (xs ! i) then 1 else 0) = count_if P xs + (if P x then 1 else 0)"
  using count_if_drop_nth [of i xs P] count_if_drop_nth [of i "xs[i := x]" P] by (simp add: drop_nth_def)

text \<open>The counters themselves never say that more was correct than was graded ...\<close>

lemma credited_at_most_graded: "progress_reach s \<Longrightarrow> ep_correct s + uncredited s \<le> ep_total s"
proof (induction rule: progress_reach.induct)
  case (3 s i s')
  then show ?case
    using count_if_update [of i "ep_open s" "\<lambda>(t, correct, credited). correct \<and> \<not> credited" "(fst (ep_open s ! i), True, True)"]
    by (auto simp: credit_def uncredited_def split: if_splits prod.splits bool.splits)
next
  case (4 s i s')
  then show ?case
    using count_if_drop_nth [of i "ep_open s" "\<lambda>(t, correct, credited). correct \<and> \<not> credited"]
    by (auto simp: report_def uncredited_def split: if_splits prod.splits)
qed (auto simp: count_graded_def uncredited_def)

text \<open>... but a report pairs its own total with the credits of later responses, and may claim more than all of them.\<close>

lemma all_credited_reachable:
  "progress_reach \<lparr>ep_total = n, ep_correct = n, ep_open = map (\<lambda>t. (t, True, True)) [1..<Suc n], ep_reports = []\<rparr>"
proof (induction n)
  case 0
  then show ?case using progress_reach.intros(1) by simp
next
  case (Suc n)
  let ?o = "map (\<lambda>t. (t, True, True)) [1..<Suc n]"
  have "progress_reach \<lparr>ep_total = Suc n, ep_correct = n, ep_open = ?o @ [(Suc n, True, False)], ep_reports = []\<rparr>"
    using Suc by (rule progress_reach.intros(2) [where c = True]) (simp add: count_graded_def)
  then have "progress_reach \<lparr>ep_total = Suc n, ep_correct = Suc n, ep_open = ?o @ [(Suc n, True, True)], ep_reports = []\<rparr>"
    by (rule progress_reach.intros(3) [where i = n]) (simp add: credit_def nth_append list_update_append del: upt_Suc)
  then show ?case by simp
qed

lemma report_may_exceed_all: "\<exists>s. progress_reach s \<and> (100, 101) \<in> set (ep_reports s)"
proof -
  let ?o = "map (\<lambda>t. (t, True, True)) [1..<Suc 101]"
  have "progress_reach \<lparr>ep_total = 101, ep_correct = 101, ep_open = drop_nth 99 ?o, ep_reports = [(100, 101)]\<rparr>"
    using all_credited_reachable [of 101] by (rule progress_reach.intros(4) [where i = 99]) (simp add: report_def del: upt_Suc)
  then show ?thesis by fastforce
qed

end
