(* ===== verification/Go_Duration.thy ===== *)
theory Go_Duration
  imports Go_Float Go_Strings
begin

text \<open>
  Package \<open>time\<close>: \<open>Duration.String\<close> and \<open>ParseDuration\<close>, and that parsing what was printed gives the duration back for every 64-bit
  value. Texts are byte strings; the micro sign is two bytes. Magnitudes are naturals, as the functions work on \<open>uint64\<close>.
\<close>

section \<open>Printing\<close>

text \<open>\<open>fmtFrac\<close>: the last digits of a number as a fraction without trailing zeros, and the number without them.\<close>

fun fmt_frac :: "nat \<Rightarrow> nat \<Rightarrow> bool \<Rightarrow> string \<Rightarrow> string \<times> nat" where
  "fmt_frac 0 v shown acc = (if shown then CHR ''.'' # acc else acc, v)"
| "fmt_frac (Suc n) v shown acc =
     (let d = v mod 10; shown' = (shown \<or> d \<noteq> 0)
      in fmt_frac n (v div 10) shown' (if shown' then digit_char d # acc else acc))"

definition micro_sign :: string where
  "micro_sign = [CHR 0xC2, CHR 0xB5]"

definition small_duration :: "nat \<Rightarrow> string" where
  "small_duration u =
     (if u = 0 then ''0s''
      else if u < 1000 then nat_to_dec u @ ''ns''
      else if u < 1000000 then (let (fs, v) = fmt_frac 3 u False [] in nat_to_dec v @ fs @ micro_sign @ ''s'')
      else (let (fs, v) = fmt_frac 6 u False [] in nat_to_dec v @ fs @ ''ms''))"

definition large_duration :: "nat \<Rightarrow> string" where
  "large_duration u =
     (let (fs, v) = fmt_frac 9 u False []; seconds = nat_to_dec (v mod 60) @ fs @ ''s''; m = v div 60; h = m div 60
      in if m = 0 then seconds
         else if h = 0 then nat_to_dec (m mod 60) @ ''m'' @ seconds
         else nat_to_dec h @ ''h'' @ nat_to_dec (m mod 60) @ ''m'' @ seconds)"

definition duration_string :: "duration \<Rightarrow> string" where
  "duration_string d =
     (let u = nat \<bar>d\<bar>; t = (if u < 1000000000 then small_duration u else large_duration u)
      in if d < 0 then CHR ''-'' # t else t)"

section \<open>Parsing\<close>

fun leading_int :: "nat \<Rightarrow> string \<Rightarrow> (nat \<times> string) option" where
  "leading_int x [] = Some (x, [])"
| "leading_int x (c # s) =
     (if \<not> is_digit c then Some (x, c # s)
      else if x > 2 ^ 63 div 10 then None
      else let y = 10 * x + digit_val c in if y > 2 ^ 63 then None else leading_int y s)"

fun leading_fraction :: "bool \<Rightarrow> nat \<Rightarrow> nat \<Rightarrow> string \<Rightarrow> nat \<times> nat \<times> string" where
  "leading_fraction over x scale [] = (x, scale, [])"
| "leading_fraction over x scale (c # s) =
     (if \<not> is_digit c then (x, scale, c # s)
      else if over \<or> x > (2 ^ 63 - 1) div 10 then leading_fraction True x scale s
      else let y = 10 * x + digit_val c
           in if y > 2 ^ 63 then leading_fraction True x scale s else leading_fraction False y (10 * scale) s)"

definition duration_unit :: "string \<Rightarrow> nat option" where
  "duration_unit u =
     (if u = ''ns'' then Some 1
      else if u = ''us'' \<or> u = micro_sign @ ''s'' \<or> u = [CHR 0xCE, CHR 0xBC] @ ''s'' then Some 1000
      else if u = ''ms'' then Some 1000000
      else if u = ''s'' then Some 1000000000
      else if u = ''m'' then Some 60000000000
      else if u = ''h'' then Some 3600000000000
      else None)"

definition number_char :: "char \<Rightarrow> bool" where
  "number_char c \<longleftrightarrow> c = CHR ''.'' \<or> is_digit c"

text \<open>The value of a fraction in nanoseconds, computed in floating point as the library does.\<close>

definition fraction_part :: "nat \<Rightarrow> nat \<Rightarrow> nat \<Rightarrow> nat" where
  "fraction_part f scale unit = nat \<lfloor>fmul (f64_of_int (int f)) (fdiv (of_nat unit) (of_nat scale))\<rfloor>"

definition group_fraction :: "string \<Rightarrow> nat \<times> nat \<times> string" where
  "group_fraction s = (if s \<noteq> [] \<and> hd s = CHR ''.'' then leading_fraction False 0 1 (tl s) else (0, 1, s))"

definition parse_group :: "string \<Rightarrow> (nat \<times> string) option" where
  "parse_group s =
     (if s = [] \<or> \<not> number_char (hd s) then None
      else case leading_int 0 s of
        None \<Rightarrow> None
      | Some (v, s1) \<Rightarrow>
          let pre = (length s1 \<noteq> length s);
              (f, scale, s2) = group_fraction s1;
              post = (s1 \<noteq> [] \<and> hd s1 = CHR ''.'' \<and> length s2 \<noteq> length (tl s1));
              u = takeWhile (\<lambda>c. \<not> number_char c) s2; s3 = dropWhile (\<lambda>c. \<not> number_char c) s2
          in if \<not> pre \<and> \<not> post \<or> u = [] then None
             else case duration_unit u of
               None \<Rightarrow> None
             | Some unit \<Rightarrow>
                 if v > 2 ^ 63 div unit then None
                 else let w = (if f > 0 then v * unit + fraction_part f scale unit else v * unit)
                      in if w > 2 ^ 63 then None else Some (w, s3))"

lemma leading_int_length: "leading_int x s = Some (v, r) \<Longrightarrow> length r \<le> length s"
  by (induction x s rule: leading_int.induct) (auto simp: Let_def split: if_splits)

lemma leading_fraction_length: "leading_fraction o' x k s = (f, scale, r) \<Longrightarrow> length r \<le> length s"
  by (induction o' x k s rule: leading_fraction.induct) (auto simp: Let_def split: if_splits)

lemma parse_group_shorter: "parse_group s = Some (w, r) \<Longrightarrow> length r < length s"
proof -
  assume a: "parse_group s = Some (w, r)"
  then obtain v s1 where i: "leading_int 0 s = Some (v, s1)" by (auto simp: parse_group_def split: if_splits option.splits)
  obtain f scale s2 where f: "group_fraction s1 = (f, scale, s2)" by (metis prod_cases3)
  have "length s2 \<le> length s1" using f leading_fraction_length [of False 0 1 "tl s1"]
    by (fastforce simp: group_fraction_def split: if_splits)
  moreover have "length s1 \<le> length s" by (rule leading_int_length [OF i])
  moreover have "takeWhile (\<lambda>c. \<not> number_char c) s2 \<noteq> []" and r: "r = dropWhile (\<lambda>c. \<not> number_char c) s2"
    using a i f by (auto simp: parse_group_def Let_def split: if_splits option.splits)
  then have "0 < length (takeWhile (\<lambda>c. \<not> number_char c) s2)" by simp
  moreover have "length (takeWhile (\<lambda>c. \<not> number_char c) s2) + length r = length s2"
    unfolding r by (metis length_append takeWhile_dropWhile_id)
  ultimately show ?thesis by linarith
qed

text \<open>The sum of the groups is a \<open>uint64\<close>, which wraps around before it is compared with the bound.\<close>

function parse_groups :: "nat \<Rightarrow> string \<Rightarrow> nat option" where
  "parse_groups d s =
     (if s = [] then Some d
      else case parse_group s of
        None \<Rightarrow> None
      | Some (w, r) \<Rightarrow> (let e = (d + w) mod 2 ^ 64 in if e > 2 ^ 63 then None else parse_groups e r))"
  by pat_completeness auto
termination
  by (relation "measure (\<lambda>(d, s). length s)") (auto simp: parse_group_shorter)

declare parse_groups.simps [simp del]

definition parse_duration :: "string \<Rightarrow> duration option" where
  "parse_duration s =
     (let neg = (s \<noteq> [] \<and> hd s = CHR ''-''); t = (if s \<noteq> [] \<and> (hd s = CHR ''-'' \<or> hd s = CHR ''+'') then tl s else s)
      in if t = ''0'' then Some 0
         else if t = [] then None
         else case parse_groups 0 t of
           None \<Rightarrow> None
         | Some d \<Rightarrow> if neg then Some (wrap64 (- int d)) else if d > 2 ^ 63 - 1 then None else Some (int d))"

section \<open>Parsing what was printed\<close>

declare number_char_def [simp]

definition ends_number :: "string \<Rightarrow> bool" where
  "ends_number r \<longleftrightarrow> (r = [] \<or> \<not> is_digit (hd r))"

lemma dec_fold: "foldl (\<lambda>n c. 10 * n + digit_val c) x ds = x * 10 ^ length ds + dec_to_nat ds"
proof (induction ds rule: rev_induct)
  case (snoc c ds)
  then show ?case by (simp add: dec_to_nat_snoc algebra_simps)
qed (simp add: dec_to_nat_def)

lemma leading_int_digits:
  assumes "list_all is_digit ds" "ends_number r" "x * 10 ^ length ds + dec_to_nat ds \<le> 2 ^ 63"
  shows "leading_int x (ds @ r) = Some (x * 10 ^ length ds + dec_to_nat ds, r)"
  using assms
proof (induction ds arbitrary: x)
  case Nil
  then show ?case by (cases r) (auto simp: ends_number_def dec_to_nat_def)
next
  case (Cons c ds)
  let ?y = "10 * x + digit_val c"
  have e: "x * 10 ^ length (c # ds) + dec_to_nat (c # ds) = ?y * 10 ^ length ds + dec_to_nat ds"
    using dec_fold [of x "c # ds"] dec_fold [of ?y ds] by simp
  have "?y * 10 ^ length ds \<le> 2 ^ 63" using Cons.prems(3) unfolding e by linarith
  then have y: "?y \<le> 2 ^ 63" by (metis le_trans mult.right_neutral mult_le_mono2 one_le_numeral one_le_power)
  then have "x \<le> 2 ^ 63 div 10" by linarith
  then show ?case
    using Cons.IH [of ?y] Cons.prems y unfolding e by (simp add: Let_def)
qed

lemma leading_fraction_digits:
  assumes "list_all is_digit ds" "ends_number r" "x * 10 ^ length ds + dec_to_nat ds < 10 ^ 18"
  shows "leading_fraction False x k (ds @ r) = (x * 10 ^ length ds + dec_to_nat ds, k * 10 ^ length ds, r)"
  using assms
proof (induction ds arbitrary: x k)
  case Nil
  then show ?case by (cases r) (auto simp: ends_number_def dec_to_nat_def)
next
  case (Cons c ds)
  let ?y = "10 * x + digit_val c"
  have e: "x * 10 ^ length (c # ds) + dec_to_nat (c # ds) = ?y * 10 ^ length ds + dec_to_nat ds"
    using dec_fold [of x "c # ds"] dec_fold [of ?y ds] by simp
  have "?y * 10 ^ length ds < 10 ^ 18" using Cons.prems(3) unfolding e by linarith
  then have y: "?y < 10 ^ 18" by (metis le_less_trans mult.right_neutral mult_le_mono2 one_le_numeral one_le_power)
  then have "x \<le> (2 ^ 63 - 1) div 10" "?y \<le> 2 ^ 63" by simp_all
  then show ?case
    using Cons.IH [of ?y "10 * k"] Cons.prems unfolding e by (simp add: Let_def mult.assoc mult.left_commute)
qed

text \<open>A fraction with at most nine digits.\<close>

definition is_fraction :: "string \<Rightarrow> nat \<Rightarrow> nat \<Rightarrow> bool" where
  "is_fraction fs p w \<longleftrightarrow>
     (fs = [] \<and> w = 0) \<or>
     (\<exists>ds. fs = CHR ''.'' # ds \<and> ds \<noteq> [] \<and> list_all is_digit ds \<and> length ds \<le> p \<and> dec_to_nat ds < 10 ^ length ds \<and>
        dec_to_nat ds * 10 ^ (p - length ds) = w)"

lemma dec_to_nat_digit_Cons: "d < 10 \<Longrightarrow> dec_to_nat (digit_char d # ds) = d * 10 ^ length ds + dec_to_nat ds"
  using dec_fold [of d ds] by (simp add: dec_to_nat_def)

lemma fmt_frac_shown:
  "list_all is_digit acc \<Longrightarrow>
   \<exists>ds. fmt_frac n v True acc = (CHR ''.'' # ds @ acc, v div 10 ^ n) \<and> list_all is_digit ds \<and> length ds = n \<and> dec_to_nat ds = v mod 10 ^ n"
proof (induction n arbitrary: v acc)
  case 0
  then show ?case by (simp add: dec_to_nat_def)
next
  case (Suc n)
  have "list_all is_digit (digit_char (v mod 10) # acc)" using Suc.prems by simp
  from Suc.IH [OF this, of "v div 10"] obtain ds where
    ds: "fmt_frac n (v div 10) True (digit_char (v mod 10) # acc) = (CHR ''.'' # ds @ digit_char (v mod 10) # acc, v div 10 div 10 ^ n)"
      "list_all is_digit ds" "length ds = n" "dec_to_nat ds = v div 10 mod 10 ^ n" by blast
  have "fmt_frac (Suc n) v True acc = (CHR ''.'' # (ds @ [digit_char (v mod 10)]) @ acc, v div 10 ^ Suc n)"
    using ds(1) by (simp add: Let_def div_mult2_eq)
  moreover have "dec_to_nat (ds @ [digit_char (v mod 10)]) = v mod 10 ^ Suc n"
    using ds(4) mod_mult2_eq [of v 10 "10 ^ n"] by (simp add: dec_to_nat_snoc)
  ultimately show ?case using ds(2,3)
    by (intro exI [of _ "ds @ [digit_char (v mod 10)]"]) simp
qed

lemma fmt_frac_is_fraction:
  "\<exists>fs. fmt_frac p v False [] = (fs, v div 10 ^ p) \<and> is_fraction fs p (v mod 10 ^ p)"
proof (induction p arbitrary: v)
  case 0
  then show ?case by (simp add: is_fraction_def)
next
  case (Suc p)
  show ?case
  proof (cases "v mod 10 = 0")
    case True
    from Suc.IH [of "v div 10"] obtain fs where
      fs: "fmt_frac p (v div 10) False [] = (fs, v div 10 div 10 ^ p)" "is_fraction fs p (v div 10 mod 10 ^ p)" by blast
    have "v mod 10 ^ Suc p = 10 * (v div 10 mod 10 ^ p)" using mod_mult2_eq [of v 10 "10 ^ p"] True by simp
    then have "is_fraction fs (Suc p) (v mod 10 ^ Suc p)"
      using fs(2) by (auto simp: is_fraction_def Suc_diff_le)
    then show ?thesis using fs(1) True by (simp add: div_mult2_eq)
  next
    case False
    have "list_all is_digit [digit_char (v mod 10)]" by simp
    from fmt_frac_shown [OF this, of p "v div 10"] obtain ds where
      ds: "fmt_frac p (v div 10) True [digit_char (v mod 10)] = (CHR ''.'' # ds @ [digit_char (v mod 10)], v div 10 div 10 ^ p)"
        "list_all is_digit ds" "length ds = p" "dec_to_nat ds = v div 10 mod 10 ^ p" by blast
    have m: "dec_to_nat (ds @ [digit_char (v mod 10)]) = v mod 10 ^ Suc p"
      using ds(4) mod_mult2_eq [of v 10 "10 ^ p"] by (simp add: dec_to_nat_snoc)
    have "is_fraction (CHR ''.'' # ds @ [digit_char (v mod 10)]) (Suc p) (v mod 10 ^ Suc p)"
      unfolding is_fraction_def using ds(2,3) m mod_less_divisor [of "10 ^ Suc p" v]
      by (intro disjI2 exI [of _ "ds @ [digit_char (v mod 10)]"]) simp
    then show ?thesis using ds(1) False by (simp add: Let_def div_mult2_eq)
  qed
qed

lemma fraction_part_exact:
  assumes "f * 10 ^ (p - k) = w" "k \<le> p" "p \<le> 9" "f < 10 ^ k"
  shows "fraction_part f (10 ^ k) (10 ^ p) = w"
proof -
  have le: "(10::nat) ^ (p - k) \<le> 10 ^ 9" "(10::nat) ^ k \<le> 10 ^ 9" by (rule power_increasing; use assms in simp)+
  have "w < 10 ^ k * 10 ^ (p - k)" unfolding assms(1) [symmetric] using assms(4) by simp
  also have "\<dots> = 10 ^ p" using assms(2) by (simp flip: power_add)
  also have "\<dots> \<le> 10 ^ 9" by (rule power_increasing) (use assms in simp_all)
  finally have w: "w < 10 ^ 9" .
  have "(10::rat) ^ p / 10 ^ k = 10 ^ (p - k)" using power_diff [of "10::rat" k p] assms(2) by simp
  then have "of_nat (10 ^ p) / of_nat (10 ^ k) = (of_nat (10 ^ (p - k)) :: rat)" by (simp only: of_nat_power of_nat_numeral)
  then have "fdiv (of_nat (10 ^ p)) (of_nat (10 ^ k)) = of_nat (10 ^ (p - k))"
    unfolding fdiv_def using f64_round_exact_nat [of "10 ^ (p - k)"] le(1) by (simp only:) simp
  moreover have "f64_of_int (int f) = of_nat f" using assms(4) le(2) by (subst f64_of_int_exact) simp_all
  ultimately have "fmul (f64_of_int (int f)) (fdiv (of_nat (10 ^ p)) (of_nat (10 ^ k))) = of_nat w"
    unfolding fmul_def using f64_round_exact_nat [of w] w by (simp only: of_nat_mult [symmetric] assms(1)) simp
  then show ?thesis by (simp add: fraction_part_def)
qed

lemma parse_group_printed:
  assumes fs: "is_fraction fs p w" and u: "duration_unit u = Some U" "u \<noteq> []" "list_all (\<lambda>c. \<not> number_char c) u"
    and r: "r = [] \<or> number_char (hd r)" and b: "n * U + w \<le> 2 ^ 63" and p: "fs = [] \<or> U = 10 ^ p" "p \<le> 9"
  shows "parse_group (nat_to_dec n @ fs @ u @ r) = Some (n * U + w, r)"
proof -
  have U: "0 < U" using u(1) by (auto simp: duration_unit_def split: if_splits)
  have n: "n \<le> 2 ^ 63 div U" using b U by (simp add: less_eq_div_iff_mult_less_eq)
  then have n': "n \<le> 2 ^ 63" by (metis div_le_dividend le_trans)
  have e: "ends_number (fs @ u @ r)" using fs u(2,3) by (cases u) (auto simp: ends_number_def is_fraction_def is_digit_def char_code_def)
  have i: "leading_int 0 (nat_to_dec n @ fs @ u @ r) = Some (n, fs @ u @ r)"
    using leading_int_digits [OF nat_to_dec_digits e, of 0 n] n' by simp
  have h: "number_char (hd (nat_to_dec n @ fs @ u @ r))"
    using nat_to_dec_digits [of n] by (cases "nat_to_dec n") auto
  have t: "takeWhile (\<lambda>c. \<not> number_char c) (u @ r) = u" "dropWhile (\<lambda>c. \<not> number_char c) (u @ r) = r"
    using u(3) r by (auto simp: takeWhile_append dropWhile_append list_all_iff takeWhile_eq_Nil_iff dropWhile_eq_self_iff hd_conv_nth [symmetric] simp del: number_char_def)
  have "\<exists>f scale. group_fraction (fs @ u @ r) = (f, scale, u @ r) \<and>
      (if f > 0 then n * U + fraction_part f scale U else n * U) = n * U + w"
  proof (cases "fs = []")
    case True
    then show ?thesis using fs u(2,3) by (cases u) (auto simp: is_fraction_def group_fraction_def)
  next
    case False
    with fs obtain ds where ds: "fs = CHR ''.'' # ds" "list_all is_digit ds" "length ds \<le> p" "dec_to_nat ds < 10 ^ length ds"
      "dec_to_nat ds * 10 ^ (p - length ds) = w" by (auto simp: is_fraction_def)
    have "(10::nat) ^ length ds \<le> 10 ^ 18" by (rule power_increasing) (use ds(3) p(2) in simp_all)
    then have "dec_to_nat ds < 10 ^ 18" using ds(4) by linarith
    moreover have "ends_number (u @ r)" using u(2,3) by (cases u) (auto simp: ends_number_def)
    ultimately have "group_fraction (fs @ u @ r) = (dec_to_nat ds, 10 ^ length ds, u @ r)"
      using leading_fraction_digits [OF ds(2), of "u @ r" 0 1] by (simp add: group_fraction_def ds(1))
    then show ?thesis using fraction_part_exact [OF ds(5,3) p(2) ds(4)] p(1) False ds(5) by auto
  qed
  then obtain f scale where f: "group_fraction (fs @ u @ r) = (f, scale, u @ r)"
    "(if f > 0 then n * U + fraction_part f scale U else n * U) = n * U + w" by blast
  show ?thesis
    unfolding parse_group_def i using h n b u(1,2) f by (simp add: t Let_def del: number_char_def)
qed

lemma duration_units:
  "duration_unit ''ns'' = Some 1" "duration_unit (micro_sign @ ''s'') = Some 1000" "duration_unit ''ms'' = Some 1000000"
  "duration_unit ''s'' = Some 1000000000" "duration_unit ''m'' = Some 60000000000" "duration_unit ''h'' = Some 3600000000000"
  by (simp_all add: duration_unit_def micro_sign_def)

lemma unit_chars:
  "list_all (\<lambda>c. \<not> number_char c) ''ns''" "list_all (\<lambda>c. \<not> number_char c) (micro_sign @ ''s'')" "list_all (\<lambda>c. \<not> number_char c) ''ms''"
  "list_all (\<lambda>c. \<not> number_char c) ''s''" "list_all (\<lambda>c. \<not> number_char c) ''m''" "list_all (\<lambda>c. \<not> number_char c) ''h''"
  by (simp_all add: micro_sign_def is_digit_def char_code_def)

lemma no_fraction: "is_fraction [] p 0"
  by (simp add: is_fraction_def)

lemma parse_groups_step:
  assumes "parse_group s = Some (w, r)" "d + w \<le> 2 ^ 63"
  shows "parse_groups d s = parse_groups (d + w) r"
  using assms by (subst parse_groups.simps) (auto simp: parse_group_def)

lemma parse_groups_end [simp]: "parse_groups d [] = Some d"
  by (simp add: parse_groups.simps)

lemma number_starts: "number_char (hd (nat_to_dec n @ s))"
  using nat_to_dec_digits [of n] by (cases "nat_to_dec n") auto

lemma parse_groups_unit:
  assumes "duration_unit u = Some U" "u \<noteq> []" "list_all (\<lambda>c. \<not> number_char c) u" "r = [] \<or> number_char (hd r)" "d + n * U \<le> 2 ^ 63"
  shows "parse_groups d (nat_to_dec n @ u @ r) = parse_groups (d + n * U) r"
  using parse_groups_step [OF parse_group_printed [OF no_fraction assms(1-4), of n 9]] assms(5) by simp

lemma parse_groups_fraction:
  assumes "fmt_frac p u False [] = (fs, v)" "duration_unit un = Some (10 ^ p)" "un \<noteq> []" "list_all (\<lambda>c. \<not> number_char c) un" "p \<le> 9"
    and "d + u \<le> 2 ^ 63"
  shows "parse_groups d (nat_to_dec v @ fs @ un) = Some (d + u)"
proof -
  have fs: "is_fraction fs p (u mod 10 ^ p)" and v: "v = u div 10 ^ p" using fmt_frac_is_fraction [of p u] assms(1) by auto
  have "v * 10 ^ p + u mod 10 ^ p = u" unfolding v by (rule div_mult_mod_eq)
  then have "parse_group (nat_to_dec v @ fs @ un @ []) = Some (u, [])"
    using parse_group_printed [OF fs assms(2-4), of "[]" v] assms(5,6) by simp
  then show ?thesis using parse_groups_step assms(6) by simp
qed

lemma fmt_frac_div: "snd (fmt_frac p v s acc) = v div 10 ^ p"
  by (induction p v s acc rule: fmt_frac.induct) (simp_all add: Let_def div_mult2_eq)

lemma parse_small:
  assumes "u < 1000000000"
  shows "parse_groups 0 (small_duration u) = Some u"
proof -
  consider "u = 0" | "0 < u" "u < 1000" | "1000 \<le> u" "u < 1000000" | "1000000 \<le> u" by linarith
  then show ?thesis
  proof cases
    case 1
    then have "small_duration u = nat_to_dec 0 @ ''s'' @ []" by (simp add: small_duration_def) code_simp
    then show ?thesis using parse_groups_unit [OF duration_units(4) _ unit_chars(4), of "[]" 0 0] 1 by simp
  next
    case 2
    then show ?thesis using parse_groups_unit [OF duration_units(1) _ unit_chars(1), of "[]" 0 u] by (simp add: small_duration_def)
  next
    case 3
    obtain fs v where f: "fmt_frac 3 u False [] = (fs, v)" by fastforce
    show ?thesis using parse_groups_fraction [OF f _ _ unit_chars(2), of 0] duration_units(2) 3 f
      by (simp add: small_duration_def micro_sign_def)
  next
    case 4
    obtain fs v where f: "fmt_frac 6 u False [] = (fs, v)" by fastforce
    show ?thesis using parse_groups_fraction [OF f _ _ unit_chars(3), of 0] duration_units(3) 4 assms f
      by (simp add: small_duration_def)
  qed
qed

lemma parse_seconds:
  assumes f: "fmt_frac 9 u False [] = (fs, v)" and d: "d + (v mod 60 * 10 ^ 9 + u mod 10 ^ 9) \<le> 2 ^ 63"
  shows "parse_groups d (nat_to_dec (v mod 60) @ fs @ ''s'') = Some (d + (v mod 60 * 10 ^ 9 + u mod 10 ^ 9))"
proof -
  have fs: "is_fraction fs 9 (u mod 10 ^ 9)" using fmt_frac_is_fraction [of 9 u] f by auto
  have "parse_group (nat_to_dec (v mod 60) @ fs @ ''s'' @ []) = Some (v mod 60 * 1000000000 + u mod 10 ^ 9, [])"
    using parse_group_printed [OF fs duration_units(4) _ unit_chars(4), of "[]" "v mod 60"] d by simp
  then show ?thesis using parse_groups_step d by simp
qed

lemma parse_large:
  assumes "u \<le> 2 ^ 63"
  shows "parse_groups 0 (large_duration u) = Some u"
proof -
  obtain fs v where f: "fmt_frac 9 u False [] = (fs, v)" by fastforce
  then have v: "v = u div 10 ^ 9" using fmt_frac_div [of 9 u False "[]"] by simp
  define m h where "m = v div 60" and "h = m div 60"
  have p: "(10::nat) ^ 9 = 1000000000" by simp
  have u: "u = h * 3600000000000 + m mod 60 * 60000000000 + (v mod 60 * 10 ^ 9 + u mod 10 ^ 9)"
    using div_mult_mod_eq [of v 60] div_mult_mod_eq [of m 60] div_mult_mod_eq [of u "10 ^ 9", folded v]
    unfolding h_def [symmetric] m_def [symmetric] p by linarith
  let ?s = "nat_to_dec (v mod 60) @ fs @ ''s''"
  have n: "number_char (hd ?s)" "number_char (hd (nat_to_dec (m mod 60) @ ''m'' @ ?s))" by (rule number_starts)+
  consider "m = 0" | "m \<noteq> 0" "h = 0" | "h \<noteq> 0" "m \<noteq> 0" by (auto simp: h_def)
  then show ?thesis
  proof cases
    case 1
    then show ?thesis using parse_seconds [OF f, of 0] u assms f by (simp add: large_duration_def m_def h_def)
  next
    case 2
    have "parse_groups 0 (nat_to_dec (m mod 60) @ ''m'' @ ?s) = parse_groups (m mod 60 * 60000000000) ?s"
      using parse_groups_unit [OF duration_units(5) _ unit_chars(5), of ?s 0 "m mod 60"] n assms u by simp
    then show ?thesis using parse_seconds [OF f] u assms f 2 by (simp add: large_duration_def Let_def m_def h_def)
  next
    case 3
    have "parse_groups 0 (nat_to_dec h @ ''h'' @ nat_to_dec (m mod 60) @ ''m'' @ ?s) =
        parse_groups (h * 3600000000000) (nat_to_dec (m mod 60) @ ''m'' @ ?s)"
      using parse_groups_unit [OF duration_units(6) _ unit_chars(6), of "nat_to_dec (m mod 60) @ ''m'' @ ?s" 0 h] n assms u by simp
    also have "\<dots> = parse_groups (h * 3600000000000 + m mod 60 * 60000000000) ?s"
      using parse_groups_unit [OF duration_units(5) _ unit_chars(5), of ?s "h * 3600000000000" "m mod 60"] n assms u by simp
    also have "\<dots> = Some u" using parse_seconds [OF f, of "h * 3600000000000 + m mod 60 * 60000000000"] u assms by simp
    finally show ?thesis using 3 f by (simp add: large_duration_def Let_def m_def h_def)
  qed
qed

lemma duration_text_start: "\<exists>c t. (if u < 1000000000 then small_duration u else large_duration u) = c # t \<and> is_digit c \<and> t \<noteq> []"
proof -
  have n: "\<exists>c t. nat_to_dec n @ s = c # t \<and> is_digit c \<and> t \<noteq> []" if "s \<noteq> []" for n s
    using nat_to_dec_digits [of n] that by (cases "nat_to_dec n") auto
  have z: "is_digit CHR ''0''" by (simp add: is_digit_def char_code_def)
  show ?thesis
    by (auto simp: small_duration_def large_duration_def Let_def split: prod.split intro!: n simp: z simp del: append_assoc)
qed

text \<open>Every 64-bit duration is read back from its text.\<close>

lemma parse_duration_string:
  assumes "in64 d"
  shows "parse_duration (duration_string d) = Some d"
proof -
  define u where "u = nat \<bar>d\<bar>"
  let ?t = "if u < 1000000000 then small_duration u else large_duration u"
  have u: "u \<le> 2 ^ 63" using assms by (auto simp: u_def in64_def nat_le_iff)
  then have p: "parse_groups 0 ?t = Some u" using parse_small parse_large by simp
  obtain c t where t: "?t = c # t" "is_digit c" "t \<noteq> []" using duration_text_start by blast
  have c: "c \<noteq> CHR ''-''" "c \<noteq> CHR ''+''" using t(2) by (auto simp: is_digit_def char_code_def)
  have s: "duration_string d = (if d < 0 then CHR ''-'' # c # t else c # t)"
    using t(1) unfolding duration_string_def Let_def u_def [symmetric] by simp
  show ?thesis
  proof (cases "d < 0")
    case True
    then have "d = - int u" by (simp add: u_def)
    then show ?thesis using True s t p c assms by (simp add: parse_duration_def)
  next
    case False
    then have "d = int u" by (simp add: u_def)
    then have "u \<le> 2 ^ 63 - 1" using assms by (simp add: in64_def)
    then show ?thesis using False s t p c \<open>d = int u\<close> by (auto simp: parse_duration_def)
  qed
qed

lemma fmt_frac_numeral:
  "fmt_frac (numeral k) v shown acc =
     (let d = v mod 10; shown' = (shown \<or> d \<noteq> 0)
      in fmt_frac (pred_numeral k) (v div 10) shown' (if shown' then digit_char d # acc else acc))"
  by (simp only: numeral_eq_Suc fmt_frac.simps)

lemma parse_duration_examples:
  "parse_duration ''1h30m'' = Some 5400000000000" "parse_duration ''-20ms'' = Some (- 20000000)"
  "parse_duration ''60'' = None" "parse_duration ''0'' = Some 0" "parse_duration [] = None" "parse_duration ''.s'' = None"
  "duration_string 90000000000 = ''1m30s''" "duration_string 1500000 = ''1.5ms''" "duration_string (- 3600000000000) = ''-1h0m0s''"
  by (simp_all add: parse_duration_def parse_groups.simps parse_group_def group_fraction_def duration_unit_def Let_def is_digit_def char_code_def digit_val_def
    duration_string_def small_duration_def large_duration_def micro_sign_def nat_to_dec.simps digit_char_def
    fmt_frac_numeral wrap64_def char_of_def bit_0)

end
