(* ===== verification/Starlark_Scenario.thy ===== *)
theory Starlark_Scenario
  imports Config Go_Duration
begin

text \<open>
  Package \<open>config\<close>, \<open>starlark.go\<close>: the functions that a Starlark scenario calls, and how their values become a scenario, with the text of
  durations (\<open>Duration\<close> of \<open>config.go\<close>).

  The interpreter \<open>go.starlark.net\<close> is not part of the program. What it does with a script is an argument of \<open>parseStarlark\<close>: the calls of
  \<open>scenario\<close> that the script makes, with the values of their arguments, and whether it ends without another error. \<open>UnpackArgs\<close> assigns the arguments of
  a call to the variables of the function, which have defaults: each function here takes the variables as they are afterwards. What the library
  leaves undefined for integers of more than 64 bits, and its text of values that are not strings, are the fields of \<open>star_lib\<close>.
\<close>

section \<open>Durations as JSON\<close>

datatype json_scalar = JString string | JNumber rat | JOther

text \<open>A number of seconds that is too large for an \<open>int64\<close> is converted as the processor does: an argument.\<close>

definition MarshalJSON :: "duration \<Rightarrow> json_scalar" where
  "MarshalJSON d = JString (duration_string d)"

definition UnmarshalJSON :: "(rat \<Rightarrow> int) \<Rightarrow> json_scalar \<Rightarrow> duration option" where
  "UnmarshalJSON convert j =
     (case j of
        JString s \<Rightarrow> parse_duration s
      | JNumber secs \<Rightarrow> let x = fmul secs (of_int second) in Some (if in64 (int_of_f64 x) then int_of_f64 x else convert x)
      | JOther \<Rightarrow> None)"

text \<open>
  Every 64-bit duration survives being written as JSON and read back, so a scenario's durations are the same in the runner.
\<close>
theorem duration_json_roundtrip:
  assumes "in64 d"
  shows "UnmarshalJSON convert (MarshalJSON d) = Some d"
  by (simp add: UnmarshalJSON_def MarshalJSON_def parse_duration_string assms)

lemma duration_json_roundtrip_witness:
  "UnmarshalJSON (\<lambda>_. 0) (MarshalJSON (- 1500000000)) = Some (- 1500000000) \<and>
   UnmarshalJSON (\<lambda>_. 0) (MarshalJSON (2 ^ 63 - 1)) = Some (2 ^ 63 - 1)"
  using duration_json_roundtrip [of "- 1500000000" "\<lambda>_. 0"] duration_json_roundtrip [of "2 ^ 63 - 1" "\<lambda>_. 0"] by (simp add: in64_def)

section \<open>Values\<close>

text \<open>A struct is its constructor and its fields; any other value is its type.\<close>

datatype svalue =
    SNone
  | SBool bool
  | SInt int
  | SFloat f64
  | SString string
  | SList "svalue list"
  | SStruct string "(string \<times> svalue) list"
  | SValue string

record star_lib =
  sl_int64 :: "int \<Rightarrow> int"
  sl_text :: "svalue \<Rightarrow> string"

datatype star_error =
    BadArguments
  | UnknownWorkload string
  | PathRequired string
  | BadDuration string
  | DurationTooLarge
  | NotADuration
  | UnknownStageMode string
  | RateAndConcurrency
  | ConcurrencyBelowOne int
  | NotWorkload
  | NotStage
  | NotStageOrBarrier nat
  | NotCondition
  | NoStages
  | TooManyStages int
  | NotPositive string
  | AtStage nat star_error
  | BadSource
  | CalledTwice
  | Executing
  | NoScenarioCall
  | Invalid config_error
  | TypeAssertionPanic

definition attr :: "(string \<times> svalue) list \<Rightarrow> string \<Rightarrow> svalue option" where
  "attr fs name = map_of fs name"

definition set_field :: "string \<Rightarrow> svalue \<Rightarrow> (string \<times> svalue) list \<Rightarrow> (string \<times> svalue) list" where
  "set_field name v fs = (name, v) # filter (\<lambda>f. fst f \<noteq> name) fs"

definition is_none :: "svalue option \<Rightarrow> bool" where
  "is_none v \<longleftrightarrow> v = Some SNone"

definition starlarkString :: "star_lib \<Rightarrow> svalue option \<Rightarrow> string" where
  "starlarkString lib v = (case v of None \<Rightarrow> [] | Some SNone \<Rightarrow> [] | Some (SString s) \<Rightarrow> s | Some w \<Rightarrow> sl_text lib w)"

definition int64_of :: "star_lib \<Rightarrow> int \<Rightarrow> int" where
  "int64_of lib i = (if in64 i then i else sl_int64 lib i)"

definition starlarkInt :: "star_lib \<Rightarrow> svalue option \<Rightarrow> int" where
  "starlarkInt lib v = (case v of Some (SInt i) \<Rightarrow> int64_of lib i | _ \<Rightarrow> 0)"

definition starlarkFloat :: "star_lib \<Rightarrow> svalue option \<Rightarrow> f64" where
  "starlarkFloat lib v =
     (case v of Some (SFloat x) \<Rightarrow> x | Some (SInt i) \<Rightarrow> Fin (f64_of_int (int64_of lib i)) | _ \<Rightarrow> Fin 0)"

definition parseDurationValue :: "svalue \<Rightarrow> (star_error, duration) result" where
  "parseDurationValue v =
     (case v of
        SString s \<Rightarrow> (case parse_duration s of None \<Rightarrow> Inl (BadDuration s) | Some d \<Rightarrow> Inr d)
      | SInt i \<Rightarrow> if \<not> in64 i then Inl DurationTooLarge else Inr (wrap64 (i * second))
      | _ \<Rightarrow> Inl NotADuration)"

definition parseCacheSaltString :: "string \<Rightarrow> cache_salt option" where
  "parseCacheSaltString s =
     (if s = ''random'' then Some \<lparr>salt_mode = ''random'', salt_value = []\<rparr>
      else if has_prefix s ''fixed:'' then Some \<lparr>salt_mode = ''fixed'', salt_value = trim_prefix s ''fixed:''\<rparr>
      else None)"

section \<open>The functions of a script\<close>

record workload_args =
  wa_type :: string
  wa_isl :: int
  wa_osl :: int
  wa_turns :: int
  wa_subsequent_isl :: svalue
  wa_corpus_path :: svalue
  wa_gsm8k_path :: svalue
  wa_gsm8k_train_path :: svalue
  wa_num_fewshot :: int
  wa_gpqa_path :: svalue
  wa_chars_per_token :: f64
  wa_cache_salt :: svalue
  wa_name :: svalue

definition workload_defaults :: workload_args where
  "workload_defaults =
     \<lparr>wa_type = [], wa_isl = 128, wa_osl = 256, wa_turns = 1, wa_subsequent_isl = SNone, wa_corpus_path = SNone, wa_gsm8k_path = SNone,
      wa_gsm8k_train_path = SNone, wa_num_fewshot = 5, wa_gpqa_path = SNone, wa_chars_per_token = Fin 0, wa_cache_salt = SNone, wa_name = SNone\<rparr>"

definition workload_types :: "string list" where
  "workload_types = [''synthetic'', ''faker'', ''corpus'', ''gsm8k'', ''gpqa'']"

definition no_path :: "star_lib \<Rightarrow> svalue \<Rightarrow> bool" where
  "no_path lib v \<longleftrightarrow> v = SNone \<or> starlarkString lib (Some v) = []"

definition builtinWorkload :: "star_lib \<Rightarrow> workload_args \<Rightarrow> (star_error, svalue) result" where
  "builtinWorkload lib a =
     (let typ = wa_type a
      in if typ \<notin> set workload_types then Inl (UnknownWorkload typ)
         else if typ = ''corpus'' \<and> no_path lib (wa_corpus_path a) then Inl (PathRequired ''corpus_path'')
         else if typ = ''gsm8k'' \<and> no_path lib (wa_gsm8k_path a) then Inl (PathRequired ''gsm8k_path'')
         else if typ = ''gsm8k'' \<and> wa_num_fewshot a > 0 \<and> no_path lib (wa_gsm8k_train_path a) then Inl (PathRequired ''gsm8k_train_path'')
         else if typ = ''gpqa'' \<and> no_path lib (wa_gpqa_path a) then Inl (PathRequired ''gpqa_path'')
         else Inr (SStruct ''Workload''
           [(''type'', SString typ), (''isl'', SInt (wa_isl a)), (''osl'', SInt (wa_osl a)), (''turns'', SInt (wa_turns a)),
            (''subsequent_isl'', wa_subsequent_isl a), (''corpus_path'', wa_corpus_path a), (''gsm8k_path'', wa_gsm8k_path a),
            (''gsm8k_train_path'', wa_gsm8k_train_path a), (''num_fewshot'', SInt (wa_num_fewshot a)), (''gpqa_path'', wa_gpqa_path a),
            (''chars_per_token'', SFloat (wa_chars_per_token a)), (''cache_salt'', wa_cache_salt a), (''name'', wa_name a)]))"

record stage_args =
  sa_duration :: svalue
  sa_concurrency :: int
  sa_pool_size :: int
  sa_rate :: svalue
  sa_mode :: string
  sa_max_inflight :: int
  sa_max_requests :: int
  sa_rampup :: svalue
  sa_workload :: svalue
  sa_target :: svalue
  sa_model :: svalue
  sa_name :: svalue
  sa_warmup :: bool

definition stage_defaults :: "svalue \<Rightarrow> stage_args" where
  "stage_defaults duration =
     \<lparr>sa_duration = duration, sa_concurrency = 10, sa_pool_size = 0, sa_rate = SNone, sa_mode = ''concurrent'', sa_max_inflight = 0,
      sa_max_requests = 0, sa_rampup = SNone, sa_workload = SNone, sa_target = SNone, sa_model = SNone, sa_name = SNone, sa_warmup = False\<rparr>"

definition stage_modes :: "string list" where
  "stage_modes = [''concurrent'', ''conversation_pool'', ''constant'', ''poisson'']"

definition is_workload :: "svalue \<Rightarrow> bool" where
  "is_workload v \<longleftrightarrow> (case v of SStruct c _ \<Rightarrow> c = ''Workload'' | _ \<Rightarrow> False)"

text \<open>\<open>keywords\<close> are the names of the arguments given by name.\<close>

definition builtinStage :: "stage_args \<Rightarrow> string list \<Rightarrow> (star_error, svalue) result" where
  "builtinStage a keywords =
     res_bind (parseDurationValue (sa_duration a)) (\<lambda>dur.
       if sa_mode a \<notin> set stage_modes then Inl (UnknownStageMode (sa_mode a))
       else if sa_rate a \<noteq> SNone \<and> ''concurrency'' \<in> set keywords then Inl RateAndConcurrency
       else if sa_concurrency a < 1 then Inl (ConcurrencyBelowOne (sa_concurrency a))
       else if sa_workload a \<noteq> SNone \<and> \<not> is_workload (sa_workload a) then Inl NotWorkload
       else Inr (SStruct ''Stage''
         [(''duration'', SString (duration_string dur)), (''concurrency'', SInt (sa_concurrency a)),
          (''conversation_pool_size'', SInt (sa_pool_size a)), (''rate'', sa_rate a), (''mode'', SString (sa_mode a)),
          (''max_inflight'', SInt (sa_max_inflight a)), (''max_requests'', SInt (sa_max_requests a)), (''rampup'', sa_rampup a),
          (''workload'', sa_workload a), (''target'', sa_target a), (''model'', sa_model a), (''name'', sa_name a),
          (''warmup'', SBool (sa_warmup a)), (''stop_when'', SNone)]))"

record congested_args =
  ca_stages :: "svalue list"
  ca_waiting :: svalue
  ca_ttft :: svalue
  ca_kv_cache :: f64
  ca_preemptions :: svalue

definition congested_defaults :: "svalue list \<Rightarrow> svalue \<Rightarrow> svalue \<Rightarrow> congested_args" where
  "congested_defaults stages waiting ttft =
     \<lparr>ca_stages = stages, ca_waiting = waiting, ca_ttft = ttft, ca_kv_cache = Fin (f64_round (95 / 100)), ca_preemptions = SFloat (Fin 1)\<rparr>"

fun annotate :: "svalue \<Rightarrow> svalue list \<Rightarrow> (star_error, svalue list) result" where
  "annotate condition [] = Inr []"
| "annotate condition (v # vs) =
     (case v of
        SStruct c fs \<Rightarrow>
          if c \<noteq> ''Stage'' then Inl NotStage
          else res_bind (annotate condition vs) (\<lambda>rest. Inr (SStruct ''Stage'' (set_field ''stop_when'' condition fs) # rest))
      | _ \<Rightarrow> Inl NotStage)"

definition builtinUntilCongested :: "star_lib \<Rightarrow> congested_args \<Rightarrow> (star_error, svalue) result" where
  "builtinUntilCongested lib a =
     (let waiting = starlarkFloat lib (Some (ca_waiting a)); preemptions = starlarkFloat lib (Some (ca_preemptions a))
      in if ca_stages a = [] then Inl NoStages
         else if f64_le waiting (Fin 0) then Inl (NotPositive ''waiting_requests_p50'')
         else res_bind (parseDurationValue (ca_ttft a)) (\<lambda>ttft.
           if ttft \<le> 0 then Inl (NotPositive ''ttft_p99'')
           else if f64_le (ca_kv_cache a) (Fin 0) \<or> f64_lt (Fin 1) (ca_kv_cache a) then Inl (NotPositive ''kv_cache_usage'')
           else if f64_le preemptions (Fin 0) then Inl (NotPositive ''preemptions'')
           else res_bind (annotate (SStruct ''CongestionCondition''
                  [(''waiting_requests_p50'', SFloat waiting), (''ttft_p99'', SString (duration_string ttft)),
                   (''kv_cache_usage'', SFloat (ca_kv_cache a)), (''preemptions'', SFloat preemptions)]) (ca_stages a))
                (\<lambda>vs. Inr (SList vs))))"

definition builtinBarrier :: "bool \<Rightarrow> svalue" where
  "builtinBarrier drain = SStruct ''Barrier'' [(''drain'', SBool drain)]"

section \<open>From values to the scenario\<close>

definition structToWorkload :: "star_lib \<Rightarrow> (string \<times> svalue) list \<Rightarrow> workload" where
  "structToWorkload lib fs =
     \<lparr>wl_type = starlarkString lib (attr fs ''type''), wl_name = starlarkString lib (attr fs ''name''),
      wl_isl = starlarkInt lib (attr fs ''isl''),
      wl_subsequent_isl = (if is_none (attr fs ''subsequent_isl'') then None else Some (starlarkInt lib (attr fs ''subsequent_isl''))),
      wl_osl = starlarkInt lib (attr fs ''osl''), wl_turns = starlarkInt lib (attr fs ''turns''),
      wl_corpus_path = starlarkString lib (attr fs ''corpus_path''), wl_gsm8k_path = starlarkString lib (attr fs ''gsm8k_path''),
      wl_gsm8k_train_path = starlarkString lib (attr fs ''gsm8k_train_path''),
      wl_num_fewshot = (if is_none (attr fs ''num_fewshot'') then None else Some (starlarkInt lib (attr fs ''num_fewshot''))),
      wl_gpqa_path = starlarkString lib (attr fs ''gpqa_path''), wl_chars_per_token = starlarkFloat lib (attr fs ''chars_per_token''),
      wl_cache_salt = (if is_none (attr fs ''cache_salt'') then None
                       else parseCacheSaltString (starlarkString lib (attr fs ''cache_salt'')))\<rparr>"

definition parse_text_duration :: "star_lib \<Rightarrow> svalue option \<Rightarrow> (star_error, duration) result" where
  "parse_text_duration lib v =
     (case parse_duration (starlarkString lib v) of None \<Rightarrow> Inl (BadDuration (starlarkString lib v)) | Some d \<Rightarrow> Inr d)"

definition optional_duration :: "svalue option \<Rightarrow> (star_error, duration) result" where
  "optional_duration v =
     (case v of Some SNone \<Rightarrow> Inr 0 | Some w \<Rightarrow> parseDurationValue w | None \<Rightarrow> Inl TypeAssertionPanic)"

definition optional_workload :: "star_lib \<Rightarrow> svalue option \<Rightarrow> (star_error, workload option) result" where
  "optional_workload lib v =
     (case v of Some SNone \<Rightarrow> Inr None | Some (SStruct c fs) \<Rightarrow> Inr (Some (structToWorkload lib fs)) | _ \<Rightarrow> Inl NotWorkload)"

definition optional_bool :: "svalue option \<Rightarrow> (star_error, bool) result" where
  "optional_bool v = (case v of Some SNone \<Rightarrow> Inr False | Some (SBool b) \<Rightarrow> Inr b | _ \<Rightarrow> Inl TypeAssertionPanic)"

definition optional_condition :: "star_lib \<Rightarrow> svalue option \<Rightarrow> (star_error, congestion_condition option) result" where
  "optional_condition lib v =
     (case v of
        None \<Rightarrow> Inr None
      | Some SNone \<Rightarrow> Inr None
      | Some (SStruct c fs) \<Rightarrow>
          if c \<noteq> ''CongestionCondition'' then Inl NotCondition
          else res_bind (parse_text_duration lib (attr fs ''ttft_p99'')) (\<lambda>ttft.
                 Inr (Some \<lparr>cc_waiting_requests_p50 = starlarkFloat lib (attr fs ''waiting_requests_p50''), cc_ttft_p99 = ttft,
                   cc_kv_cache_usage = starlarkFloat lib (attr fs ''kv_cache_usage''), cc_preemptions = starlarkFloat lib (attr fs ''preemptions'')\<rparr>))
      | Some _ \<Rightarrow> Inl NotCondition)"

definition structToScenarioStage :: "star_lib \<Rightarrow> (string \<times> svalue) list \<Rightarrow> (star_error, scenario_stage) result" where
  "structToScenarioStage lib fs =
     res_bind (parse_text_duration lib (attr fs ''duration'')) (\<lambda>dur.
     res_bind (optional_duration (attr fs ''rampup'')) (\<lambda>rampup.
     res_bind (optional_workload lib (attr fs ''workload'')) (\<lambda>w.
     res_bind (optional_bool (attr fs ''warmup'')) (\<lambda>warmup.
     res_bind (optional_condition lib (attr fs ''stop_when'')) (\<lambda>stop.
       Inr (zero_stage\<lparr>ss_name := starlarkString lib (attr fs ''name''), ss_duration := dur, ss_mode := starlarkString lib (attr fs ''mode''),
         ss_concurrency := starlarkInt lib (attr fs ''concurrency''), ss_pool_size := starlarkInt lib (attr fs ''conversation_pool_size''),
         ss_rate := (if is_none (attr fs ''rate'') then Fin 0 else starlarkFloat lib (attr fs ''rate'')),
         ss_max_inflight := starlarkInt lib (attr fs ''max_inflight''), ss_rampup := rampup, ss_workload := w,
         ss_target := starlarkString lib (attr fs ''target''), ss_model := starlarkString lib (attr fs ''model''),
         ss_max_requests := starlarkInt lib (attr fs ''max_requests''), ss_warmup := warmup, ss_stop_when := stop\<rparr>))))))"

record scenario_args =
  ga_stages :: "svalue list"
  ga_target :: svalue
  ga_model :: svalue
  ga_workload :: svalue

definition scenario_stage_of :: "star_lib \<Rightarrow> nat \<Rightarrow> svalue \<Rightarrow> (star_error, scenario_stage) result" where
  "scenario_stage_of lib i v =
     (case v of
        SStruct c fs \<Rightarrow>
          if c = ''Stage'' then (case structToScenarioStage lib fs of Inl e \<Rightarrow> Inl (AtStage i e) | Inr s \<Rightarrow> Inr s)
          else if c = ''Barrier''
          then (case attr fs ''drain'' of
                  None \<Rightarrow> Inr (zero_stage\<lparr>ss_barrier := True\<rparr>)
                | Some d \<Rightarrow> res_bind (optional_bool (Some d)) (\<lambda>drain. Inr (zero_stage\<lparr>ss_barrier := True, ss_barrier_drain := drain\<rparr>)))
          else Inl (NotStageOrBarrier i)
      | _ \<Rightarrow> Inl (NotStageOrBarrier i))"

fun scenario_stages_of :: "star_lib \<Rightarrow> nat \<Rightarrow> svalue list \<Rightarrow> (star_error, scenario_stage list) result" where
  "scenario_stages_of lib i [] = Inr []"
| "scenario_stages_of lib i (v # vs) =
     res_bind (scenario_stage_of lib i v) (\<lambda>s. res_bind (scenario_stages_of lib (Suc i) vs) (\<lambda>ss. Inr (s # ss)))"

definition scenario_workload :: "star_lib \<Rightarrow> svalue \<Rightarrow> (star_error, workload) result" where
  "scenario_workload lib v =
     (case v of
        SNone \<Rightarrow> Inr (zero_workload\<lparr>wl_type := ''faker'', wl_isl := 128, wl_osl := 256, wl_turns := 1\<rparr>)
      | SStruct c fs \<Rightarrow> if c = ''Workload'' then Inr (structToWorkload lib fs) else Inl NotWorkload
      | _ \<Rightarrow> Inl NotWorkload)"

definition parseScenarioCall :: "star_lib \<Rightarrow> int \<Rightarrow> scenario_args \<Rightarrow> (star_error, scenario_config) result" where
  "parseScenarioCall lib maxStages a =
     (if ga_stages a = [] then Inl NoStages
      else if maxStages > 0 \<and> int (length (ga_stages a)) > maxStages then Inl (TooManyStages maxStages)
      else res_bind (scenario_workload lib (ga_workload a)) (\<lambda>w.
           res_bind (scenario_stages_of lib 0 (ga_stages a)) (\<lambda>ss.
             Inr (zero_scenario\<lparr>sc_target := starlarkString lib (Some (ga_target a)), sc_model := starlarkString lib (Some (ga_model a)),
               sc_workload := w, sc_stages := ss\<rparr>))))"

text \<open>The variables \<open>result\<close> and \<open>scenarioCalled\<close> over the calls of one script; the interpreter stops at the first call that fails.\<close>

fun scenario_calls ::
    "star_lib \<Rightarrow> int \<Rightarrow> bool \<Rightarrow> scenario_config option \<Rightarrow> scenario_args list \<Rightarrow> (star_error, scenario_config option) result" where
  "scenario_calls lib maxStages called result [] = Inr result"
| "scenario_calls lib maxStages called result (a # as) =
     (if called then Inl CalledTwice
      else res_bind (parseScenarioCall lib maxStages a) (\<lambda>sc. scenario_calls lib maxStages True (Some sc) as))"

definition parseStarlark ::
    "star_lib \<Rightarrow> (string \<Rightarrow> bool \<Rightarrow> scenario_args list \<times> bool) \<Rightarrow> string \<Rightarrow> bool \<Rightarrow> int \<Rightarrow> (star_error, scenario_config) result" where
  "parseStarlark lib exec source bounded maxStages =
     (let (calls, finished) = exec source bounded
      in res_bind (scenario_calls lib maxStages False None calls) (\<lambda>result.
           if \<not> finished then Inl Executing
           else case result of
             None \<Rightarrow> Inl NoScenarioCall
           | Some sc \<Rightarrow> (case Validate sc of Inl e \<Rightarrow> Inl (Invalid e) | Inr sc' \<Rightarrow> Inr sc')))"

definition ParseStarlarkSource ::
    "star_lib \<Rightarrow> (string \<Rightarrow> bool \<Rightarrow> scenario_args list \<times> bool) \<Rightarrow> string \<Rightarrow> (star_error, scenario_config) result" where
  "ParseStarlarkSource lib exec source =
     (if source = [] \<or> MaxScenarioInputBytes < int (length source) \<or> CHR 0x00 \<in> set source then Inl BadSource
      else parseStarlark lib exec source True MaxScenarioStages)"

definition ParseStarlark ::
    "star_lib \<Rightarrow> (string \<Rightarrow> bool \<Rightarrow> scenario_args list \<times> bool) \<Rightarrow> (string \<Rightarrow> string option) \<Rightarrow> string \<Rightarrow> (star_error, scenario_config) result" where
  "ParseStarlark lib exec readFile path =
     (case readFile path of None \<Rightarrow> Inl BadSource | Some data \<Rightarrow> parseStarlark lib exec data False 0)"

section \<open>Facts\<close>

lemma parse_duration_in64: "parse_duration s = Some d \<Longrightarrow> in64 d"
  by (auto simp: parse_duration_def Let_def split: if_splits option.splits) (simp_all add: in64_def)

lemma parseDurationValue_in64: "parseDurationValue v = Inr d \<Longrightarrow> in64 d"
  by (auto simp: parseDurationValue_def parse_duration_in64 split: svalue.splits option.splits if_splits)

lemma attr_Cons [simp]: "attr ((k, v) # fs) n = (if k = n then Some v else attr fs n)"
  by (simp add: attr_def)

lemma attr_set_field [simp]: "attr (set_field k v fs) n = (if k = n then Some v else attr fs n)"
proof -
  have "map_of (filter (\<lambda>f. fst f \<noteq> k) fs) n = (if k = n then None else map_of fs n)" by (induction fs) auto
  then show ?thesis by (simp add: attr_def set_field_def)
qed

lemma starlark_values [simp]:
  "starlarkString lib (Some (SString s)) = s" "starlarkString lib (Some SNone) = []"
  "in64 i \<Longrightarrow> starlarkInt lib (Some (SInt i)) = i" "starlarkFloat lib (Some (SFloat x)) = x"
  "\<not> is_none (Some (SInt i))" "is_none (Some SNone)"
  by (simp_all add: starlarkString_def starlarkInt_def int64_of_def starlarkFloat_def is_none_def)

lemma parse_text_duration_string [simp]: "in64 d \<Longrightarrow> parse_text_duration lib (Some (SString (duration_string d))) = Inr d"
  by (simp add: parse_text_duration_def parse_duration_string)

lemma builtinStage_Inr:
  assumes "builtinStage a keywords = Inr v"
  obtains d fs where "parseDurationValue (sa_duration a) = Inr d" "v = SStruct ''Stage'' fs" "sa_mode a \<in> set stage_modes" "1 \<le> sa_concurrency a"
    "sa_workload a = SNone \<or> is_workload (sa_workload a)"
    "fs = [(''duration'', SString (duration_string d)), (''concurrency'', SInt (sa_concurrency a)),
       (''conversation_pool_size'', SInt (sa_pool_size a)), (''rate'', sa_rate a), (''mode'', SString (sa_mode a)),
       (''max_inflight'', SInt (sa_max_inflight a)), (''max_requests'', SInt (sa_max_requests a)), (''rampup'', sa_rampup a),
       (''workload'', sa_workload a), (''target'', sa_target a), (''model'', sa_model a), (''name'', sa_name a),
       (''warmup'', SBool (sa_warmup a)), (''stop_when'', SNone)]"
  using assms by (auto simp: builtinStage_def res_bind_Inr_iff split: if_splits)

text \<open>
  Property C28. What a script writes in \<open>stage(...)\<close> is what the load generator gets: a stage that the function accepts is converted to the scenario
  stage with the same duration, concurrency, pool size, rate, mode, limits, ramp-up, workload, target, model, name and warm-up flag, whatever text the duration has
  passed through, and without a stop condition.
\<close>
theorem stage_arguments_reach_scenario:
  assumes "builtinStage a keywords = Inr v" and "parseDurationValue (sa_duration a) = Inr d"
    and "optional_duration (Some (sa_rampup a)) = Inr r" and "optional_workload lib (Some (sa_workload a)) = Inr w"
    and "in64 (sa_concurrency a)" "in64 (sa_pool_size a)" "in64 (sa_max_inflight a)" "in64 (sa_max_requests a)"
  shows "scenario_stage_of lib i v =
    Inr (zero_stage\<lparr>ss_name := starlarkString lib (Some (sa_name a)), ss_duration := d, ss_mode := sa_mode a, ss_concurrency := sa_concurrency a,
      ss_pool_size := sa_pool_size a, ss_rate := (if sa_rate a = SNone then Fin 0 else starlarkFloat lib (Some (sa_rate a))),
      ss_max_inflight := sa_max_inflight a, ss_rampup := r, ss_workload := w, ss_target := starlarkString lib (Some (sa_target a)),
      ss_model := starlarkString lib (Some (sa_model a)), ss_max_requests := sa_max_requests a, ss_warmup := sa_warmup a\<rparr>)"
proof -
  obtain fs where v: "v = SStruct ''Stage'' fs" and
    fs: "fs = [(''duration'', SString (duration_string d)), (''concurrency'', SInt (sa_concurrency a)),
       (''conversation_pool_size'', SInt (sa_pool_size a)), (''rate'', sa_rate a), (''mode'', SString (sa_mode a)),
       (''max_inflight'', SInt (sa_max_inflight a)), (''max_requests'', SInt (sa_max_requests a)), (''rampup'', sa_rampup a),
       (''workload'', sa_workload a), (''target'', sa_target a), (''model'', sa_model a), (''name'', sa_name a),
       (''warmup'', SBool (sa_warmup a)), (''stop_when'', SNone)]"
    using builtinStage_Inr [OF assms(1)] assms(2) by (metis Inr_inject)
  have d: "in64 d" by (rule parseDurationValue_in64 [OF assms(2)])
  have "structToScenarioStage lib fs = Inr (zero_stage\<lparr>ss_name := starlarkString lib (Some (sa_name a)), ss_duration := d, ss_mode := sa_mode a,
      ss_concurrency := sa_concurrency a, ss_pool_size := sa_pool_size a,
      ss_rate := (if sa_rate a = SNone then Fin 0 else starlarkFloat lib (Some (sa_rate a))), ss_max_inflight := sa_max_inflight a, ss_rampup := r,
      ss_workload := w, ss_target := starlarkString lib (Some (sa_target a)), ss_model := starlarkString lib (Some (sa_model a)),
      ss_max_requests := sa_max_requests a, ss_warmup := sa_warmup a\<rparr>)"
    unfolding structToScenarioStage_def fs using d assms(3-)
    by (simp add: optional_bool_def optional_condition_def is_none_def) (simp add: zero_stage_def)
  then show ?thesis by (simp add: scenario_stage_of_def v)
qed

definition example_lib :: star_lib where
  "example_lib = \<lparr>sl_int64 = (\<lambda>_. 0), sl_text = (\<lambda>_. ''value'')\<rparr>"

lemma stage_arguments_reach_scenario_witness:
  "\<exists>v. builtinStage ((stage_defaults (SInt 90))\<lparr>sa_concurrency := 4, sa_rampup := SInt 5\<rparr>) [''concurrency''] = Inr v \<and>
     scenario_stage_of example_lib 0 v = Inr (zero_stage\<lparr>ss_duration := 90000000000, ss_mode := ''concurrent'', ss_concurrency := 4, ss_rampup := 5000000000\<rparr>)"
proof -
  let ?a = "(stage_defaults (SInt 90))\<lparr>sa_concurrency := 4, sa_rampup := SInt 5\<rparr>"
  have p: "parseDurationValue (sa_duration ?a) = Inr 90000000000" "optional_duration (Some (sa_rampup ?a)) = Inr 5000000000"
    "optional_workload example_lib (Some (sa_workload ?a)) = Inr None"
    by (simp_all add: stage_defaults_def parseDurationValue_def optional_duration_def optional_workload_def in64_def wrap64_def second_def)
  obtain v where v: "builtinStage ?a [''concurrency''] = Inr v"
    using p(1) by (simp add: builtinStage_def stage_modes_def) (simp add: stage_defaults_def)
  show ?thesis
    using stage_arguments_reach_scenario [OF v p(1-2) p(3), of 0] v
    by (simp add: in64_def) (simp add: stage_defaults_def zero_stage_def in64_def)
qed

text \<open>What scripts can make: structs only come from the functions above; the integer variables of a call are 64-bit integers.\<close>

inductive made :: "star_lib \<Rightarrow> svalue \<Rightarrow> bool" for lib where
  plain: "(\<forall>c fs. v \<noteq> SStruct c fs) \<Longrightarrow> made lib v"
| workload: "builtinWorkload lib a = Inr v \<Longrightarrow> in64 (wa_num_fewshot a) \<Longrightarrow> made lib v"
| stage: "builtinStage a keywords = Inr v \<Longrightarrow> in64 (sa_concurrency a) \<Longrightarrow> made lib (sa_workload a) \<Longrightarrow> made lib v"
| congested: "builtinUntilCongested lib a = Inr (SList vs) \<Longrightarrow> (\<forall>v\<in>set (ca_stages a). made lib v) \<Longrightarrow> v \<in> set vs \<Longrightarrow> made lib v"
| barrier: "made lib (builtinBarrier drain)"

text \<open>A workload whose data can be loaded: the type is known and the paths the type needs are there.\<close>

definition workload_complete :: "workload \<Rightarrow> bool" where
  "workload_complete w \<longleftrightarrow> wl_type w \<in> set workload_types \<and> (wl_type w = ''corpus'' \<longrightarrow> wl_corpus_path w \<noteq> []) \<and>
     (wl_type w = ''gsm8k'' \<longrightarrow> wl_gsm8k_path w \<noteq> [] \<and> (\<forall>n. wl_num_fewshot w = Some n \<longrightarrow> 0 < n \<longrightarrow> wl_gsm8k_train_path w \<noteq> [])) \<and>
     (wl_type w = ''gpqa'' \<longrightarrow> wl_gpqa_path w \<noteq> [])"

definition workload_value_ok :: "star_lib \<Rightarrow> svalue \<Rightarrow> bool" where
  "workload_value_ok lib v \<longleftrightarrow> (\<forall>fs. v = SStruct ''Workload'' fs \<longrightarrow> workload_complete (structToWorkload lib fs))"

definition stage_value_ok :: "star_lib \<Rightarrow> svalue \<Rightarrow> bool" where
  "stage_value_ok lib v \<longleftrightarrow>
     (\<forall>fs. v = SStruct ''Stage'' fs \<longrightarrow>
        (\<exists>m. attr fs ''mode'' = Some (SString m) \<and> m \<in> set stage_modes) \<and>
        (\<exists>c. attr fs ''concurrency'' = Some (SInt c) \<and> in64 c \<and> 1 \<le> c) \<and>
        (\<exists>w. attr fs ''workload'' = Some w \<and> (w = SNone \<or> is_workload w) \<and> workload_value_ok lib w))"

lemma structToWorkload_builtin:
  assumes "builtinWorkload lib a = Inr (SStruct c fs)" "in64 (wa_num_fewshot a)"
  shows "workload_complete (structToWorkload lib fs)"
proof -
  have fs: "fs = [(''type'', SString (wa_type a)), (''isl'', SInt (wa_isl a)), (''osl'', SInt (wa_osl a)), (''turns'', SInt (wa_turns a)),
            (''subsequent_isl'', wa_subsequent_isl a), (''corpus_path'', wa_corpus_path a), (''gsm8k_path'', wa_gsm8k_path a),
            (''gsm8k_train_path'', wa_gsm8k_train_path a), (''num_fewshot'', SInt (wa_num_fewshot a)), (''gpqa_path'', wa_gpqa_path a),
            (''chars_per_token'', SFloat (wa_chars_per_token a)), (''cache_salt'', wa_cache_salt a), (''name'', wa_name a)]"
    using assms(1) by (simp add: builtinWorkload_def Let_def split: if_splits)
  show ?thesis
    using assms unfolding structToWorkload_def fs workload_complete_def
    by (simp add: builtinWorkload_def Let_def no_path_def is_none_def split: if_splits)
qed

lemma annotate_Inr:
  "annotate condition vs = Inr ws \<Longrightarrow>
   list_all2 (\<lambda>v w. \<exists>fs. v = SStruct ''Stage'' fs \<and> w = SStruct ''Stage'' (set_field ''stop_when'' condition fs)) vs ws"
  by (induction vs arbitrary: ws) (auto simp: res_bind_Inr_iff split: svalue.splits if_splits)

lemma builtinUntilCongested_Inr:
  assumes "builtinUntilCongested lib a = Inr out"
  obtains ttft vs where "parseDurationValue (ca_ttft a) = Inr ttft" "0 < ttft" "out = SList vs" "ca_stages a \<noteq> []"
    "\<not> f64_le (starlarkFloat lib (Some (ca_waiting a))) (Fin 0)" "\<not> f64_le (starlarkFloat lib (Some (ca_preemptions a))) (Fin 0)"
    "\<not> f64_le (ca_kv_cache a) (Fin 0)" "\<not> f64_lt (Fin 1) (ca_kv_cache a)"
    "annotate (SStruct ''CongestionCondition''
                  [(''waiting_requests_p50'', SFloat (starlarkFloat lib (Some (ca_waiting a)))), (''ttft_p99'', SString (duration_string ttft)),
                   (''kv_cache_usage'', SFloat (ca_kv_cache a)), (''preemptions'', SFloat (starlarkFloat lib (Some (ca_preemptions a))))])
       (ca_stages a) = Inr vs"
  using assms by (auto simp: builtinUntilCongested_def Let_def res_bind_Inr_iff split: if_splits)

lemma made_ok: "made lib v \<Longrightarrow> workload_value_ok lib v \<and> stage_value_ok lib v"
proof (induction rule: made.induct)
  case (plain v)
  then show ?case by (simp add: workload_value_ok_def stage_value_ok_def)
next
  case (workload a v)
  then obtain fs where "v = SStruct ''Workload'' fs" by (auto simp: builtinWorkload_def Let_def split: if_splits)
  then show ?case using structToWorkload_builtin [of lib a] workload by (auto simp: workload_value_ok_def stage_value_ok_def)
next
  case (stage a kw v)
  from stage(1) show ?case
    by (rule builtinStage_Inr) (use stage in \<open>auto simp: workload_value_ok_def stage_value_ok_def\<close>)
next
  case (congested a vs v)
  from congested(1) obtain cond where "annotate cond (ca_stages a) = Inr vs" by (rule builtinUntilCongested_Inr) simp
  note l = annotate_Inr [OF this]
  from congested(2) obtain i where i: "i < length vs" "v = vs ! i" by (auto simp: in_set_conv_nth)
  with l obtain fs where "ca_stages a ! i = SStruct ''Stage'' fs" "v = SStruct ''Stage'' (set_field ''stop_when'' cond fs)"
    by (auto simp: list_all2_conv_all_nth)
  moreover have "ca_stages a ! i \<in> set (ca_stages a)" using i(1) list_all2_lengthD [OF l] by simp
  ultimately show ?case using congested(3) by (auto simp: workload_value_ok_def stage_value_ok_def)
qed (simp add: builtinBarrier_def workload_value_ok_def stage_value_ok_def)

text \<open>A stage of a script's scenario.\<close>

definition script_stage_ok :: "scenario_stage \<Rightarrow> bool" where
  "script_stage_ok s \<longleftrightarrow> stage_ok s \<and> (ss_barrier s \<or> ss_mode s \<in> set stage_modes \<and> 1 \<le> ss_concurrency s) \<and>
     (\<forall>w. ss_workload s = Some w \<longrightarrow> workload_complete w)"

definition pre_stage_ok :: "scenario_stage \<Rightarrow> bool" where
  "pre_stage_ok s \<longleftrightarrow> (ss_barrier s \<or> ss_mode s \<in> set stage_modes \<and> 1 \<le> ss_concurrency s) \<and>
     (\<forall>w. ss_workload s = Some w \<longrightarrow> workload_complete w)"

lemma scenario_stage_of_ok:
  assumes m: "made lib v" and s: "scenario_stage_of lib i v = Inr s"
  shows "pre_stage_ok s"
proof -
  from s obtain c fs where v: "v = SStruct c fs" by (auto simp: scenario_stage_of_def split: svalue.splits)
  show ?thesis
  proof (cases "c = ''Stage''")
    case True
    then have "structToScenarioStage lib fs = Inr s" using s v by (auto simp: scenario_stage_of_def split: sum.splits)
    then obtain d r w b sc where p: "optional_workload lib (attr fs ''workload'') = Inr w"
      "ss_mode s = starlarkString lib (attr fs ''mode'')" "ss_concurrency s = starlarkInt lib (attr fs ''concurrency'')" "ss_workload s = w"
      by (auto simp: structToScenarioStage_def res_bind_Inr_iff)
    from made_ok [OF m] obtain mo co wv where q: "attr fs ''mode'' = Some (SString mo)" "mo \<in> set stage_modes"
      "attr fs ''concurrency'' = Some (SInt co)" "in64 co" "1 \<le> co" "attr fs ''workload'' = Some wv" "wv = SNone \<or> is_workload wv"
      "workload_value_ok lib wv"
      unfolding v True stage_value_ok_def by blast
    then show ?thesis
      using p by (auto simp: pre_stage_ok_def optional_workload_def is_workload_def workload_value_ok_def split: svalue.splits)
  next
    case False
    then show ?thesis using s v by (auto simp: scenario_stage_of_def pre_stage_ok_def zero_stage_def res_bind_Inr_iff split: if_splits option.splits)
  qed
qed

lemma scenario_stages_of_ok:
  "scenario_stages_of lib i vs = Inr ss \<Longrightarrow> list_all (made lib) vs \<Longrightarrow> list_all pre_stage_ok ss \<and> length ss = length vs"
  by (induction vs arbitrary: i ss) (auto simp: res_bind_Inr_iff dest: scenario_stage_of_ok)

lemma normalized_stage_ok:
  "pre_stage_ok s \<Longrightarrow> stage_ok (normalize_stage s) \<Longrightarrow> script_stage_ok (normalize_stage s)"
  by (auto simp: pre_stage_ok_def script_stage_ok_def normalize_stage_def)

definition call_made :: "star_lib \<Rightarrow> scenario_args \<Rightarrow> bool" where
  "call_made lib a \<longleftrightarrow> list_all (made lib) (ga_stages a) \<and> made lib (ga_workload a)"

lemma parseScenarioCall_ok:
  assumes "parseScenarioCall lib n a = Inr sc" "call_made lib a"
  shows "list_all pre_stage_ok (sc_stages sc) \<and> sc_stages sc \<noteq> [] \<and> (0 < n \<longrightarrow> int (length (sc_stages sc)) \<le> n) \<and> workload_complete (sc_workload sc) \<and>
    sc_sync sc = None"
proof -
  obtain w ss where w: "scenario_workload lib (ga_workload a) = Inr w" and ss: "scenario_stages_of lib 0 (ga_stages a) = Inr ss"
    and sc: "sc_workload sc = w" "sc_stages sc = ss" "sc_sync sc = None" and n: "ga_stages a \<noteq> []" "\<not> (n > 0 \<and> int (length (ga_stages a)) > n)"
    using assms(1) by (auto simp: parseScenarioCall_def res_bind_Inr_iff zero_scenario_def split: if_splits)
  have "workload_complete w"
    using w made_ok [of lib "ga_workload a"] assms(2)
    by (auto simp: scenario_workload_def call_made_def workload_value_ok_def workload_complete_def zero_workload_def workload_types_def
        split: svalue.splits if_splits)
  then show ?thesis using scenario_stages_of_ok [OF ss] assms(2) sc n by (auto simp: call_made_def)
qed

lemma scenario_calls_Inr:
  "scenario_calls lib n called r as = Inr (Some sc) \<Longrightarrow> r = Some sc \<and> as = [] \<or> \<not> called \<and> (\<exists>a. as = [a] \<and> parseScenarioCall lib n a = Inr sc)"
proof (cases as)
  case (Cons a as')
  moreover assume "scenario_calls lib n called r as = Inr (Some sc)"
  ultimately show ?thesis by (cases as') (auto simp: res_bind_Inr_iff split: if_splits)
qed simp

text \<open>
  Property C14. A scenario that a submitted script yields is well formed, whatever the script computes: it has between 1 and 128 stages and no synchronisation
  settings, every stage that is not a barrier has a known mode, a finite rate and at least one stream, a conversation pool covers its concurrency, and
  every workload, the default one included, has a known type and the paths that the type reads.
\<close>
theorem script_scenario_well_formed:
  assumes "ParseStarlarkSource lib exec source = Inr sc" and "list_all (call_made lib) (fst (exec source True))"
  shows "sc_stages sc \<noteq> [] \<and> length (sc_stages sc) \<le> 128 \<and> list_all script_stage_ok (sc_stages sc) \<and> workload_complete (sc_workload sc) \<and>
    sc_sync sc = None"
proof -
  obtain sc0 calls finished where e: "exec source True = (calls, finished)" and c: "scenario_calls lib MaxScenarioStages False None calls = Inr (Some sc0)"
    and v: "Validate sc0 = Inr sc"
    using assms(1) by (auto simp: ParseStarlarkSource_def parseStarlark_def res_bind_Inr_iff split: if_splits option.splits prod.splits sum.splits)
  from scenario_calls_Inr [OF c] obtain a where a: "calls = [a]" "parseScenarioCall lib MaxScenarioStages a = Inr sc0" by blast
  then have p: "list_all pre_stage_ok (sc_stages sc0)" "sc_stages sc0 \<noteq> []" "length (sc_stages sc0) \<le> 128" "workload_complete (sc_workload sc0)"
    "sc_sync sc0 = None"
    using parseScenarioCall_ok [OF a(2)] assms(2) e by (auto simp: MaxScenarioStages_def)
  from v obtain ss where ss: "validate_stages 0 (sc_stages sc0) = Inr ss" "sc = sc0\<lparr>sc_stages := ss\<rparr>"
    by (auto simp: Validate_def res_bind_Inr_iff)
  note n = validate_stages_Inr [OF ss(1)]
  have "list_all script_stage_ok ss" using n p(1) by (auto simp: list_all_iff intro: normalized_stage_ok)
  then show ?thesis using p n ss(2) by auto
qed

definition example_call :: scenario_args where
  "example_call = \<lparr>ga_stages = [builtinBarrier True,
       SStruct ''Stage'' [(''duration'', SString (duration_string 90000000000)), (''concurrency'', SInt 4), (''conversation_pool_size'', SInt 0), (''rate'', SNone),
         (''mode'', SString ''conversation_pool''), (''max_inflight'', SInt 0), (''max_requests'', SInt 0), (''rampup'', SNone), (''workload'', SNone),
         (''target'', SNone), (''model'', SNone), (''name'', SNone), (''warmup'', SBool False), (''stop_when'', SNone)]],
     ga_target = SNone, ga_model = SNone, ga_workload = SNone\<rparr>"

lemma example_call_made: "call_made lib example_call"
proof -
  have "builtinStage ((stage_defaults (SInt 90))\<lparr>sa_concurrency := 4, sa_mode := ''conversation_pool''\<rparr>) [] = Inr (ga_stages example_call ! 1)"
    by (simp add: builtinStage_def stage_defaults_def stage_modes_def example_call_def parseDurationValue_def in64_def second_def wrap64_def)
  then have "made lib (ga_stages example_call ! 1)"
    by (rule made.stage) (simp_all add: stage_defaults_def in64_def made.plain)
  then show ?thesis by (simp add: call_made_def example_call_def made.barrier made.plain)
qed

lemma script_scenario_well_formed_witness:
  "\<exists>sc. ParseStarlarkSource example_lib (\<lambda>_ _. ([example_call], True)) ''scenario(...)'' = Inr sc \<and>
     list_all (call_made example_lib) [example_call] \<and> length (sc_stages sc) = 2 \<and> list_all script_stage_ok (sc_stages sc)"
proof -
  have d: "parse_text_duration example_lib (Some (SString (duration_string 90000000000))) = Inr 90000000000" by (simp add: in64_def)
  obtain sc where sc: "ParseStarlarkSource example_lib (\<lambda>_ _. ([example_call], True)) ''scenario(...)'' = Inr sc" "length (sc_stages sc) = 2"
    by (simp add: ParseStarlarkSource_def parseStarlark_def parseScenarioCall_def example_call_def scenario_stage_of_def structToScenarioStage_def builtinBarrier_def
        optional_bool_def optional_duration_def optional_workload_def optional_condition_def scenario_workload_def Validate_def validate_stage_def d
        MaxScenarioInputBytes_def MaxScenarioStages_def in64_def zero_stage_def valid_modes_def is_nan_def is_inf_def is_none_def)
  show ?thesis using script_scenario_well_formed [OF sc(1)] sc example_call_made by auto
qed

text \<open>
  \<open>until_congested\<close> only adds the stop condition: the stages of the list come out in order, each converted to the same scenario stage as before
  except that it stops when the given thresholds are exceeded, which are the arguments with a positive latency.
\<close>
theorem until_congested_adds_condition:
  assumes "builtinUntilCongested lib a = Inr out" and "parseDurationValue (ca_ttft a) = Inr ttft"
  shows "\<exists>vs. out = SList vs \<and> length vs = length (ca_stages a) \<and> 0 < ttft \<and>
    (\<forall>i s. i < length vs \<longrightarrow> scenario_stage_of lib i (ca_stages a ! i) = Inr s \<longrightarrow>
       scenario_stage_of lib i (vs ! i) =
       Inr (s\<lparr>ss_stop_when := Some \<lparr>cc_waiting_requests_p50 = starlarkFloat lib (Some (ca_waiting a)), cc_ttft_p99 = ttft,
          cc_kv_cache_usage = ca_kv_cache a, cc_preemptions = starlarkFloat lib (Some (ca_preemptions a))\<rparr>\<rparr>))"
proof -
  let ?cc = "\<lparr>cc_waiting_requests_p50 = starlarkFloat lib (Some (ca_waiting a)), cc_ttft_p99 = ttft,
          cc_kv_cache_usage = ca_kv_cache a, cc_preemptions = starlarkFloat lib (Some (ca_preemptions a))\<rparr>"
  let ?cond = "SStruct ''CongestionCondition''
                  [(''waiting_requests_p50'', SFloat (starlarkFloat lib (Some (ca_waiting a)))), (''ttft_p99'', SString (duration_string ttft)),
                   (''kv_cache_usage'', SFloat (ca_kv_cache a)), (''preemptions'', SFloat (starlarkFloat lib (Some (ca_preemptions a))))]"
  from assms obtain vs where vs: "out = SList vs" "0 < ttft" "annotate ?cond (ca_stages a) = Inr vs"
    using builtinUntilCongested_Inr [OF assms(1)] by (metis Inr_inject)
  note l = annotate_Inr [OF vs(3)]
  have c: "optional_condition lib (Some ?cond) = Inr (Some ?cc)"
    using parseDurationValue_in64 [OF assms(2)] by (simp add: optional_condition_def)
  have "scenario_stage_of lib i (vs ! i) = Inr (s\<lparr>ss_stop_when := Some ?cc\<rparr>)"
    if i: "i < length vs" and s: "scenario_stage_of lib i (ca_stages a ! i) = Inr s" for i s
  proof -
    from l i obtain fs where f: "ca_stages a ! i = SStruct ''Stage'' fs" "vs ! i = SStruct ''Stage'' (set_field ''stop_when'' ?cond fs)"
      by (auto simp: list_all2_conv_all_nth)
    then have "structToScenarioStage lib fs = Inr s" using s by (simp add: scenario_stage_of_def split: sum.splits)
    then have "structToScenarioStage lib (set_field ''stop_when'' ?cond fs) = Inr (s\<lparr>ss_stop_when := Some ?cc\<rparr>)"
      by (auto simp: structToScenarioStage_def res_bind_Inr_iff c)
    then show ?thesis using f(2) by (simp add: scenario_stage_of_def)
  qed
  then show ?thesis using vs(1,2) list_all2_lengthD [OF l] by auto
qed

definition example_sweep :: congested_args where
  "example_sweep = (congested_defaults [ga_stages example_call ! 1] (SInt 8) (SInt 2))\<lparr>ca_kv_cache := Fin 1\<rparr>"

lemma until_congested_adds_condition_witness:
  "\<exists>vs s. builtinUntilCongested example_lib example_sweep = Inr (SList vs) \<and> scenario_stage_of example_lib 0 (ga_stages example_call ! 1) = Inr s \<and>
     scenario_stage_of example_lib 0 (vs ! 0) =
     Inr (s\<lparr>ss_stop_when := Some \<lparr>cc_waiting_requests_p50 = Fin (f64_of_int 8), cc_ttft_p99 = 2000000000, cc_kv_cache_usage = Fin 1,
       cc_preemptions = Fin 1\<rparr>\<rparr>)"
proof -
  have s: "ca_stages example_sweep = [SStruct ''Stage'' [(''duration'', SString (duration_string 90000000000)), (''concurrency'', SInt 4), (''conversation_pool_size'', SInt 0), (''rate'', SNone),
         (''mode'', SString ''conversation_pool''), (''max_inflight'', SInt 0), (''max_requests'', SInt 0), (''rampup'', SNone), (''workload'', SNone),
         (''target'', SNone), (''model'', SNone), (''name'', SNone), (''warmup'', SBool False), (''stop_when'', SNone)]]"
    by (simp add: example_sweep_def congested_defaults_def example_call_def)
  have t: "parseDurationValue (ca_ttft example_sweep) = Inr 2000000000"
    by (simp add: example_sweep_def congested_defaults_def parseDurationValue_def in64_def second_def wrap64_def)
  have v: "starlarkFloat example_lib (Some (ca_waiting example_sweep)) = Fin (f64_of_int 8)"
    "starlarkFloat example_lib (Some (ca_preemptions example_sweep)) = Fin 1" "ca_kv_cache example_sweep = Fin 1"
    by (simp_all add: example_sweep_def congested_defaults_def starlarkFloat_def int64_of_def in64_def)
  obtain vs where b: "builtinUntilCongested example_lib example_sweep = Inr (SList vs)"
    by (simp add: builtinUntilCongested_def v s t Let_def)
  have d: "parse_text_duration example_lib (Some (SString (duration_string 90000000000))) = Inr 90000000000" by (simp add: in64_def)
  obtain g where g: "scenario_stage_of example_lib 0 (ca_stages example_sweep ! 0) = Inr g"
    by (simp add: s scenario_stage_of_def structToScenarioStage_def d optional_bool_def optional_duration_def optional_workload_def optional_condition_def)
  have "length vs = 1" using until_congested_adds_condition [OF b t] s by auto
  then show ?thesis
    using until_congested_adds_condition [OF b t] b g v
    by (intro exI [of _ vs] exI [of _ g]) (auto simp: example_sweep_def congested_defaults_def)
qed

text \<open>Thresholds that are not numbers pass the checks, and integer seconds wrap around.\<close>

lemma until_congested_accepts_nan:
  "\<exists>vs. builtinUntilCongested example_lib (example_sweep\<lparr>ca_waiting := SFloat NaN, ca_kv_cache := NaN\<rparr>) = Inr (SList vs)"
proof -
  have t: "parseDurationValue (SInt 2) = Inr 2000000000" by (simp add: parseDurationValue_def in64_def second_def wrap64_def)
  show ?thesis
    by (simp add: builtinUntilCongested_def example_sweep_def congested_defaults_def starlarkFloat_def t example_call_def Let_def)
qed

lemma duration_seconds_wrap: "parseDurationValue (SInt 10000000000) = Inr (- 8446744073709551616)"
  by (simp add: parseDurationValue_def in64_def second_def wrap64_def)

end
