(* ===== verification/Generate_Command.thy ===== *)
theory Generate_Command
  imports Scenario_Runner Kube_Deploy
begin

text \<open>
  The command \<open>generate\<close> (\<open>cmd/nyann-bench/generate.go\<close>): from the flags and the configuration to a Kubernetes Job or to a local run, with the
  decision after each stage whether the sweep goes on. \<open>generate\<close> is the body of the command up to the point where it hands over to
  \<open>kube.Deploy\<close> or \<open>runScenario\<close>; \<open>stage_decision\<close> is the callback \<open>OnStageComplete\<close>. The environment variables are arguments; printing is not
  modelled.
\<close>

section \<open>The command\<close>

record generate_flags =
  gf_target :: string
  gf_model :: string
  gf_config :: string
  gf_scenario_ir :: string
  gf_output_dir :: string
  gf_worker_id :: int
  gf_workers :: string
  gf_prometheus_url :: string
  gf_deploy_name :: string
  gf_stream_usage :: bool
  gf_kube :: Flags
  gf_given :: set_flags

record generate_env =
  ge_completion_index :: "string option"
  ge_barrier_addr :: "string option"
  ge_decode_kube :: "string \<Rightarrow> KubeConfig option"

datatype generate_error =
    ConfigFailed config_error
  | CongestionNeedsPrometheus
  | WorkersFailed config_error
  | KubeFailed kube_error

datatype generate_action =
    DeployJob KubeConfig "string list"
  | RunLocally scenario_opts int "int option"

definition default_target :: string where
  "default_target = ''http://localhost:8000/v1''"

definition measured_conditions :: "scenario_config \<Rightarrow> congestion_condition option list" where
  "measured_conditions sc = map ss_stop_when (filter (\<lambda>s. \<not> ss_barrier s \<and> \<not> ss_warmup s) (sc_stages sc))"

definition has_congestion_sweep :: "scenario_config \<Rightarrow> bool" where
  "has_congestion_sweep sc \<longleftrightarrow> list_ex (\<lambda>c. c \<noteq> None) (measured_conditions sc)"

definition kube_job :: "generate_flags \<Rightarrow> int \<Rightarrow> KubeConfig \<Rightarrow> KubeConfig \<times> string list" where
  "kube_job f workers c =
     (let c' = (if 1 < workers then c\<lparr>kc_workers := workers\<rparr> else c);
          args = CollectArgs (gf_given f) [''generate''] @ [''--metrics'', '':9090'']
      in (c', if 1 < kc_workers c' \<and> ''workers'' \<notin> set (map fst (gf_given f))
              then args @ [''--workers'', itoa (kc_workers c')] else args))"

definition generate_worker_id :: "string option \<Rightarrow> int \<Rightarrow> int" where
  "generate_worker_id env flag =
     (if flag = 0 then (case env of None \<Rightarrow> 0 | Some idx \<Rightarrow> (case atoi idx of None \<Rightarrow> 0 | Some v \<Rightarrow> v)) else flag)"

definition barrier_port :: int where "barrier_port = 8080"

text \<open>The scenario that a worker runs; with several workers it is synchronised.\<close>

definition local_scenario :: "string option \<Rightarrow> int \<Rightarrow> int \<Rightarrow> scenario_config \<Rightarrow> scenario_config" where
  "local_scenario addr workers workerID sc =
     (let sc' = sc\<lparr>sc_workers := workers, sc_worker_id := workerID\<rparr>
      in if 1 < workers
         then InsertImplicitBarrier (sc'\<lparr>sc_sync := Some \<lparr>sync_workers = workers, sync_timeout = 600 * second, sync_port = barrier_port,
                sync_addr = (case addr of Some a \<Rightarrow> a | None \<Rightarrow> ''localhost'')\<rparr>\<rparr>)
         else sc')"

definition barrier_server :: "int \<Rightarrow> int \<Rightarrow> int option" where
  "barrier_server workers workerID = (if 1 < workers \<and> workerID = 0 then Some barrier_port else None)"

definition local_run :: "generate_env \<Rightarrow> generate_flags \<Rightarrow> int \<Rightarrow> scenario_config \<Rightarrow> generate_action" where
  "local_run env f workers sc =
     (let workerID = generate_worker_id (ge_completion_index env) (gf_worker_id f);
          sc' = local_scenario (ge_barrier_addr env) workers workerID sc
      in RunLocally
           \<lparr>so_target = (if sc_target sc' \<noteq> [] \<and> gf_target f = default_target then sc_target sc' else gf_target f),
            so_model = (if sc_model sc' \<noteq> [] \<and> gf_model f = [] then sc_model sc' else gf_model f),
            so_scenario = sc', so_output_dir = gf_output_dir f, so_stream_usage = gf_stream_usage f, so_dataset = None\<rparr>
           workerID (barrier_server workers workerID))"

text \<open>\<open>parse\<close> and \<open>parse_ir\<close> are \<open>config.Parse\<close> and \<open>config.ParseScenarioIR\<close>.\<close>

definition generate ::
    "(string \<Rightarrow> (config_error, scenario_config) result) \<Rightarrow> (string \<Rightarrow> (config_error, scenario_config) result) \<Rightarrow> generate_env \<Rightarrow> generate_flags \<Rightarrow>
     (generate_error, generate_action) result" where
  "generate parse parse_ir env f =
     (case (if gf_scenario_ir f \<noteq> [] then parse_ir (gf_scenario_ir f) else parse (gf_config f)) of
        Inl e \<Rightarrow> Inl (ConfigFailed e)
      | Inr sc \<Rightarrow>
          if has_congestion_sweep sc \<and> (gf_prometheus_url f = [] \<or> gf_deploy_name f = []) then Inl CongestionNeedsPrometheus
          else case ResolveWorkers (gf_workers f) (MaxConcurrency sc) of
            Inl e \<Rightarrow> Inl (WorkersFailed e)
          | Inr workers \<Rightarrow>
              if IsEnabled (gf_given f)
              then (case ToConfig (ge_decode_kube env) (gf_kube f) of
                      Inl e \<Rightarrow> Inl (KubeFailed e)
                    | Inr c \<Rightarrow> Inr (case kube_job f workers c of (c', args) \<Rightarrow> DeployJob c' args))
              else Inr (local_run env f workers sc))"

section \<open>After a stage\<close>

text \<open>The answer of \<open>OnStageComplete\<close>; \<open>None\<close> is a panic, as for a missing client.\<close>

definition stage_decision ::
    "prom_client option \<Rightarrow> string \<Rightarrow> congestion_condition option list \<Rightarrow> StageTimestamp \<Rightarrow> Record list \<Rightarrow> bool option" where
  "stage_decision prom deployName conditions ts recs =
     (case ComputePerStage recs [ts] of
        None \<Rightarrow> None
      | Some [] \<Rightarrow> Some True
      | Some (_ # _) \<Rightarrow>
          if int (length conditions) \<le> st_stage ts then Some True
          else if st_stage ts < 0 then None
          else case conditions ! nat (st_stage ts) of
            None \<Rightarrow> Some True
          | Some cond \<Rightarrow>
              (case prom of
                 None \<Rightarrow> None
               | Some c \<Rightarrow> map_option (\<lambda>(result, _). \<not> cg_congested result) (CheckStageCongestion c ts deployName cond)))"

definition prometheus_client :: "(string \<Rightarrow> prom_client) \<Rightarrow> generate_flags \<Rightarrow> prom_client option" where
  "prometheus_client new f = (if gf_prometheus_url f \<noteq> [] \<and> gf_deploy_name f \<noteq> [] then Some (new (gf_prometheus_url f)) else None)"

text \<open>The metrics of the servers are queried again for all stages when the run has ended.\<close>

definition requery :: "prom_client option \<Rightarrow> string \<Rightarrow> Summary \<Rightarrow> Summary" where
  "requery prom deployName summary =
     (case (prom, sum_timestamps summary) of
        (Some c, Some ts) \<Rightarrow>
          summary\<lparr>sum_stages := map (\<lambda>(i, s). if i < length (ts_stages ts)
              then s\<lparr>sg_server := QueryStageServerMetrics c (ts_stages ts ! i) deployName\<rparr> else s)
            (enumerate 0 (sum_stages summary))\<rparr>
      | _ \<Rightarrow> summary)"

section \<open>What a worker sees\<close>

text \<open>The flags of the container's command line, which is a word and pairs of a flag and its value; the last value of a flag counts.\<close>

fun flag_pairs :: "string list \<Rightarrow> (string \<times> string) list" where
  "flag_pairs (n # v # rest) = (drop 2 n, v) # flag_pairs rest"
| "flag_pairs _ = []"

definition container_flag :: "string \<Rightarrow> string \<Rightarrow> string list \<Rightarrow> string" where
  "container_flag name otherwise args = (case map_of (rev (flag_pairs (tl args))) name of None \<Rightarrow> otherwise | Some v \<Rightarrow> v)"

lemma flag_pairs_collected:
  "flag_pairs (concat (map (\<lambda>(name, val). if has_prefix name ''kube'' then [] else [''--'' @ name, val]) given) @ rest) =
   filter (\<lambda>(name, _). \<not> has_prefix name ''kube'') given @ flag_pairs rest"
  by (induction given) auto

lemma collected_workers:
  assumes "distinct (map fst given)"
  shows "map_of (rev (filter (\<lambda>(name, _). \<not> has_prefix name ''kube'') given)) ''workers'' = map_of given ''workers''"
proof -
  let ?fs = "filter (\<lambda>(name, _). \<not> has_prefix name ''kube'') given"
  have "distinct (map fst ?fs)" "distinct (map fst (rev ?fs))" using assms by (simp_all add: distinct_map_filter rev_map [symmetric])
  then have e: "map_of (rev ?fs) = map_of ?fs" by (simp add: map_of_inject_set)
  have "map_of ?fs ''workers'' = map_of given ''workers''" by (induction given) (auto simp: has_prefix_def)
  then show ?thesis unfolding e .
qed

lemma container_flag_job:
  assumes "distinct (map fst (gf_given f))" "kube_job f workers c = (c', args)"
  shows "container_flag ''workers'' otherwise args =
    (case map_of (gf_given f) ''workers'' of Some v \<Rightarrow> v | None \<Rightarrow> if 1 < kc_workers c' then itoa (kc_workers c') else otherwise)"
proof -
  have m: "''workers'' \<notin> set (map fst (gf_given f)) \<longleftrightarrow> map_of (gf_given f) ''workers'' = None" by (simp add: map_of_eq_None_iff)
  have a: "args = ''generate'' # concat (map (\<lambda>(name, val). if has_prefix name ''kube'' then [] else [''--'' @ name, val]) (gf_given f)) @
      [''--metrics'', '':9090''] @ (if 1 < kc_workers c' \<and> ''workers'' \<notin> set (map fst (gf_given f)) then [''--workers'', itoa (kc_workers c')] else [])"
    using assms(2) by (auto simp: kube_job_def CollectArgs_def Let_def simp del: set_map)
  have "map_of (rev (flag_pairs (tl args))) ''workers'' =
      (if 1 < kc_workers c' \<and> map_of (gf_given f) ''workers'' = None then Some (itoa (kc_workers c')) else map_of (gf_given f) ''workers'')"
    unfolding a m by (simp add: flag_pairs_collected collected_workers [OF assms(1)] map_add_def split: option.split)
  then show ?thesis by (auto simp: container_flag_def split: option.split)
qed

lemma itoa_not_auto: "itoa i \<noteq> ''auto''"
proof
  assume "itoa i = ''auto''"
  then have "CHR ''u'' \<in> set (itoa i)" by simp
  then show False using nat_to_dec_no_char [of "CHR ''u''"] by (simp add: itoa_def is_digit_def char_code_def split: if_splits)
qed

lemma MaxConcurrency_nonneg: "0 \<le> MaxConcurrency sc"
  using MaxConcurrency_fold [where ss = "sc_stages sc" and m = 0] by (simp add: MaxConcurrency_def Let_def)

text \<open>
  Property C34. The workers of a deployed run agree with the Job: when \<open>generate\<close> deploys a Job, the \<open>--workers\<close> flag on the container's command line, read with
  the same scenario, gives the Job's number of pods, so that every pod takes its share of the load and waits for all others - provided that the flag was left out or
  stands for more than one worker.
\<close>
theorem deployed_workers_agree:
  assumes "generate parse parse_ir env f = Inr (DeployJob c args)"
    and "(if gf_scenario_ir f \<noteq> [] then parse_ir (gf_scenario_ir f) else parse (gf_config f)) = Inr sc"
    and "distinct (map fst (gf_given f))"
    and "case map_of (gf_given f) ''workers'' of None \<Rightarrow> gf_workers f = ''1'' | Some v \<Rightarrow> gf_workers f = v \<and> ResolveWorkers v (MaxConcurrency sc) \<noteq> Inr 1"
    and "0 \<le> kc_workers c" "kc_workers c < 2 ^ 63"
    and "MaxConcurrency sc < 2 ^ 62"
  shows "ResolveWorkers (container_flag ''workers'' ''1'' args) (MaxConcurrency sc) = Inr (kc_workers (applyDefaults namePrefix name c))"
proof -
  obtain workers c0 where w: "ResolveWorkers (gf_workers f) (MaxConcurrency sc) = Inr workers" and k: "kube_job f workers c0 = (c, args)"
    using assms(1,2) by (auto simp: generate_def local_run_def Let_def split: if_splits sum.splits prod.splits)
  have one: "ResolveWorkers ''1'' n = Inr 1" for n by (simp add: ResolveWorkers_def) code_simp
  show ?thesis
  proof (cases "map_of (gf_given f) ''workers''")
    case None
    then have "workers = 1" using assms(4) w one by simp
    moreover have "ResolveWorkers (itoa (kc_workers c)) n = Inr (kc_workers c)" if "1 < kc_workers c" for n
      using that assms(6) atoi_itoa [of "kc_workers c"] by (simp add: ResolveWorkers_def in64_def itoa_not_auto)
    ultimately show ?thesis using None assms(5) one by (auto simp: container_flag_job [OF assms(3) k] applyDefaults_def)
  next
    case (Some v)
    then have v: "gf_workers f = v" "workers \<noteq> 1" using assms(4) w by auto
    have "1 \<le> workers" using w assms(7) MaxConcurrency_nonneg [of sc]
      by (auto simp: ResolveWorkers_def tdiv_nonneg in64_def split: if_splits option.splits)
    then have "kc_workers c = workers" using v(2) k by (auto simp: kube_job_def Let_def split: if_splits)
    then show ?thesis using w v \<open>1 \<le> workers\<close> Some by (simp add: container_flag_job [OF assms(3) k] applyDefaults_def)
  qed
qed

definition example_flags :: generate_flags where
  "example_flags = \<lparr>gf_target = default_target, gf_model = [], gf_config = ''{}'', gf_scenario_ir = [], gf_output_dir = [], gf_worker_id = 0,
     gf_workers = ''3'', gf_prometheus_url = [], gf_deploy_name = [], gf_stream_usage = False,
     gf_kube = \<lparr>fl_config = [], fl_name = ''n'', fl_context = [], fl_namespace = [], fl_platform = [], fl_image = [], fl_arch = [], fl_volume = [],
       fl_cpu = [], fl_memory = []\<rparr>,
     gf_given = [(''config'', ''{}''), (''kube.name'', ''n''), (''workers'', ''3'')]\<rparr>"

definition example_env :: generate_env where
  "example_env = \<lparr>ge_completion_index = None, ge_barrier_addr = None, ge_decode_kube = (\<lambda>_. None)\<rparr>"

lemma resolve_three: "ResolveWorkers ''3'' n = Inr 3"
  by (simp add: ResolveWorkers_def) code_simp

lemma deployed_workers_agree_witness:
  "\<exists>c args. generate (\<lambda>_. Inr zero_scenario) (\<lambda>_. Inl DecodingScenarioIR) example_env example_flags = Inr (DeployJob c args) \<and>
     args = [''generate'', ''--config'', ''{}'', ''--workers'', ''3'', ''--metrics'', '':9090''] \<and>
     kc_workers (applyDefaults None ''generate'' c) = 3 \<and> ResolveWorkers (container_flag ''workers'' ''1'' args) 0 = Inr 3"
proof -
  have m: "MaxConcurrency zero_scenario = 0" by (simp add: MaxConcurrency_def zero_scenario_def)
  obtain c args where g: "generate (\<lambda>_. Inr zero_scenario) (\<lambda>_. Inl DecodingScenarioIR) example_env example_flags = Inr (DeployJob c args)"
    and c: "kc_workers c = 3" "args = [''generate'', ''--config'', ''{}'', ''--workers'', ''3'', ''--metrics'', '':9090'']"
    by (simp add: generate_def example_flags_def example_env_def has_congestion_sweep_def measured_conditions_def zero_scenario_def resolve_three
        IsEnabled_def kube_flags_def ToConfig_def overlay_def zero_kube_def Let_def kube_job_def CollectArgs_def has_prefix_def)
  show ?thesis
    using deployed_workers_agree [OF g, where sc = zero_scenario and namePrefix = None and name = "''generate''"] g c
    by (auto simp: example_flags_def m resolve_three applyDefaults_def)
qed

text \<open>An explicit flag of one worker together with several workers in the Kubernetes configuration gives several pods that each carry the whole load.\<close>

lemma explicit_single_worker:
  "kube_job (example_flags\<lparr>gf_workers := ''1'', gf_given := [(''workers'', ''1'')]\<rparr>) 1 (zero_kube\<lparr>kc_workers := 4\<rparr>) =
   (zero_kube\<lparr>kc_workers := 4\<rparr>, [''generate'', ''--workers'', ''1'', ''--metrics'', '':9090''])"
  by (simp add: kube_job_def CollectArgs_def has_prefix_def zero_kube_def example_flags_def)

text \<open>
  The workers of a run start together: with more than one worker every worker runs the same stages, the first one a barrier for all of them at the
  same address, exactly one worker serves the barriers, and the barrier that is put in front does not shift the congestion conditions, which are looked up by
  the number of the measured stage.
\<close>
theorem workers_synchronise:
  assumes "1 < n" and "sc_stages sc \<noteq> []"
  shows "(\<forall>w. \<exists>b ss y. sc_stages (local_scenario addr n w sc) = b # ss \<and> ss_barrier b \<and> ss \<in> {sc_stages sc, tl (sc_stages sc)} \<and>
      sc_sync (local_scenario addr n w sc) = Some y \<and> sync_workers y = n \<and> sync_port y = barrier_port) \<and>
    (\<forall>w v. sc_stages (local_scenario addr n w sc) = sc_stages (local_scenario addr n v sc) \<and>
      sc_sync (local_scenario addr n w sc) = sc_sync (local_scenario addr n v sc)) \<and>
    (\<forall>w. measured_conditions (local_scenario addr n w sc) = measured_conditions sc) \<and>
    {w. barrier_server n w \<noteq> None} = {0}"
proof -
  obtain s ss where s: "sc_stages sc = s # ss" using assms(2) by (cases "sc_stages sc") auto
  show ?thesis
    using assms(1) by (auto simp: local_scenario_def Let_def InsertImplicitBarrier_def s measured_conditions_def barrier_server_def zero_stage_def)
qed

lemma workers_synchronise_witness:
  "measured_conditions (local_scenario None 2 1 (zero_scenario\<lparr>sc_stages := [zero_stage, zero_stage\<lparr>ss_warmup := True\<rparr>]\<rparr>)) = [None] \<and>
   {w. barrier_server 2 w \<noteq> None} = {0}"
  using workers_synchronise [of 2 "zero_scenario\<lparr>sc_stages := [zero_stage, zero_stage\<lparr>ss_warmup := True\<rparr>]\<rparr>" None]
  by (simp add: measured_conditions_def zero_stage_def)

text \<open>
  A sweep is never left without its stop condition: a run that \<open>generate\<close> starts has a Prometheus client whenever a measured stage has a condition,
  so after a stage the callback always answers, and it stops the run exactly when the condition of that very stage is met.
\<close>
theorem sweep_decision_total:
  assumes "generate parse parse_ir env f = Inr (RunLocally so w srv)"
    and "(if gf_scenario_ir f \<noteq> [] then parse_ir (gf_scenario_ir f) else parse (gf_config f)) = Inr sc"
    and "ComputePerStage recs [ts] \<noteq> None" "0 \<le> st_stage ts"
    and "\<forall>cond. CheckStageCongestion (new (gf_prometheus_url f)) ts (gf_deploy_name f) cond \<noteq> None"
  shows "\<exists>answer. stage_decision (prometheus_client new f) (gf_deploy_name f) (measured_conditions sc) ts recs = Some answer \<and>
    (answer \<longleftrightarrow> \<not> (\<exists>cond result errs. nat (st_stage ts) < length (measured_conditions sc) \<and> measured_conditions sc ! nat (st_stage ts) = Some cond \<and>
      CheckStageCongestion (new (gf_prometheus_url f)) ts (gf_deploy_name f) cond = Some (result, errs) \<and> cg_congested result))"
proof -
  have client: "has_congestion_sweep sc \<Longrightarrow> prometheus_client new f = Some (new (gf_prometheus_url f))"
    using assms(1,2) by (auto simp: generate_def prometheus_client_def split: if_splits)
  obtain sg where p: "ComputePerStage recs [ts] = Some [sg]" using assms(3) by (auto split: option.splits)
  let ?i = "nat (st_stage ts)"
  show ?thesis
  proof (cases "?i < length (measured_conditions sc) \<and> measured_conditions sc ! ?i \<noteq> None")
    case True
    then obtain cond where cond: "measured_conditions sc ! ?i = Some cond" by auto
    have i: "\<not> int (length (measured_conditions sc)) \<le> st_stage ts" using True assms(4) by linarith
    have "has_congestion_sweep sc" using True unfolding has_congestion_sweep_def list_ex_iff by (metis nth_mem)
    then have c: "prometheus_client new f = Some (new (gf_prometheus_url f))" by (rule client)
    obtain result errs where r: "CheckStageCongestion (new (gf_prometheus_url f)) ts (gf_deploy_name f) cond = Some (result, errs)"
      using assms(5) by fastforce
    show ?thesis using True cond r assms(4) i by (simp add: stage_decision_def p c del: ComputePerStage.simps)
  next
    case False
    then have "int (length (measured_conditions sc)) \<le> st_stage ts \<or> measured_conditions sc ! ?i = None" using assms(4) by auto
    then show ?thesis using False assms(4) by (auto simp: stage_decision_def p simp del: ComputePerStage.simps)
  qed
qed

lemma nine_checks: "CheckStageCongestion nine_client ts ''vllm'' cond \<noteq> None"
proof -
  have dec: "contains ''vllm'' ''-decode'' = False" by code_simp
  have "role_queries nine_client st e ws \<lparr>rt_role = ''aggregate'', rt_job = ''vllm-aggregate'', rt_pods = ''vllm'' @ ''.*''\<rparr> \<noteq> None" for st e ws
    by (cases st) (simp add: role_queries_def nine_queries Let_def)
  then show ?thesis by (simp add: CheckStageCongestion_def role_targets_def dec Let_def split: option.split)
qed

definition sweep_scenario :: scenario_config where
  "sweep_scenario = zero_scenario\<lparr>sc_stages := [zero_stage\<lparr>ss_stop_when := Some sample_condition\<rparr>]\<rparr>"

definition sweep_flags :: generate_flags where
  "sweep_flags = example_flags\<lparr>gf_given := [], gf_workers := ''3'', gf_prometheus_url := ''p'', gf_deploy_name := ''vllm''\<rparr>"

lemma sweep_decision_total_witness:
  "\<exists>so w srv answer. generate (\<lambda>_. Inr sweep_scenario) (\<lambda>_. Inl DecodingScenarioIR) example_env sweep_flags = Inr (RunLocally so w srv) \<and>
     stage_decision (prometheus_client (\<lambda>_. nine_client) sweep_flags) ''vllm'' (measured_conditions sweep_scenario) ten_seconds [] = Some answer"
proof -
  obtain so w srv where g: "generate (\<lambda>_. Inr sweep_scenario) (\<lambda>_. Inl DecodingScenarioIR) example_env sweep_flags = Inr (RunLocally so w srv)"
    by (simp add: generate_def sweep_flags_def example_flags_def sweep_scenario_def resolve_three IsEnabled_def kube_flags_def local_run_def Let_def)
  have p: "ComputePerStage [] [ten_seconds] \<noteq> None" using per_stage_counts [of "[]" "[ten_seconds]"] by (auto simp del: ComputePerStage.simps)
  have d: "gf_deploy_name sweep_flags = ''vllm''" "gf_scenario_ir sweep_flags = []" by (simp_all add: sweep_flags_def example_flags_def)
  show ?thesis
    using sweep_decision_total [OF g, where sc = sweep_scenario and recs = "[]" and ts = ten_seconds and new = "\<lambda>_. nine_client"] g p d nine_checks
    by (auto simp: ten_seconds_def simp del: ComputePerStage.simps)
qed

end
