(* ===== verification/Eval_Command.thy ===== *)
theory Eval_Command
  imports Eval_Dataset Generate_Command
begin

text \<open>
  The commands \<open>eval gsm8k\<close> and \<open>eval gpqa\<close> (\<open>cmd/nyann-bench/eval.go\<close>) around the preparation of one worker, which is in theory \<open>Eval_Dataset\<close>: the
  flags, the deployment as an indexed Job, the hand-over to \<open>runScenario\<close> and the report. The last part follows a deployed evaluation into the pods: what they
  read from the container's command line, and which questions they ask.
\<close>

section \<open>The flags\<close>

text \<open>The flags by name with the text of their value, and the defaults of the two commands. An integer flag is read by \<open>strconv\<close>; for the decimal texts that
  \<open>CollectArgs\<close> writes the base that pflag detects is ten.\<close>

definition flag_text :: "(string \<times> string) list \<Rightarrow> string \<Rightarrow> string \<Rightarrow> string" where
  "flag_text given name otherwise = (case map_of (rev given) name of None \<Rightarrow> otherwise | Some v \<Rightarrow> v)"

definition flag_int :: "(string \<times> string) list \<Rightarrow> string \<Rightarrow> int \<Rightarrow> int" where
  "flag_int given name otherwise =
     (case map_of (rev given) name of None \<Rightarrow> otherwise | Some v \<Rightarrow> (case atoi v of None \<Rightarrow> otherwise | Some n \<Rightarrow> n))"

record eval_cli =
  ec_flags :: eval_flags
  ec_output_dir :: string
  ec_metrics :: string

definition gsm8k_cli :: "(string \<times> string) list \<Rightarrow> eval_cli" where
  "gsm8k_cli given =
     \<lparr>ec_flags = \<lparr>ef_target = flag_text given ''target'' [], ef_model = flag_text given ''model'' [], ef_concurrency = flag_int given ''concurrency'' 64,
        ef_path = flag_text given ''gsm8k-path'' [], ef_train_path = flag_text given ''gsm8k-train-path'' [],
        ef_num_fewshot = flag_int given ''num-fewshot'' 5, ef_timeout = flag_text given ''timeout'' ''30m'',
        ef_worker_id = flag_int given ''worker-id'' 0, ef_workers = flag_int given ''workers'' 1, ef_max_tokens = 0\<rparr>,
      ec_output_dir = flag_text given ''output-dir'' [], ec_metrics = flag_text given ''metrics'' []\<rparr>"

definition gpqa_cli :: "(string \<times> string) list \<Rightarrow> eval_cli" where
  "gpqa_cli given =
     \<lparr>ec_flags = \<lparr>ef_target = flag_text given ''target'' [], ef_model = flag_text given ''model'' [], ef_concurrency = flag_int given ''concurrency'' 64,
        ef_path = flag_text given ''gpqa-path'' [], ef_train_path = [], ef_num_fewshot = 0, ef_timeout = flag_text given ''timeout'' ''30m'',
        ef_worker_id = flag_int given ''worker-id'' 0, ef_workers = flag_int given ''workers'' 1, ef_max_tokens = flag_int given ''max-tokens'' 0\<rparr>,
      ec_output_dir = flag_text given ''output-dir'' [], ec_metrics = flag_text given ''metrics'' []\<rparr>"

definition kube_cli :: "(string \<times> string) list \<Rightarrow> Flags" where
  "kube_cli given =
     \<lparr>fl_config = flag_text given ''kube.config'' [], fl_name = flag_text given ''kube.name'' [], fl_context = flag_text given ''kube.context'' [],
      fl_namespace = flag_text given ''kube.namespace'' [], fl_platform = flag_text given ''kube.platform'' [], fl_image = flag_text given ''kube.image'' [],
      fl_arch = flag_text given ''kube.arch'' [], fl_volume = flag_text given ''kube.volume'' [], fl_cpu = flag_text given ''kube.cpu'' [],
      fl_memory = flag_text given ''kube.memory'' []\<rparr>"

section \<open>The commands\<close>

datatype eval_failure = EvalKubeFailed kube_error | EvalFailed eval_error

text \<open>What a command hands over: a Job with its default name and arguments, or a scenario for the worker with that id and the address of its metrics.\<close>

datatype eval_action =
    EvalJob KubeConfig string "string list"
  | EvalRun scenario_opts int string

definition eval_job :: "string \<Rightarrow> set_flags \<Rightarrow> int \<Rightarrow> KubeConfig \<Rightarrow> eval_action" where
  "eval_job name given workers c =
     EvalJob (if 1 < workers then c\<lparr>kc_workers := workers\<rparr> else c) (''eval-'' @ name)
       (CollectArgs given [''eval'', name] @ [''--metrics'', '':9090''])"

definition eval_run :: "eval_cli \<Rightarrow> built_dataset \<Rightarrow> scenario_config \<Rightarrow> eval_action" where
  "eval_run cli ds sc =
     EvalRun \<lparr>so_target = ef_target (ec_flags cli), so_model = ef_model (ec_flags cli), so_scenario = sc, so_output_dir = ec_output_dir cli,
        so_stream_usage = False, so_dataset = Some ds\<rparr> (sc_worker_id sc) (ec_metrics cli)"

definition eval_command ::
    "string \<Rightarrow> (string \<Rightarrow> KubeConfig option) \<Rightarrow> set_flags \<Rightarrow> Flags \<Rightarrow> eval_cli \<Rightarrow> (eval_error, built_dataset \<times> scenario_config) result \<Rightarrow>
     (eval_failure, eval_action) result" where
  "eval_command name decode given kube cli prepared =
     (if IsEnabled given
      then (case ToConfig decode kube of
              Inl e \<Rightarrow> Inl (EvalKubeFailed e)
            | Inr c \<Rightarrow> Inr (eval_job name given (ef_workers (ec_flags cli)) c))
      else (case prepared of Inl e \<Rightarrow> Inl (EvalFailed e) | Inr (ds, sc) \<Rightarrow> Inr (eval_run cli ds sc)))"

definition evalGSM8KCmd ::
    "(string \<Rightarrow> duration option) \<Rightarrow> string option \<Rightarrow> (string \<Rightarrow> string \<Rightarrow> int \<Rightarrow> (dataset_error, GSM8K) result) \<Rightarrow> (string \<Rightarrow> KubeConfig option) \<Rightarrow>
     set_flags \<Rightarrow> (eval_failure, eval_action) result" where
  "evalGSM8KCmd parse_duration env load decode given =
     eval_command ''gsm8k'' decode given (kube_cli given) (gsm8k_cli given)
       (map_sum id (\<lambda>(d, sc). (BuiltGSM8K d, sc)) (eval_gsm8k parse_duration env load (ec_flags (gsm8k_cli given))))"

definition evalGPQACmd ::
    "(string \<Rightarrow> duration option) \<Rightarrow> string option \<Rightarrow> (string \<Rightarrow> int \<Rightarrow> (dataset_error, GPQA) result) \<Rightarrow> (string \<Rightarrow> KubeConfig option) \<Rightarrow>
     set_flags \<Rightarrow> (eval_failure, eval_action) result" where
  "evalGPQACmd parse_duration env load decode given =
     eval_command ''gpqa'' decode given (kube_cli given) (gpqa_cli given)
       (map_sum id (\<lambda>(d, sc). (BuiltGPQA d, sc)) (eval_gpqa parse_duration env load (ec_flags (gpqa_cli given))))"

text \<open>The report after the run: only when there were requests. \<open>text_of\<close> and \<open>json_of\<close> are the two forms of the summary.\<close>

datatype eval_output = ToStderr string | ToStdout string

definition eval_report :: "(Summary \<Rightarrow> string) \<Rightarrow> (Summary \<Rightarrow> string option) \<Rightarrow> Summary \<Rightarrow> eval_output list \<times> bool" where
  "eval_report text_of json_of summary =
     (if 0 < TotalRequests summary
      then (case json_of summary of
              None \<Rightarrow> ([ToStderr [newline], ToStderr (text_of summary)], False)
            | Some j \<Rightarrow> ([ToStderr [newline], ToStderr (text_of summary), ToStdout (j @ [newline])], True))
      else ([], True))"

section \<open>The pods of a deployed evaluation\<close>

text \<open>A pod reads its flags from the arguments after the two words of the command, and its index from the environment.\<close>

definition pod_given :: "string list \<Rightarrow> (string \<times> string) list" where
  "pod_given args = flag_pairs (drop 2 args)"

text \<open>The answers that pod \<open>i\<close> grades against: those of as many conversations as its scenario asks for.\<close>

definition pod_grades ::
    "(string \<Rightarrow> duration option) \<Rightarrow> (string \<Rightarrow> string \<Rightarrow> int \<Rightarrow> (dataset_error, GSM8K) result) \<Rightarrow> (nat \<Rightarrow> int \<Rightarrow> nat list) \<Rightarrow> string list \<Rightarrow> nat \<Rightarrow>
     string list option" where
  "pod_grades parse_duration load perms args i =
     (case evalGSM8KCmd parse_duration (Some (itoa (int i))) load (\<lambda>_. None) (pod_given args) of
        Inr (EvalRun so w m) \<Rightarrow>
          (case (so_dataset so, sc_stages (so_scenario so)) of
             (Some (BuiltGSM8K d), s # _) \<Rightarrow>
               map_option (\<lambda>(cs, _). map ExpectedAnswer cs) (draw_conversations (gsm8k_next perms) (nat (ss_max_requests s)) d)
           | _ \<Rightarrow> None)
      | _ \<Rightarrow> None)"

lemma map_of_rev_distinct: "distinct (map fst xs) \<Longrightarrow> map_of (rev xs) = map_of xs"
  by (rule map_of_inject_set [THEN iffD2]) (simp_all add: rev_map [symmetric])

text \<open>A pod sees every flag of the command line but those of the deployment, and the metrics address.\<close>

lemma pod_flag:
  assumes "distinct (map fst given)" "\<not> has_prefix name ''kube''" "name \<noteq> ''metrics''"
  shows "map_of (rev (pod_given (CollectArgs given [''eval'', cmd] @ [''--metrics'', '':9090'']))) name = map_of (rev given) name"
proof -
  let ?fs = "filter (\<lambda>(name, _). \<not> has_prefix name ''kube'') given"
  have p: "pod_given (CollectArgs given [''eval'', cmd] @ [''--metrics'', '':9090'']) = ?fs @ [(''metrics'', '':9090'')]"
    using flag_pairs_collected [of given "[''--metrics'', '':9090'']"] by (simp add: pod_given_def CollectArgs_def)
  have "map_of (rev ?fs) = map_of ?fs" using assms(1) by (intro map_of_rev_distinct) (simp add: distinct_map_filter)
  moreover have "map_of ?fs name = map_of given name" using assms(2) by (induction given) auto
  ultimately show ?thesis using assms(3) by (simp add: p map_of_rev_distinct [OF assms(1)])
qed

lemma pod_flags:
  assumes "distinct (map fst given)"
  shows "ec_flags (gsm8k_cli (pod_given (CollectArgs given [''eval'', cmd] @ [''--metrics'', '':9090'']))) = ec_flags (gsm8k_cli given)"
  by (simp add: gsm8k_cli_def flag_text_def flag_int_def pod_flag [OF assms] has_prefix_def)

lemma pod_runs_locally:
  assumes "distinct (map fst given)"
  shows "\<not> IsEnabled (pod_given (CollectArgs given [''eval'', cmd] @ [''--metrics'', '':9090'']))"
proof -
  have "pod_given (CollectArgs given [''eval'', cmd] @ [''--metrics'', '':9090'']) = filter (\<lambda>(name, _). \<not> has_prefix name ''kube'') given @ [(''metrics'', '':9090'')]"
    using flag_pairs_collected [of given "[''--metrics'', '':9090'']"] by (simp add: pod_given_def CollectArgs_def)
  then show ?thesis by (auto simp: IsEnabled_def kube_flags_def has_prefix_def list_ex_iff)
qed

lemma eval_worker_id_pod:
  assumes "ef_worker_id f = 0" "i < 2 ^ 63"
  shows "eval_gsm8k parse_duration (Some (itoa (int i))) load f = eval_gsm8k parse_duration None load (f\<lparr>ef_worker_id := int i\<rparr>)"
proof -
  have "atoi (itoa (int i)) = Some (int i)" using atoi_itoa [of "int i"] assms(2) by (simp add: in64_def)
  then have w: "eval_worker_id (Some (itoa (int i))) f = int i" "eval_worker_id None (f\<lparr>ef_worker_id := int i\<rparr>) = int i"
    using assms(1) by (simp_all add: eval_worker_id_def)
  have s: "eval_scenario (f\<lparr>ef_worker_id := int i\<rparr>) = eval_scenario f" "gsm8k_workload (f\<lparr>ef_worker_id := int i\<rparr>) = gsm8k_workload f"
    by (simp_all add: eval_scenario_def gsm8k_workload_def fun_eq_iff)
  have fields: "ef_timeout (f\<lparr>ef_worker_id := int i\<rparr>) = ef_timeout f" "ef_path (f\<lparr>ef_worker_id := int i\<rparr>) = ef_path f"
    "ef_train_path (f\<lparr>ef_worker_id := int i\<rparr>) = ef_train_path f" "ef_num_fewshot (f\<lparr>ef_worker_id := int i\<rparr>) = ef_num_fewshot f"
    "ef_workers (f\<lparr>ef_worker_id := int i\<rparr>) = ef_workers f" by simp_all
  show ?thesis unfolding eval_gsm8k_def Let_def w s fields by (rule refl)
qed

text \<open>What one pod grades, for a Job whose pods are told that there are \<open>k\<close> workers.\<close>

lemma pod_grades_worker:
  assumes given: "distinct (map fst given)" and f: "f = ec_flags (gsm8k_cli given)" "ef_worker_id f = 0" "ef_workers f = int k"
    and i: "i < 2 ^ 63"
  shows "pod_grades parse_duration load perms (CollectArgs given [''eval'', ''gsm8k''] @ [''--metrics'', '':9090'']) i = graded_by parse_duration load perms f k i"
proof -
  let ?args = "CollectArgs given [''eval'', ''gsm8k''] @ [''--metrics'', '':9090'']"
  have "f\<lparr>ef_worker_id := int i, ef_workers := int k\<rparr> = f\<lparr>ef_worker_id := int i\<rparr>" using f(3) by simp
  moreover have "eval_gsm8k parse_duration (Some (itoa (int i))) load (ec_flags (gsm8k_cli (pod_given ?args))) =
      eval_gsm8k parse_duration None load (f\<lparr>ef_worker_id := int i\<rparr>)"
    using eval_worker_id_pod [OF f(2) i] by (simp only: pod_flags [OF given] f(1) [symmetric])
  moreover have stage: "eval_gsm8k parse_duration None load f' = Inr (d, sc) \<Longrightarrow> \<exists>s. sc_stages sc = [s] \<and> ss_max_requests s = int (length (g8_items d))" for f' d sc
    by (auto simp: eval_gsm8k_def eval_scenario_def Let_def res_bind_Inr_iff split: option.splits if_splits sum.splits)
  ultimately show ?thesis
    using pod_runs_locally [OF given]
    by (auto simp: pod_grades_def graded_by_def evalGSM8KCmd_def eval_command_def eval_run_def eval_scenario_def split: sum.split prod.split dest!: stage)
qed


definition eval_flags_given :: set_flags where
  "eval_flags_given = [(''gsm8k-path'', ''p''), (''kube.name'', ''n''), (''num-fewshot'', ''0''), (''target'', ''t''), (''workers'', ''2'')]"

lemma flags_of_given:
  "ec_flags (gsm8k_cli eval_flags_given) = sample_flags\<lparr>ef_concurrency := 64, ef_workers := 2\<rparr>"
proof -
  have "atoi ''0'' = Some 0" "atoi ''2'' = Some 2" by code_simp+
  then show ?thesis by (simp add: gsm8k_cli_def eval_flags_given_def sample_flags_def flag_text_def flag_int_def)
qed


text \<open>The number of pods can also come from the deployment's configuration. Then the pods are not told of one another, where \<open>generate\<close> adds the flag: every
  pod asks all questions.\<close>

lemma unshared_eval_job_repeats_questions:
  assumes "evalGSM8KCmd parse_duration env load decode given = Inr (EvalJob c job args)"
    and "distinct (map fst given)" and "f = ec_flags (gsm8k_cli given)" and "ef_worker_id f = 0" and "ef_workers f = 1"
    and "eval_ready parse_duration load f ds" and "gsm8k_ok perms ds" and "g8_idx ds = 0" and "g8_items ds \<noteq> []" and "length (g8_items ds) < 2 ^ 63"
  shows "(\<exists>c0. ToConfig decode (kube_cli given) = Inr c0 \<and> kc_workers c = kc_workers c0) \<and>
    pod_grades parse_duration load perms args 0 = Some (map (\<lambda>item. ExtractExpected (g8_answer item)) (g8_items ds))"
proof -
  have job: "args = CollectArgs given [''eval'', ''gsm8k''] @ [''--metrics'', '':9090'']" "\<exists>c0. ToConfig decode (kube_cli given) = Inr c0 \<and> c = c0"
    using assms(1,3,5) by (auto simp: evalGSM8KCmd_def eval_command_def eval_job_def eval_run_def split: if_splits sum.splits prod.splits)
  have "partition_items (int 0) (int 1) (g8_items ds) = Some (g8_items ds)"
    using part_bound_ends [of 1 "length (g8_items ds)"] partition_items_slice [of 1 0 "g8_items ds"] by simp
  moreover have "graded_by parse_duration load perms f 1 0 =
      Some (map (\<lambda>item. ExtractExpected (g8_answer item)) (the (partition_items (int 0) (int 1) (g8_items ds))))"
    using assms(9) by (intro graded_by_part [OF assms(6-8,10)]) (simp_all add: Suc_le_eq)
  ultimately show ?thesis
    using pod_grades_worker [OF assms(2,3,4), where k = 1 and i = 0] assms(5) job by (auto simp: job(1))
qed

end
