(* ===== verification/Go_Regexp.thy ===== *)
theory Go_Regexp
  imports Go_Runes
begin

text \<open>
  Package \<open>regexp\<close> of the standard library as far as the code uses it: expressions over the runes of a text, matched leftmost-first. The results of a match
  are listed in the order in which a backtracking search finds them; the first one counts. A rune is given by its encoding, an invalid byte by itself.
\<close>

section \<open>Expressions\<close>

text \<open>A class of runes: whether it is negated, ranges of ASCII codes, and further runes.\<close>

datatype cls = Cls bool "(nat \<times> nat) list" "string list"

fun in_cls :: "cls \<Rightarrow> string \<Rightarrow> bool" where
  "in_cls (Cls neg ranges more) t =
     (((case t of [c] \<Rightarrow> list_ex (\<lambda>(lo, hi). lo \<le> char_code c \<and> char_code c \<le> hi) ranges | _ \<Rightarrow> False) \<or> t \<in> set more) \<noteq> neg)"

datatype rx =
    REmpty
  | RChr cls
  | RSeq rx rx
  | RAlt rx rx
  | ROpt rx
  | RRep bool rx
  | RGrp rx
  | RLineStart
  | RTextStart
  | RTextEnd
  | RWordEdge

text \<open>A position: the runes before it, the last one first, those ahead of it, and what the group has captured.\<close>

type_synonym rx_pos = "string list \<times> string list \<times> string list option"

definition word_rune :: "string \<Rightarrow> bool" where
  "word_rune t \<longleftrightarrow> in_cls (Cls False [(48, 57), (65, 90), (95, 95), (97, 122)] []) t"

text \<open>Repetition: a further round must consume something, so as many rounds as there are runes ahead are enough.\<close>

fun rounds :: "(rx_pos \<Rightarrow> rx_pos list) \<Rightarrow> bool \<Rightarrow> nat \<Rightarrow> rx_pos \<Rightarrow> rx_pos list" where
  "rounds f greedy 0 s = [s]"
| "rounds f greedy (Suc n) s =
     (let more = concat (map (rounds f greedy n) (filter (\<lambda>s'. length (fst (snd s')) < length (fst (snd s))) (f s)))
      in if greedy then more @ [s] else s # more)"

primrec matches :: "rx \<Rightarrow> rx_pos \<Rightarrow> rx_pos list" where
  "matches REmpty s = [s]"
| "matches (RChr c) s = (case s of (b, t # a, g) \<Rightarrow> if in_cls c t then [(t # b, a, g)] else [] | _ \<Rightarrow> [])"
| "matches (RSeq r q) s = concat (map (matches q) (matches r s))"
| "matches (RAlt r q) s = matches r s @ matches q s"
| "matches (ROpt r) s = matches r s @ [s]"
| "matches (RRep greedy r) s = rounds (matches r) greedy (length (fst (snd s))) s"
| "matches (RGrp r) s = map (\<lambda>(b, a, g). (b, a, Some (rev (take (length b - length (fst s)) b)))) (matches r s)"
| "matches RLineStart s = (if fst s = [] \<or> hd (fst s) = [CHR 0x0A] then [s] else [])"
| "matches RTextStart s = (if fst s = [] then [s] else [])"
| "matches RTextEnd s = (if fst (snd s) = [] then [s] else [])"
| "matches RWordEdge s =
     (if (fst s \<noteq> [] \<and> word_rune (hd (fst s))) \<noteq> (fst (snd s) \<noteq> [] \<and> word_rune (hd (fst (snd s)))) then [s] else [])"

text \<open>The leftmost match: its runes and the capture.\<close>

fun leftmost :: "rx \<Rightarrow> string list \<Rightarrow> string list \<Rightarrow> (string list \<times> string list option) option" where
  "leftmost r b [] = (case matches r (b, [], None) of (_, a', g) # _ \<Rightarrow> Some ([], g) | [] \<Rightarrow> None)"
| "leftmost r b (t # a) =
     (case matches r (b, t # a, None) of
        (_, a', g) # _ \<Rightarrow> Some (take (length (t # a) - length a') (t # a), g)
      | [] \<Rightarrow> leftmost r (t # b) a)"

function rx_runes :: "string \<Rightarrow> string list" where
  "rx_runes s = (if s = [] then [] else take (max 1 (rune_len s)) s # rx_runes (drop (max 1 (rune_len s)) s))"
  by auto
termination
  by (relation "measure length") auto

declare rx_runes.simps [simp del]

text \<open>\<open>FindStringSubmatch\<close> of an expression with one group.\<close>

definition find_submatch :: "rx \<Rightarrow> string \<Rightarrow> string list option" where
  "find_submatch r s =
     (case leftmost r [] (rx_runes s) of
        None \<Rightarrow> None
      | Some (m, g) \<Rightarrow> Some [concat m, (case g of None \<Rightarrow> [] | Some t \<Rightarrow> concat t)])"

fun rseq :: "rx list \<Rightarrow> rx" where
  "rseq [] = REmpty"
| "rseq (r # rs) = RSeq r (rseq rs)"

section \<open>Facts\<close>

lemma rounds_induct:
  assumes "\<And>s s'. P s \<Longrightarrow> s' \<in> set (f s) \<Longrightarrow> P s'" and "P s"
  shows "s' \<in> set (rounds f greedy n s) \<Longrightarrow> P s'"
  using assms(2)
proof (induction n arbitrary: s)
  case (Suc n)
  then show ?case using assms(1) [OF Suc.prems(2)] by (force simp: Let_def split: if_splits)
qed simp

text \<open>A match only moves runes from ahead to behind.\<close>

lemma matches_move:
  "(b', a', g') \<in> set (matches r (b, a, g)) \<Longrightarrow> rev b' @ a' = rev b @ a \<and> length a' \<le> length a"
proof (induction r arbitrary: b a g b' a' g')
  case (RSeq r q)
  then show ?case by fastforce
next
  case (RRep greedy r)
  have "(\<lambda>(b', a', g'). rev b' @ a' = rev b @ a \<and> length a' \<le> length a) (b', a', g')"
    by (rule rounds_induct [where f = "matches r" and s = "(b, a, g)", OF _ _ RRep.prems [simplified]]) (use RRep.IH in fastforce)+
  then show ?case by simp
qed (auto split: list.splits if_splits)

text \<open>Optional and repeated expressions always match.\<close>

fun always :: "rx \<Rightarrow> bool" where
  "always REmpty = True"
| "always (ROpt r) = True"
| "always (RRep greedy r) = True"
| "always (RSeq r q) = (always r \<and> always q)"
| "always _ = False"

lemma rounds_ne: "rounds f greedy n s \<noteq> []"
  by (cases n) (simp_all add: Let_def)

lemma always_matches: "always r \<Longrightarrow> matches r s \<noteq> []"
  by (induction r arbitrary: s rule: always.induct) (auto simp: rounds_ne neq_Nil_conv, (metis list.set_intros(1) neq_Nil_conv)?)

text \<open>The first match of a sequence.\<close>

lemma first_match_seq:
  "matches r s = s1 # ss \<Longrightarrow> matches q s1 \<noteq> [] \<Longrightarrow> matches (RSeq r q) s \<noteq> [] \<and> hd (matches (RSeq r q) s) = hd (matches q s1)"
  by (cases "matches q s1") auto

text \<open>Expressions without groups keep the capture; the capture of a group of one rune is that rune.\<close>

primrec captures :: "cls list \<Rightarrow> rx \<Rightarrow> bool" where
  "captures cs REmpty = True"
| "captures cs (RChr d) = True"
| "captures cs (RSeq r q) = (captures cs r \<and> captures cs q)"
| "captures cs (RAlt r q) = (captures cs r \<and> captures cs q)"
| "captures cs (ROpt r) = captures cs r"
| "captures cs (RRep greedy r) = captures cs r"
| "captures cs (RGrp r) = list_ex (\<lambda>c. r = RChr c) cs"
| "captures cs RLineStart = True"
| "captures cs RTextStart = True"
| "captures cs RTextEnd = True"
| "captures cs RWordEdge = True"

definition captured :: "cls list \<Rightarrow> string list option \<Rightarrow> string list option \<Rightarrow> bool" where
  "captured cs g0 g \<longleftrightarrow> g = g0 \<or> (\<exists>c\<in>set cs. \<exists>t. g = Some [t] \<and> in_cls c t)"

lemma captures_matches:
  "captures cs r \<Longrightarrow> captured cs g0 g \<Longrightarrow> (b', a', g') \<in> set (matches r (b, a, g)) \<Longrightarrow> captured cs g0 g'"
proof (induction r arbitrary: b a g b' a' g')
  case (RSeq r q)
  from RSeq.prems(3) obtain b1 a1 g1 where "(b1, a1, g1) \<in> set (matches r (b, a, g))" "(b', a', g') \<in> set (matches q (b1, a1, g1))" by auto
  with RSeq show ?case by (metis captures.simps(3))
next
  case (RRep greedy r)
  have "(\<lambda>(b', a', g'). captured cs g0 g') (b', a', g')"
  proof (rule rounds_induct [where f = "matches r" and s = "(b, a, g)"])
    show "(b', a', g') \<in> set (rounds (matches r) greedy (length a) (b, a, g))" using RRep.prems(3) by simp
    show "case (b, a, g) of (b', a', g') \<Rightarrow> captured cs g0 g'" using RRep.prems(2) by simp
    fix s s' assume "case s of (b', a', g') \<Rightarrow> captured cs g0 g'" "s' \<in> set (matches r s)"
    then show "case s' of (b', a', g') \<Rightarrow> captured cs g0 g'" using RRep.IH RRep.prems(1) by (cases s; cases s') auto
  qed
  then show ?case by simp
next
  case (RAlt r q)
  have "(b', a', g') \<in> set (matches r (b, a, g)) \<or> (b', a', g') \<in> set (matches q (b, a, g))" using RAlt.prems(3) by simp
  moreover have "captures cs r" "captures cs q" using RAlt.prems(1) by simp_all
  ultimately show ?case using RAlt.IH RAlt.prems(2) by metis
next
  case (ROpt r)
  have "(b', a', g') \<in> set (matches r (b, a, g)) \<or> g' = g" using ROpt.prems(3) by auto
  moreover have "captures cs r" using ROpt.prems(1) by simp
  ultimately show ?case using ROpt.IH ROpt.prems(2) by metis
next
  case (RGrp r)
  then obtain c t where "c \<in> set cs" "g' = Some [t]" "in_cls c t" by (auto simp: list_ex_iff split: list.splits if_splits)
  then show ?case by (auto simp: captured_def)
qed (auto split: list.splits if_splits)

lemma captures_from: "captures cs r \<Longrightarrow> (b', a', g') \<in> set (matches r (b, a, g)) \<Longrightarrow> captured cs g g'"
  by (rule captures_matches [where g = g]) (simp_all add: captured_def)

section \<open>The first match\<close>

definition first_match :: "rx \<Rightarrow> rx_pos \<Rightarrow> rx_pos \<Rightarrow> bool" where
  "first_match r s s' \<longleftrightarrow> (\<exists>ss. matches r s = s' # ss)"

lemma fm_seq: "first_match r s s1 \<Longrightarrow> first_match q s1 s2 \<Longrightarrow> first_match (RSeq r q) s s2"
  by (auto simp: first_match_def)

lemma fm_line_start: "first_match RLineStart ([], a, g) ([], a, g)"
  by (simp add: first_match_def)

lemma fm_empty: "first_match REmpty s s"
  by (simp add: first_match_def)

lemma fm_chr: "in_cls c t \<Longrightarrow> first_match (RChr c) (b, t # a, g) (t # b, a, g)"
  by (simp add: first_match_def)

lemma fm_opt: "first_match r s s' \<Longrightarrow> first_match (ROpt r) s s'" "matches r s = [] \<Longrightarrow> first_match (ROpt r) s s"
  by (auto simp: first_match_def)

lemma fm_grp: "in_cls c t \<Longrightarrow> first_match (RGrp (RChr c)) (b, t # a, g) (t # b, a, Some [t])"
  by (simp add: first_match_def)

lemma fm_rep_none: "matches r s = [] \<Longrightarrow> first_match (RRep greedy r) s s"
  by (cases "length (fst (snd s))") (simp_all add: first_match_def Let_def)

lemma fm_rep_one:
  "in_cls c t \<Longrightarrow> first_match (RRep True (RChr c)) (t # b, a, g) s' \<Longrightarrow> first_match (RRep True (RChr c)) (b, t # a, g) s'"
  by (auto simp: first_match_def Let_def)

lemma fm_always:
  assumes "always r" "captures [] r"
  shows "\<exists>b' a'. first_match r (b, a, g) (b', a', g)"
proof -
  obtain s' ss where s: "matches r (b, a, g) = s' # ss" using always_matches [OF assms(1), of "(b, a, g)"] by (cases "matches r (b, a, g)") simp_all
  obtain b' a' g' where "s' = (b', a', g')" by (cases s')
  then show ?thesis using captures_from [OF assms(2), of b' a' g' b a g] s by (auto simp: first_match_def captured_def)
qed

lemma leftmost_first:
  "first_match r (b, a, None) (b', a', g) \<Longrightarrow> leftmost r b a = Some (take (length a - length a') a, g)"
  by (cases a) (auto simp: first_match_def)

lemma leftmost_none:
  assumes "\<And>b t a'. \<exists>pre. a = pre @ t # a' \<Longrightarrow> matches r (b, t # a', None) = []" "\<And>b. matches r (b, [], None) = []"
  shows "leftmost r b a = None"
  using assms(1)
proof (induction a arbitrary: b)
  case (Cons t a)
  have "matches r (b, t # a, None) = []" by (rule Cons.prems) (rule exI [of _ "[]"], simp)
  moreover have "leftmost r (t # b) a = None"
  proof (rule Cons.IH)
    fix b u a' assume "\<exists>pre. a = pre @ u # a'"
    then obtain pre where "a = pre @ u # a'" by blast
    then show "matches r (b, u # a', None) = []" by (intro Cons.prems) (rule exI [of _ "t # pre"], simp)
  qed
  ultimately show ?case by simp
qed (simp add: assms(2))

lemma leftmost_captured:
  assumes "captures cs r" "leftmost r b a = Some (m, g)"
  shows "captured cs None g"
proof -
  have hit: "captured cs None g'" if "matches r (b, a, None) = (b', a', g') # ss" for b a b' a' g' ss
    using captures_from [OF assms(1), of b' a' g' b a None] that by simp
  show ?thesis
    using assms(2)
  proof (induction a arbitrary: b)
    case Nil
    then show ?case using hit [of b "[]"] by (auto split: list.splits)
  next
    case (Cons t a)
    then show ?case using hit [of b "t # a"] by (cases "matches r (b, t # a, None)") auto
  qed
qed

section \<open>Runes\<close>

lemma rx_runes_Nil [simp]: "rx_runes [] = []"
  by (simp add: rx_runes.simps)

lemma rx_runes_ascii: "char_code c < 128 \<Longrightarrow> rx_runes (c # s) = [c] # rx_runes s"
  by (subst rx_runes.simps) (simp add: rune_len_def)

lemma concat_rx_runes: "concat (rx_runes s) = s"
  by (induction s rule: rx_runes.induct) (subst rx_runes.simps, simp)

lemma rx_runes_chars: "t \<in> set (rx_runes s) \<Longrightarrow> set t \<subseteq> set s"
  using concat_rx_runes [of s] by (metis UN_upper set_concat)

end
