(* ===== verification/Eval_Patterns.thy ===== *)
theory Eval_Patterns
  imports Eval Go_Regexp
begin

text \<open>
  The multiple-choice patterns of package \<open>eval\<close> (\<open>mcPatterns\<close> of \<open>eval.go\<close>) as expressions of theory \<open>Go_Regexp\<close>, and what \<open>ExtractMCAnswer\<close> does with
  them. Case-insensitive letters include the folds of Unicode: the long s counts as an s.
\<close>

section \<open>Pieces\<close>

definition one_char :: "char \<Rightarrow> rx" where "one_char c = RChr (Cls False [(char_code c, char_code c)] [])"

definition fold_char :: "char \<Rightarrow> rx" where
  "fold_char c = RChr (Cls False [(char_code c, char_code c), (char_code (upper_char c), char_code (upper_char c))]
     (if c = CHR ''s'' then [[CHR 0xC5, CHR 0xBF]] else []))"

definition word_rx :: "string \<Rightarrow> rx" where "word_rx s = rseq (map one_char s)"

definition fold_rx :: "string \<Rightarrow> rx" where "fold_rx s = rseq (map fold_char s)"

definition en_dash :: string where "en_dash = [CHR 0xE2, CHR 0x80, CHR 0x93]"

text \<open>One or two stars or underscores; white space; an optional colon, hyphen or dash; the letters.\<close>

definition mark :: rx where
  "mark = RAlt (RSeq (one_char CHR ''*'') (ROpt (one_char CHR ''*''))) (RSeq (one_char CHR ''_'') (ROpt (one_char CHR ''_'')))"

definition spaces :: rx where "spaces = RRep True (RChr (Cls False [(9, 10), (12, 13), (32, 32)] []))"

definition opt_dash :: rx where
  "opt_dash = ROpt (RChr (Cls False [(58, 58), (45, 45)] [en_dash]))"

definition big_letter :: cls where "big_letter = Cls False [(65, 68)] []"

definition any_letter :: cls where "any_letter = Cls False [(65, 68), (97, 100)] []"

definition not_brace :: cls where "not_brace = Cls True [(125, 125)] []"

definition not_alnum :: cls where "not_alnum = Cls True [(65, 90), (97, 122), (48, 57)] []"

definition left_edge :: rx where "left_edge = RAlt RTextStart (RChr not_alnum)"

definition right_edge :: rx where "right_edge = RAlt (RChr not_alnum) RTextEnd"

section \<open>The patterns\<close>

definition keyword_in_marks :: rx where
  "keyword_in_marks = rseq [mark, fold_rx ''answer'', ROpt (fold_char CHR ''s''), spaces, opt_dash, mark, spaces, RGrp (RChr any_letter), RWordEdge]"

definition answer_line :: rx where
  "answer_line = rseq [RLineStart, spaces, ROpt mark, fold_rx ''answer'', ROpt (one_char CHR '':''), ROpt mark, spaces, ROpt (one_char CHR '':''), spaces, ROpt mark,
     RGrp (RChr any_letter), ROpt mark, spaces]"

definition answer_in_parens :: rx where
  "answer_in_parens = rseq [RWordEdge, fold_rx ''answer'', ROpt (fold_char CHR ''s''), RWordEdge, spaces, opt_dash, spaces, one_char CHR ''('', spaces,
     RGrp (RChr any_letter), spaces, one_char CHR '')'']"

definition answer_letter :: rx where
  "answer_letter = rseq [RWordEdge, fold_rx ''answer'', ROpt (fold_char CHR ''s''), RWordEdge, spaces, opt_dash, spaces, RGrp (RChr any_letter), RWordEdge]"

definition option_letter :: rx where
  "option_letter = rseq [RWordEdge, RAlt (fold_rx ''option'') (fold_rx ''choice''), RWordEdge, spaces, opt_dash, spaces, RGrp (RChr any_letter), RWordEdge]"

definition in_braces :: "rx \<Rightarrow> rx" where
  "in_braces r = rseq [RRep False (RChr not_brace), r, RRep True (RChr not_brace), one_char CHR ''}'']"

definition boxed :: rx where "boxed = RSeq (word_rx (CHR 0x5C # ''boxed{'')) (in_braces (RGrp (RChr big_letter)))"

definition boxed_command :: "string \<Rightarrow> rx" where
  "boxed_command cmd = RSeq (word_rx (CHR 0x5C # ''boxed{'')) (in_braces (RSeq (word_rx (CHR 0x5C # cmd @ ''{'')) (in_braces (RGrp (RChr big_letter)))))"

definition singleton :: rx where
  "singleton = rseq [left_edge, RChr (Cls False [(40, 40), (91, 91)] []), spaces, RGrp (RChr big_letter), spaces, RChr (Cls False [(41, 41), (93, 93)] []), right_edge]"

definition marked_letter :: rx where "marked_letter = rseq [left_edge, mark, RGrp (RChr big_letter), mark, right_edge]"

definition bold_text :: rx where "bold_text = RSeq (word_rx (CHR 0x5C # ''textbf{'')) (in_braces (RGrp (RChr big_letter)))"

definition described_choice :: rx where
  "described_choice = (let c = RChr (Cls True [(42, 42), (95, 95), (10, 10)] [])
     in rseq [left_edge, mark, spaces, RGrp (RChr big_letter), one_char CHR '')'', c, RRep False c, mark, right_edge])"

definition letter_line :: rx where
  "letter_line = rseq [RLineStart, spaces, ROpt mark, RGrp (RChr big_letter), ROpt mark, spaces, ROpt (RChr (Cls False [(46, 46), (41, 41), (45, 45), (58, 58)] [en_dash]))]"

definition mc_expressions :: "rx list" where
  "mc_expressions = [keyword_in_marks, answer_line, answer_in_parens, answer_letter, option_letter, boxed, boxed_command ''textbf'', boxed_command ''text'',
     singleton, marked_letter, bold_text, described_choice, letter_line]"

definition mcPatterns :: "submatch list" where
  "mcPatterns = map find_submatch mc_expressions"

section \<open>The captured letter\<close>

lemma captures_rseq [simp]: "captures cs (rseq rs) \<longleftrightarrow> list_all (captures cs) rs"
  by (induction rs) auto

lemma mc_captures: "r \<in> set mc_expressions \<Longrightarrow> captures [big_letter, any_letter] r"
  by (auto simp: mc_expressions_def keyword_in_marks_def answer_line_def answer_in_parens_def answer_letter_def option_letter_def boxed_def boxed_command_def
      in_braces_def singleton_def marked_letter_def bold_text_def described_choice_def letter_line_def mark_def spaces_def opt_dash_def left_edge_def
      right_edge_def word_rx_def fold_rx_def one_char_def fold_char_def list_all_iff Let_def)

lemma letter_is_one_char: "in_cls big_letter t \<or> in_cls any_letter t \<Longrightarrow> length t = 1"
  by (auto simp: big_letter_def any_letter_def split: list.splits)

lemma mc_submatch:
  assumes "pat \<in> set mcPatterns" "pat s = Some (m0 # m1 # ms)"
  shows "length m1 \<le> 1"
proof -
  obtain r where r: "r \<in> set mc_expressions" "pat = find_submatch r" using assms(1) by (auto simp: mcPatterns_def)
  then obtain m g where g: "leftmost r [] (rx_runes s) = Some (m, g)" "m1 = (case g of None \<Rightarrow> [] | Some t \<Rightarrow> concat t)"
    using assms(2) by (auto simp: find_submatch_def split: option.splits)
  show ?thesis
    using leftmost_captured [OF mc_captures [OF r(1)] g(1)] letter_is_one_char g(2) by (auto simp: captured_def)
qed

section \<open>Which letter\<close>

definition answer_part :: "string \<Rightarrow> string" where
  "answer_part response = (case last_index response ''</think>'' of Some i \<Rightarrow> drop (i + 8) response | None \<Rightarrow> response)"

lemma extract_cases:
  "ExtractMCAnswer pats response =
     (case first_mc pats (answer_part response) of
        Some l \<Rightarrow> l
      | None \<Rightarrow> (case trim_left (\<lambda>c. c = CHR ''*'') (trim_space (answer_part response)) of
                   c # _ \<Rightarrow> if in_A_D (to_upper [c]) then to_upper [c] else [] | [] \<Rightarrow> []))"
  using mc_matches_first [of 0 pats "answer_part response"]
  by (auto simp: ExtractMCAnswer_def answer_part_def Let_def split: list.splits option.splits)

lemma first_mc_letter: "set pats \<subseteq> set mcPatterns \<Longrightarrow> first_mc pats s = Some l \<Longrightarrow> l \<in> {''A'', ''B'', ''C'', ''D''}"
proof (induction pats)
  case (Cons pat pats)
  show ?case
  proof (cases "\<exists>m0 m1 ms. pat s = Some (m0 # m1 # ms) \<and> in_A_D (to_upper m1)")
    case True
    then obtain m0 m1 ms where m: "pat s = Some (m0 # m1 # ms)" "in_A_D (to_upper m1)" by blast
    with mc_submatch [of pat s m0 m1 ms] Cons.prems(1) have "length m1 \<le> 1" by simp
    moreover have "m1 \<noteq> []" using m(2) by (auto simp: in_A_D_def to_upper_def)
    ultimately obtain c where "m1 = [c]" by (cases m1) auto
    then show ?thesis using m Cons.prems(2) in_A_D_char [of "upper_char c"] by (auto simp: to_upper_def)
  next
    case False
    then have "first_mc (pat # pats) s = first_mc pats s" by (auto split: option.splits list.splits)
    with Cons show ?thesis by simp
  qed
qed simp

lemma mc_answer_is_letter: "ExtractMCAnswer mcPatterns response \<in> {[], ''A'', ''B'', ''C'', ''D''}"
  using first_mc_letter [of mcPatterns "answer_part response"] in_A_D_char
  by (fastforce simp: extract_cases to_upper_def split: option.splits list.splits)

section \<open>A line that begins with the keyword\<close>

text \<open>The first pattern needs a star or an underscore.\<close>

lemma mark_needs: "t \<noteq> ''*'' \<Longrightarrow> t \<noteq> ''_'' \<Longrightarrow> matches (RSeq mark q) (b, t # a, g) = []"
  by (auto simp: mark_def one_char_def char_code_inject split: list.splits)

lemma no_keyword_in_marks:
  assumes "CHR ''*'' \<notin> set s" "CHR ''_'' \<notin> set s"
  shows "leftmost keyword_in_marks [] (rx_runes s) = None"
proof (rule leftmost_none)
  fix b t a' assume "\<exists>pre. rx_runes s = pre @ t # a'"
  then have "set t \<subseteq> set s" using rx_runes_chars [of t s] by auto
  then have "t \<noteq> ''*''" "t \<noteq> ''_''" using assms by auto
  then show "matches keyword_in_marks (b, t # a', None) = []" unfolding keyword_in_marks_def rseq.simps by (rule mark_needs)
next
  fix b show "matches keyword_in_marks (b, [], None) = []"
    by (simp add: keyword_in_marks_def mark_def one_char_def)
qed

lemma in_cls_one [simp]: "in_cls (Cls False [(char_code c, char_code c)] []) [d] \<longleftrightarrow> d = c"
  by (auto simp: char_code_inject)

lemma answer_line_matches:
  assumes "x \<in> set ''ABCDabcd''"
  shows "\<exists>b' a'. first_match answer_line ([], map (\<lambda>c. [c]) ''Answer: '' @ [x] # ts, None) (b', a', Some [[x]])"
proof -
  have x: "in_cls any_letter [x]" "char_code x \<notin> {9, 10, 12, 13, 32}" "x \<noteq> CHR '':''" "x \<noteq> CHR ''*''" "x \<noteq> CHR ''_''"
    using assms by (auto simp: any_letter_def char_code_def)
  have tail: "\<exists>b' a'. first_match (RSeq (ROpt mark) (RSeq spaces REmpty)) (b, a, g) (b', a', g)" for b a g
    by (rule fm_always) (simp_all add: spaces_def mark_def one_char_def)
  have sp: "first_match spaces (b, [c] # a, g) (b, [c] # a, g)" if "char_code c \<notin> {9, 10, 12, 13, 32}" for b c a g
    using that unfolding spaces_def by (intro fm_rep_none) auto
  have mk: "first_match (ROpt mark) (b, [c] # a, g) (b, [c] # a, g)" if "c \<noteq> CHR ''*''" "c \<noteq> CHR ''_''" for b c a g
    using that by (intro fm_opt(2)) (auto simp: mark_def one_char_def char_code_inject)
  have no: "first_match (ROpt (one_char d)) (b, [c] # a, g) (b, [c] # a, g)" if "c \<noteq> d" for b c a g d
    using that by (intro fm_opt(2)) (auto simp: one_char_def char_code_inject)
  have yes: "first_match (ROpt (one_char d)) (b, [d] # a, g) ([d] # b, a, g)" for b a g d
    unfolding one_char_def by (intro fm_opt(1) fm_chr) simp
  have blank: "first_match spaces (b, '' '' # [x] # a, g) ('' '' # b, [x] # a, g)" for b a g
    unfolding spaces_def by (rule fm_rep_one, simp add: char_code_def, rule fm_rep_none) (use x(2) in auto)
  have word: "first_match (fold_rx ''answer'') (b, map (\<lambda>c. [c]) ''Answer'' @ a, g) (rev (map (\<lambda>c. [c]) ''Answer'') @ b, a, g)" for b a g
    unfolding fold_rx_def fold_char_def by (auto simp: first_match_def char_code_def upper_char_def is_lower_def)
  obtain b' a' where t: "first_match (RSeq (ROpt mark) (RSeq spaces REmpty)) ([x] # rev (map (\<lambda>c. [c]) ''Answer: ''), ts, Some [[x]]) (b', a', Some [[x]])"
    using tail by blast
  have "first_match answer_line ([], map (\<lambda>c. [c]) ''Answer: '' @ [x] # ts, None) (b', a', Some [[x]])"
    unfolding answer_line_def rseq.simps list.map append_Cons append_Nil
    apply (rule fm_seq [OF fm_line_start])
    apply (rule fm_seq [OF sp], simp add: char_code_def)
    apply (rule fm_seq [OF mk], simp, simp)
    apply (rule fm_seq [OF word [of "[]" "'':'' # '' '' # [x] # ts" None, simplified]])
    apply (rule fm_seq [OF yes])
    apply (rule fm_seq [OF mk], simp, simp)
    apply (rule fm_seq [OF blank])
    apply (rule fm_seq [OF no], rule x(3))
    apply (rule fm_seq [OF sp], rule x(2))
    apply (rule fm_seq [OF mk], rule x(4), rule x(5))
    apply (rule fm_seq [OF fm_grp], rule x(1))
    using t apply simp
    done
  then show ?thesis by blast
qed

lemma to_upper_letters [simp]:
  "to_upper ''A'' = ''A''" "to_upper ''B'' = ''B''" "to_upper ''C'' = ''C''" "to_upper ''D'' = ''D''"
  "to_upper ''a'' = ''A''" "to_upper ''b'' = ''B''" "to_upper ''c'' = ''C''" "to_upper ''d'' = ''D''"
  by code_simp+

lemma answer_line_found:
  assumes "x \<in> set ''ABCDabcd''" "CHR ''*'' \<notin> set rest" "CHR ''_'' \<notin> set rest"
  shows "first_mc mcPatterns (''Answer: '' @ x # rest) = Some (to_upper [x])"
proof -
  let ?s = "''Answer: '' @ x # rest"
  have x: "x \<noteq> CHR ''*''" "x \<noteq> CHR ''_''" "char_code x < 128" "in_A_D (to_upper [x])"
    using assms(1) by (auto simp: char_code_def in_A_D_def)
  have "leftmost keyword_in_marks [] (rx_runes ?s) = None" by (rule no_keyword_in_marks) (use assms(2,3) x in auto)
  then have no: "find_submatch keyword_in_marks ?s = None" by (simp add: find_submatch_def)
  have "rx_runes ?s = map (\<lambda>c. [c]) ''Answer: '' @ [x] # rx_runes rest"
    using x(3) by (simp add: rx_runes_ascii char_code_def)
  moreover obtain b' a' where "first_match answer_line ([], map (\<lambda>c. [c]) ''Answer: '' @ [x] # rx_runes rest, None) (b', a', Some [[x]])"
    using answer_line_matches [OF assms(1)] by blast
  ultimately obtain m where "leftmost answer_line [] (rx_runes ?s) = Some (m, Some [[x]])" using leftmost_first by metis
  then have yes: "find_submatch answer_line ?s = Some [concat m, [x]]" by (simp add: find_submatch_def)
  have p: "mcPatterns = find_submatch keyword_in_marks # find_submatch answer_line # map find_submatch (drop 2 mc_expressions)"
    by (simp add: mcPatterns_def mc_expressions_def)
  show ?thesis unfolding p using no yes x(4) by simp
qed

lemma mc_grades:
  assumes "k \<in> {CHR ''A'', CHR ''B'', CHR ''C'', CHR ''D''}" "l \<in> {''A'', ''B'', ''C'', ''D''}"
  shows "CheckMCCorrect [CHR ''('', k, CHR '')''] l = (l = [k])"
proof -
  have n: "normalizeMC [CHR ''('', k, CHR '')''] = [k]" using assms(1) by (elim insertE emptyE; simp only:) code_simp+
  have "normalizeMC l = l" using assms(2) by (elim insertE emptyE; simp only:) code_simp+
  then show ?thesis using assms(2) by (auto simp: CheckMCCorrect_def n)
qed



text \<open>The pattern does not ask for the end of the word: a line that goes on in words is graded by its first letter.\<close>

lemma word_after_answer_is_graded: "ExtractMCAnswer mcPatterns ''Answer: Depends on the case.'' = ''D''"
proof -
  have "answer_part ''Answer: Depends on the case.'' = ''Answer: '' @ CHR ''D'' # ''epends on the case.''" by code_simp
  then show ?thesis using answer_line_found [of "CHR ''D''" "''epends on the case.''"] by (simp add: extract_cases)
qed

end
