(* ===== verification/Run_Storage.thy ===== *)
theory Run_Storage
  imports Control_Report Run_Submission
begin

text \<open>
  The files of the durable runs (\<open>pkg/controlapi/mcp_runs.go\<close>): making a directory below the result root without following symbolic links, reading a
  manifest back, and whether a run has left artifacts. The tree of files below the result root is a map from the elements of a path; system calls that fail,
  and what other processes put in place between a look and the call that follows it, are arguments.
\<close>

section \<open>Directories\<close>

datatype file_node = RealDirectory | SymbolicLink string | OtherFile

type_synonym file_tree = "string list \<rightharpoonup> file_node"

record fs_faults =
  ff_root_fails :: bool
  ff_lstat_fails :: "string list \<Rightarrow> bool"
  ff_mkdir_fails :: "string list \<Rightarrow> bool"
  ff_intruder :: "string list \<Rightarrow> file_node option"

datatype storage_error =
    PathEscapesRoot
  | MakingRoot
  | LstatFailed "string list"
  | MkdirFailed "string list"
  | NotRealDirectory "string list"

text \<open>One element of the path: \<open>Lstat\<close>, and \<open>Mkdir\<close> with a second look when there is nothing. \<open>Mkdir\<close> fails with \<open>ErrExist\<close>, which is accepted, when
  another process was faster.\<close>

definition ensure_part :: "fs_faults \<Rightarrow> string list \<Rightarrow> file_tree \<Rightarrow> file_tree \<times> (storage_error, unit) result" where
  "ensure_part ff c t =
     (let checked = (\<lambda>t n. (t, if n = RealDirectory then Inr () else Inl (NotRealDirectory c)))
      in if ff_lstat_fails ff c then (t, Inl (LstatFailed c))
         else case t c of
           Some n \<Rightarrow> checked t n
         | None \<Rightarrow>
             (case ff_intruder ff c of
                Some n \<Rightarrow> checked (t(c \<mapsto> n)) n
              | None \<Rightarrow> if ff_mkdir_fails ff c then (t, Inl (MkdirFailed c)) else checked (t(c \<mapsto> RealDirectory)) RealDirectory))"

fun ensure_parts :: "fs_faults \<Rightarrow> string list \<Rightarrow> string list \<Rightarrow> file_tree \<Rightarrow> file_tree \<times> (storage_error, unit) result" where
  "ensure_parts ff current [] t = (t, Inr ())"
| "ensure_parts ff current (part # parts) t =
     (case ensure_part ff (current @ [part]) t of
        (t', Inl e) \<Rightarrow> (t', Inl e)
      | (t', Inr _) \<Rightarrow> ensure_parts ff (current @ [part]) parts t')"

definition ensureDirectoryBelowRoot :: "fs_faults \<Rightarrow> string \<Rightarrow> string \<Rightarrow> file_tree \<Rightarrow> file_tree \<times> (storage_error, unit) result" where
  "ensureDirectoryBelowRoot ff rootdir dir t =
     (case path_rel (path_clean rootdir) (path_clean dir) of
        None \<Rightarrow> (t, Inl PathEscapesRoot)
      | Some rel \<Rightarrow>
          if rel = ''..'' \<or> has_prefix rel (''..'' @ [sep]) then (t, Inl PathEscapesRoot)
          else if ff_root_fails ff then (t, Inl MakingRoot)
          else if rel = ''.'' then (t, Inr ())
          else ensure_parts ff [] (split_on sep rel) t)"

section \<open>Manifests\<close>

datatype manifest_error = OpeningManifest | ReadingManifest | InvalidManifest | TrailingData

text \<open>\<open>decode\<close> is the strict JSON decoder: a manifest and the bytes behind it. The file is cut at the bound on requests.\<close>

definition json_blank :: "char \<Rightarrow> bool" where
  "json_blank c \<longleftrightarrow> char_code c \<in> {9, 10, 13, 32}"

definition manifest_limit :: nat where "manifest_limit = 1048576"

definition readManifestFile ::
    "(string \<Rightarrow> (string \<times> durableRunManifest \<times> string) option) \<Rightarrow> string option \<Rightarrow> (manifest_error, durableRunManifest) result" where
  "readManifestFile decode file =
     (case file of
        None \<Rightarrow> Inl OpeningManifest
      | Some bytes \<Rightarrow>
          (case decode (take manifest_limit bytes) of
             None \<Rightarrow> Inl ReadingManifest
           | Some (version, m, rest) \<Rightarrow>
               if version \<noteq> ''nyann-bench-run-v1'' \<or> mf_run m = [] \<or> mf_fingerprint m = [] then Inl InvalidManifest
               else if \<not> list_all json_blank rest then Inl TrailingData
               else Inr m))"

definition manifestHasBenchmarkArtifacts ::
    "fs_view \<Rightarrow> Options \<Rightarrow> (string \<Rightarrow> listing) \<Rightarrow> durableRunManifest \<Rightarrow> (report_error, bool) result" where
  "manifestHasBenchmarkArtifacts fs opts list_dir m =
     res_bind (safeResultDirectory fs opts (mf_results m)) (\<lambda>dir.
     res_bind (readBoundedDirectory (MaxArtifactFiles opts) (list_dir dir)) (\<lambda>es.
       case es of
         None \<Rightarrow> Inr False
       | Some es \<Rightarrow> Inr (list_ex (\<lambda>e. de_name e \<noteq> ''run-manifest.json'' \<and> artifactPattern (de_name e) \<noteq> None) es)))"

text \<open>The directory for the manifest beside the results, as \<open>persistDurableRunManifest\<close> makes it.\<close>

definition result_directory_for_manifest ::
    "fs_view \<Rightarrow> fs_faults \<Rightarrow> Options \<Rightarrow> durableRunManifest \<Rightarrow> file_tree \<Rightarrow> file_tree \<times> (report_error + storage_error, string) result" where
  "result_directory_for_manifest fs ff opts m t =
     (case safeResultDirectory fs opts (mf_results m) of
        Inl e \<Rightarrow> (t, Inl (Inl e))
      | Inr dir \<Rightarrow>
          (case ensureDirectoryBelowRoot ff (ResultRoot opts) dir t of
             (t', Inl e) \<Rightarrow> (t', Inl (Inr e))
           | (t', Inr _) \<Rightarrow> (t', Inr dir)))"

section \<open>Nothing is followed out of the root\<close>

lemma ensure_part_cases:
  assumes "ensure_part ff c t = (t', r)"
  shows "(\<forall>p. p \<noteq> c \<longrightarrow> t' p = t p) \<and> (\<forall>n. t c = Some n \<longrightarrow> t' c = Some n) \<and> (r = Inr () \<longrightarrow> t' c = Some RealDirectory)"
  using assms by (auto simp: ensure_part_def Let_def split: if_splits option.splits)

lemma ensure_parts_cases:
  "ensure_parts ff current parts t = (t', r) \<Longrightarrow>
     t \<subseteq>\<^sub>m t' \<and> (\<forall>p. t' p \<noteq> t p \<longrightarrow> (\<exists>k. 0 < k \<and> k \<le> length parts \<and> p = current @ take k parts)) \<and>
     (r = Inr () \<longrightarrow> (\<forall>k. 0 < k \<longrightarrow> k \<le> length parts \<longrightarrow> t' (current @ take k parts) = Some RealDirectory))"
proof (induction ff current parts t rule: ensure_parts.induct)
  case (2 ff current part parts t)
  obtain t1 r1 where e: "ensure_part ff (current @ [part]) t = (t1, r1)" by fastforce
  note one = ensure_part_cases [OF e]
  have sub: "t \<subseteq>\<^sub>m t1"
    unfolding map_le_def using one by (metis domIff option.exhaust)
  show ?case
  proof (cases r1)
    case (Inl x)
    then have "t' = t1" "r = Inl x" using 2(2) e by simp_all
    moreover have "t1 p \<noteq> t p \<longrightarrow> (\<exists>k. 0 < k \<and> k \<le> length (part # parts) \<and> p = current @ take k (part # parts))" for p
      using one by (intro impI exI [of _ 1]) auto
    ultimately show ?thesis using sub by simp
  next
    case (Inr u)
    then have rest: "ensure_parts ff (current @ [part]) parts t1 = (t', r)" using 2(2) e by simp
    from 2(1) [OF e [symmetric] Inr rest]
    have IH: "t1 \<subseteq>\<^sub>m t'" "\<forall>p. t' p \<noteq> t1 p \<longrightarrow> (\<exists>k. 0 < k \<and> k \<le> length parts \<and> p = (current @ [part]) @ take k parts)"
      "r = Inr () \<longrightarrow> (\<forall>k. 0 < k \<longrightarrow> k \<le> length parts \<longrightarrow> t' ((current @ [part]) @ take k parts) = Some RealDirectory)" by simp_all
    have "t1 (current @ [part]) = Some RealDirectory" using one Inr by simp
    then have part: "t' (current @ [part]) = Some RealDirectory" using IH(1) by (metis domI map_le_def)
    have "\<exists>k. 0 < k \<and> k \<le> length (part # parts) \<and> p = current @ take k (part # parts)" if "t' p \<noteq> t p" for p
    proof (cases "t' p = t1 p")
      case True
      then show ?thesis using that one by (intro exI [of _ 1]) auto
    next
      case False
      then obtain k where "k \<le> length parts" "p = (current @ [part]) @ take k parts" using IH(2) by blast
      then show ?thesis by (intro exI [of _ "Suc k"]) simp
    qed
    moreover have "t' (current @ take k (part # parts)) = Some RealDirectory" if "r = Inr ()" "0 < k" "k \<le> length (part # parts)" for k
      using that IH(3) part by (cases k; cases "k = 1") auto
    ultimately show ?thesis using sub IH(1) map_le_trans by blast
  qed
qed auto

lemma split_relative:
  assumes "ts \<noteq> []" "\<forall>e\<in>set ts. plain_elem e"
  shows "split_on sep (join_with [sep] ts) = ts" "join_with [sep] ts \<noteq> ''.''" "join_with [sep] ts \<noteq> ''..''" "\<not> has_prefix (join_with [sep] ts) (''..'' @ [sep])"
proof -
  show s: "split_on sep (join_with [sep] ts) = ts" using assms by (intro split_join) (auto simp: plain_elem_def)
  show "join_with [sep] ts \<noteq> ''.''"
  proof
    assume "join_with [sep] ts = ''.''"
    then have "ts = [''.'']" using s by (simp add: sep_def)
    then show False using assms(2) by (simp add: plain_elem_def)
  qed
  show "join_with [sep] ts \<noteq> ''..''"
  proof
    assume "join_with [sep] ts = ''..''"
    then have "ts = [''..'']" using s by (simp add: sep_def)
    then show False using assms(2) by (simp add: plain_elem_def)
  qed
  show "\<not> has_prefix (join_with [sep] ts) (''..'' @ [sep])"
  proof
    assume "has_prefix (join_with [sep] ts) (''..'' @ [sep])"
    then obtain x where "join_with [sep] ts = ''..'' @ sep # x" by (auto simp: has_prefix_iff prefix_def)
    then have "ts = split_on sep (''..'' @ sep # x)" using s by simp
    then have "hd ts = ''..''" by (simp add: sep_def)
    then show False using assms hd_in_set [OF assms(1)] by (auto simp: plain_elem_def)
  qed
qed

text \<open>The directory of an absolute path below an absolute root is made element by element.\<close>

lemma ensure_below:
  assumes "is_abs rootdir" "is_abs dir" "path_elems dir = path_elems rootdir @ ts" "ts \<noteq> []"
  shows "ensureDirectoryBelowRoot ff rootdir dir t = (if ff_root_fails ff then (t, Inl MakingRoot) else ensure_parts ff [] ts t)"
proof -
  have c: "is_abs (path_clean rootdir)" "is_abs (path_clean dir)" "path_elems (path_clean dir) = path_elems (path_clean rootdir) @ ts"
    using assms by (simp_all add: path_clean_abs path_elems_abs_path path_elems_abs_plain)
  have plain: "\<forall>e\<in>set ts. plain_elem e" using path_elems_abs_plain [OF assms(2)] assms(3) by simp
  show ?thesis
    using path_rel_extends [OF c assms(4)] split_relative [OF assms(4) plain] by (simp add: ensureDirectoryBelowRoot_def)
qed


definition no_faults :: fs_faults where
  "no_faults = \<lparr>ff_root_fails = False, ff_lstat_fails = (\<lambda>_. False), ff_mkdir_fails = (\<lambda>_. False), ff_intruder = (\<lambda>_. None)\<rparr>"

definition stored_run :: durableRunManifest where
  "stored_run = \<lparr>mf_run = ''r'', mf_fingerprint = ''f'', mf_created = 0, mf_target = [], mf_model = [], mf_label = [], mf_workstream = [], mf_scenario = [],
     mf_platform = [], mf_results = durable_at ''/results/mcp/r'', mf_workers = 1, mf_deadline = 0, mf_retention = 0, mf_image = []\<rparr>"

definition fresh_fs :: fs_view where
  "fresh_fs = plain_fs\<lparr>fv_exists := (\<lambda>_. False)\<rparr>"


section \<open>What is read back\<close>

lemma read_manifest_accepts:
  "readManifestFile decode file = Inr m \<Longrightarrow>
     \<exists>bytes rest. file = Some bytes \<and> decode (take manifest_limit bytes) = Some (''nyann-bench-run-v1'', m, rest) \<and> mf_run m \<noteq> [] \<and> mf_fingerprint m \<noteq> [] \<and>
       list_all json_blank rest"
  by (auto simp: readManifestFile_def split: option.splits if_splits)

text \<open>A run has artifacts when its directory lists a name that a report would read, the manifest aside.\<close>

lemma artifacts_found:
  assumes "manifestHasBenchmarkArtifacts fs opts list_dir m = Inr b" "safeResultDirectory fs opts (mf_results m) = Inr dir"
  shows "b \<longleftrightarrow> (\<exists>es. list_dir dir = Entries es \<and> (\<exists>e\<in>set es. de_name e \<noteq> ''run-manifest.json'' \<and> artifactPattern (de_name e) \<noteq> None))"
  using assms by (auto simp: manifestHasBenchmarkArtifacts_def readBoundedDirectory_def list_ex_iff split: listing.splits if_splits)

end
