(* ===== verification/Summary_Text.thy ===== *)
theory Summary_Text
  imports Analysis
begin

text \<open>
  The texts of package \<open>analysis\<close>: the summary of a run (\<open>FormatSummary\<close> of \<open>stats.go\<close>) and the table of its stages (\<open>stage.go\<close>), and the reading of
  JSONL records (\<open>loadJSONL\<close>). A float is written as \<open>strconv\<close> does, by rounding its exact value to the digits asked for, ties to even.
\<close>

section \<open>Numbers and cells\<close>

definition zero_padded :: "nat \<Rightarrow> nat \<Rightarrow> string" where
  "zero_padded d n = (let s = nat_to_dec n in replicate (d - length s) CHR ''0'' @ s)"

definition fixed :: "nat \<Rightarrow> rat \<Rightarrow> string" where
  "fixed d x =
     (let n = nat (round_even (\<bar>x\<bar> * 10 ^ d))
      in (if x < 0 then ''-'' else []) @ nat_to_dec (n div 10 ^ d) @ (if d = 0 then [] else CHR ''.'' # zero_padded d (n mod 10 ^ d)))"

definition pad_left :: "nat \<Rightarrow> string \<Rightarrow> string" where
  "pad_left w s = replicate (w - length s) CHR '' '' @ s"

definition line_feed :: char where "line_feed = CHR 0x0A"

text \<open>A line of a table: cells with their widths, two blanks between them.\<close>

definition table_line :: "(nat \<times> string) list \<Rightarrow> string" where
  "table_line cells = join_with ''  '' (map (\<lambda>(w, s). pad_left w s) cells)"

definition fmtDuration :: "rat \<Rightarrow> string" where
  "fmtDuration seconds =
     (if seconds = 0 then ''-''
      else if seconds < f64_round (1 / 1000) then fixed 0 (fmul seconds 1000000) @ ''us''
      else if seconds < 1 then fixed 1 (fmul seconds 1000) @ ''ms''
      else fixed 2 seconds @ ''s'')"

definition fmtMs :: "rat \<Rightarrow> string" where
  "fmtMs ms =
     (if ms = 0 then ''-''
      else if ms < 1 then fixed 0 (fmul ms 1000) @ ''us''
      else if ms < 1000 then fixed 1 ms @ ''ms''
      else fixed 2 (fdiv ms 1000) @ ''s'')"

definition fmtPct :: "rat \<Rightarrow> string" where
  "fmtPct v = fixed 1 (fmul v 100) @ ''%''"

section \<open>The table of stages\<close>

definition stage_columns :: "(nat \<times> string) list" where
  "stage_columns = [(6, ''CONC''), (6, ''OK''), (5, ''ERR''), (9, ''TOT_TOK''), (9, ''TOK/S''), (10, ''TTFT_AVG''), (10, ''TTFT_P10''), (10, ''TTFT_P50''),
     (10, ''TTFT_P95''), (10, ''TTFT_P99''), (10, ''ITL_P10''), (10, ''ITL_P50''), (10, ''ITL_P95''), (10, ''ITL_P99'')]"

definition server_columns :: "bool \<Rightarrow> (nat \<times> string) list" where
  "server_columns aggregate =
     [(9, ''SRV_TOK/S''), (10, ''SRV_TTFT50''), (10, ''SRV_TTFT99''), (10, ''SRV_ITL10''), (10, ''SRV_ITL50''), (10, ''SRV_ITL95''), (10, ''SRV_ITL99'')] @
     (if aggregate then [(7, ''KV_MIN''), (7, ''KV_MAX'')] else [(7, ''PKV_MIN''), (7, ''PKV_MAX''), (7, ''DKV_MIN''), (7, ''DKV_MAX'')])"

definition header_cells :: "ServerMetrics option \<Rightarrow> (nat \<times> string) list" where
  "header_cells sm = stage_columns @ (case sm of None \<Rightarrow> [] | Some m \<Rightarrow> server_columns (sm_aggregate m))"

definition rule_width :: "ServerMetrics option \<Rightarrow> nat" where
  "rule_width sm = (case sm of None \<Rightarrow> 156 | Some m \<Rightarrow> if sm_aggregate m then 254 else 270)"

definition FormatStageHeader :: "ServerMetrics option \<Rightarrow> string" where
  "FormatStageHeader sm = table_line (header_cells sm) @ [line_feed] @ replicate (rule_width sm) CHR ''-'' @ [line_feed]"

definition client_cells :: "StageSummary \<Rightarrow> (nat \<times> string) list" where
  "client_cells s =
     [(6, itoa (sg_concurrency s)), (6, itoa (sg_success s)), (5, itoa (sg_errors s)), (9, itoa (sg_output_tokens s)), (9, fixed 1 (sg_tokens_per_s s)),
      (10, fmtMs (ls_mean (sg_ttft s))), (10, fmtMs (ls_p10 (sg_ttft s))), (10, fmtMs (ls_p50 (sg_ttft s))), (10, fmtMs (ls_p95 (sg_ttft s))),
      (10, fmtMs (ls_p99 (sg_ttft s))), (10, fmtMs (ls_p10 (sg_itl s))), (10, fmtMs (ls_p50 (sg_itl s))), (10, fmtMs (ls_p95 (sg_itl s))),
      (10, fmtMs (ls_p99 (sg_itl s)))]"

definition server_cells :: "ServerMetrics \<Rightarrow> (nat \<times> string) list" where
  "server_cells m =
     [(9, fixed 1 (sm_output_p50 m)), (10, fmtDuration (pl_p50 (sm_ttft m))), (10, fmtDuration (pl_p99 (sm_ttft m))), (10, fmtDuration (pl_p10 (sm_itl m))),
      (10, fmtDuration (pl_p50 (sm_itl m))), (10, fmtDuration (pl_p95 (sm_itl m))), (10, fmtDuration (pl_p99 (sm_itl m)))] @
     (if sm_aggregate m then [(7, fmtPct (sm_decode_kv_min m)), (7, fmtPct (sm_decode_kv_max m))]
      else [(7, fmtPct (sm_prefill_kv_min m)), (7, fmtPct (sm_prefill_kv_max m)), (7, fmtPct (sm_decode_kv_min m)), (7, fmtPct (sm_decode_kv_max m))])"

definition row_cells :: "StageSummary \<Rightarrow> (nat \<times> string) list" where
  "row_cells s = client_cells s @ (case sg_server s of None \<Rightarrow> [] | Some m \<Rightarrow> server_cells m)"

definition FormatStageRow :: "StageSummary \<Rightarrow> string" where
  "FormatStageRow s = table_line (row_cells s) @ [line_feed]"

section \<open>The summary\<close>

definition stats_text :: "nat \<Rightarrow> LatencyStats \<Rightarrow> string" where
  "stats_text d l = ''mean='' @ fixed d (ls_mean l) @ ''  p50='' @ fixed d (ls_p50 l) @ ''  p90='' @ fixed d (ls_p90 l) @ ''  p99='' @ fixed d (ls_p99 l) @
     ''  min='' @ fixed d (ls_min l) @ ''  max='' @ fixed d (ls_max l)"

definition summary_lines :: "Summary \<Rightarrow> string list" where
  "summary_lines s =
     [''=== Benchmark Results ==='',
      ''Requests:       '' @ itoa (TotalRequests s) @ '' total, '' @ itoa (SuccessRequests s) @ '' ok, '' @ itoa (ErrorRequests s) @ '' errors'',
      ''Conversations:  '' @ itoa (Conversations s) @ '' (avg '' @ fixed 1 (ls_mean (TurnsPerConv s)) @ '' turns)'',
      ''Duration:       '' @ fixed 1 (TotalDurationS s) @ ''s'',
      ''Throughput:     '' @ fixed 1 (RequestsPerSec s) @ '' req/s, '' @ fixed 0 (OutputTokensPerS s) @ '' output tok/s'',
      ''Tokens:         '' @ itoa (TotalPromptTokens s) @ '' prompt, '' @ itoa (TotalOutputTokens s) @ '' output'',
      [],
      ''TTFT (ms):      '' @ stats_text 1 (TTFTMs s),
      ''ITL  (ms):      '' @ stats_text 2 (ITLMs s),
      ''E2E  (ms):      '' @ stats_text 1 (E2EMs s)] @
     (if 0 < EvalTotal s
      then [[], ''Eval:           '' @ itoa (EvalTotal s) @ '' total, '' @ itoa (EvalCorrectCount s) @ '' correct, '' @ itoa (EvalIncorrect s) @ '' incorrect'',
            ''Accuracy:       '' @ fixed 1 (fmul (EvalAccuracy s) 100) @ ''%'']
      else [])"

definition FormatSummary :: "Summary \<Rightarrow> string" where
  "FormatSummary s = concat (map (\<lambda>l. l @ [line_feed]) (summary_lines s))"

section \<open>Reading JSONL\<close>

text \<open>\<open>decode\<close> reads the next value: it fails, finds the end, or gives a value and what is left, which is shorter.\<close>

fun read_values :: "(string \<Rightarrow> ('a \<times> string) option option) \<Rightarrow> nat \<Rightarrow> string \<Rightarrow> 'a list option" where
  "read_values decode 0 s = None"
| "read_values decode (Suc n) s =
     (case decode s of
        None \<Rightarrow> None
      | Some None \<Rightarrow> Some []
      | Some (Some (r, rest)) \<Rightarrow> map_option ((#) r) (read_values decode n rest))"

definition loadJSONL :: "(string \<Rightarrow> (Record \<times> string) option option) \<Rightarrow> string option \<Rightarrow> Record list option" where
  "loadJSONL decode file = (case file of None \<Rightarrow> None | Some s \<Rightarrow> read_values decode (length s + 1) s)"

section \<open>The table is aligned\<close>

lemma nat_to_dec_length: "n < 10 ^ k \<Longrightarrow> 0 < k \<Longrightarrow> length (nat_to_dec n) \<le> k"
proof (induction k arbitrary: n)
  case (Suc k)
  show ?case
  proof (cases "n < 10")
    case True
    then show ?thesis by (subst nat_to_dec.simps) simp
  next
    case False
    then have "k \<noteq> 0" using Suc.prems by (cases k) auto
    moreover have "n div 10 < 10 ^ k" using Suc.prems by (simp add: less_mult_imp_div_less mult.commute)
    ultimately show ?thesis using Suc.IH [of "n div 10"] False by (subst nat_to_dec.simps) simp
  qed
qed simp

lemma length_itoa: "0 \<le> i \<Longrightarrow> i < 10 ^ k \<Longrightarrow> 0 < k \<Longrightarrow> length (itoa i) \<le> k"
  using nat_to_dec_length [of "nat i" k] by (simp add: itoa_def nat_less_iff)

lemma length_zero_padded: "n < 10 ^ d \<Longrightarrow> 0 < d \<Longrightarrow> length (zero_padded d n) = d"
  using nat_to_dec_length [of n d] by (simp add: zero_padded_def Let_def)

text \<open>A number up to a power of ten, which itself is one digit longer.\<close>

lemma length_fixed:
  assumes "0 \<le> x" "x \<le> 10 ^ k"
  shows "length (fixed d x) \<le> k + 1 + (if d = 0 then 0 else d + 1)"
proof -
  have "x * 10 ^ d \<le> of_int (10 ^ (k + d))" using assms by (simp add: power_add mult_right_mono)
  then have "round_even (x * 10 ^ d) \<le> 10 ^ (k + d)" by (rule round_even_le)
  then have n: "nat (round_even (x * 10 ^ d)) \<le> 10 ^ (k + d)" by (simp add: nat_le_iff)
  let ?n = "nat (round_even (x * 10 ^ d))"
  have "?n div 10 ^ d \<le> 10 ^ k" using div_le_mono [OF n, of "10 ^ d"] by (simp add: power_add)
  then have "length (nat_to_dec (?n div 10 ^ d)) \<le> k + 1" by (intro nat_to_dec_length) (simp_all add: le_less_trans)
  then show ?thesis using assms(1) by (cases "d = 0") (simp_all add: fixed_def Let_def length_zero_padded)
qed

lemma length_fmtMs:
  assumes "0 \<le> ms" "ms \<le> 100000000"
  shows "length (fmtMs ms) \<le> 10"
proof -
  have "fmul ms 1000 \<le> 1000" if "ms < 1"
    using that f64.rnd_le_int [of "ms * 1000" 1000] by (simp add: fmul_def)
  then have us: "ms < 1 \<Longrightarrow> length (fixed 0 (fmul ms 1000)) \<le> 4"
    using length_fixed [of "fmul ms 1000" 3 0] assms(1) f64_round_mono [of 0 "ms * 1000"] by (simp add: fmul_def)
  have "0 \<le> fdiv ms 1000" "fdiv ms 1000 \<le> 100000"
    using assms f64.rnd_le_int [of "ms / 1000" 100000] f64_round_mono [of 0 "ms / 1000"] by (simp_all add: fdiv_def)
  then have s: "length (fixed 2 (fdiv ms 1000)) \<le> 9" using length_fixed [of "fdiv ms 1000" 5 2] by simp
  have "ms < 1000 \<Longrightarrow> length (fixed 1 ms) \<le> 6" using length_fixed [of ms 3 1] assms(1) by simp
  with us s show ?thesis by (auto simp: fmtMs_def)
qed

definition cell_width :: "nat \<times> string \<Rightarrow> nat" where
  "cell_width c = max (fst c) (length (snd c))"

lemma length_pad_left: "length (pad_left w s) = max w (length s)"
  by (simp add: pad_left_def)

lemma length_table_line: "cells \<noteq> [] \<Longrightarrow> length (table_line cells) = sum_list (map cell_width cells) + 2 * (length cells - 1)"
proof (induction cells rule: list_nonempty_induct)
  case (single c)
  then show ?case by (cases c) (simp add: table_line_def cell_width_def length_pad_left)
next
  case (cons c cells)
  then show ?case by (cases c; cases cells) (simp_all add: table_line_def cell_width_def length_pad_left)
qed

lemma cell_width_sum:
  "map fst cells = map fst cells' \<Longrightarrow> list_all (\<lambda>(w, s). length s \<le> w) cells \<Longrightarrow>
     sum_list (map cell_width cells) \<le> sum_list (map cell_width cells') \<and>
     (list_all (\<lambda>(w, s). length s \<le> w) cells' \<longrightarrow> sum_list (map cell_width cells) = sum_list (map cell_width cells'))"
proof (induction cells arbitrary: cells')
  case (Cons c cells)
  then obtain c' cells'' where c: "cells' = c' # cells''" "fst c = fst c'" "map fst cells = map fst cells''" by (cases cells') auto
  with Cons.IH [OF c(3)] Cons.prems(2) show ?case by (cases c; cases c') (auto simp: cell_width_def max_def)
qed simp

lemma header_cells_fit: "list_all (\<lambda>(w, s). length s \<le> w) (header_cells sm)"
  by (simp add: header_cells_def stage_columns_def server_columns_def split: option.split)

lemma columns_match:
  "map_option sm_aggregate (sg_server s) = map_option sm_aggregate sm \<Longrightarrow> map fst (header_cells sm) = map fst (row_cells s)"
  by (auto simp: header_cells_def row_cells_def stage_columns_def client_cells_def server_columns_def server_cells_def split: option.splits)

text \<open>The line of a header has no line feed, so it is the text before the first one.\<close>

text \<open>
  The table of stages is aligned: under a header for the same server columns no row is shorter than the header, and a row whose latencies are at most
  a day, with counts that fit their columns, has exactly its length.
\<close>
theorem stage_table_aligned:
  assumes "map_option sm_aggregate (sg_server s) = map_option sm_aggregate sm"
  shows "length (table_line (header_cells sm)) \<le> length (FormatStageRow s) - 1 \<and>
    (0 \<le> sg_concurrency s \<longrightarrow> sg_concurrency s < 10 ^ 6 \<longrightarrow> 0 \<le> sg_success s \<longrightarrow> sg_success s < 10 ^ 6 \<longrightarrow> 0 \<le> sg_errors s \<longrightarrow> sg_errors s < 10 ^ 5 \<longrightarrow>
     0 \<le> sg_output_tokens s \<longrightarrow> sg_output_tokens s < 10 ^ 9 \<longrightarrow> 0 \<le> sg_tokens_per_s s \<longrightarrow> sg_tokens_per_s s \<le> 10 ^ 6 \<longrightarrow>
     (\<forall>x\<in>{ls_mean (sg_ttft s), ls_p10 (sg_ttft s), ls_p50 (sg_ttft s), ls_p95 (sg_ttft s), ls_p99 (sg_ttft s), ls_p10 (sg_itl s), ls_p50 (sg_itl s),
         ls_p95 (sg_itl s), ls_p99 (sg_itl s)}. 0 \<le> x \<and> x \<le> 86400000) \<longrightarrow>
     list_all (\<lambda>(w, t). length t \<le> w) (case sg_server s of None \<Rightarrow> [] | Some m \<Rightarrow> server_cells m) \<longrightarrow>
     length (FormatStageRow s) - 1 = length (table_line (header_cells sm)))"
proof -
  have ne: "header_cells sm \<noteq> []" "row_cells s \<noteq> []" by (simp_all add: header_cells_def stage_columns_def row_cells_def client_cells_def)
  have n: "length (header_cells sm) = length (row_cells s)" using arg_cong [OF columns_match [OF assms], of length] by simp
  note sums = cell_width_sum [OF columns_match [OF assms] header_cells_fit]
  have lengths: "length (table_line (header_cells sm)) \<le> length (table_line (row_cells s)) \<and>
      (list_all (\<lambda>(w, t). length t \<le> w) (row_cells s) \<longrightarrow> length (table_line (row_cells s)) = length (table_line (header_cells sm)))"
    using sums by (simp add: length_table_line ne n)
  show ?thesis
    using lengths length_itoa [of "sg_concurrency s" 6] length_itoa [of "sg_success s" 6] length_itoa [of "sg_errors s" 5]
      length_itoa [of "sg_output_tokens s" 9] length_fixed [of "sg_tokens_per_s s" 6 1]
    by (auto simp: FormatStageRow_def row_cells_def client_cells_def intro!: length_fmtMs)
qed

text \<open>The rule under the header is longer than the header without the columns of the server, and a row with them is longer than such a header.\<close>

lemma rule_is_too_long: "length (table_line (header_cells None)) = 151 \<and> rule_width None = 156"
  by (simp add: length_table_line header_cells_def stage_columns_def cell_width_def rule_width_def)

lemma silent_server_breaks_table:
  assumes "sg_server s = Some m"
  shows "length (table_line (header_cells None)) + 80 < length (FormatStageRow s)"
proof -
  have "\<exists>rest. sum_list (map cell_width (row_cells s)) = sum_list (map fst (row_cells s)) + rest" by (intro le_Suc_ex sum_list_mono) (simp add: cell_width_def)
  moreover have "234 \<le> sum_list (map fst (row_cells s)) + 2 * (length (row_cells s) - 1)"
    by (simp add: row_cells_def client_cells_def server_cells_def assms)
  moreover have "row_cells s \<noteq> []" by (simp add: row_cells_def client_cells_def)
  ultimately show ?thesis using rule_is_too_long by (auto simp: FormatStageRow_def length_table_line)
qed

section \<open>What the recorder wrote is what is read\<close>

text \<open>For records that the decoder reads back, each from its line, the file of one line per record gives the records.\<close>

lemma load_written_records:
  assumes "\<And>rest r. r \<in> set rs \<Longrightarrow> decode (encode r @ line_feed # rest) = Some (Some (r, rest))" "decode [] = Some None"
  shows "loadJSONL decode (Some (concat (map (\<lambda>r. encode r @ [line_feed]) rs))) = Some rs"
proof -
  have "length rs < n \<Longrightarrow> read_values decode n (concat (map (\<lambda>r. encode r @ [line_feed]) rs)) = Some rs" for n
    using assms(1)
  proof (induction rs arbitrary: n)
    case Nil
    then show ?case using assms(2) by (cases n) simp_all
  next
    case (Cons r rs)
    then show ?case by (cases n) simp_all
  qed
  moreover have "length rs \<le> length (concat (map (\<lambda>r. encode r @ [line_feed]) rs))" by (induction rs) simp_all
  ultimately show ?thesis by (simp add: loadJSONL_def del: read_values.simps)
qed

definition quiet_stage :: StageSummary where
  "quiet_stage = \<lparr>sg_concurrency = 8, sg_total = 0, sg_success = 0, sg_errors = 0, sg_duration = 60, sg_output_tokens = 0, sg_tokens_per_s = 0,
     sg_ttft = zero_stats, sg_itl = zero_stats, sg_e2e = zero_stats, sg_server = None\<rparr>"

theorem stage_table_aligned_witness: "length (FormatStageRow quiet_stage) = 152"
proof -
  have "length (FormatStageRow quiet_stage) - 1 = 151"
    using stage_table_aligned [of quiet_stage None] rule_is_too_long by (simp add: quiet_stage_def zero_stats_def)
  then show ?thesis by simp
qed

end
