(* ===== verification/Commands.thy ===== *)
theory Commands
  imports Control_Policy Analysis Dataset Mock_Server
begin

text \<open>
  The remaining commands of \<open>cmd/\<close>: the start of the control API (\<open>nyann-bench-api/main.go\<close>), and of \<open>nyann-bench\<close> the log level (\<open>main.go\<close>),
  \<open>corpus\<close>, \<open>analyze\<close>, \<open>compile-starlark\<close> and \<open>mock-server\<close>. Files, the environment and the decoders of JSON are arguments; serving and printing is
  left to the parts the commands call.
\<close>

section \<open>The log level\<close>

definition parseLogLevel :: "string \<Rightarrow> (string, int) result" where
  "parseLogLevel s =
     (let l = to_lower s
      in if l = ''debug'' then Inr (- 4)
         else if l = ''info'' \<or> l = [] then Inr 0
         else if l = ''warn'' \<or> l = ''warning'' then Inr 4
         else if l = ''error'' then Inr 8
         else Inl s)"

section \<open>The start of the control API\<close>

record api_flags =
  af_namespace :: string
  af_token_file :: string
  af_allowed_hosts :: string
  af_allowed_suffixes :: string
  af_allowed_pvcs :: string
  af_targets_file :: string
  af_result_pvc :: string
  af_result_root :: string
  af_dataset_pvc :: string
  af_dataset_root :: string
  af_allowed_platforms :: string
  af_runner_image :: string
  af_max_workers :: int
  af_max_cpu :: string
  af_max_memory :: string
  af_default_deadline :: duration
  af_max_deadline :: duration
  af_default_ttl :: duration
  af_max_ttl :: duration
  af_max_artifact_files :: int
  af_max_artifact_bytes :: int
  af_max_report_records :: int
  af_max_latency_samples :: int
  af_max_record_bytes :: int
  af_max_indexed_runs :: int
  af_process_timeout :: duration
  af_compiler :: string

definition default_api_flags :: api_flags where
  "default_api_flags =
     \<lparr>af_namespace = [], af_token_file = ''/var/run/secrets/nyann-bench-api/token'', af_allowed_hosts = [], af_allowed_suffixes = [], af_allowed_pvcs = [],
      af_targets_file = [], af_result_pvc = [], af_result_root = [], af_dataset_pvc = [], af_dataset_root = [], af_allowed_platforms = ''kubernetes,openshift'',
      af_runner_image = [], af_max_workers = 16, af_max_cpu = ''16'', af_max_memory = ''64Gi'', af_default_deadline = hour, af_max_deadline = 6 * hour,
      af_default_ttl = 24 * hour, af_max_ttl = 7 * 24 * hour, af_max_artifact_files = 512, af_max_artifact_bytes = 64 * 2 ^ 30,
      af_max_report_records = 50000000, af_max_latency_samples = 100000, af_max_record_bytes = 8 * 2 ^ 20, af_max_indexed_runs = 10000,
      af_process_timeout = 5 * minute, af_compiler = ''/nyann-bench''\<rparr>"

definition csv :: "string \<Rightarrow> string list" where
  "csv s = filter (\<lambda>item. item \<noteq> []) (map trim_space (split_on CHR '','' s))"

text \<open>The environment of the process: a variable, the files, and the decoders. A file that cannot be opened is \<open>None\<close>.\<close>

record api_env =
  ae_pod_namespace :: string
  ae_file :: "string \<Rightarrow> string option"
  ae_quantity :: "string \<Rightarrow> rat option"
  ae_targets :: "string \<Rightarrow> ((string \<times> InferenceTarget) list \<times> string) option"
  ae_cluster_ok :: bool

definition namespace_file :: string where "namespace_file = ''/var/run/secrets/kubernetes.io/serviceaccount/namespace''"

definition currentNamespace :: "api_env \<Rightarrow> string" where
  "currentNamespace env =
     (if trim_space (ae_pod_namespace env) \<noteq> [] then trim_space (ae_pod_namespace env)
      else case ae_file env namespace_file of None \<Rightarrow> [] | Some s \<Rightarrow> trim_space s)"

datatype startup_error =
    NamespaceRequired
  | ReadingToken
  | TokenTooShort
  | InvalidCPU
  | InvalidMemory
  | TargetsUnreadable
  | TargetsTooLarge
  | TargetsMalformed
  | TargetsTrailing
  | ClusterConfig
  | InvalidPolicy policy_error

definition targets_limit :: nat where "targets_limit = 262144"

definition targets_blank :: "char \<Rightarrow> bool" where
  "targets_blank c \<longleftrightarrow> char_code c \<in> {9, 10, 13, 32}"

definition loadTargets :: "api_env \<Rightarrow> string \<Rightarrow> (startup_error, (string \<times> InferenceTarget) list) result" where
  "loadTargets env filename =
     (if trim_space filename = [] then Inr []
      else case ae_file env filename of
        None \<Rightarrow> Inl TargetsUnreadable
      | Some s \<Rightarrow>
          if targets_limit < length s then Inl TargetsTooLarge
          else case ae_targets env (take targets_limit s) of
            None \<Rightarrow> Inl TargetsMalformed
          | Some (targets, rest) \<Rightarrow> if list_all targets_blank rest then Inr targets else Inl TargetsTrailing)"

definition api_options :: "api_flags \<Rightarrow> string \<Rightarrow> rat \<Rightarrow> rat \<Rightarrow> (string \<times> InferenceTarget) list \<Rightarrow> Options" where
  "api_options f token cpu memory targets =
     \<lparr>Token = token, AllowedTargetHosts = csv (af_allowed_hosts f), AllowedTargetSuffixes = csv (af_allowed_suffixes f),
      AllowedPVCs = csv (af_allowed_pvcs f), RunnerImage = af_runner_image f, MaxWorkers = af_max_workers f, MaxCPU = cpu, MaxMemory = memory,
      DefaultActiveDeadline = af_default_deadline f, MaxActiveDeadline = af_max_deadline f, DefaultRetentionTTL = af_default_ttl f,
      MaxRetentionTTL = af_max_ttl f, InferenceTargets = targets, ResultPVC = af_result_pvc f, ResultRoot = af_result_root f,
      DatasetPVC = af_dataset_pvc f, DatasetRoot = af_dataset_root f, AllowedPlatforms = csv (af_allowed_platforms f),
      MaxArtifactFiles = af_max_artifact_files f, MaxArtifactBytes = af_max_artifact_bytes f, MaxReportRecords = af_max_report_records f,
      MaxLatencySamples = af_max_latency_samples f, MaxRecordBytes = af_max_record_bytes f, MaxIndexedRuns = af_max_indexed_runs f,
      ArtifactProcessTimeout = af_process_timeout f, StarlarkCompilerPath = af_compiler f\<rparr>"

definition positive_quantity :: "api_env \<Rightarrow> string \<Rightarrow> rat option" where
  "positive_quantity env s = (case ae_quantity env s of None \<Rightarrow> None | Some q \<Rightarrow> if q \<le> 0 then None else Some q)"

text \<open>What the server is created with: the namespace and the options.\<close>

definition api_start :: "external \<Rightarrow> api_env \<Rightarrow> api_flags \<Rightarrow> (startup_error, string \<times> Options) result" where
  "api_start x env f =
     (let namespace = (if af_namespace f = [] then currentNamespace env else af_namespace f)
      in if namespace = [] then Inl NamespaceRequired
         else case ae_file env (af_token_file f) of
           None \<Rightarrow> Inl ReadingToken
         | Some raw \<Rightarrow>
             let token = trim_space raw
             in if length token < 32 then Inl TokenTooShort
                else case positive_quantity env (af_max_cpu f) of
                  None \<Rightarrow> Inl InvalidCPU
                | Some cpu \<Rightarrow>
                    (case positive_quantity env (af_max_memory f) of
                       None \<Rightarrow> Inl InvalidMemory
                     | Some memory \<Rightarrow>
                         res_bind (loadTargets env (af_targets_file f)) (\<lambda>targets.
                           if \<not> ae_cluster_ok env then Inl ClusterConfig
                           else let opts = api_options f token cpu memory targets
                                in case Options_Validate x opts of
                                     Inl e \<Rightarrow> Inl (InvalidPolicy e)
                                   | Inr _ \<Rightarrow> Inr (namespace, opts))))"

section \<open>Extracting a corpus\<close>

datatype corpus_failure =
    InputRequired
  | OutputRequired
  | UnknownFormat string
  | ReadingInput
  | ParsingShareGPT
  | NoConversationText
  | NoTextFiles
  | WritingOutput

text \<open>\<open>kind\<close> is what \<open>Stat\<close> says, which follows links: nothing, a directory or a file.\<close>

definition detectFormat :: "(string \<Rightarrow> bool option) \<Rightarrow> string \<Rightarrow> string" where
  "detectFormat kind path =
     (case kind path of
        None \<Rightarrow> ''text''
      | Some True \<Rightarrow> ''dir''
      | Some False \<Rightarrow> let ext = to_lower (path_ext path) in if ext = ''.json'' \<or> ext = ''.jsonl'' then ''sharegpt'' else ''text'')"

definition extractShareGPT :: "(string \<Rightarrow> (string \<times> string) list list option) \<Rightarrow> string option \<Rightarrow> (corpus_failure, string) result" where
  "extractShareGPT decode file =
     (case file of
        None \<Rightarrow> Inl ReadingInput
      | Some s \<Rightarrow>
          (case decode s of
             None \<Rightarrow> Inl ParsingShareGPT
           | Some entries \<Rightarrow>
               let text = concat (map (\<lambda>(from, val). val @ [CHR 0x0A]) (concat entries))
               in if text = [] then Inl NoConversationText else Inr text))"

definition extractText :: "string option \<Rightarrow> (corpus_failure, string) result" where
  "extractText file = (case file of None \<Rightarrow> Inl ReadingInput | Some s \<Rightarrow> Inr s)"

text \<open>The walk is that of the corpus dataset; its root is looked at without following a link.\<close>

definition extractDir :: "fs_tree \<Rightarrow> (corpus_failure, string) result" where
  "extractDir tree = (let text = walk_text tree in if text = [] then Inl NoTextFiles else Inr text)"

definition corpusCmd ::
    "(string \<Rightarrow> bool option) \<Rightarrow> (string \<Rightarrow> (string \<times> string) list list option) \<Rightarrow> (string \<Rightarrow> string option) \<Rightarrow> (string \<Rightarrow> fs_tree) \<Rightarrow> bool \<Rightarrow>
     string \<Rightarrow> string \<Rightarrow> string \<Rightarrow> (corpus_failure, string) result" where
  "corpusCmd kind decode read tree writable input output form =
     (if input = [] then Inl InputRequired
      else if output = [] then Inl OutputRequired
      else let f = (if form = ''auto'' then detectFormat kind input else form)
           in res_bind (if f = ''sharegpt'' then extractShareGPT decode (read input)
                        else if f = ''text'' then extractText (read input)
                        else if f = ''dir'' then extractDir (tree input)
                        else Inl (UnknownFormat f))
                (\<lambda>text. if writable then Inr text else Inl WritingOutput))"

section \<open>Analyzing recorded results\<close>

definition analyzeCmd ::
    "(string \<Rightarrow> Record list option) \<Rightarrow> (string \<Rightarrow> Timestamps option) \<Rightarrow> string list \<Rightarrow> string list \<Rightarrow> rat \<Rightarrow> (load_error, Summary option) result" where
  "analyzeCmd read_records read_ts request_files timestamp_files warmupBuffer =
     res_bind (LoadRecords read_records request_files) (\<lambda>recs.
       Inr (case LoadTimestamps read_ts timestamp_files of
              Inr (tsStart, tsEnd) \<Rightarrow> Compute recs (fadd tsStart warmupBuffer) tsEnd
            | Inl _ \<Rightarrow> Compute recs 0 0))"

section \<open>The isolated Starlark compiler\<close>

datatype compile_error =
    MemoryLimit
  | ReadingSource
  | SourceTooLarge
  | ParsingFailed config_error
  | EncodingFailed
  | CompiledTooLarge
  | WritingScenario

definition starlarkCompilerMemoryLimit :: int where "starlarkCompilerMemoryLimit = 128 * 2 ^ 20"

text \<open>\<open>stdin\<close> is what can be read of the standard input; the reader stops one byte behind the limit.\<close>

definition compileStarlarkCmd ::
    "bool \<Rightarrow> string option \<Rightarrow> (string \<Rightarrow> (config_error, 'sc) result) \<Rightarrow> ('sc \<Rightarrow> string option) \<Rightarrow> bool \<Rightarrow> (compile_error, string) result" where
  "compileStarlarkCmd limited stdin parse encode writes =
     (if \<not> limited then Inl MemoryLimit
      else case stdin of
        None \<Rightarrow> Inl ReadingSource
      | Some input \<Rightarrow>
          let source = take (nat MaxScenarioInputBytes + 1) input
          in if MaxScenarioInputBytes < int (length source) then Inl SourceTooLarge
             else case parse source of
               Inl e \<Rightarrow> Inl (ParsingFailed e)
             | Inr sc \<Rightarrow>
                 (case encode sc of
                    None \<Rightarrow> Inl EncodingFailed
                  | Some out \<Rightarrow>
                      if MaxScenarioInputBytes < int (length out) then Inl CompiledTooLarge
                      else if \<not> writes then Inl WritingScenario else Inr out))"

section \<open>The mock server's defaults\<close>

definition mockServerCmd :: mock_server where
  "mockServerCmd = \<lparr>ms_ttft = 50 * millisecond, ms_itl = 10 * millisecond, ms_output_tokens = 128, ms_model = ''mock-model'', ms_response = []\<rparr>"

section \<open>What the commands guarantee\<close>

lemma set_trim_space: "c \<in> set (trim_space s) \<Longrightarrow> c \<in> set s"
  by (auto simp: trim_space_def trim_right_def trim_left_def dest!: set_dropWhileD)

lemma csv_items: "item \<in> set (csv s) \<Longrightarrow> item \<noteq> [] \<and> CHR '','' \<notin> set item"
  using split_on_no_sep [of _ "CHR '',''" s] by (auto simp: csv_def dest!: set_trim_space)

text \<open>The API serves only with a validated policy, under a token of at least 32 characters from the operator's file, in a namespace; and its lists of allowed
  targets and claims have no empty entry, which would match everything.\<close>

theorem api_starts_with_valid_policy:
  assumes "api_start x env f = Inr (namespace, opts)"
  shows "namespace \<noteq> [] \<and> Options_Validate x opts = Inr () \<and> 32 \<le> length (Token opts) \<and>
    (\<exists>raw. ae_file env (af_token_file f) = Some raw \<and> Token opts = trim_space raw) \<and>
    (\<forall>item\<in>set (AllowedTargetHosts opts) \<union> set (AllowedTargetSuffixes opts) \<union> set (AllowedPVCs opts). item \<noteq> [] \<and> CHR '','' \<notin> set item) \<and>
    0 < MaxCPU opts \<and> 0 < MaxMemory opts"
proof -
  obtain raw cpu memory targets where raw: "ae_file env (af_token_file f) = Some raw" "32 \<le> length (trim_space raw)"
    and q: "positive_quantity env (af_max_cpu f) = Some cpu" "positive_quantity env (af_max_memory f) = Some memory"
    and opts: "opts = api_options f (trim_space raw) cpu memory targets" "Options_Validate x opts = Inr ()" and ns: "namespace \<noteq> []"
    using assms by (auto simp: api_start_def Let_def res_bind_Inr_iff split: if_splits option.splits sum.splits)
  have "0 < cpu" "0 < memory" using q by (auto simp: positive_quantity_def split: option.splits if_splits)
  moreover have "\<forall>item\<in>set (csv a) \<union> set (csv b) \<union> set (csv c). item \<noteq> [] \<and> CHR '','' \<notin> set item" for a b c using csv_items by blast
  ultimately show ?thesis using raw ns opts(2) by (auto simp: opts(1) api_options_def)
qed

text \<open>A directory that is extracted to a file is the same corpus as the directory itself.\<close>

theorem extracted_corpus_is_directory:
  assumes "corpusCmd kind decode read fs True input output ''dir'' = Inr text" and "fs input = FsDir name entries"
    and "fs output = FsFile out n (Some text)"
  shows "NewCorpus fs intn output isl0 osl turns cpt counter = NewCorpus fs intn input isl0 osl turns cpt counter"
proof -
  have "text = walk_text (FsDir name entries)" "text \<noteq> []"
    using assms(1,2) by (auto simp: corpusCmd_def extractDir_def Let_def split: if_splits)
  then show ?thesis by (simp add: NewCorpus_def loadCorpusText_def assms(2,3))
qed

text \<open>Detecting the format follows a symbolic link, walking does not: a link to a directory is taken for a directory without text.\<close>

lemma linked_directory_has_no_text:
  assumes "kind path = Some True" and "tree path = FsFile name n None" and "path \<noteq> []" "output \<noteq> []"
  shows "corpusCmd kind decode read tree writable path output ''auto'' = Inl NoTextFiles"
  using assms by (simp add: corpusCmd_def detectFormat_def extractDir_def file_text_def Let_def)

text \<open>The compiler never compiles part of a source, and never emits more than the service accepts.\<close>

theorem compiler_takes_whole_source:
  assumes "compileStarlarkCmd limited stdin parse encode writes = Inr out"
  shows "limited \<and> (\<exists>input sc. stdin = Some input \<and> int (length input) \<le> MaxScenarioInputBytes \<and> parse input = Inr sc \<and> encode sc = Some out) \<and>
    int (length out) \<le> MaxScenarioInputBytes"
proof -
  obtain input where i: "stdin = Some input" using assms by (auto simp: compileStarlarkCmd_def split: if_splits option.splits)
  then have "\<not> MaxScenarioInputBytes < int (length (take (nat MaxScenarioInputBytes + 1) input))" using assms by (auto simp: compileStarlarkCmd_def Let_def split: if_splits)
  then have l: "length input \<le> nat MaxScenarioInputBytes" by (simp add: MaxScenarioInputBytes_def)
  then have "take (nat MaxScenarioInputBytes + 1) input = input" by simp
  then show ?thesis using assms i l by (auto simp: compileStarlarkCmd_def Let_def MaxScenarioInputBytes_def split: if_splits option.splits sum.splits)
qed

text \<open>Without timestamps all records are analyzed.\<close>

lemma analyze_without_timestamps:
  "LoadRecords read_records files = Inr recs \<Longrightarrow> analyzeCmd read_records read_ts files [] w = Inr (Compute recs 0 0)"
  by (simp add: analyzeCmd_def LoadTimestamps_def)

text \<open>The default flags are a valid policy for every runner image that is pinned.\<close>

lemma default_flags_are_valid:
  assumes "32 \<le> length (trim_space token)" and "validRunnerImage img" and "0 < cpu" "0 < memory"
  shows "Options_Validate x (api_options (default_api_flags\<lparr>af_runner_image := img\<rparr>) token cpu memory []) = Inr ()"
proof -
  have c: "csv [] = []" "csv ''kubernetes,openshift'' = [''kubernetes'', ''openshift'']" "is_abs ''/nyann-bench''" by code_simp+
  show ?thesis
    using assms by (simp add: Options_Validate_def api_options_def default_api_flags_def c storage_ok_def allowedPlatforms_def tdiv_def second_def)
qed

end
