(* ===== verification/Spec2Isabelle.thy ===== *)
theory Spec2Isabelle
  imports Config Barrier Recorder Client Eval Loadgen Conversation_Pool Control_Policy Analysis Eval_Dataset Scenario_Runner MCP_Handler Mock_Server Metrics Starlark_Scenario Eval_Command Eval_Patterns Run_Storage Summary_Text Commands
begin

text \<open>
  A verification library of \<open>nyann-bench\<close>, a load generator for LLM inference servers with a
  control API that runs benchmarks as Kubernetes jobs.
\<close>

end
